(* ===== verification/TwPrelude.thy ===== *)
theory TwPrelude
  imports Main "HOL-Library.Word"
begin

unbundle bit_operations_syntax

text \<open>
  Shared vocabulary of the development: the widths of the C integer types, pointers and typed
  heaps, and the result type every modelled C function returns.

  A C function is a function from the machine state to \<open>('a \<times> 's) res\<close>: \<open>None\<close> is a call that
  never returns, \<open>Some (Fault e)\<close> a memory error (the C code has undefined behaviour there),
  \<open>Some (Exit c)\<close> a call that ends the process (\<open>exit\<close>, \<open>rte_exit\<close>, \<open>rte_panic\<close>), and
  \<open>Some (Ret (v, s))\<close> a normal return of \<open>v\<close> in state \<open>s\<close>.
\<close>

named_theorems run_simps \<open>rewrite rules that execute the combinators of this theory\<close>

section \<open>C types, pointers and heaps\<close>

type_synonym u8 = "8 word"
type_synonym u16 = "16 word"
type_synonym u32 = "32 word"
type_synonym u64 = "64 word"

text \<open>\<open>None\<close> is the null pointer. A heap holds the objects that are allocated now: an address
  outside its domain has been freed or was never handed out.\<close>

type_synonym ptr = "nat option"
type_synonym 'n heap = "nat \<rightharpoonup> 'n"

datatype fault = NullDeref | WildDeref | OutOfBounds | DivByZero | BadShift

datatype 'a outcome = Ret 'a | Fault fault | Exit int

type_synonym 'a res = "'a outcome option"
type_synonym ('s, 'a) act = "'s \<Rightarrow> ('a \<times> 's) res"

section \<open>Combinators\<close>

definition ret :: "'a \<Rightarrow> ('s, 'a) act" where
  "ret x = (\<lambda>s. Some (Ret (x, s)))"

definition bnd :: "('s, 'a) act \<Rightarrow> ('a \<Rightarrow> ('s, 'b) act) \<Rightarrow> ('s, 'b) act" where
  "bnd m f = (\<lambda>s. case m s of
       None \<Rightarrow> None
     | Some (Ret (x, s')) \<Rightarrow> f x s'
     | Some (Fault e) \<Rightarrow> Some (Fault e)
     | Some (Exit c) \<Rightarrow> Some (Exit c))"

definition fault :: "fault \<Rightarrow> ('s, 'a) act" where
  "fault e = (\<lambda>s. Some (Fault e))"

definition exit_with :: "int \<Rightarrow> ('s, 'a) act" where
  "exit_with c = (\<lambda>s. Some (Exit c))"

definition gets :: "('s \<Rightarrow> 'a) \<Rightarrow> ('s, 'a) act" where
  "gets f = (\<lambda>s. Some (Ret (f s, s)))"

definition modify :: "('s \<Rightarrow> 's) \<Rightarrow> ('s, unit) act" where
  "modify f = (\<lambda>s. Some (Ret ((), f s)))"

text \<open>Functions that touch no state return an \<open>outcome\<close>; \<open>obnd\<close> sequences them.\<close>

definition obnd :: "'a outcome \<Rightarrow> ('a \<Rightarrow> 'b outcome) \<Rightarrow> 'b outcome" where
  "obnd r f = (case r of Ret x \<Rightarrow> f x | Fault e \<Rightarrow> Fault e | Exit c \<Rightarrow> Exit c)"

definition lift_out :: "'a outcome \<Rightarrow> ('s, 'a) act" where
  "lift_out r = (\<lambda>s. Some (obnd r (\<lambda>x. Ret (x, s))))"

text \<open>Functions that only read a heap may also fail to return.\<close>

definition lift_res :: "'a res \<Rightarrow> ('s, 'a) act" where
  "lift_res r = (\<lambda>s. case r of None \<Rightarrow> None | Some x \<Rightarrow> Some (obnd x (\<lambda>v. Ret (v, s))))"

text \<open>A counted \<open>for\<close> loop over a list of indices.\<close>

primrec for_each :: "'i list \<Rightarrow> ('i \<Rightarrow> ('s, unit) act) \<Rightarrow> ('s, unit) act" where
  "for_each [] f = ret ()"
| "for_each (i # is) f = bnd (f i) (\<lambda>_. for_each is f)"

text \<open>Dereferencing a pointer, and reading an array cell.\<close>

definition deref :: "('s \<Rightarrow> 'n heap) \<Rightarrow> ptr \<Rightarrow> ('s, 'n) act" where
  "deref h p = (case p of
       None \<Rightarrow> fault NullDeref
     | Some a \<Rightarrow> (\<lambda>s. case h s a of None \<Rightarrow> Some (Fault WildDeref) | Some n \<Rightarrow> Some (Ret (n, s))))"

text \<open>Writing a field of a heap object, and giving an object back to the allocator. \<open>get\<close> and
  \<open>upd\<close> are the selector and the update of the state component that holds the heap.\<close>

definition set_cell :: "('s \<Rightarrow> 'n heap) \<Rightarrow> (('n heap \<Rightarrow> 'n heap) \<Rightarrow> 's \<Rightarrow> 's) \<Rightarrow> ptr \<Rightarrow> ('n \<Rightarrow> 'n) \<Rightarrow> ('s, unit) act" where
  "set_cell get upd p f = bnd (deref get p) (\<lambda>n. modify (upd (\<lambda>h. h(the p \<mapsto> f n))))"

definition free_cell :: "('s \<Rightarrow> 'n heap) \<Rightarrow> (('n heap \<Rightarrow> 'n heap) \<Rightarrow> 's \<Rightarrow> 's) \<Rightarrow> ptr \<Rightarrow> ('s, unit) act" where
  "free_cell get upd p = (case p of None \<Rightarrow> ret ()
     | Some a \<Rightarrow> bnd (deref get p) (\<lambda>_. modify (upd (\<lambda>h. h(a := None)))))"

definition index_ck :: "'a list \<Rightarrow> nat \<Rightarrow> ('s, 'a) act" where
  "index_ck xs i = (if i < length xs then ret (xs ! i) else fault OutOfBounds)"

lemma ret_apply [run_simps]: "ret x s = Some (Ret (x, s))"
  by (simp add: ret_def)

lemma bnd_apply [run_simps]:
  "bnd m f s = (case m s of
       None \<Rightarrow> None
     | Some (Ret (x, s')) \<Rightarrow> f x s'
     | Some (Fault e) \<Rightarrow> Some (Fault e)
     | Some (Exit c) \<Rightarrow> Some (Exit c))"
  by (simp add: bnd_def)

lemma fault_apply [run_simps]: "fault e s = Some (Fault e)"
  by (simp add: fault_def)

lemma exit_apply [run_simps]: "exit_with c s = Some (Exit c)"
  by (simp add: exit_with_def)

lemma gets_apply [run_simps]: "gets f s = Some (Ret (f s, s))"
  by (simp add: gets_def)

lemma modify_apply [run_simps]: "modify f s = Some (Ret ((), f s))"
  by (simp add: modify_def)

lemma deref_Null [run_simps]: "deref h None s = Some (Fault NullDeref)"
  by (simp add: deref_def fault_def)

lemma deref_Some [run_simps]:
  "deref h (Some a) s = (case h s a of None \<Rightarrow> Some (Fault WildDeref) | Some n \<Rightarrow> Some (Ret (n, s)))"
  by (simp add: deref_def)

lemma set_cell_Null [run_simps]: "set_cell get upd None f s = Some (Fault NullDeref)"
  by (simp add: set_cell_def run_simps)

lemma set_cell_Some [run_simps]:
  "set_cell get upd (Some a) f s = (case get s a of None \<Rightarrow> Some (Fault WildDeref)
     | Some n \<Rightarrow> Some (Ret ((), upd (\<lambda>h. h(a \<mapsto> f n)) s)))"
  by (simp add: set_cell_def run_simps split: option.splits)

lemma free_cell_Null [run_simps]: "free_cell get upd None s = Some (Ret ((), s))"
  by (simp add: free_cell_def run_simps)

lemma free_cell_Some [run_simps]:
  "free_cell get upd (Some a) s = (case get s a of None \<Rightarrow> Some (Fault WildDeref)
     | Some n \<Rightarrow> Some (Ret ((), upd (\<lambda>h. h(a := None)) s)))"
  by (simp add: free_cell_def run_simps split: option.splits)

lemma index_ck_apply [run_simps]:
  "index_ck xs i s = (if i < length xs then Some (Ret (xs ! i, s)) else Some (Fault OutOfBounds))"
  by (simp add: index_ck_def ret_def fault_def)

lemma obnd_simps [simp]:
  "obnd (Ret x) f = f x" "obnd (Fault e) f = Fault e" "obnd (Exit c) f = Exit c"
  by (simp_all add: obnd_def)

lemma lift_out_apply [run_simps]: "lift_out r s = Some (obnd r (\<lambda>x. Ret (x, s)))"
  by (simp add: lift_out_def)

lemma lift_res_apply [run_simps]: "lift_res (Some (Ret x)) s = Some (Ret (x, s))"
  by (simp add: lift_res_def)

lemma bnd_Ret_iff:
  "bnd m f s = Some (Ret r) \<longleftrightarrow> (\<exists>x s'. m s = Some (Ret (x, s')) \<and> f x s' = Some (Ret r))"
  by (auto simp: bnd_def split: option.splits outcome.splits)

lemma bnd_ret [simp]: "bnd (ret x) f = f x"
  by (simp add: fun_eq_iff run_simps)

lemma bnd_assoc: "bnd (bnd m f) g = bnd m (\<lambda>x. bnd (f x) g)"
  by (auto simp: fun_eq_iff bnd_def split: option.splits outcome.splits)

lemma for_each_append:
  "for_each (is @ js) f = bnd (for_each is f) (\<lambda>_. for_each js f)"
  by (induction "is") (simp_all add: bnd_assoc)

text \<open>A loop whose body always returns and keeps an invariant returns and keeps it.\<close>

lemma for_each_invariant:
  assumes "\<And>i s. i \<in> set is \<Longrightarrow> P s \<Longrightarrow> \<exists>s'. f i s = Some (Ret ((), s')) \<and> P s'"
    and "P s"
  shows "\<exists>s'. for_each is f s = Some (Ret ((), s')) \<and> P s'"
  using assms
proof (induction "is" arbitrary: s)
  case Nil
  then show ?case by (simp add: run_simps)
next
  case (Cons i "is")
  from Cons.prems(1)[of i s] Cons.prems(2) obtain s1 where
    s1: "f i s = Some (Ret ((), s1))" "P s1" by auto
  have "\<exists>s'. for_each is f s1 = Some (Ret ((), s')) \<and> P s'"
    using Cons.prems(1) s1(2) by (intro Cons.IH) auto
  with s1(1) show ?case by (simp add: run_simps)
qed

section \<open>Calls that return\<close>

text \<open>Calls that always come back, be it with a fault.\<close>

definition ends :: "('s, 'a) act \<Rightarrow> bool" where
  "ends m \<longleftrightarrow> (\<forall>s. m s \<noteq> None)"

lemma bnd_ends: "m s \<noteq> None \<Longrightarrow> (\<And>x s'. m s = Some (Ret (x, s')) \<Longrightarrow> f x s' \<noteq> None) \<Longrightarrow> bnd m f s \<noteq> None"
  by (auto simp: bnd_def split: option.splits outcome.splits)

lemma bnd_after: "m s = Some (Ret (x, s')) \<Longrightarrow> bnd m f s = f x s'"
  by (simp add: bnd_def)

named_theorems ends_intros \<open>which calls always come back\<close>

lemma ends_basic [ends_intros]:
  "ends (ret x)" "ends (fault e)" "ends (gets f)" "ends (modify g)" "ends (index_ck xs i)" "ends (deref h p)"
  by (auto simp: ends_def run_simps deref_def split: option.splits)

lemma ends_bnd [ends_intros]: "ends m \<Longrightarrow> (\<And>x. ends (f x)) \<Longrightarrow> ends (bnd m f)"
  unfolding ends_def using bnd_ends by metis

lemma ends_if [ends_intros]: "(c \<Longrightarrow> ends m) \<Longrightarrow> (\<not> c \<Longrightarrow> ends n) \<Longrightarrow> ends (if c then m else n)"
  by simp

lemma ends_for_each [ends_intros]: "(\<And>i. ends (f i)) \<Longrightarrow> ends (for_each is f)"
  by (induction "is") (auto intro: ends_intros)

section \<open>What a call leaves alone\<close>

text \<open>\<open>keeps v m\<close>: when the call returns, the part \<open>v\<close> of the state is what it was.\<close>

definition keeps :: "('s \<Rightarrow> 'v) \<Rightarrow> ('s, 'a) act \<Rightarrow> bool" where
  "keeps v m \<longleftrightarrow> (\<forall>s x s'. m s = Some (Ret (x, s')) \<longrightarrow> v s' = v s)"

lemma keepsD: "keeps v m \<Longrightarrow> m s = Some (Ret (x, s')) \<Longrightarrow> v s' = v s"
  by (simp add: keeps_def)

named_theorems keeps_intros \<open>what calls leave alone\<close>

lemma keeps_basic [keeps_intros]:
  "keeps v (ret x)" "keeps v (fault e)" "keeps v (exit_with c)" "keeps v (gets f)" "keeps v (index_ck xs i)" "keeps v (deref h p)"
  "keeps v (lift_out r)" "keeps v (lift_res q)" "keeps v (\<lambda>s. Some (Fault e))" "keeps v (\<lambda>s. Some (Exit c))"
  by (auto simp: keeps_def run_simps deref_def lift_res_def obnd_def split: option.splits if_splits outcome.splits)

lemma keeps_bnd [keeps_intros]: "keeps v m \<Longrightarrow> (\<And>x. keeps v (f x)) \<Longrightarrow> keeps v (bnd m f)"
  unfolding keeps_def bnd_Ret_iff by metis

lemma keeps_if [keeps_intros]: "(c \<Longrightarrow> keeps v m) \<Longrightarrow> (\<not> c \<Longrightarrow> keeps v n) \<Longrightarrow> keeps v (if c then m else n)"
  by simp

lemma keeps_modify [keeps_intros]: "(\<And>s. v (g s) = v s) \<Longrightarrow> keeps v (modify g)"
  by (simp add: keeps_def run_simps)

lemma keeps_set_cell [keeps_intros]: "(\<And>f s. v (upd f s) = v s) \<Longrightarrow> keeps v (set_cell get upd p f)"
  unfolding set_cell_def by (intro keeps_intros)

lemma keeps_free_cell [keeps_intros]: "(\<And>f s. v (upd f s) = v s) \<Longrightarrow> keeps v (free_cell get upd p)"
  unfolding free_cell_def by (cases p) (simp_all, intro keeps_intros, intro keeps_intros)

lemma keeps_for_each [keeps_intros]: "(\<And>i. keeps v (f i)) \<Longrightarrow> keeps v (for_each is f)"
  by (induction "is") (auto intro: keeps_intros)

lemma keeps_option [keeps_intros]: "(p = None \<Longrightarrow> keeps v m) \<Longrightarrow> (\<And>a. p = Some a \<Longrightarrow> keeps v (f a)) \<Longrightarrow> keeps v (case p of None \<Rightarrow> m | Some a \<Rightarrow> f a)"
  by (cases p) simp_all

lemma keeps_prod [keeps_intros]: "(\<And>a b. keeps v (f a b)) \<Longrightarrow> keeps v (case p of (a, b) \<Rightarrow> f a b)"
  by (cases p) simp

text \<open>A call whose arguments are read from the state first.\<close>

lemma keeps_state: "(\<And>t. keeps v (f t)) \<Longrightarrow> keeps v (\<lambda>s. f s s)"
  by (simp add: keeps_def)

section \<open>Words\<close>

lemma unat_ucast_16_64: "unat (ucast (x :: u16) :: u64) = unat x"
  by (simp add: unsigned_ucast_eq take_bit_nat_eq_self unsigned_less [THEN less_trans])

end
