(* ===== verification/ByteOrder.thy ===== *)
theory ByteOrder
  imports TwPrelude
begin

text \<open>
  Byte order (\<open>dpdk/lib/librte_eal/common/include/generic/rte_byteorder.h\<close> and the wrappers of
  \<open>twister/common/common.c\<close>), and the little-endian loads and stores a packet header field is
  accessed with. A packet buffer is a function from byte offsets to bytes; its bounds are kept
  by the packet buffer record of theory \<open>Mbuf\<close>.
\<close>

section \<open>Byte swaps\<close>

definition rte_constant_bswap16 :: "u16 \<Rightarrow> u16" where
  "rte_constant_bswap16 x =
     (push_bit 8 (x AND 0x00ff)) OR (drop_bit 8 (x AND 0xff00))"

definition rte_constant_bswap32 :: "u32 \<Rightarrow> u32" where
  "rte_constant_bswap32 x =
     (push_bit 24 (x AND 0x000000ff)) OR (push_bit 8 (x AND 0x0000ff00)) OR
     (drop_bit 8 (x AND 0x00ff0000)) OR (drop_bit 24 (x AND 0xff000000))"

text \<open>On the little-endian targets the project builds for, both directions are a byte swap.\<close>

definition tw_be_to_cpu_16 :: "u16 \<Rightarrow> u16" where
  "tw_be_to_cpu_16 v = rte_constant_bswap16 v"

definition tw_cpu_to_be_16 :: "u16 \<Rightarrow> u16" where
  "tw_cpu_to_be_16 v = rte_constant_bswap16 v"

definition tw_cpu_to_be_32 :: "u32 \<Rightarrow> u32" where
  "tw_cpu_to_be_32 v = rte_constant_bswap32 v"

definition tw_be_to_cpu_32 :: "u32 \<Rightarrow> u32" where
  "tw_be_to_cpu_32 v = rte_constant_bswap32 v"

text \<open>The swaps as bytes: the masks of the C text select exactly one byte each.\<close>

lemma mask_consts:
  "(0x00ff :: u16) = mask 8" "(0xff00 :: u16) = push_bit 8 (mask 8)"
  "(0x000000ff :: u32) = mask 8" "(0x0000ff00 :: u32) = push_bit 8 (mask 8)"
  "(0x00ff0000 :: u32) = push_bit 16 (mask 8)" "(0xff000000 :: u32) = push_bit 24 (mask 8)"
  by (simp_all add: mask_numeral)

lemma bit_bswap16:
  "bit (rte_constant_bswap16 x) n \<longleftrightarrow>
     (if n < 8 then bit x (n + 8) else n < 16 \<and> bit x (n - 8))"
  unfolding rte_constant_bswap16_def mask_consts
  by (auto simp: bit_simps add.commute dest: bit_imp_le_length)

lemma bit_bswap32:
  "bit (rte_constant_bswap32 x) n \<longleftrightarrow>
     (if n < 8 then bit x (n + 24) else if n < 16 then bit x (n + 8)
      else if n < 24 then bit x (n - 8) else n < 32 \<and> bit x (n - 24))"
  unfolding rte_constant_bswap32_def mask_consts
  by (auto simp: bit_simps add.commute dest: bit_imp_le_length)

lemma bswap16_invol [simp]: "rte_constant_bswap16 (rte_constant_bswap16 x) = x"
  by (rule bit_word_eqI) (auto simp: bit_bswap16)

lemma bswap32_invol [simp]: "rte_constant_bswap32 (rte_constant_bswap32 x) = x"
  by (rule bit_word_eqI) (auto simp: bit_bswap32)

lemma be_cpu_be_16 [simp]: "tw_be_to_cpu_16 (tw_cpu_to_be_16 v) = v" "tw_cpu_to_be_16 (tw_be_to_cpu_16 v) = v"
  by (simp_all add: tw_be_to_cpu_16_def tw_cpu_to_be_16_def)

lemma be_cpu_be_32 [simp]: "tw_be_to_cpu_32 (tw_cpu_to_be_32 v) = v" "tw_cpu_to_be_32 (tw_be_to_cpu_32 v) = v"
  by (simp_all add: tw_be_to_cpu_32_def tw_cpu_to_be_32_def)

lemma cpu_be_inj [simp]:
  "tw_cpu_to_be_16 a = tw_cpu_to_be_16 b \<longleftrightarrow> a = b"
  "tw_cpu_to_be_32 c = tw_cpu_to_be_32 d \<longleftrightarrow> c = d"
  "tw_be_to_cpu_32 c = tw_be_to_cpu_32 d \<longleftrightarrow> c = d"
  by (metis be_cpu_be_16 be_cpu_be_32)+

section \<open>Loads and stores in a byte buffer\<close>

type_synonym bytes = "nat \<Rightarrow> u8"

definition rd16 :: "bytes \<Rightarrow> nat \<Rightarrow> u16" where
  "rd16 b i = ucast (b i) OR push_bit 8 (ucast (b (i + 1)))"

definition rd32 :: "bytes \<Rightarrow> nat \<Rightarrow> u32" where
  "rd32 b i = ucast (b i) OR push_bit 8 (ucast (b (i + 1))) OR
     push_bit 16 (ucast (b (i + 2))) OR push_bit 24 (ucast (b (i + 3)))"

definition wr16 :: "nat \<Rightarrow> u16 \<Rightarrow> bytes \<Rightarrow> bytes" where
  "wr16 i v b = b(i := ucast v, i + 1 := ucast (drop_bit 8 v))"

definition wr32 :: "nat \<Rightarrow> u32 \<Rightarrow> bytes \<Rightarrow> bytes" where
  "wr32 i v b = b(i := ucast v, i + 1 := ucast (drop_bit 8 v),
     i + 2 := ucast (drop_bit 16 v), i + 3 := ucast (drop_bit 24 v))"

definition wr8 :: "nat \<Rightarrow> u8 \<Rightarrow> bytes \<Rightarrow> bytes" where
  "wr8 i v b = b(i := v)"

named_theorems field_simps_buf \<open>what a load sees after a store\<close>

lemma bytes16_join: "(ucast (ucast v :: u8) :: u16) OR push_bit 8 (ucast (ucast (drop_bit 8 v) :: u8)) = v"
  for v :: u16
  by (rule bit_word_eqI) (auto simp: bit_simps)

lemma bytes32_join:
  "(ucast (ucast v :: u8) :: u32) OR push_bit 8 (ucast (ucast (drop_bit 8 v) :: u8)) OR
   push_bit 16 (ucast (ucast (drop_bit 16 v) :: u8)) OR
   push_bit 24 (ucast (ucast (drop_bit 24 v) :: u8)) = v"
  for v :: u32
proof (rule bit_word_eqI)
  fix n :: nat
  consider "n < 8" | "8 \<le> n" "n < 16" | "16 \<le> n" "n < 24" | "24 \<le> n" by linarith
  then show "bit ((ucast (ucast v :: u8) :: u32) OR push_bit 8 (ucast (ucast (drop_bit 8 v) :: u8)) OR
      push_bit 16 (ucast (ucast (drop_bit 16 v) :: u8)) OR
      push_bit 24 (ucast (ucast (drop_bit 24 v) :: u8))) n = bit v n"
    if "n < LENGTH(32)"
    using that by cases (auto simp: bit_simps)
qed

lemma rd16_wr16 [field_simps_buf]: "rd16 (wr16 i v b) i = v"
  by (simp add: rd16_def wr16_def bytes16_join)

lemma rd32_wr32 [field_simps_buf]: "rd32 (wr32 i v b) i = v"
  by (simp add: rd32_def wr32_def bytes32_join)

lemma wr8_at: "wr8 i v b k = (if k = i then v else b k)"
  by (simp add: wr8_def)

lemma wr16_at: "wr16 i v b k = (if k = i then ucast v else if k = i + 1 then ucast (drop_bit 8 v) else b k)"
  by (simp add: wr16_def)

lemma wr32_at: "wr32 i v b k =
    (if k = i then ucast v else if k = i + 1 then ucast (drop_bit 8 v)
     else if k = i + 2 then ucast (drop_bit 16 v) else if k = i + 3 then ucast (drop_bit 24 v) else b k)"
  by (simp add: wr32_def)

lemma wr8_same [field_simps_buf]: "wr8 i v b i = v"
  by (simp add: wr8_at)

lemma wr_other [field_simps_buf]:
  "k \<noteq> i \<Longrightarrow> wr8 i v b k = b k"
  "k < i \<or> i + 1 < k \<Longrightarrow> wr16 i x b k = b k"
  "k < i \<or> i + 3 < k \<Longrightarrow> wr32 i y b k = b k"
  by (auto simp: wr8_at wr16_at wr32_at)

lemma rd16_other [field_simps_buf]:
  "k + 1 < i \<or> i < k \<Longrightarrow> rd16 (wr8 i v b) k = rd16 b k"
  "k + 1 < i \<or> i + 1 < k \<Longrightarrow> rd16 (wr16 i x b) k = rd16 b k"
  "k + 1 < i \<or> i + 3 < k \<Longrightarrow> rd16 (wr32 i y b) k = rd16 b k"
  by (auto simp: rd16_def wr8_at wr16_at wr32_at)

lemma rd32_other [field_simps_buf]:
  "k + 3 < i \<or> i < k \<Longrightarrow> rd32 (wr8 i v b) k = rd32 b k"
  "k + 3 < i \<or> i + 1 < k \<Longrightarrow> rd32 (wr16 i x b) k = rd32 b k"
  "k + 3 < i \<or> i + 3 < k \<Longrightarrow> rd32 (wr32 i y b) k = rd32 b k"
  by (auto simp: rd32_def wr8_at wr16_at wr32_at)

text \<open>A store depends on nothing but the value: reading network order out of the bytes.\<close>

lemma rd16_cong: "(\<And>k. i \<le> k \<Longrightarrow> k < i + 2 \<Longrightarrow> b k = c k) \<Longrightarrow> rd16 b i = rd16 c i"
  by (simp add: rd16_def)

lemma rd32_cong: "(\<And>k. i \<le> k \<Longrightarrow> k < i + 4 \<Longrightarrow> b k = c k) \<Longrightarrow> rd32 b i = rd32 c i"
  by (simp add: rd32_def)

lemma be16_bytes: "tw_be_to_cpu_16 (rd16 b i) = push_bit 8 (ucast (b i)) OR ucast (b (i + 1))"
  by (rule bit_word_eqI)
    (auto simp: tw_be_to_cpu_16_def bit_bswap16 rd16_def bit_simps dest: bit_imp_le_length)

lemma be32_bytes:
  "tw_be_to_cpu_32 (rd32 b i) = push_bit 24 (ucast (b i)) OR push_bit 16 (ucast (b (i + 1))) OR
     push_bit 8 (ucast (b (i + 2))) OR ucast (b (i + 3))"
  by (rule bit_word_eqI)
    (auto simp: tw_be_to_cpu_32_def bit_bswap32 rd32_def bit_simps dest: bit_imp_le_length)

end
