(* ===== verification/NetHdrs.thy ===== *)
theory NetHdrs
  imports ByteOrder
begin

text \<open>
  The wire headers Twister reads and writes: Ethernet addresses and headers (\<open>rte_ether.h\<close>),
  ARP (\<open>rte_arp.h\<close>), IPv4 and its checksum (\<open>rte_ip.h\<close>), UDP (\<open>rte_udp.h\<close>) and the ICMP echo
  header of \<open>tw_api.h\<close>. A header is a record; \<open>..._at b e\<close> decodes the header that starts at
  byte \<open>e\<close> of buffer \<open>b\<close>, with the packed layout of the C structs. Multi-byte fields hold the
  value a little-endian load sees, as in the C structs, so network order is explicit.
\<close>

section \<open>Ethernet addresses\<close>

datatype ether_addr = EA u8 u8 u8 u8 u8 u8

fun addr_bytes :: "ether_addr \<Rightarrow> u8 list" where
  "addr_bytes (EA a b c d e f) = [a, b, c, d, e, f]"

text \<open>The comparison loop over \<open>addr_bytes\<close>, leaving at the first difference.\<close>

fun same_bytes :: "u8 list \<Rightarrow> u8 list \<Rightarrow> bool" where
  "same_bytes (x # xs) (y # ys) = (if x \<noteq> y then False else same_bytes xs ys)"
| "same_bytes _ _ = True"

definition is_same_ether_addr :: "ether_addr \<Rightarrow> ether_addr \<Rightarrow> bool" where
  "is_same_ether_addr ea1 ea2 = same_bytes (addr_bytes ea1) (addr_bytes ea2)"

definition is_broadcast_ether_addr :: "ether_addr \<Rightarrow> bool" where
  "is_broadcast_ether_addr ea =
     (let w = (\<lambda>i. rd16 (\<lambda>k. addr_bytes ea ! k) (2 * i))
      in w 0 = 0xFFFF \<and> w 1 = 0xFFFF \<and> w 2 = 0xFFFF)"

definition broadcastmac :: ether_addr where
  "broadcastmac = EA 0xff 0xff 0xff 0xff 0xff 0xff"

definition querycastmac :: ether_addr where
  "querycastmac = EA 0 0 0 0 0 0"

lemma is_same_ether_addr_iff [simp]: "is_same_ether_addr ea1 ea2 \<longleftrightarrow> ea1 = ea2"
  by (cases ea1; cases ea2) (auto simp: is_same_ether_addr_def)

lemma word16_ones_iff: "(ucast (a :: u8) :: u16) OR push_bit 8 (ucast (b :: u8)) = 0xFFFF \<longleftrightarrow>
    a = 0xff \<and> b = 0xff"
proof
  assume eq: "(ucast a :: u16) OR push_bit 8 (ucast b) = 0xFFFF"
  have "(ucast ((ucast a :: u16) OR push_bit 8 (ucast b)) :: u8) = a"
    by (rule bit_word_eqI) (auto simp: bit_simps)
  moreover have "(ucast (drop_bit 8 ((ucast a :: u16) OR push_bit 8 (ucast b))) :: u8) = b"
    by (rule bit_word_eqI) (auto simp: bit_simps dest: bit_imp_le_length)
  ultimately have "a = ucast (0xFFFF :: u16)" and "b = ucast (drop_bit 8 (0xFFFF :: u16))"
    unfolding eq by simp_all
  then show "a = 0xff \<and> b = 0xff" by simp
qed simp

lemma is_broadcast_ether_addr_iff: "is_broadcast_ether_addr ea \<longleftrightarrow> ea = broadcastmac"
  by (cases ea) (auto simp: is_broadcast_ether_addr_def broadcastmac_def rd16_def word16_ones_iff Let_def)

definition rd_mac :: "bytes \<Rightarrow> nat \<Rightarrow> ether_addr" where
  "rd_mac b i = EA (b i) (b (i + 1)) (b (i + 2)) (b (i + 3)) (b (i + 4)) (b (i + 5))"

fun wr_mac :: "nat \<Rightarrow> ether_addr \<Rightarrow> bytes \<Rightarrow> bytes" where
  "wr_mac i (EA m0 m1 m2 m3 m4 m5) b =
     b(i := m0, i + 1 := m1, i + 2 := m2, i + 3 := m3, i + 4 := m4, i + 5 := m5)"

lemma wr_mac_at:
  "wr_mac i m b k = (if i \<le> k \<and> k < i + 6 then addr_bytes m ! (k - i) else b k)"
proof (cases m)
  case (EA m0 m1 m2 m3 m4 m5)
  consider "k < i" | "k = i" | "k = i + 1" | "k = i + 2" | "k = i + 3" | "k = i + 4" | "k = i + 5" | "i + 5 < k"
    by linarith
  then show ?thesis
    using EA by cases auto
qed

lemma rd_mac_wr_mac [field_simps_buf]: "rd_mac (wr_mac i m b) i = m"
  by (cases m) (simp add: rd_mac_def)

lemma wr_mac_other [field_simps_buf]: "k < i \<or> i + 5 < k \<Longrightarrow> wr_mac i m b k = b k"
  by (auto simp: wr_mac_at)

lemma rd_mac_other [field_simps_buf]:
  "k + 5 < i \<or> i < k \<Longrightarrow> rd_mac (wr8 i v b) k = rd_mac b k"
  "k + 5 < i \<or> i + 1 < k \<Longrightarrow> rd_mac (wr16 i x b) k = rd_mac b k"
  "k + 5 < i \<or> i + 3 < k \<Longrightarrow> rd_mac (wr32 i y b) k = rd_mac b k"
  "k + 5 < i \<or> i + 5 < k \<Longrightarrow> rd_mac (wr_mac i m b) k = rd_mac b k"
  by (auto simp: rd_mac_def wr8_at wr16_at wr32_at wr_mac_at)

lemma rd16_wr_mac [field_simps_buf]: "k + 1 < i \<or> i + 5 < k \<Longrightarrow> rd16 (wr_mac i m b) k = rd16 b k"
  by (auto simp: rd16_def wr_mac_at)

lemma rd32_wr_mac [field_simps_buf]: "k + 3 < i \<or> i + 5 < k \<Longrightarrow> rd32 (wr_mac i m b) k = rd32 b k"
  by (auto simp: rd32_def wr_mac_at)

section \<open>Headers\<close>

record ether_hdr =
  d_addr :: ether_addr
  s_addr :: ether_addr
  ether_type :: u16

definition ether_hdr_at :: "bytes \<Rightarrow> nat \<Rightarrow> ether_hdr" where
  "ether_hdr_at b e =
     \<lparr>d_addr = rd_mac b e, s_addr = rd_mac b (e + 6), ether_type = rd16 b (e + 12)\<rparr>"

abbreviation "sizeof_ether_hdr \<equiv> (14::nat)"
abbreviation "sizeof_vlan_hdr \<equiv> (4::nat)"

abbreviation "ETHER_TYPE_IPv4 \<equiv> (0x0800 :: u16)"
abbreviation "ETHER_TYPE_ARP \<equiv> (0x0806 :: u16)"
abbreviation "ETHER_TYPE_RARP \<equiv> (0x8035 :: u16)"
abbreviation "ETHER_TYPE_VLAN \<equiv> (0x8100 :: u16)"

abbreviation "set_d_addr e \<equiv> wr_mac e"
abbreviation "set_s_addr e \<equiv> wr_mac (e + 6)"
abbreviation "set_ether_type e \<equiv> wr16 (e + 12)"

record arp_hdr =
  arp_hrd :: u16
  arp_pro :: u16
  arp_hln :: u8
  arp_pln :: u8
  arp_op :: u16
  arp_sha :: ether_addr
  arp_sip :: u32
  arp_tha :: ether_addr
  arp_tip :: u32

definition arp_hdr_at :: "bytes \<Rightarrow> nat \<Rightarrow> arp_hdr" where
  "arp_hdr_at b a =
     \<lparr>arp_hrd = rd16 b a, arp_pro = rd16 b (a + 2), arp_hln = b (a + 4), arp_pln = b (a + 5),
      arp_op = rd16 b (a + 6), arp_sha = rd_mac b (a + 8), arp_sip = rd32 b (a + 14),
      arp_tha = rd_mac b (a + 18), arp_tip = rd32 b (a + 24)\<rparr>"

abbreviation "sizeof_arp_hdr \<equiv> (28::nat)"
abbreviation "ARP_HRD_ETHER \<equiv> (1 :: u16)"
abbreviation "ARP_OP_REQUEST \<equiv> (1 :: u16)"
abbreviation "ARP_OP_REPLY \<equiv> (2 :: u16)"
abbreviation "ARP_OP_REVREQUEST \<equiv> (3 :: u16)"

abbreviation "set_arp_hrd a \<equiv> wr16 a"
abbreviation "set_arp_pro a \<equiv> wr16 (a + 2)"
abbreviation "set_arp_hln a \<equiv> wr8 (a + 4)"
abbreviation "set_arp_pln a \<equiv> wr8 (a + 5)"
abbreviation "set_arp_op a \<equiv> wr16 (a + 6)"
abbreviation "set_arp_sha a \<equiv> wr_mac (a + 8)"
abbreviation "set_arp_sip a \<equiv> wr32 (a + 14)"
abbreviation "set_arp_tha a \<equiv> wr_mac (a + 18)"
abbreviation "set_arp_tip a \<equiv> wr32 (a + 24)"

record ipv4_hdr =
  version_ihl :: u8
  type_of_service :: u8
  total_length :: u16
  packet_id :: u16
  fragment_offset :: u16
  time_to_live :: u8
  next_proto_id :: u8
  hdr_checksum :: u16
  src_addr :: u32
  dst_addr :: u32

definition ipv4_hdr_at :: "bytes \<Rightarrow> nat \<Rightarrow> ipv4_hdr" where
  "ipv4_hdr_at b p =
     \<lparr>version_ihl = b p, type_of_service = b (p + 1), total_length = rd16 b (p + 2),
      packet_id = rd16 b (p + 4), fragment_offset = rd16 b (p + 6), time_to_live = b (p + 8),
      next_proto_id = b (p + 9), hdr_checksum = rd16 b (p + 10), src_addr = rd32 b (p + 12),
      dst_addr = rd32 b (p + 16)\<rparr>"

abbreviation "sizeof_ipv4_hdr \<equiv> (20::nat)"

abbreviation "set_version_ihl p \<equiv> wr8 p"
abbreviation "set_total_length p \<equiv> wr16 (p + 2)"
abbreviation "set_time_to_live p \<equiv> wr8 (p + 8)"
abbreviation "set_next_proto_id p \<equiv> wr8 (p + 9)"
abbreviation "set_hdr_checksum p \<equiv> wr16 (p + 10)"
abbreviation "set_src_addr p \<equiv> wr32 (p + 12)"
abbreviation "set_dst_addr p \<equiv> wr32 (p + 16)"

record udp_hdr =
  src_port :: u16
  dst_port :: u16
  dgram_len :: u16
  dgram_cksum :: u16

definition udp_hdr_at :: "bytes \<Rightarrow> nat \<Rightarrow> udp_hdr" where
  "udp_hdr_at b u =
     \<lparr>src_port = rd16 b u, dst_port = rd16 b (u + 2), dgram_len = rd16 b (u + 4),
      dgram_cksum = rd16 b (u + 6)\<rparr>"

abbreviation "sizeof_udp_hdr \<equiv> (8::nat)"

record icmp_echo =
  icmp_type :: u8
  icmp_code :: u8
  icmp_checksum :: u16
  icmp_identifier :: u16
  icmp_sequence :: u16

definition icmp_echo_at :: "bytes \<Rightarrow> nat \<Rightarrow> icmp_echo" where
  "icmp_echo_at b c =
     \<lparr>icmp_type = b c, icmp_code = b (c + 1), icmp_checksum = rd16 b (c + 2),
      icmp_identifier = rd16 b (c + 4), icmp_sequence = rd16 b (c + 6)\<rparr>"

abbreviation "sizeof_icmp_echo \<equiv> (8::nat)"

lemmas hdr_at_defs = ether_hdr_at_def arp_hdr_at_def ipv4_hdr_at_def udp_hdr_at_def icmp_echo_at_def

text \<open>Reading a field of a decoded header is the load at its offset.\<close>

lemma hdr_fields [simp]:
  "d_addr (ether_hdr_at b e) = rd_mac b e"
  "s_addr (ether_hdr_at b e) = rd_mac b (e + 6)"
  "ether_type (ether_hdr_at b e) = rd16 b (e + 12)"
  "arp_op (arp_hdr_at b a) = rd16 b (a + 6)"
  "arp_sha (arp_hdr_at b a) = rd_mac b (a + 8)"
  "arp_sip (arp_hdr_at b a) = rd32 b (a + 14)"
  "arp_tha (arp_hdr_at b a) = rd_mac b (a + 18)"
  "arp_tip (arp_hdr_at b a) = rd32 b (a + 24)"
  "next_proto_id (ipv4_hdr_at b p) = b (p + 9)"
  "hdr_checksum (ipv4_hdr_at b p) = rd16 b (p + 10)"
  "src_addr (ipv4_hdr_at b p) = rd32 b (p + 12)"
  "dst_addr (ipv4_hdr_at b p) = rd32 b (p + 16)"
  "icmp_type (icmp_echo_at b c) = b c"
  by (simp_all add: hdr_at_defs)

end
