(* ===== verification/Mbuf.thy ===== *)
theory Mbuf
  imports NetHdrs
begin

text \<open>
  Packet buffers (\<open>rte_mbuf.h\<close>), the VLAN strip of \<open>rte_ether.h\<close>, and the part of the machine
  below Twister: the record \<open>hw\<close>. What the network driver, the memory allocator and the clock
  answer is not determined by Twister, so \<open>hw\<close> holds one answer per call as a function of the
  call's number: the \<open>_src\<close> fields are parameters of the model, the \<open>_cnt\<close> fields count the
  calls made. A theorem about every \<open>_src\<close> field covers every behaviour of the environment.
\<close>

section \<open>struct rte_mbuf\<close>

text \<open>Twister never chains segments and never raises a reference count, so a packet is one
  buffer with one owner.\<close>

record rte_mbuf =
  buf :: bytes
  buf_len :: u16
  data_off :: u16
  data_len :: u16
  pkt_len :: u32
  vlan_tci :: u16
  rx_vlan_pkt :: bool

abbreviation "RTE_PKTMBUF_HEADROOM \<equiv> (128 :: u16)"

definition rte_pktmbuf_reset :: "rte_mbuf \<Rightarrow> rte_mbuf" where
  "rte_pktmbuf_reset m =
     m\<lparr>pkt_len := 0, vlan_tci := 0, rx_vlan_pkt := False,
       data_off := (if RTE_PKTMBUF_HEADROOM \<le> buf_len m then RTE_PKTMBUF_HEADROOM else buf_len m),
       data_len := 0\<rparr>"

definition rte_pktmbuf_headroom :: "rte_mbuf \<Rightarrow> u16" where
  "rte_pktmbuf_headroom m = data_off m"

definition rte_pktmbuf_tailroom :: "rte_mbuf \<Rightarrow> u16" where
  "rte_pktmbuf_tailroom m = buf_len m - rte_pktmbuf_headroom m - data_len m"

text \<open>\<open>None\<close> is the null pointer these return when the room is missing; the buffer is then
  unchanged.\<close>

definition rte_pktmbuf_prepend :: "u16 \<Rightarrow> rte_mbuf \<Rightarrow> rte_mbuf option" where
  "rte_pktmbuf_prepend len m =
     (if len > rte_pktmbuf_headroom m then None
      else Some (m\<lparr>data_off := data_off m - len, data_len := data_len m + len,
                   pkt_len := pkt_len m + ucast len\<rparr>))"

definition rte_pktmbuf_append :: "u16 \<Rightarrow> rte_mbuf \<Rightarrow> rte_mbuf option" where
  "rte_pktmbuf_append len m =
     (if len > rte_pktmbuf_tailroom m then None
      else Some (m\<lparr>data_len := data_len m + len, pkt_len := pkt_len m + ucast len\<rparr>))"

definition rte_pktmbuf_adj :: "u16 \<Rightarrow> rte_mbuf \<Rightarrow> rte_mbuf option" where
  "rte_pktmbuf_adj len m =
     (if len > data_len m then None
      else Some (m\<lparr>data_len := data_len m - len, data_off := data_off m + len,
                   pkt_len := pkt_len m - ucast len\<rparr>))"

text \<open>Where \<open>rte_pktmbuf_mtod\<close> points, and the bytes of the packet.\<close>

abbreviation mtod :: "rte_mbuf \<Rightarrow> nat" where
  "mtod m \<equiv> unat (data_off m)"

definition pkt_bytes :: "rte_mbuf \<Rightarrow> u8 list" where
  "pkt_bytes m = map (buf m) [mtod m ..< mtod m + unat (data_len m)]"

text \<open>The layout the driver and the allocator keep: the data lies inside the buffer.\<close>

definition mbuf_ok :: "rte_mbuf \<Rightarrow> bool" where
  "mbuf_ok m \<longleftrightarrow> mtod m + unat (data_len m) \<le> unat (buf_len m)"

text \<open>\<open>memmove\<close> of \<open>n\<close> bytes inside one buffer: all bytes are read before any is written.\<close>

definition memmove_buf :: "nat \<Rightarrow> nat \<Rightarrow> nat \<Rightarrow> bytes \<Rightarrow> bytes" where
  "memmove_buf dst src n b = (\<lambda>k. if dst \<le> k \<and> k < dst + n then b (src + (k - dst)) else b k)"

definition rte_vlan_strip :: "rte_mbuf \<Rightarrow> (int \<times> rte_mbuf) outcome" where
  "rte_vlan_strip m =
     (let eh = mtod m in
      if ether_type (ether_hdr_at (buf m) eh) \<noteq> tw_cpu_to_be_16 ETHER_TYPE_VLAN then Ret (-1, m)
      else
        let vh = eh + sizeof_ether_hdr;
            m1 = m\<lparr>rx_vlan_pkt := True, vlan_tci := tw_be_to_cpu_16 (rd16 (buf m) vh)\<rparr>
        in case rte_pktmbuf_adj (of_nat sizeof_vlan_hdr) m1 of
             None \<Rightarrow> Fault NullDeref
           | Some m2 \<Rightarrow> Ret (0, m2\<lparr>buf := memmove_buf (mtod m2) eh 12 (buf m2)\<rparr>))"

section \<open>The machine below Twister\<close>

record hw =
  mbufs :: "rte_mbuf heap"                      \<comment> \<open>packet buffers Twister owns\<close>
  mbuf_src :: "nat \<Rightarrow> (nat \<times> rte_mbuf) option"  \<comment> \<open>what a buffer pool hands out\<close>
  mbuf_cnt :: nat
  malloc_src :: "nat \<Rightarrow> ptr"                    \<comment> \<open>what \<open>rte_malloc\<close> returns\<close>
  malloc_cnt :: nat
  tsc_src :: "nat \<Rightarrow> u64"                       \<comment> \<open>what a clock read returns\<close>
  tsc_cnt :: nat
  tx_src :: "nat \<Rightarrow> u16"                        \<comment> \<open>how many packets a transmit burst accepts\<close>
  tx_cnt :: nat
  rx_src :: "u8 \<Rightarrow> nat \<Rightarrow> (nat \<times> rte_mbuf) list"  \<comment> \<open>the packets a receive burst on a port returns\<close>
  rx_cnt :: nat
  pool_src :: "nat \<Rightarrow> ptr"                      \<comment> \<open>what \<open>rte_mempool_create\<close> returns\<close>
  pool_cnt :: nat
  dev_socket :: "u8 \<Rightarrow> int"                     \<comment> \<open>\<open>rte_eth_dev_socket_id\<close>, -1 for no such port\<close>
  wire :: "(u8 \<times> nat \<times> rte_mbuf) list"          \<comment> \<open>packets the driver took, in order\<close>
  tsc_hz :: u64
  lcore_id :: nat

definition rte_get_timer_cycles :: "('a hw_scheme, u64) act" where
  "rte_get_timer_cycles = (\<lambda>s. Some (Ret (tsc_src s (tsc_cnt s), s\<lparr>tsc_cnt := Suc (tsc_cnt s)\<rparr>)))"

definition rte_malloc :: "('a hw_scheme, ptr) act" where
  "rte_malloc = (\<lambda>s. Some (Ret (malloc_src s (malloc_cnt s), s\<lparr>malloc_cnt := Suc (malloc_cnt s)\<rparr>)))"

definition rte_mempool_create :: "('a hw_scheme, ptr) act" where
  "rte_mempool_create = (\<lambda>s. Some (Ret (pool_src s (pool_cnt s), s\<lparr>pool_cnt := Suc (pool_cnt s)\<rparr>)))"

text \<open>A buffer from a pool; a null pool is dereferenced, an empty pool gives the null pointer.\<close>

definition rte_pktmbuf_alloc :: "ptr \<Rightarrow> ('a hw_scheme, ptr) act" where
  "rte_pktmbuf_alloc pool = (case pool of None \<Rightarrow> fault NullDeref
     | Some _ \<Rightarrow> (\<lambda>s. let s1 = s\<lparr>mbuf_cnt := Suc (mbuf_cnt s)\<rparr> in
         case mbuf_src s (mbuf_cnt s) of
           None \<Rightarrow> Some (Ret (None, s1))
         | Some (a, m) \<Rightarrow> Some (Ret (Some a, s1\<lparr>mbufs := (mbufs s)(a \<mapsto> rte_pktmbuf_reset m)\<rparr>))))"

definition rte_pktmbuf_free :: "ptr \<Rightarrow> ('a hw_scheme, unit) act" where
  "rte_pktmbuf_free p = (case p of
       None \<Rightarrow> ret ()
     | Some a \<Rightarrow> (\<lambda>s. case mbufs s a of
           None \<Rightarrow> Some (Fault WildDeref)
         | Some m \<Rightarrow> Some (Ret ((), s\<lparr>mbufs := (mbufs s)(a := None)\<rparr>))))"

text \<open>Access to the first \<open>n\<close> bytes behind \<open>rte_pktmbuf_mtod\<close>, and writing a packet back.\<close>

definition mbuf_hdr :: "ptr \<Rightarrow> nat \<Rightarrow> ('a hw_scheme, rte_mbuf) act" where
  "mbuf_hdr p n = bnd (deref mbufs p) (\<lambda>m.
     if mtod m + n \<le> unat (buf_len m) then ret m else fault OutOfBounds)"

definition put_mbuf :: "ptr \<Rightarrow> rte_mbuf \<Rightarrow> ('a hw_scheme, unit) act" where
  "put_mbuf p m = (case p of None \<Rightarrow> fault NullDeref
     | Some a \<Rightarrow> modify (\<lambda>s. s\<lparr>mbufs := (mbufs s)(a \<mapsto> m)\<rparr>))"

text \<open>\<open>write_hdr p n f\<close> applies the stores \<open>f\<close> (given the offset of the data) to the header.\<close>

definition write_hdr :: "ptr \<Rightarrow> nat \<Rightarrow> (nat \<Rightarrow> bytes \<Rightarrow> bytes) \<Rightarrow> ('a hw_scheme, unit) act" where
  "write_hdr p n f = bnd (mbuf_hdr p n) (\<lambda>m. put_mbuf p (m\<lparr>buf := f (mtod m) (buf m)\<rparr>))"

text \<open>
  \<open>rte_eth_tx_burst\<close> calls the driver with a table of packets. The driver takes a prefix of them,
  as long as it chooses: they leave Twister's ownership and appear on the wire in order. The
  result is the length of the prefix.
\<close>

primrec driver_take :: "u8 \<Rightarrow> ptr list \<Rightarrow> ('a hw_scheme, unit) act" where
  "driver_take port [] = ret ()"
| "driver_take port (p # ps) = bnd (deref mbufs p) (\<lambda>m.
     bnd (modify (\<lambda>s. s\<lparr>mbufs := (mbufs s)(the p := None), wire := wire s @ [(port, the p, m)]\<rparr>))
       (\<lambda>_. driver_take port ps))"

definition rte_eth_tx_burst :: "u8 \<Rightarrow> ptr list \<Rightarrow> ('a hw_scheme, nat) act" where
  "rte_eth_tx_burst port tbl = (\<lambda>s. let k = min (unat (tx_src s (tx_cnt s))) (length tbl) in
     bnd (driver_take port (take k tbl)) (\<lambda>_. ret k) (s\<lparr>tx_cnt := Suc (tx_cnt s)\<rparr>))"

text \<open>A receive burst hands over packets Twister owns from then on.\<close>

primrec own_all :: "(nat \<times> rte_mbuf) list \<Rightarrow> rte_mbuf heap \<Rightarrow> rte_mbuf heap" where
  "own_all [] h = h"
| "own_all (am # ams) h = own_all ams (h(fst am \<mapsto> snd am))"

definition rte_eth_rx_burst :: "u8 \<Rightarrow> nat \<Rightarrow> ('a hw_scheme, ptr list) act" where
  "rte_eth_rx_burst port nb_pkts = (\<lambda>s. let pk = take nb_pkts (rx_src s port (rx_cnt s)) in
     Some (Ret (map (Some \<circ> fst) pk,
       s\<lparr>rx_cnt := Suc (rx_cnt s), mbufs := own_all pk (mbufs s)\<rparr>)))"

section \<open>Lemmas\<close>

lemma mbuf_hdr_ok [run_simps]:
  "mbufs s a = Some m \<Longrightarrow> mtod m + n \<le> unat (buf_len m) \<Longrightarrow> mbuf_hdr (Some a) n s = Some (Ret (m, s))"
  by (simp add: mbuf_hdr_def run_simps)

lemma write_hdr_ok [run_simps]:
  "mbufs s a = Some m \<Longrightarrow> mtod m + n \<le> unat (buf_len m) \<Longrightarrow>
   write_hdr (Some a) n f s =
     Some (Ret ((), s\<lparr>mbufs := (mbufs s)(a \<mapsto> m\<lparr>buf := f (mtod m) (buf m)\<rparr>)\<rparr>))"
  by (simp add: write_hdr_def put_mbuf_def run_simps)

lemma free_ok [run_simps]:
  "mbufs s a = Some m \<Longrightarrow> rte_pktmbuf_free (Some a) s = Some (Ret ((), s\<lparr>mbufs := (mbufs s)(a := None)\<rparr>))"
  by (simp add: rte_pktmbuf_free_def)

lemma free_None [run_simps]: "rte_pktmbuf_free None s = Some (Ret ((), s))"
  by (simp add: rte_pktmbuf_free_def run_simps)

lemma double_free: "mbufs s a = None \<Longrightarrow> rte_pktmbuf_free (Some a) s = Some (Fault WildDeref)"
  by (simp add: rte_pktmbuf_free_def)

lemma unat_add_le:
  fixes a b :: "'a::len word"
  shows "unat a + unat b < 2 ^ LENGTH('a) \<Longrightarrow> unat (a + b) = unat a + unat b"
  by (simp add: unat_word_ariths)

lemma mbuf_ok_fit: "mbuf_ok m \<Longrightarrow> mtod m + unat (data_len m) < 2 ^ LENGTH(16)"
  unfolding mbuf_ok_def by (erule order.strict_trans1) (rule unsigned_less)

lemma prepend_ok:
  assumes "rte_pktmbuf_prepend len m = Some m'" and "mbuf_ok m"
  shows "mbuf_ok m'" and "unat (data_len m') = unat (data_len m) + unat len"
    and "mtod m' + unat len = mtod m" and "buf m' = buf m" and "buf_len m' = buf_len m"
proof -
  from assms(1) have le: "len \<le> data_off m"
    and m': "m' = m\<lparr>data_off := data_off m - len, data_len := data_len m + len,
                   pkt_len := pkt_len m + ucast len\<rparr>"
    by (auto simp: rte_pktmbuf_prepend_def rte_pktmbuf_headroom_def split: if_splits)
  from le have le_nat: "unat len \<le> unat (data_off m)" by (simp add: word_le_nat_alt)
  have dl: "unat (data_len m + len) = unat (data_len m) + unat len"
    using mbuf_ok_fit[OF assms(2)] le_nat by (intro unat_add_le) simp
  show "mbuf_ok m'" "unat (data_len m') = unat (data_len m) + unat len"
    "mtod m' + unat len = mtod m" "buf m' = buf m" "buf_len m' = buf_len m"
    using assms(2) le_nat le by (auto simp: mbuf_ok_def m' dl unat_sub)
qed

lemma driver_take_ok:
  assumes "distinct as" and "set as \<subseteq> dom (mbufs s)"
  shows "driver_take port (map Some as) s = Some (Ret ((),
    s\<lparr>mbufs := (mbufs s) |` (- set as), wire := wire s @ map (\<lambda>a. (port, a, the (mbufs s a))) as\<rparr>))"
  using assms
proof (induction as arbitrary: s)
  case Nil
  then show ?case by (simp add: run_simps)
next
  case (Cons a as)
  then obtain m where m: "mbufs s a = Some m" by auto
  let ?s1 = "s\<lparr>mbufs := (mbufs s)(a := None), wire := wire s @ [(port, a, m)]\<rparr>"
  have "driver_take port (map Some as) ?s1 = Some (Ret ((),
      ?s1\<lparr>mbufs := (mbufs ?s1) |` (- set as), wire := wire ?s1 @ map (\<lambda>a. (port, a, the (mbufs ?s1 a))) as\<rparr>))"
    using Cons.prems by (intro Cons.IH) auto
  moreover have "map (\<lambda>x. (port, x, the (((mbufs s)(a := None)) x))) as = map (\<lambda>x. (port, x, the (mbufs s x))) as"
    using Cons.prems by auto
  moreover have "((mbufs s)(a := None)) |` (- set as) = (mbufs s) |` (- insert a (set as))"
    by (auto simp: fun_eq_iff restrict_map_def)
  ultimately show ?case
    using m by (simp add: run_simps)
qed

end
