(* ===== verification/Timers.thy ===== *)
theory Timers
  imports Mbuf
begin

text \<open>
  The clock arithmetic of \<open>twister/timermodules\<close>: the unit constants of \<open>timerdefs.c\<close>, elapsed
  time and expiry of \<open>timerfuncs.c\<close>, the busy-wait sleeps, and the periodic timers of
  \<open>periodic_timers.c\<close>. The timer wheel itself (\<open>rte_timer_manage\<close>) belongs to DPDK and is an
  argument of the function that calls it.
\<close>

section \<open>timerdefs.c\<close>

record timers = hw +
  one_sec :: u64
  one_msec :: u64
  one_usec :: u64
  one_nsec :: u64
  prev_tsc :: u64
  curr_periodic_freq :: u64
  prev_periodic_freq :: u64

definition tw_init_timer_vals :: "'a timers_scheme \<Rightarrow> 'a timers_scheme" where
  "tw_init_timer_vals s =
     (let sec = tsc_hz s; msec = sec div 1000; usec = msec div 1000; nsec = usec div 1000
      in s\<lparr>one_sec := sec, one_msec := msec, one_usec := usec, one_nsec := nsec\<rparr>)"

section \<open>timerfuncs.c\<close>

text \<open>\<open>abs\<close> takes an \<open>int\<close>: its 64-bit argument is cut to 32 bits, and the result is widened
  with its sign. On the most negative \<open>int\<close> the negation wraps, as the compiled code does.\<close>

definition c_abs :: "u64 \<Rightarrow> u64" where
  "c_abs q = (let i = sint (ucast q :: u32) in word_of_int (if i = - (2 ^ 31) then i else \<bar>i\<bar>))"

definition tw_get_time_diff :: "u64 \<Rightarrow> u64 \<Rightarrow> u64 \<Rightarrow> u64 outcome" where
  "tw_get_time_diff curr_timer_freq prev_timer_freq timer_resolution =
     (if timer_resolution = 0 then Fault DivByZero
      else Ret (c_abs ((curr_timer_freq - prev_timer_freq) div timer_resolution)))"

definition tw_is_timer_expired :: "u64 \<Rightarrow> u64 \<Rightarrow> u64 \<Rightarrow> u64 \<Rightarrow> u8 outcome" where
  "tw_is_timer_expired curr_timer_freq prev_timer_freq timer_resolution time_limit =
     obnd (tw_get_time_diff curr_timer_freq prev_timer_freq timer_resolution) (\<lambda>time_diff.
       if time_diff < time_limit then Ret 0 else Ret 1)"

definition tw_get_timer_hz :: "'a hw_scheme \<Rightarrow> u64" where
  "tw_get_timer_hz s = tsc_hz s"

definition tw_get_current_timer_cycles :: "('a hw_scheme, u64) act" where
  "tw_get_current_timer_cycles = rte_get_timer_cycles"

definition tw_if_timeout_millisec :: "u64 \<Rightarrow> u64 \<Rightarrow> u64 \<Rightarrow> ('a timers_scheme, u8) act" where
  "tw_if_timeout_millisec curr_timer_cycles prev_timer_cycles num_millisecs = (\<lambda>s.
     lift_out (tw_is_timer_expired curr_timer_cycles prev_timer_cycles (one_msec s) num_millisecs) s)"

text \<open>The busy-wait loop of the three sleeps; \<open>unit\<close> is the length of a tick of the sleep.\<close>

partial_function (option) sleep_loop :: "u64 \<Rightarrow> u64 \<Rightarrow> u64 \<Rightarrow> u64 \<Rightarrow> 'a timers_scheme \<Rightarrow> (unit \<times> 'a timers_scheme) res" where
  "sleep_loop one prev_sleep limit curr_sleep s =
     (if curr_sleep - prev_sleep \<le> limit then
        (if one = 0 then Some (Fault DivByZero)
         else sleep_loop one prev_sleep limit (tsc_src s (tsc_cnt s) div one) (s\<lparr>tsc_cnt := Suc (tsc_cnt s)\<rparr>))
      else Some (Ret ((), s)))"

definition sleep_ticks :: "('a timers_scheme \<Rightarrow> u64) \<Rightarrow> u32 \<Rightarrow> ('a timers_scheme, unit) act" where
  "sleep_ticks one n = bnd rte_get_timer_cycles (\<lambda>c s.
     if one s = 0 then Some (Fault DivByZero) else sleep_loop (one s) (c div one s) (ucast n) 0 s)"

definition tw_sleep_msec :: "u32 \<Rightarrow> ('a timers_scheme, unit) act" where
  "tw_sleep_msec msec = sleep_ticks one_msec msec"

definition tw_sleep_usec :: "u32 \<Rightarrow> ('a timers_scheme, unit) act" where
  "tw_sleep_usec usec = sleep_ticks one_usec usec"

definition tw_sleep_nsec :: "u32 \<Rightarrow> ('a timers_scheme, unit) act" where
  "tw_sleep_nsec nsec = sleep_ticks one_nsec nsec"

section \<open>periodic\_timers.c\<close>

definition tw_init_periodic_timers :: "('a timers_scheme, unit) act" where
  "tw_init_periodic_timers = bnd tw_get_current_timer_cycles (\<lambda>c.
     modify (\<lambda>s. s\<lparr>prev_periodic_freq := c\<rparr>))"

definition tw_update_periodic_timers :: "('a timers_scheme, unit) act \<Rightarrow> u64 \<Rightarrow> ('a timers_scheme, int) act" where
  "tw_update_periodic_timers rte_timer_manage time_limit =
     bnd tw_get_current_timer_cycles (\<lambda>c.
     bnd (modify (\<lambda>s. s\<lparr>curr_periodic_freq := c\<rparr>)) (\<lambda>_.
     bnd (gets (\<lambda>s. (curr_periodic_freq s, prev_periodic_freq s, one_msec s))) (\<lambda>(cur, prev, ms).
     bnd (lift_out (tw_is_timer_expired cur prev ms time_limit)) (\<lambda>e.
     if e \<noteq> 0 then bnd rte_timer_manage (\<lambda>_.
         bnd (modify (\<lambda>s. s\<lparr>prev_periodic_freq := curr_periodic_freq s\<rparr>)) (\<lambda>_. ret 0))
     else ret 0))))"

section \<open>Lemmas\<close>

lemma sint_cases: "sint (i :: u32) = (if unat i < 2 ^ 31 then int (unat i) else int (unat i) - 2 ^ 32)"
proof -
  define k where "k = int (unat i)"
  have ku: "uint i = k" by (simp add: k_def)
  have lt: "0 \<le> k" "k < 2 ^ 32" using uint_lt2p[of i] uint_ge_0[of i] unfolding ku by simp_all
  have si: "sint i = (k + 2 ^ 31) mod 2 ^ 32 - 2 ^ 31"
    unfolding sint_uint ku by (simp add: signed_take_bit_eq_take_bit_shift take_bit_eq_mod)
  have ki: "unat i < 2 ^ 31 \<longleftrightarrow> k < 2 ^ 31" unfolding k_def by (metis of_nat_less_numeral_power_cancel_iff)
  show ?thesis
  proof (cases "k < 2 ^ 31")
    case True
    then have "(k + 2 ^ 31) mod 2 ^ 32 = k + 2 ^ 31" using lt by (intro mod_pos_pos_trivial) auto
    then show ?thesis unfolding ki k_def[symmetric] using si True by simp
  next
    case False
    have "(k + 2 ^ 31) mod 2 ^ 32 = (k + 2 ^ 31 - 2 ^ 32) mod 2 ^ 32" by (rule minus_mod_self2[symmetric])
    also have "\<dots> = k + 2 ^ 31 - 2 ^ 32" using lt False by (intro mod_pos_pos_trivial) auto
    finally show ?thesis unfolding ki k_def[symmetric] using si False by simp
  qed
qed

text \<open>\<open>c_abs\<close> in numbers: exact below \<open>2 ^ 31\<close>, reflected above.\<close>

lemma unat_c_abs:
  "unat (c_abs q) =
     (let k = unat q mod 2 ^ 32 in
      if k < 2 ^ 31 then k else if k = 2 ^ 31 then 2 ^ 64 - 2 ^ 31 else 2 ^ 32 - k)"
proof -
  define k where "k = unat q mod 2 ^ 32"
  have ui: "unat (ucast q :: u32) = k" by (simp add: k_def unsigned_ucast_eq take_bit_eq_mod)
  have k: "k < 2 ^ 32" by (simp add: k_def)
  have un: "unat (word_of_int x :: u64) = nat (x mod 2 ^ 64)" for x
    by (simp add: unsigned_of_int take_bit_eq_mod)
  let ?i = "sint (ucast q :: u32)"
  consider "k < 2 ^ 31" "?i = int k" | "k = 2 ^ 31" "?i = - (2 ^ 31)"
    | "2 ^ 31 < k" "?i = int k - 2 ^ 32"
    using sint_cases[of "ucast q"] ui by (cases "k < 2 ^ 31"; cases "k = 2 ^ 31") auto
  then show ?thesis
    unfolding k_def[symmetric] Let_def
  proof cases
    case 1
    have "c_abs q = word_of_int (int k)" unfolding c_abs_def Let_def 1(2) by simp
    then have "unat (c_abs q) = nat (int k mod 2 ^ 64)" by (simp only: un)
    with 1 show "unat (c_abs q) = (if k < 2 ^ 31 then k else if k = 2 ^ 31 then 2 ^ 64 - 2 ^ 31 else 2 ^ 32 - k)"
      by (simp add: mod_pos_pos_trivial)
  next
    case 2
    have "c_abs q = word_of_int (- (2 ^ 31))" unfolding c_abs_def Let_def 2(2) by simp
    then have "unat (c_abs q) = nat (- (2 ^ 31) mod 2 ^ 64)" by (simp only: un)
    with 2 show "unat (c_abs q) = (if k < 2 ^ 31 then k else if k = 2 ^ 31 then 2 ^ 64 - 2 ^ 31 else 2 ^ 32 - k)"
      by simp
  next
    case 3
    have "c_abs q = word_of_int (2 ^ 32 - int k)" unfolding c_abs_def Let_def 3(2) using 3(1) k by simp
    then have "unat (c_abs q) = nat ((2 ^ 32 - int k) mod 2 ^ 64)" by (simp only: un)
    moreover have "(2 ^ 32 - int k) mod 2 ^ 64 = 2 ^ 32 - int k" using 3(1) k by (intro mod_pos_pos_trivial) auto
    ultimately have "unat (c_abs q) = 2 ^ 32 - k" using k by (simp add: nat_diff_distrib)
    with 3(1) show "unat (c_abs q) = (if k < 2 ^ 31 then k else if k = 2 ^ 31 then 2 ^ 64 - 2 ^ 31 else 2 ^ 32 - k)"
      by simp
  qed
qed

lemma c_abs_small: "unat q < 2 ^ 31 \<Longrightarrow> c_abs q = q"
proof -
  assume q: "unat q < 2 ^ 31"
  then have "unat q mod 2 ^ 32 = unat q" by (intro mod_less) simp
  with q have "unat (c_abs q) = unat q" by (simp only: unat_c_abs Let_def if_True)
  then show ?thesis by (rule word_unat_eq_iff[THEN iffD2])
qed

lemma tw_get_time_diff_small:
  "r \<noteq> 0 \<Longrightarrow> unat ((c - p) div r) < 2 ^ 31 \<Longrightarrow> tw_get_time_diff c p r = Ret ((c - p) div r)"
  by (simp add: tw_get_time_diff_def c_abs_small)

lemma sleep_ticks_no_wait:
  assumes "one s \<noteq> 0" and "one (s\<lparr>tsc_cnt := Suc (tsc_cnt s)\<rparr>) = one s"
    and "0 < tsc_src s (tsc_cnt s) div one s"
    and "unat (tsc_src s (tsc_cnt s) div one s) < 2 ^ 64 - 2 ^ 32"
  shows "sleep_ticks one n s = Some (Ret ((), s\<lparr>tsc_cnt := Suc (tsc_cnt s)\<rparr>))"
proof -
  define q where "q = tsc_src s (tsc_cnt s) div one s"
  have n: "unat (ucast n :: u64) < 2 ^ 32"
    using unsigned_less[of n, where 'a = nat] by (simp add: unsigned_ucast_eq take_bit_nat_eq_self)
  have "0 < unat q" using assms(3) by (simp add: q_def word_less_nat_alt)
  then have "unat (0 - q) = 2 ^ 64 - unat q"
    unfolding unat_sub_if' by simp
  then have "\<not> 0 - q \<le> ucast n"
    using n assms(4) by (simp add: word_le_nat_alt q_def)
  then show ?thesis
    using assms by (simp add: sleep_ticks_def rte_get_timer_cycles_def run_simps sleep_loop.simps q_def)
qed

section \<open>Properties\<close>

text \<open>
  Elapsed time, for every pair of clock values and every resolution: with \<open>k\<close> the number of
  elapsed units modulo \<open>2 ^ 32\<close>, \<open>tw_get_time_diff\<close> returns \<open>k\<close> below \<open>2 ^ 31\<close>, \<open>2 ^ 32 - k\<close> above,
  and a huge value at \<open>2 ^ 31\<close>; a zero resolution divides by zero. The result is the elapsed time
  only for the first \<open>2 ^ 31\<close> units.
\<close>

theorem time_diff_value:
  "tw_get_time_diff c p 0 = Fault DivByZero \<and>
   (r \<noteq> 0 \<longrightarrow> (\<exists>d. tw_get_time_diff c p r = Ret d \<and>
     unat d = (let k = unat ((c - p) div r) mod 2 ^ 32 in
       if k < 2 ^ 31 then k else if k = 2 ^ 31 then 2 ^ 64 - 2 ^ 31 else 2 ^ 32 - k)))"
proof (intro conjI impI)
  assume "r \<noteq> 0"
  then have "tw_get_time_diff c p r = Ret (c_abs ((c - p) div r))" by (simp add: tw_get_time_diff_def)
  then show "\<exists>d. tw_get_time_diff c p r = Ret d \<and>
     unat d = (let k = unat ((c - p) div r) mod 2 ^ 32 in
       if k < 2 ^ 31 then k else if k = 2 ^ 31 then 2 ^ 64 - 2 ^ 31 else 2 ^ 32 - k)"
    by (intro exI conjI) (assumption, rule unat_c_abs)
qed (simp add: tw_get_time_diff_def)

theorem time_diff_value_witness:
  "\<exists>d. tw_get_time_diff (2 ^ 32) 1 1 = Ret d \<and> unat d = 1"
  using time_diff_value[of "2 ^ 32" 1 1] by simp

text \<open>
  Expiry: as long as fewer than \<open>2 ^ 31\<close> units have passed between the two clock reads (also
  across a wrap of the 64-bit counter), \<open>tw_is_timer_expired\<close> returns 1 exactly when at least
  \<open>time_limit\<close> whole units have passed.
\<close>

theorem timer_expired_iff:
  assumes "r \<noteq> 0" and "unat ((c - p) div r) < 2 ^ 31"
  shows "tw_is_timer_expired c p r limit = Ret (if limit \<le> (c - p) div r then 1 else 0)"
  using assms by (simp add: tw_is_timer_expired_def tw_get_time_diff_small not_less)

theorem timer_expired_iff_witness:
  "tw_is_timer_expired 5 (- 20) 10 2 = Ret 1 \<and> tw_is_timer_expired 5 (- 20) 10 3 = Ret 0"
  using timer_expired_iff[of 10 5 "- 20" 2] timer_expired_iff[of 10 5 "- 20" 3] by simp

text \<open>
  The sleeps do not sleep: once the clock has passed one tick, \<open>tw_sleep_msec\<close>, \<open>tw_sleep_usec\<close>
  and \<open>tw_sleep_nsec\<close> return after the single clock read of their first line, whatever the
  requested time, because the loop starts from \<open>curr_sleep = 0\<close> and the difference wraps.
\<close>

theorem sleeps_return_at_once:
  assumes "(one, sleep) \<in> {(one_msec, tw_sleep_msec), (one_usec, tw_sleep_usec), (one_nsec, tw_sleep_nsec)}"
    and "one s \<noteq> 0" and "0 < tsc_src s (tsc_cnt s) div one s"
    and "unat (tsc_src s (tsc_cnt s) div one s) < 2 ^ 64 - 2 ^ 32"
  shows "sleep n s = Some (Ret ((), s\<lparr>tsc_cnt := Suc (tsc_cnt s)\<rparr>))"
proof -
  have "sleep n = sleep_ticks one n"
    using assms(1) by (auto simp: tw_sleep_msec_def tw_sleep_usec_def tw_sleep_nsec_def)
  moreover have "one (s\<lparr>tsc_cnt := Suc (tsc_cnt s)\<rparr>) = one s" using assms(1) by auto
  from sleep_ticks_no_wait[OF assms(2) this assms(3,4)]
  have "sleep_ticks one n s = Some (Ret ((), s\<lparr>tsc_cnt := Suc (tsc_cnt s)\<rparr>))" .
  ultimately show ?thesis by simp
qed

definition demo_hw :: hw where
  "demo_hw = \<lparr>mbufs = Map.empty, mbuf_src = (\<lambda>k. None), mbuf_cnt = 0, malloc_src = (\<lambda>k. Some k),
     malloc_cnt = 0, tsc_src = (\<lambda>k. 9000000 + of_nat k), tsc_cnt = 0, tx_src = (\<lambda>k. 32), tx_cnt = 0,
     rx_src = (\<lambda>p k. []), rx_cnt = 0, pool_src = (\<lambda>k. Some k), pool_cnt = 0, dev_socket = (\<lambda>p. 0), wire = [], tsc_hz = 2000000000, lcore_id = 0\<rparr>"

definition demo_timers :: timers where
  "demo_timers = tw_init_timer_vals (hw.extend demo_hw (timers.fields 0 0 0 0 0 0 0))"

theorem sleeps_return_at_once_witness:
  "tw_sleep_msec 1000 demo_timers = Some (Ret ((), demo_timers\<lparr>tsc_cnt := 1\<rparr>))"
  using sleeps_return_at_once[of one_msec tw_sleep_msec demo_timers 1000]
  by (simp add: demo_timers_def demo_hw_def tw_init_timer_vals_def hw.defs timers.defs)

end
