(* ===== verification/MempoolConf.thy ===== *)
theory MempoolConf
  imports Timers
begin

text \<open>
  \<open>twister/memmgmt/mempoolconf.c\<close>: the packet pools of each NUMA socket and the buffers an
  application asks for. The memory \<open>rte_malloc\<close> returns is not cleared, so the content of a fresh
  \<open>tw_buf_t\<close> before it is assigned is a parameter (\<open>tw_buf_junk\<close>).
\<close>

section \<open>struct tw\_buf\_s and the pools\<close>

text \<open>\<open>tb_data\<close> points into the buffer \<open>fst\<close> at offset \<open>snd\<close>.\<close>

record tw_buf =
  tb_pkt :: ptr
  tb_data :: "ptr \<times> nat"
  tb_size :: u16
  tb_port_name :: string

record mempools = timers +
  num_numa_sockets :: u8
  rx_mempool :: "ptr list"
  tx_mempool :: "ptr list"
  tw_bufs :: "tw_buf heap"
  tw_buf_junk :: "nat \<Rightarrow> tw_buf"

abbreviation "MAX_NUMA_SOCKETS \<equiv> (2 :: nat)"

definition set_rx_mempool :: "nat \<Rightarrow> ptr \<Rightarrow> ('a mempools_scheme, unit) act" where
  "set_rx_mempool i p = (\<lambda>s. if i < length (rx_mempool s)
     then Some (Ret ((), s\<lparr>rx_mempool := (rx_mempool s)[i := p]\<rparr>)) else Some (Fault OutOfBounds))"

definition set_tx_mempool :: "nat \<Rightarrow> ptr \<Rightarrow> ('a mempools_scheme, unit) act" where
  "set_tx_mempool i p = (\<lambda>s. if i < length (tx_mempool s)
     then Some (Ret ((), s\<lparr>tx_mempool := (tx_mempool s)[i := p]\<rparr>)) else Some (Fault OutOfBounds))"

text \<open>The loop over the sockets; \<open>fail\<close> is what the function does when a pool cannot be made.\<close>

primrec mempool_loop :: "('a mempools_scheme, int) act \<Rightarrow> nat list \<Rightarrow> ('a mempools_scheme, int) act" where
  "mempool_loop fail [] = ret 0"
| "mempool_loop fail (i # is) =
     bnd rte_mempool_create (\<lambda>p. bnd (set_rx_mempool i p) (\<lambda>_.
       if p = None then fail
       else bnd rte_mempool_create (\<lambda>q. bnd (set_tx_mempool i q) (\<lambda>_.
         if q = None then fail else mempool_loop fail is))))"

definition tw_smoke_create_rx_tx_mempools :: "('a mempools_scheme, int) act" where
  "tw_smoke_create_rx_tx_mempools = (\<lambda>s. mempool_loop (ret (- 1)) [0..<unat (num_numa_sockets s)] s)"

definition tw_create_rx_tx_mempools :: "('a mempools_scheme, int) act" where
  "tw_create_rx_tx_mempools = (\<lambda>s. mempool_loop (exit_with 1) [0..<unat (num_numa_sockets s)] s)"

section \<open>Buffers of the applications\<close>

definition tw_app_get_buffer :: "('a mempools_scheme, ptr) act" where
  "tw_app_get_buffer = bnd (\<lambda>s. index_ck (tx_mempool s) 0 s) rte_pktmbuf_alloc"

text \<open>\<open>rte_pktmbuf_append\<close> on a heap buffer, its result ignored as the callers do.\<close>

definition mbuf_append :: "ptr \<Rightarrow> u16 \<Rightarrow> ('a hw_scheme, unit) act" where
  "mbuf_append p len = bnd (deref mbufs p) (\<lambda>m. case rte_pktmbuf_append len m of
     None \<Rightarrow> ret () | Some m' \<Rightarrow> put_mbuf p m')"

definition mbuf_prepend :: "ptr \<Rightarrow> u16 \<Rightarrow> ('a hw_scheme, unit) act" where
  "mbuf_prepend p len = bnd (deref mbufs p) (\<lambda>m. case rte_pktmbuf_prepend len m of
     None \<Rightarrow> ret () | Some m' \<Rightarrow> put_mbuf p m')"

definition tw_new_buffer :: "u16 \<Rightarrow> ('a mempools_scheme, ptr) act" where
  "tw_new_buffer buffer_size =
     bnd tw_app_get_buffer (\<lambda>pkt.
     bnd (if buffer_size \<noteq> 0 then mbuf_append pkt buffer_size else ret ()) (\<lambda>_.
     bnd rte_malloc (\<lambda>b. case b of
       None \<Rightarrow> fault NullDeref
     | Some a \<Rightarrow>
         bnd (deref mbufs pkt) (\<lambda>m.
         bnd (modify (\<lambda>s. s\<lparr>tw_bufs := (tw_bufs s)(a \<mapsto> (tw_buf_junk s a)
               \<lparr>tb_size := buffer_size, tb_pkt := pkt, tb_data := (pkt, mtod m)\<rparr>)\<rparr>)) (\<lambda>_.
         ret (Some a))))))"

definition tw_free_buffer :: "ptr \<Rightarrow> ('a mempools_scheme, unit) act" where
  "tw_free_buffer p = bnd (deref tw_bufs p) (\<lambda>b.
     bnd (rte_pktmbuf_free (tb_pkt b)) (\<lambda>_. free_cell tw_bufs tw_bufs_update p))"

definition tw_free_pkt :: "ptr \<Rightarrow> ('a mempools_scheme, unit) act" where
  "tw_free_pkt p = bnd (deref tw_bufs p) (\<lambda>b. rte_pktmbuf_free (tb_pkt b))"

section \<open>Lemmas\<close>

lemma append_ok:
  assumes "rte_pktmbuf_append len m = Some m'" and "mbuf_ok m"
  shows "mbuf_ok m'" and "unat (data_len m') = unat (data_len m) + unat len" and "mtod m' = mtod m"
    and "buf m' = buf m" and "buf_len m' = buf_len m"
proof -
  from assms(1) have le: "len \<le> buf_len m - data_off m - data_len m"
    and m': "m' = m\<lparr>data_len := data_len m + len, pkt_len := pkt_len m + ucast len\<rparr>"
    by (auto simp: rte_pktmbuf_append_def rte_pktmbuf_tailroom_def rte_pktmbuf_headroom_def not_less split: if_splits)
  have "unat (buf_len m - data_off m - data_len m) = unat (buf_len m) - mtod m - unat (data_len m)"
    using assms(2) by (simp add: mbuf_ok_def unat_sub word_le_nat_alt)
  then have room: "mtod m + unat (data_len m) + unat len \<le> unat (buf_len m)"
    using le assms(2) by (simp add: word_le_nat_alt mbuf_ok_def)
  then have "unat (data_len m) + unat len < 2 ^ LENGTH(16)"
    using unsigned_less[of "buf_len m", where 'a = nat] by linarith
  then have "unat (data_len m + len) = unat (data_len m) + unat len" by (rule unat_add_le)
  then show "mbuf_ok m'" "unat (data_len m') = unat (data_len m) + unat len" "mtod m' = mtod m"
    "buf m' = buf m" "buf_len m' = buf_len m"
    using room by (simp_all add: m' mbuf_ok_def)
qed

lemma mempool_loop_ok:
  assumes "set is \<subseteq> {..<length (rx_mempool s)}" "length (tx_mempool s) = length (rx_mempool s)" "distinct is"
    and "\<And>k. pool_src s k \<noteq> None"
  shows "\<exists>s'. mempool_loop fail is s = Some (Ret (0, s')) \<and>
    length (tx_mempool s') = length (tx_mempool s) \<and> length (rx_mempool s') = length (rx_mempool s) \<and>
    (\<forall>i\<in>set is. rx_mempool s' ! i \<noteq> None \<and> tx_mempool s' ! i \<noteq> None) \<and>
    (\<forall>i. i \<notin> set is \<longrightarrow> rx_mempool s' ! i = rx_mempool s ! i \<and> tx_mempool s' ! i = tx_mempool s ! i)"
  using assms
proof (induction "is" arbitrary: s)
  case Nil
  then show ?case by (simp add: run_simps)
next
  case (Cons i "is")
  obtain p q where p: "pool_src s (pool_cnt s) = Some p" and q: "pool_src s (Suc (pool_cnt s)) = Some q"
    using Cons.prems(4) by (meson not_None_eq)
  let ?s1 = "s\<lparr>rx_mempool := (rx_mempool s)[i := Some p], pool_cnt := Suc (Suc (pool_cnt s)),
               tx_mempool := (tx_mempool s)[i := Some q]\<rparr>"
  have "mempool_loop fail (i # is) s = mempool_loop fail is ?s1"
    using Cons.prems p q by (simp add: run_simps rte_mempool_create_def set_rx_mempool_def set_tx_mempool_def)
  moreover have "\<exists>s'. mempool_loop fail is ?s1 = Some (Ret (0, s')) \<and>
    length (tx_mempool s') = length (tx_mempool ?s1) \<and> length (rx_mempool s') = length (rx_mempool ?s1) \<and>
    (\<forall>j\<in>set is. rx_mempool s' ! j \<noteq> None \<and> tx_mempool s' ! j \<noteq> None) \<and>
    (\<forall>j. j \<notin> set is \<longrightarrow> rx_mempool s' ! j = rx_mempool ?s1 ! j \<and> tx_mempool s' ! j = tx_mempool ?s1 ! j)"
    using Cons.prems by (intro Cons.IH) auto
  moreover have "i \<notin> set is" "i < length (rx_mempool s)" "i < length (tx_mempool s)" using Cons.prems by auto
  ultimately show ?case by (auto simp: nth_list_update)
qed

lemma new_buffer_ok:
  assumes "tx_mempool s \<noteq> []" "tx_mempool s ! 0 \<noteq> None"
    and "mbuf_src s (mbuf_cnt s) = Some (a, m)" "malloc_src s (malloc_cnt s) = Some b"
    and "unat len + 128 \<le> unat (buf_len m)"
  shows "\<exists>s' m'. tw_new_buffer len s = Some (Ret (Some b, s')) \<and> mbufs s' = (mbufs s)(a \<mapsto> m') \<and>
    mbuf_ok m' \<and> data_len m' = len \<and> data_off m' = 128 \<and> buf m' = buf m \<and> buf_len m' = buf_len m \<and>
    tw_bufs s' = (tw_bufs s)(b \<mapsto> (tw_buf_junk s b)\<lparr>tb_size := len, tb_pkt := Some a, tb_data := (Some a, 128)\<rparr>)"
proof -
  define m0 where "m0 = rte_pktmbuf_reset m"
  have hr: "128 \<le> buf_len m" using assms(5) by (simp add: word_le_nat_alt)
  then have m0: "mbuf_ok m0" "data_len m0 = 0" "data_off m0 = 128" "buf m0 = buf m" "buf_len m0 = buf_len m"
    by (simp_all add: m0_def rte_pktmbuf_reset_def mbuf_ok_def word_le_nat_alt)
  have "unat (buf_len m - 128) = unat (buf_len m) - 128" using hr by (simp add: unat_sub)
  then have "len \<le> rte_pktmbuf_tailroom m0"
    using assms(5) m0 by (simp add: rte_pktmbuf_tailroom_def rte_pktmbuf_headroom_def word_le_nat_alt)
  then obtain m' where m': "rte_pktmbuf_append len m0 = Some m'" "data_len m' = len"
    using m0 by (auto simp: rte_pktmbuf_append_def not_less)
  note a = append_ok[OF m'(1) m0(1)]
  have "data_off m' = 128" using a(3) m0 by (simp add: word_unat_eq_iff)
  obtain p where pool: "tx_mempool s ! 0 = Some p" using assms(2) by blast
  show ?thesis
  proof (cases "len = 0")
    case True
    with assms pool m0 show ?thesis
      by (simp add: tw_new_buffer_def tw_app_get_buffer_def rte_pktmbuf_alloc_def rte_malloc_def run_simps
          m0_def[symmetric]) (intro exI[of _ m0], simp)
  next
    case False
    with assms pool m0 m' a \<open>data_off m' = 128\<close> show ?thesis
      by (simp add: tw_new_buffer_def tw_app_get_buffer_def rte_pktmbuf_alloc_def rte_malloc_def run_simps
          mbuf_append_def put_mbuf_def m0_def[symmetric]) (intro exI[of _ m'], simp)
  qed
qed

end
