(* ===== verification/PortConf.thy ===== *)
theory PortConf
  imports MempoolConf
begin

text \<open>
  \<open>twister/portmgmt/portconf.c\<close>: the table of Ethernet ports, its lookups by name and by address,
  and the bring-up of the devices. The answers of the device driver are a record of functions
  (\<open>eth_dev\<close>) the bring-up takes as an argument; the calls it makes on a device are logged in
  order (\<open>dev_log\<close>).
\<close>

section \<open>struct port\_info\<close>

text \<open>\<open>eth_mac\<close> points to an address that belongs to the port and is written once; a null pointer is
  \<open>None\<close>. The array \<open>tx_pkt_array\<close> of the source is never used.\<close>

record port_info =
  eth_mac :: "ether_addr option"
  port_name :: string
  port_id_external :: u8
  start_ip_addr :: u32
  num_ip_addrs :: u8
  gateway_ip :: u32
  subnet_mask :: u32
  vlan_tag :: u16
  port_flags :: u64
  port_socket_id :: u8
  num_rx_queues :: u8
  num_tx_queues :: u8

datatype dev_op = Configure u8 u8 u8 | Promiscuous u8 | RxQueue u8 u8 ptr | TxQueue u8 u8 | Start u8

record ports = mempools +
  port_infos :: "port_info list"
  nb_rxd :: u16
  nb_txd :: u16
  total_eth_ports :: u8
  available_eth_ports :: u8
  app_port_mask :: u16
  dev_log :: "dev_op list"

abbreviation "MAX_ETH_PORTS \<equiv> (8 :: nat)"

definition port_at :: "int \<Rightarrow> ('a ports_scheme, port_info) act" where
  "port_at i = (\<lambda>s. if 0 \<le> i then index_ck (port_infos s) (nat i) s else Some (Fault OutOfBounds))"

section \<open>Lookups\<close>

text \<open>The loop that compares every name and keeps the last match, used for ports and engines.\<close>

primrec name_loop :: "string \<Rightarrow> string list \<Rightarrow> int \<Rightarrow> int \<Rightarrow> int" where
  "name_loop nm [] i found = found"
| "name_loop nm (x # xs) i found = name_loop nm xs (i + 1) (if x = nm then i else found)"

definition tw_eth_name_to_id :: "string \<Rightarrow> 'a ports_scheme \<Rightarrow> int" where
  "tw_eth_name_to_id portName s = name_loop portName (map port_name (port_infos s)) 0 (- 1)"

primrec ip_loop :: "u32 \<Rightarrow> u32 list \<Rightarrow> int \<Rightarrow> int" where
  "ip_loop ip [] i = - 1"
| "ip_loop ip (x # xs) i = (if x = ip then i else ip_loop ip xs (i + 1))"

definition tw_get_port_by_ip :: "u32 \<Rightarrow> 'a ports_scheme \<Rightarrow> int" where
  "tw_get_port_by_ip ip_addr s =
     (if ip_addr = 0 then - 1 else ip_loop ip_addr (map start_ip_addr (port_infos s)) 0)"

definition tw_get_gateway_ip :: "string \<Rightarrow> ('a ports_scheme, u32) act" where
  "tw_get_gateway_ip nm = (\<lambda>s. bnd (port_at (tw_eth_name_to_id nm s)) (\<lambda>p. ret (gateway_ip p)) s)"

definition tw_get_ip_addr :: "string \<Rightarrow> ('a ports_scheme, u32) act" where
  "tw_get_ip_addr nm = (\<lambda>s. bnd (port_at (tw_eth_name_to_id nm s)) (\<lambda>p. ret (start_ip_addr p)) s)"

definition tw_get_subnet_mask :: "string \<Rightarrow> ('a ports_scheme, u32) act" where
  "tw_get_subnet_mask nm = (\<lambda>s. bnd (port_at (tw_eth_name_to_id nm s)) (\<lambda>p. ret (subnet_mask p)) s)"

section \<open>Bringing the ports up\<close>

record eth_dev =
  dev_count :: u8
  dev_configure :: "u8 \<Rightarrow> u8 \<Rightarrow> u8 \<Rightarrow> int"
  dev_macaddr :: "u8 \<Rightarrow> ether_addr"
  rx_queue_setup :: "u8 \<Rightarrow> u8 \<Rightarrow> u16 \<Rightarrow> int \<Rightarrow> ptr \<Rightarrow> int"
  tx_queue_setup :: "u8 \<Rightarrow> u8 \<Rightarrow> u16 \<Rightarrow> int \<Rightarrow> int"
  dev_start :: "u8 \<Rightarrow> int"
  link_status :: "u8 \<Rightarrow> bool"

text \<open>\<open>rte_panic\<close> aborts the process; 134 is the status a shell reports for it.\<close>

definition rte_panic :: "('s, 'a) act" where
  "rte_panic = exit_with 134"

definition log_dev :: "dev_op \<Rightarrow> ('a ports_scheme, unit) act" where
  "log_dev d = modify (\<lambda>s. s\<lparr>dev_log := dev_log s @ [d]\<rparr>)"

definition upd_port :: "u8 \<Rightarrow> (port_info \<Rightarrow> port_info) \<Rightarrow> ('a ports_scheme, unit) act" where
  "upd_port port_id f = (\<lambda>s. if unat port_id < length (port_infos s)
     then Some (Ret ((), s\<lparr>port_infos := (port_infos s)[unat port_id := f (port_infos s ! unat port_id)]\<rparr>))
     else Some (Fault OutOfBounds))"

text \<open>The two queue loops: \<open>fail\<close> is taken on the first negative result, \<open>k\<close> after the loop.\<close>

primrec queue_loop :: "(nat \<Rightarrow> ('s, int) act) \<Rightarrow> ('s, int) act \<Rightarrow> nat list \<Rightarrow> ('s, int) act \<Rightarrow> ('s, int) act" where
  "queue_loop setup fail [] k = k"
| "queue_loop setup fail (c # cs) k = bnd (setup c) (\<lambda>r. if r < 0 then fail else queue_loop setup fail cs k)"

definition setup_rxq :: "eth_dev \<Rightarrow> u8 \<Rightarrow> int \<Rightarrow> nat \<Rightarrow> ('a ports_scheme, int) act" where
  "setup_rxq dev port_id sock c = (\<lambda>s.
     bnd (if 0 \<le> sock then index_ck (rx_mempool s) (nat sock) else fault OutOfBounds) (\<lambda>pool.
     bnd (log_dev (RxQueue port_id (of_nat c) pool)) (\<lambda>_.
     ret (rx_queue_setup dev port_id (of_nat c) (nb_rxd s) (dev_socket s port_id) pool))) s)"

definition setup_txq :: "eth_dev \<Rightarrow> u8 \<Rightarrow> nat \<Rightarrow> ('a ports_scheme, int) act" where
  "setup_txq dev port_id c = (\<lambda>s.
     bnd (log_dev (TxQueue port_id (of_nat c))) (\<lambda>_.
     ret (tx_queue_setup dev port_id (of_nat c) (nb_txd s) (dev_socket s port_id))) s)"

text \<open>\<open>if (socket_id == -1) socket_id = 0;\<close>\<close>

definition fix_socket :: "int \<Rightarrow> int" where
  "fix_socket k = (if k = - 1 then 0 else k)"

text \<open>One enabled port: \<open>fail\<close> for the calls that report an error, \<open>fail_start\<close> for the start.\<close>

definition init_port :: "eth_dev \<Rightarrow> ('a ports_scheme, int) act \<Rightarrow> ('a ports_scheme, int) act \<Rightarrow> u8 \<Rightarrow>
    ('a ports_scheme, int) act \<Rightarrow> ('a ports_scheme, int) act" where
  "init_port dev fail fail_start port_id k =
     bnd (port_at (int (unat port_id))) (\<lambda>pi.
     bnd (log_dev (Configure port_id (num_rx_queues pi) (num_tx_queues pi))) (\<lambda>_.
     if dev_configure dev port_id (num_rx_queues pi) (num_tx_queues pi) < 0 then fail
     else
       bnd (log_dev (Promiscuous port_id)) (\<lambda>_.
       bnd rte_malloc (\<lambda>mac. if mac = None then fault NullDeref else
       bnd (upd_port port_id (\<lambda>p. p\<lparr>eth_mac := Some (dev_macaddr dev port_id)\<rparr>)) (\<lambda>_.
       bnd (gets (\<lambda>s. fix_socket (dev_socket s port_id))) (\<lambda>sock.
       bnd (upd_port port_id (\<lambda>p. p\<lparr>port_socket_id := word_of_int sock\<rparr>)) (\<lambda>_.
       queue_loop (setup_rxq dev port_id sock) fail [0..<unat (num_rx_queues pi)]
         (queue_loop (setup_txq dev port_id) fail [0..<unat (num_tx_queues pi)]
           (bnd (log_dev (Start port_id)) (\<lambda>_.
            if dev_start dev port_id < 0 then fail_start else k))))))))))"

primrec port_loop :: "eth_dev \<Rightarrow> ('a ports_scheme, int) act \<Rightarrow> ('a ports_scheme, int) act \<Rightarrow> nat list \<Rightarrow>
    ('a ports_scheme, int) act" where
  "port_loop dev fail fail_start [] = ret 0"
| "port_loop dev fail fail_start (p # ps) = (\<lambda>s.
     if \<not> bit (app_port_mask s) p
     then port_loop dev fail fail_start ps (s\<lparr>available_eth_ports := available_eth_ports s - 1\<rparr>)
     else init_port dev fail fail_start (of_nat p) (port_loop dev fail fail_start ps) s)"

definition eth_port_init :: "eth_dev \<Rightarrow> ('a ports_scheme, int) act \<Rightarrow> ('a ports_scheme, int) act \<Rightarrow>
    ('a ports_scheme, int) act" where
  "eth_port_init dev fail fail_start = (\<lambda>s.
     if dev_count dev = 0 then Some (Exit 1)
     else let n = (if dev_count dev > of_nat MAX_ETH_PORTS then of_nat MAX_ETH_PORTS else dev_count dev)
          in port_loop dev fail fail_start [0..<unat n] (s\<lparr>total_eth_ports := n, available_eth_ports := n\<rparr>))"

definition tw_smoke_eth_port_init :: "eth_dev \<Rightarrow> ('a ports_scheme, int) act" where
  "tw_smoke_eth_port_init dev = eth_port_init dev (ret (- 1)) (ret (- 1))"

definition tw_eth_port_init :: "eth_dev \<Rightarrow> ('a ports_scheme, int) act" where
  "tw_eth_port_init dev = eth_port_init dev (exit_with 1) rte_panic"

definition tw_check_all_ports_link :: "eth_dev \<Rightarrow> ('a ports_scheme, unit) act" where
  "tw_check_all_ports_link dev = (\<lambda>s.
     if \<forall>p\<in>set [0..<unat (available_eth_ports s)]. link_status dev (of_nat p) then Some (Ret ((), s))
     else rte_panic s)"

section \<open>Lemmas\<close>

lemma name_loop_none: "nm \<notin> set xs \<Longrightarrow> name_loop nm xs i f = f"
  by (induction xs arbitrary: i f) auto

lemma name_loop_last:
  "name_loop nm (ys @ nm # zs) i f = i + int (length ys)" if "nm \<notin> set zs"
  using that by (induction ys arbitrary: i f) (auto simp: name_loop_none)

lemma ip_loop_first: "ip \<notin> set ys \<Longrightarrow> ip_loop ip (ys @ ip # zs) i = i + int (length ys)"
  by (induction ys arbitrary: i) auto

lemma ip_loop_none: "ip \<notin> set xs \<Longrightarrow> ip_loop ip xs i = - 1"
  by (induction xs arbitrary: i) auto

text \<open>The two loops as the largest and the smallest matching index.\<close>

definition hits :: "'b \<Rightarrow> 'b list \<Rightarrow> nat set" where
  "hits x xs = {i. i < length xs \<and> xs ! i = x}"

lemma hits_empty: "hits x xs = {} \<longleftrightarrow> x \<notin> set xs"
  by (auto simp: hits_def in_set_conv_nth)

lemma name_loop_Max: "name_loop nm xs 0 (- 1) = (if nm \<in> set xs then int (Max (hits nm xs)) else - 1)"
proof (cases "nm \<in> set xs")
  case True
  then obtain ys zs where d: "xs = ys @ nm # zs" "nm \<notin> set zs" using split_list_last by metis
  have "Max (hits nm xs) = length ys"
    unfolding d(1) hits_def using d(2) by (intro Max_eqI) (auto simp: nth_append nth_Cons' split: if_splits)
  then show ?thesis using True d by (simp add: name_loop_last)
qed (simp add: name_loop_none)

lemma ip_loop_Min: "ip_loop ip xs 0 = (if ip \<in> set xs then int (Min (hits ip xs)) else - 1)"
proof (cases "ip \<in> set xs")
  case True
  then obtain ys zs where d: "xs = ys @ ip # zs" "ip \<notin> set ys" using split_list_first by metis
  have "Min (hits ip xs) = length ys"
    unfolding d(1) hits_def using d(2) by (intro Min_eqI) (auto simp: nth_append nth_Cons' split: if_splits)
  then show ?thesis using True d by (simp add: ip_loop_first)
qed (simp add: ip_loop_none)

lemma name_to_id_range:
  assumes "tw_eth_name_to_id nm s \<noteq> - 1"
  shows "\<exists>i < length (port_infos s). tw_eth_name_to_id nm s = int i \<and> port_name (port_infos s ! i) = nm"
proof -
  let ?ns = "map port_name (port_infos s)"
  have "nm \<in> set ?ns" using assms name_loop_none[of nm ?ns] by (auto simp: tw_eth_name_to_id_def simp del: set_map)
  then obtain ys zs where d: "?ns = ys @ nm # zs" "nm \<notin> set zs" using split_list_last by metis
  then have "tw_eth_name_to_id nm s = int (length ys)"
    by (simp add: tw_eth_name_to_id_def name_loop_last)
  moreover have "length ys < length (port_infos s)" using arg_cong[OF d(1), of length] by simp
  moreover have "port_name (port_infos s ! length ys) = nm"
    using d(1) \<open>length ys < length (port_infos s)\<close> by (metis nth_append_length nth_map)
  ultimately show ?thesis by blast
qed

text \<open>The bring-up of one port as the calls the driver sees, and a driver that accepts them all.\<close>

abbreviation dev_sock :: "'a ports_scheme \<Rightarrow> nat \<Rightarrow> int" where
  "dev_sock s p \<equiv> fix_socket (dev_socket s (of_nat p))"

definition port_ops :: "'a ports_scheme \<Rightarrow> nat \<Rightarrow> dev_op list" where
  "port_ops s p = (let pi = port_infos s ! p; u = of_nat p in
     [Configure u (num_rx_queues pi) (num_tx_queues pi), Promiscuous u] @
     map (\<lambda>c. RxQueue u (of_nat c) (rx_mempool s ! nat (dev_sock s p))) [0..<unat (num_rx_queues pi)] @
     map (\<lambda>c. TxQueue u (of_nat c)) [0..<unat (num_tx_queues pi)] @ [Start u])"

definition dev_accepts :: "eth_dev \<Rightarrow> bool" where
  "dev_accepts dev \<longleftrightarrow> (\<forall>p a b. 0 \<le> dev_configure dev p a b) \<and> (\<forall>p q n k m. 0 \<le> rx_queue_setup dev p q n k m) \<and>
     (\<forall>p q n k. 0 \<le> tx_queue_setup dev p q n k) \<and> (\<forall>p. 0 \<le> dev_start dev p)"

definition up_port :: "eth_dev \<Rightarrow> 'a ports_scheme \<Rightarrow> nat \<Rightarrow> port_info" where
  "up_port dev s p = (port_infos s ! p)\<lparr>eth_mac := Some (dev_macaddr dev (of_nat p)),
     port_socket_id := word_of_int (dev_sock s p)\<rparr>"

lemma dev_acceptsD:
  assumes "dev_accepts dev"
  shows "(dev_configure dev p a b < 0) = False" "(rx_queue_setup dev p q n k m < 0) = False"
    "(tx_queue_setup dev p q n k < 0) = False" "(dev_start dev p < 0) = False"
  using assms by (simp_all add: dev_accepts_def not_less)

lemma setup_rxq_ok:
  "0 \<le> sock \<Longrightarrow> nat sock < length (rx_mempool s) \<Longrightarrow> setup_rxq dev u sock c s = Some (Ret (
     rx_queue_setup dev u (of_nat c) (nb_rxd s) (dev_socket s u) (rx_mempool s ! nat sock),
     s\<lparr>dev_log := dev_log s @ [RxQueue u (of_nat c) (rx_mempool s ! nat sock)]\<rparr>))"
  by (simp add: setup_rxq_def log_dev_def run_simps)

lemma setup_txq_ok:
  "setup_txq dev u c s = Some (Ret (tx_queue_setup dev u (of_nat c) (nb_txd s) (dev_socket s u),
     s\<lparr>dev_log := dev_log s @ [TxQueue u (of_nat c)]\<rparr>))"
  by (simp add: setup_txq_def log_dev_def run_simps)

lemma rxq_loop_ok:
  assumes "dev_accepts dev" "0 \<le> sock" "nat sock < length (rx_mempool s)"
  shows "queue_loop (setup_rxq dev u sock) fail cs k s =
    k (s\<lparr>dev_log := dev_log s @ map (\<lambda>c. RxQueue u (of_nat c) (rx_mempool s ! nat sock)) cs\<rparr>)"
  using assms(2,3)
  by (induction cs arbitrary: s) (simp_all add: setup_rxq_ok run_simps dev_acceptsD[OF assms(1)])

lemma txq_loop_ok:
  assumes "dev_accepts dev"
  shows "queue_loop (setup_txq dev u) fail cs k s =
    k (s\<lparr>dev_log := dev_log s @ map (\<lambda>c. TxQueue u (of_nat c)) cs\<rparr>)"
  by (induction cs arbitrary: s) (simp_all add: setup_txq_ok run_simps dev_acceptsD[OF assms])

lemma init_port_ok:
  assumes "dev_accepts dev" and "malloc_src s (malloc_cnt s) \<noteq> None" and p: "p < length (port_infos s)" "p < 8"
    and sk: "0 \<le> dev_sock s p" "nat (dev_sock s p) < length (rx_mempool s)"
  shows "init_port dev fail fail_start (of_nat p) k s =
    k (s\<lparr>malloc_cnt := Suc (malloc_cnt s), port_infos := (port_infos s)[p := up_port dev s p],
         dev_log := dev_log s @ port_ops s p\<rparr>)"
proof -
  have u: "unat (of_nat p :: u8) = p" using p(2) by (simp add: unat_of_nat)
  obtain a where a: "malloc_src s (malloc_cnt s) = Some a" using assms(2) by blast
  show ?thesis
    using a p(1) sk
    by (simp add: init_port_def port_at_def run_simps u log_dev_def rte_malloc_def upd_port_def
        dev_acceptsD[OF assms(1)] rxq_loop_ok[OF assms(1)] txq_loop_ok[OF assms(1)] up_port_def port_ops_def Let_def)
qed

text \<open>The loop over the ports: what it leaves in the port table, the log and the counter.\<close>

lemma port_loop_ok:
  assumes "dev_accepts dev" and "\<And>k. malloc_src s k \<noteq> None" and "length (port_infos s) = 8"
    and "\<And>p. 0 \<le> dev_sock s p \<and> nat (dev_sock s p) < length (rx_mempool s)"
    and "distinct ps" and "set ps \<subseteq> {..<8}"
  shows "\<exists>s'. port_loop dev fail fail_start ps s = Some (Ret (0, s')) \<and>
    dev_log s' = dev_log s @ concat (map (port_ops s) (filter (bit (app_port_mask s)) ps)) \<and>
    available_eth_ports s' = available_eth_ports s - of_nat (length (filter (\<lambda>p. \<not> bit (app_port_mask s) p) ps)) \<and>
    total_eth_ports s' = total_eth_ports s \<and> length (port_infos s') = 8 \<and>
    (\<forall>p. port_infos s' ! p = (if p \<in> set ps \<and> bit (app_port_mask s) p then up_port dev s p else port_infos s ! p))"
  using assms(2-6)
proof (induction ps arbitrary: s)
  case Nil
  then show ?case by (simp add: run_simps)
next
  case (Cons p ps)
  show ?case
  proof (cases "bit (app_port_mask s) p")
    case False
    let ?s1 = "s\<lparr>available_eth_ports := available_eth_ports s - 1\<rparr>"
    have ops: "port_ops ?s1 = port_ops s" "up_port dev ?s1 = up_port dev s"
      by (simp_all add: fun_eq_iff port_ops_def up_port_def Let_def)
    show ?thesis using Cons.IH[of ?s1] Cons.prems False by (auto simp: ops)
  next
    case True
    let ?s1 = "s\<lparr>malloc_cnt := Suc (malloc_cnt s), port_infos := (port_infos s)[p := up_port dev s p],
         dev_log := dev_log s @ port_ops s p\<rparr>"
    have st: "port_loop dev fail fail_start (p # ps) s = port_loop dev fail fail_start ps ?s1"
      using True Cons.prems by (simp add: init_port_ok[OF assms(1)])
    have ops: "port_ops ?s1 q = port_ops s q" "up_port dev ?s1 q = up_port dev s q" if "q \<noteq> p" for q
      using that by (simp_all add: port_ops_def up_port_def Let_def)
    have m: "map (port_ops ?s1) (filter (bit (app_port_mask s)) ps) = map (port_ops s) (filter (bit (app_port_mask s)) ps)"
      using Cons.prems(4) by (auto intro!: map_cong ops)
    obtain s' where "port_loop dev fail fail_start ps ?s1 = Some (Ret (0, s'))"
      "dev_log s' = dev_log ?s1 @ concat (map (port_ops ?s1) (filter (bit (app_port_mask s)) ps))"
      "available_eth_ports s' = available_eth_ports s - of_nat (length (filter (\<lambda>p. \<not> bit (app_port_mask s) p) ps))"
      "total_eth_ports s' = total_eth_ports s" "length (port_infos s') = 8"
      "\<forall>q. port_infos s' ! q = (if q \<in> set ps \<and> bit (app_port_mask s) q then up_port dev ?s1 q else port_infos ?s1 ! q)"
      using Cons.IH[of ?s1] Cons.prems by auto
    moreover have "p \<notin> set ps" "p < 8" using Cons.prems by auto
    ultimately show ?thesis
      unfolding st using True m ops Cons.prems(2) by (auto simp: nth_list_update)
  qed
qed

section \<open>Properties\<close>

text \<open>
  Looking a port up: \<open>tw_eth_name_to_id\<close> returns the last port that has the name, and
  \<open>tw_get_port_by_ip\<close> the first port that has the (non-zero) address; both return -1 when there is
  none.
\<close>

theorem port_lookups:
  "tw_eth_name_to_id nm s =
     (let found = hits nm (map port_name (port_infos s))
      in if found = {} then - 1 else int (Max found)) \<and>
   tw_get_port_by_ip ip s =
     (let found = hits ip (map start_ip_addr (port_infos s))
      in if ip = 0 \<or> found = {} then - 1 else int (Min found))"
  by (simp add: tw_eth_name_to_id_def tw_get_port_by_ip_def name_loop_Max ip_loop_Min hits_empty Let_def
      del: set_map)

text \<open>
  C19. Bring-up: when the driver accepts every call, memory is available and the sockets are known,
  \<open>tw_eth_port_init\<close> returns 0 after configuring, setting up all queues of, and then starting
  exactly the ports enabled in the port mask, in order and once each; every enabled port has the
  MAC address of its device, the others are untouched, and \<open>available_eth_ports\<close> is the number of
  enabled ports.
\<close>

theorem eth_port_init_ok:
  assumes "dev_accepts dev" and "\<And>k. malloc_src s k \<noteq> None" and "length (port_infos s) = MAX_ETH_PORTS"
    and "\<And>p. 0 \<le> dev_sock s p \<and> nat (dev_sock s p) < length (rx_mempool s)" and "dev_count dev \<noteq> 0"
  defines "n \<equiv> min 8 (unat (dev_count dev))"
  shows "\<exists>s'. tw_eth_port_init dev s = Some (Ret (0, s')) \<and>
    dev_log s' = dev_log s @ concat (map (port_ops s) (filter (bit (app_port_mask s)) [0..<n])) \<and>
    unat (available_eth_ports s') = length (filter (bit (app_port_mask s)) [0..<n]) \<and>
    (\<forall>p. port_infos s' ! p = (if p < n \<and> bit (app_port_mask s) p then up_port dev s p else port_infos s ! p))"
proof -
  define c where "c = (if dev_count dev > of_nat MAX_ETH_PORTS then of_nat MAX_ETH_PORTS else dev_count dev)"
  define s1 where "s1 = s\<lparr>total_eth_ports := c, available_eth_ports := c\<rparr>"
  let ?m = "bit (app_port_mask s)"
  have c: "unat c = n" "n \<le> 8" by (auto simp: c_def n_def word_less_nat_alt min_def)
  have s1: "port_ops s1 = port_ops s" "up_port dev s1 = up_port dev s" "app_port_mask s1 = app_port_mask s"
    "dev_log s1 = dev_log s" "available_eth_ports s1 = c" "port_infos s1 = port_infos s"
    by (simp_all add: s1_def fun_eq_iff port_ops_def up_port_def Let_def)
  have st: "tw_eth_port_init dev s = port_loop dev (exit_with 1) rte_panic [0..<n] s1"
    using assms(5) unfolding tw_eth_port_init_def eth_port_init_def s1_def Let_def c_def[symmetric] c(1) by simp
  have "\<exists>s'. port_loop dev (exit_with 1) rte_panic [0..<n] s1 = Some (Ret (0, s')) \<and>
    dev_log s' = dev_log s1 @ concat (map (port_ops s1) (filter (bit (app_port_mask s1)) [0..<n])) \<and>
    available_eth_ports s' = available_eth_ports s1 - of_nat (length (filter (\<lambda>p. \<not> bit (app_port_mask s1) p) [0..<n])) \<and>
    total_eth_ports s' = total_eth_ports s1 \<and> length (port_infos s') = 8 \<and>
    (\<forall>p. port_infos s' ! p = (if p \<in> set [0..<n] \<and> bit (app_port_mask s1) p then up_port dev s1 p else port_infos s1 ! p))"
    using assms(2-4) c(2) by (intro port_loop_ok[OF assms(1)]) (auto simp: s1_def)
  then obtain s' where s': "tw_eth_port_init dev s = Some (Ret (0, s'))"
    "dev_log s' = dev_log s @ concat (map (port_ops s) (filter ?m [0..<n]))"
    "available_eth_ports s' = c - of_nat (length (filter (\<lambda>p. \<not> ?m p) [0..<n]))"
    "\<forall>p. port_infos s' ! p = (if p < n \<and> ?m p then up_port dev s p else port_infos s ! p)"
    unfolding st s1 by auto
  have sum: "length (filter ?m [0..<n]) + length (filter (\<lambda>p. \<not> ?m p) [0..<n]) = n"
    using sum_length_filter_compl[of ?m "[0..<n]"] by simp
  then have off: "unat (of_nat (length (filter (\<lambda>p. \<not> ?m p) [0..<n])) :: u8) = length (filter (\<lambda>p. \<not> ?m p) [0..<n])"
    using c(2) by (simp add: unat_of_nat)
  then have "unat (available_eth_ports s') = length (filter ?m [0..<n])"
    unfolding s'(3) using c sum by (subst unat_sub) (simp_all add: word_le_nat_alt)
  with s' show ?thesis by blast
qed

definition demo_dev :: eth_dev where
  "demo_dev = \<lparr>dev_count = 3, dev_configure = (\<lambda>_ _ _. 0), dev_macaddr = (\<lambda>p. EA 2 0 0 0 0 p),
     rx_queue_setup = (\<lambda>_ _ _ _ _. 0), tx_queue_setup = (\<lambda>_ _ _ _. 0), dev_start = (\<lambda>_. 0),
     link_status = (\<lambda>_. True)\<rparr>"

definition demo_port :: port_info where
  "demo_port = \<lparr>eth_mac = None, port_name = [], port_id_external = 0, start_ip_addr = 0, num_ip_addrs = 0,
     gateway_ip = 0, subnet_mask = 0, vlan_tag = 0, port_flags = 0, port_socket_id = 0,
     num_rx_queues = 1, num_tx_queues = 1\<rparr>"

definition demo_ports :: ports where
  "demo_ports = mempools.extend (timers.extend demo_timers (mempools.fields 1 [Some 5, None] [Some 6, None] Map.empty
       (\<lambda>a. \<lparr>tb_pkt = None, tb_data = (None, 0), tb_size = 0, tb_port_name = []\<rparr>)))
     (ports.fields (replicate 8 demo_port) 128 512 0 0 5 [])"

lemmas demo_defs = demo_hw_def demo_timers_def demo_ports_def demo_port_def hw.defs timers.defs mempools.defs
  ports.defs tw_init_timer_vals_def

theorem eth_port_init_ok_witness:
  "\<exists>s'. tw_eth_port_init demo_dev demo_ports = Some (Ret (0, s')) \<and> unat (available_eth_ports s') = 2"
proof -
  have *: "dev_accepts demo_dev" "malloc_src demo_ports k \<noteq> None" "length (port_infos demo_ports) = MAX_ETH_PORTS"
    "0 \<le> dev_sock demo_ports p \<and> nat (dev_sock demo_ports p) < length (rx_mempool demo_ports)"
    "dev_count demo_dev \<noteq> 0" for k p
    by (simp_all add: dev_accepts_def demo_dev_def demo_defs fix_socket_def)
  have m: "app_port_mask demo_ports = 5" "dev_count demo_dev = 3" by (simp_all add: demo_defs demo_dev_def)
  have "[0..<3] = [0, 1, 2 :: nat]" by (simp add: upt_rec)
  then have "length (filter (bit (app_port_mask demo_ports)) [0..<min 8 (unat (dev_count demo_dev))]) = 2"
    unfolding m by (simp add: bit_numeral_rec)
  then show ?thesis using eth_port_init_ok[OF *] by auto
qed

end
