(* ===== verification/CommonConv.thy ===== *)
theory CommonConv
  imports ByteOrder
begin

text \<open>
  The conversions of \<open>twister/common/common.c\<close>: IPv4 addresses between dotted strings, byte
  arrays and 32-bit values, decimal and hexadecimal numbers, and the small string helpers they
  are built from. A C string is the list of its characters before the terminating NUL; reading
  the NUL is allowed, reading past it is a fault. \<open>char\<close> is signed, as on the targets DPDK builds
  for, and C's 32-bit \<open>int\<close> arithmetic is done on 32-bit words where it can overflow.
\<close>

section \<open>Characters and strings\<close>

definition schar :: "char \<Rightarrow> int" where
  "schar c = sint (of_char c :: u8)"

definition cstr_at :: "string \<Rightarrow> int \<Rightarrow> char outcome" where
  "cstr_at str i =
     (if 0 \<le> i \<and> i < int (length str) then Ret (str ! nat i)
      else if i = int (length str) then Ret (CHR 0x00) else Fault OutOfBounds)"

fun str_scan :: "string \<Rightarrow> nat" where
  "str_scan [] = 0"
| "str_scan (c # cs) = (if c = CHR 0x00 then 0 else Suc (str_scan cs))"

definition tw_str_len :: "string \<Rightarrow> u8" where
  "tw_str_len str = of_nat (str_scan str)"

text \<open>The loop of \<open>tw_find_char\<close>: \<open>q\<close> is \<open>qCount\<close> and \<open>loc\<close> the array \<open>quoteLoc\<close>.\<close>

function find_loop :: "string \<Rightarrow> char \<Rightarrow> nat \<Rightarrow> nat \<Rightarrow> nat \<Rightarrow> int list \<Rightarrow> nat \<times> int list" where
  "find_loop str c inst i q loc =
     (if i < unat (tw_str_len str) then
        if str ! i = c \<and> q < inst then find_loop str c inst (Suc i) (Suc q) (loc[q := int i])
        else find_loop str c inst (Suc i) q loc
      else (q, loc))"
  by pat_completeness auto
termination
  by (relation "measure (\<lambda>(str, c, inst, i, q, loc). unat (tw_str_len str) - i)") auto

declare find_loop.simps [simp del]

definition tw_find_char :: "string \<Rightarrow> int list \<Rightarrow> char \<Rightarrow> u8 \<Rightarrow> u8 \<times> int list" where
  "tw_find_char str quoteLoc c instances =
     (let (qCount, loc) = find_loop str c (unat instances) 0 0 quoteLoc
      in (if of_nat qCount \<noteq> instances then 0 else of_nat qCount, loc))"

text \<open>\<open>dst\<close> is the destination array; both arrays are checked against their length.\<close>

fun slice_loop :: "string \<Rightarrow> nat \<Rightarrow> nat \<Rightarrow> nat \<Rightarrow> string \<Rightarrow> string outcome" where
  "slice_loop src start count 0 dst = Ret dst"
| "slice_loop src start count (Suc n) dst = obnd (cstr_at src (int (count + start))) (\<lambda>ch.
     if count < length dst then slice_loop src start (Suc count) n (dst[count := ch])
     else Fault OutOfBounds)"

definition tw_slice_array :: "string \<Rightarrow> string \<Rightarrow> u8 \<Rightarrow> u8 \<Rightarrow> string outcome" where
  "tw_slice_array srcStr dstStr start dstLength =
     obnd (slice_loop srcStr (unat start) 0 (unat dstLength) dstStr) (\<lambda>dst.
       if unat dstLength < length dst then Ret (dst[unat dstLength := CHR 0x00])
       else Fault OutOfBounds)"

section \<open>Numbers\<close>

fun power_rec :: "u8 \<Rightarrow> nat \<Rightarrow> u32" where
  "power_rec base 0 = 1"
| "power_rec base (Suc e) = ucast base * power_rec base e"

definition tw_power :: "u8 \<Rightarrow> u8 \<Rightarrow> u32" where
  "tw_power base e = power_rec base (unat e)"

text \<open>The loop runs from the last digit (\<open>count = n\<close>) to the first.\<close>

fun str_to_int_loop :: "string \<Rightarrow> u8 \<Rightarrow> nat \<Rightarrow> u64 \<Rightarrow> u64 outcome" where
  "str_to_int_loop str n 0 num = Ret num"
| "str_to_int_loop str n (Suc c) num = obnd (cstr_at str (int c)) (\<lambda>ch.
     str_to_int_loop str n c
       (num + scast (word_of_int (schar ch - 48) * tw_power 10 (n - 1 - of_nat c))))"

definition tw_convert_str_to_int :: "string \<Rightarrow> u8 \<Rightarrow> u64 outcome" where
  "tw_convert_str_to_int str n = str_to_int_loop str n (unat n) 0"

definition hex_element :: "char \<Rightarrow> u8" where
  "hex_element ch = (if schar ch > schar (CHR ''9'') then word_of_int (schar ch - 87)
                     else word_of_int (schar ch - 48))"

fun str_to_hex_loop :: "string \<Rightarrow> u8 \<Rightarrow> nat \<Rightarrow> u32 \<Rightarrow> u32 outcome" where
  "str_to_hex_loop str len 0 result = Ret result"
| "str_to_hex_loop str len (Suc n) result = obnd (cstr_at str (int n)) (\<lambda>ch.
     let sh = 4 * (unat len - n - 1) in
     if sh < 32 then str_to_hex_loop str len n (result + push_bit sh (ucast (hex_element ch)))
     else Fault BadShift)"

definition tw_convert_str_to_hex :: "string \<Rightarrow> u8 \<Rightarrow> u32 outcome" where
  "tw_convert_str_to_hex str len = str_to_hex_loop str len (unat len) 0"

definition isdigit :: "char \<Rightarrow> bool" where
  "isdigit c \<longleftrightarrow> (48::nat) \<le> of_char c \<and> of_char c \<le> (57::nat)"

definition digit_val :: "char \<Rightarrow> nat" where
  "digit_val c = of_char c - 48"

definition dec_val :: "string \<Rightarrow> nat" where
  "dec_val ds = foldl (\<lambda>v c. 10 * v + digit_val c) 0 ds"

text \<open>\<open>strtol\<close> in base 10 at a digit: the longest digit prefix, saturating at \<open>LONG_MAX\<close>.\<close>

definition strtol10 :: "string \<Rightarrow> int \<times> string" where
  "strtol10 p = (min (int (dec_val (takeWhile isdigit p))) (2 ^ 63 - 1), dropWhile isdigit p)"

function parse_int_loop :: "string \<Rightarrow> u8 \<Rightarrow> u8" where
  "parse_int_loop p val = (case p of
       [] \<Rightarrow> val
     | c # cs \<Rightarrow> if isdigit c then parse_int_loop (snd (strtol10 p)) (word_of_int (fst (strtol10 p)))
                else parse_int_loop cs val)"
  by pat_completeness auto
termination
  by (relation "measure (length \<circ> fst)")
    (auto simp: strtol10_def less_Suc_eq_le length_dropWhile_le)

declare parse_int_loop.simps [simp del]

definition tw_parse_int_from_string :: "string \<Rightarrow> u8" where
  "tw_parse_int_from_string str = parse_int_loop str 0"

section \<open>IPv4 addresses\<close>

definition tw_ip_dec_to_arr :: "u32 \<Rightarrow> u8 list" where
  "tw_ip_dec_to_arr ip =
     [ucast (drop_bit 24 ip), ucast (drop_bit 16 ip), ucast (drop_bit 8 ip), ucast ip]"

definition tw_ip_arr_to_dec :: "u8 list \<Rightarrow> u32" where
  "tw_ip_arr_to_dec ip =
     push_bit 24 (ucast (ip ! 0)) + push_bit 16 (ucast (ip ! 1)) +
     push_bit 8 (ucast (ip ! 2)) + ucast (ip ! 3)"

text \<open>
  One octet: \<open>lo\<close> and \<open>hi\<close> are \<open>ip[n]\<close> and \<open>ip[n + 1]\<close>. \<open>Ret None\<close> is the early
  \<open>return 0\<close> of the caller.
\<close>

definition ip_octet :: "string \<Rightarrow> int \<Rightarrow> int \<Rightarrow> u8 option outcome" where
  "ip_octet value lo hi =
     (let d = hi - (lo + 1); at = (\<lambda>k. cstr_at value (hi - k));
          fin = (\<lambda>temp. obnd (tw_convert_str_to_int temp 3) (\<lambda>v. Ret (Some (ucast v))))
      in if d = 1 then obnd (at 1) (\<lambda>c2. fin [CHR ''0'', CHR ''0'', c2])
         else if d = 2 then obnd (at 2) (\<lambda>c1. obnd (at 1) (\<lambda>c2. fin [CHR ''0'', c1, c2]))
         else if d = 3 then obnd (at 3) (\<lambda>c0. obnd (at 2) (\<lambda>c1. obnd (at 1) (\<lambda>c2. fin [c0, c1, c2])))
         else Ret None)"

fun iparr_loop :: "string \<Rightarrow> int list \<Rightarrow> nat \<Rightarrow> u8 list \<Rightarrow> (u8 \<times> u8 list) outcome" where
  "iparr_loop value (lo # hi # ip) n ipVar = obnd (ip_octet value lo hi) (\<lambda>r.
     case r of None \<Rightarrow> Ret (0, ipVar)
     | Some v \<Rightarrow> iparr_loop value (hi # ip) (Suc n) (ipVar[n := v]))"
| "iparr_loop value _ n ipVar = Ret (1, ipVar)"

text \<open>
  \<open>junk\<close> is what the three uninitialised cells \<open>ip[1..3]\<close> of the stack array hold; the test
  \<open>ip == NULL\<close> of the source is never true.
\<close>

definition tw_convert_str_to_iparr :: "int list \<Rightarrow> string \<Rightarrow> u8 list \<Rightarrow> (u8 \<times> u8 list) outcome" where
  "tw_convert_str_to_iparr junk value ipVar =
     (let ip = snd (tw_find_char value junk (CHR ''.'') 3)
      in iparr_loop value ([-1] @ ip @ [int (unat (tw_str_len value))]) 0 ipVar)"

definition tw_convert_ip_str_to_dec :: "int list \<Rightarrow> string \<Rightarrow> u32 outcome" where
  "tw_convert_ip_str_to_dec junk ip_str =
     obnd (tw_convert_str_to_iparr junk ip_str [0, 0, 0, 0]) (\<lambda>(r, ip_arr).
       if r \<noteq> 0 then Ret (tw_ip_arr_to_dec ip_arr) else Ret 0)"

section \<open>Strings and decimal numbers: lemmas\<close>

text \<open>\<open>positions c xs\<close> lists the places where \<open>c\<close> occurs; \<open>tw_find_char\<close> finds the first ones.\<close>

lemma str_scan_nul_free: "CHR 0x00 \<notin> set str \<Longrightarrow> str_scan str = length str"
  by (induction str) auto

lemma tw_str_len_unat: "CHR 0x00 \<notin> set str \<Longrightarrow> length str < 256 \<Longrightarrow> unat (tw_str_len str) = length str"
  by (simp add: tw_str_len_def str_scan_nul_free unat_of_nat)

definition positions :: "char \<Rightarrow> string \<Rightarrow> nat list" where
  "positions c xs = filter (\<lambda>k. xs ! k = c) [0..<length xs]"

lemma positions_append: "positions c (xs @ ys) = positions c xs @ map (\<lambda>k. k + length xs) (positions c ys)"
proof -
  have "[length xs..<length xs + length ys] = map (\<lambda>i. i + length xs) [0..<length ys]"
    using map_add_upt[of "length xs" "length ys"] by (simp add: add.commute)
  moreover have "filter (\<lambda>k. (xs @ ys) ! k = c) [0..<length xs] = filter (\<lambda>k. xs ! k = c) [0..<length xs]"
    by (rule filter_cong) (auto simp: nth_append)
  ultimately show ?thesis
    by (simp add: positions_def upt_add_eq_append[of 0 "length xs" "length ys"] filter_map comp_def nth_append)
qed

lemma positions_none: "c \<notin> set xs \<Longrightarrow> positions c xs = []"
  by (auto simp: positions_def filter_empty_conv)

lemma positions_hit: "positions c (c # ys) = 0 # map Suc (positions c ys)"
  using positions_append[of c "[c]" ys] by (simp add: positions_def)

lemma find_loop_eq:
  assumes "i \<le> unat (tw_str_len str)" and "length pre = q"
    and "length (take (inst - q) (filter (\<lambda>k. str ! k = c) [i..<unat (tw_str_len str)])) \<le> length rest"
  shows "find_loop str c inst i q (pre @ rest) =
    (let ps = take (inst - q) (filter (\<lambda>k. str ! k = c) [i..<unat (tw_str_len str)])
     in (q + length ps, pre @ map int ps @ drop (length ps) rest))"
  using assms
proof (induction "unat (tw_str_len str) - i" arbitrary: i q pre rest)
  case 0
  then show ?case by (subst find_loop.simps) (simp add: Let_def)
next
  case (Suc d)
  then have lt: "i < unat (tw_str_len str)" by simp
  then have up: "[i..<unat (tw_str_len str)] = i # [Suc i..<unat (tw_str_len str)]" by (rule upt_conv_Cons)
  show ?case
  proof (cases "str ! i = c \<and> q < inst")
    case True
    then obtain m where m: "inst - q = Suc m" by (metis Suc_diff_Suc)
    then have m': "inst - Suc q = m" by simp
    from Suc.prems(3) True m have "rest \<noteq> []" by (auto simp: up)
    then obtain r rest' where rest: "rest = r # rest'" by (cases rest) auto
    have "find_loop str c inst (Suc i) (Suc q) ((pre @ [int i]) @ rest') =
      (let ps = take (inst - Suc q) (filter (\<lambda>k. str ! k = c) [Suc i..<unat (tw_str_len str)])
       in (Suc q + length ps, (pre @ [int i]) @ map int ps @ drop (length ps) rest'))"
      using Suc.prems Suc.hyps(2) lt True m m' rest by (intro Suc.hyps(1)) (auto simp: up)
    moreover have "(pre @ rest)[q := int i] = (pre @ [int i]) @ rest'"
      unfolding rest Suc.prems(2)[symmetric] by simp
    ultimately show ?thesis
      using lt True m m' rest
      by (simp add: find_loop.simps[of str c inst i q "pre @ r # rest'"] up Let_def)
  next
    case False
    have ps: "take (inst - q) (filter (\<lambda>k. str ! k = c) [i..<unat (tw_str_len str)]) =
        take (inst - q) (filter (\<lambda>k. str ! k = c) [Suc i..<unat (tw_str_len str)])"
      using False by (auto simp: up)
    have "find_loop str c inst (Suc i) q (pre @ rest) =
      (let ps = take (inst - q) (filter (\<lambda>k. str ! k = c) [Suc i..<unat (tw_str_len str)])
       in (q + length ps, pre @ map int ps @ drop (length ps) rest))"
      using Suc.prems(2,3) Suc.hyps(2) lt unfolding ps by (intro Suc.hyps(1)) simp_all
    moreover have "find_loop str c inst i q (pre @ rest) = find_loop str c inst (Suc i) q (pre @ rest)"
      using lt False by (simp only: find_loop.simps[of str c inst i q "pre @ rest"] if_True if_False)
    ultimately show ?thesis unfolding ps by simp
  qed
qed

lemma schar_digit: 
  assumes "isdigit c" shows "schar c = int (digit_val c) + 48"
proof -
  define k where "k = (of_char c :: nat)"
  have u: "(of_char c :: u8) = of_nat k" by (simp add: k_def of_nat_of_char)
  have "48 \<le> k" "k \<le> 57" using assms by (simp_all add: isdigit_def k_def)
  then have "sint (of_nat k :: u8) = int k"
    by (simp add: sint_uint uint_nat unat_of_nat signed_take_bit_int_eq_self)
  with \<open>48 \<le> k\<close> show ?thesis by (simp add: schar_def u digit_val_def flip: k_def)
qed

lemma digit_val_le: "isdigit c \<Longrightarrow> digit_val c \<le> 9"
  by (auto simp: isdigit_def digit_val_def)

lemma dec_val_snoc: "dec_val (ds @ [d]) = 10 * dec_val ds + digit_val d"
  by (simp add: dec_val_def)

lemma dec_val_Cons: "dec_val (d # ds) = digit_val d * 10 ^ length ds + dec_val ds"
proof (induction ds rule: rev_induct)
  case Nil
  then show ?case by (simp add: dec_val_def)
next
  case (snoc x xs)
  have "dec_val (d # xs @ [x]) = 10 * dec_val (d # xs) + digit_val x"
    using dec_val_snoc[of "d # xs" x] by simp
  with snoc show ?case by (simp add: dec_val_snoc)
qed

lemma power_rec_10: "power_rec 10 n = of_nat (10 ^ n)"
  by (induction n) simp_all

lemma tw_power_10: "tw_power 10 e = of_nat (10 ^ unat e)"
  by (simp add: tw_power_def power_rec_10)

lemma scast_of_nat_small: "m < 2 ^ 31 \<Longrightarrow> (scast (of_nat m :: u32) :: u64) = of_nat m"
  by (simp add: scast_eq sint_uint uint_nat unat_of_nat signed_take_bit_int_eq_self)

text \<open>One step of the decimal loop adds the digit at its weight.\<close>

lemma str_to_int_step:
  assumes "isdigit ch" and "unat n \<le> 9" and "c < unat n"
  shows "(scast (word_of_int (schar ch - 48) * tw_power 10 (n - 1 - of_nat c)) :: u64) =
    of_nat (digit_val ch * 10 ^ (unat n - 1 - c))"
proof -
  have n1: "unat (n - 1 - of_nat c) = unat n - 1 - c"
    using assms(2,3) by (simp add: unat_sub_if_size unat_of_nat word_size)
  have "digit_val ch * 10 ^ (unat n - 1 - c) \<le> 9 * 10 ^ 8"
    using assms digit_val_le[OF assms(1)] by (intro mult_mono power_increasing) auto
  then have lt: "digit_val ch * 10 ^ (unat n - 1 - c) < 2 ^ 31" by simp
  have "(word_of_int (schar ch - 48) :: u32) = of_nat (digit_val ch)"
    using assms(1) by (simp add: schar_digit)
  then have "word_of_int (schar ch - 48) * tw_power 10 (n - 1 - of_nat c) =
      (of_nat (digit_val ch * 10 ^ (unat n - 1 - c)) :: u32)"
    by (simp add: tw_power_10 n1)
  then show ?thesis using scast_of_nat_small[OF lt] by simp
qed

lemma str_to_int_loop_dec:
  assumes "\<forall>ch\<in>set ds. isdigit ch" and "length ds = unat n" and "unat n \<le> 9" and "c \<le> unat n"
  shows "str_to_int_loop ds n c (of_nat (dec_val (drop c ds))) = Ret (of_nat (dec_val ds))"
  using assms(4)
proof (induction c)
  case 0
  then show ?case by simp
next
  case (Suc c)
  then have c: "c < unat n" by simp
  with assms(2) have cl: "c < length ds" by simp
  have d: "drop c ds = ds ! c # drop (Suc c) ds" using cl by (simp add: Cons_nth_drop_Suc)
  have dig: "isdigit (ds ! c)" using assms(1) cl by auto
  have "(of_nat (dec_val (drop (Suc c) ds)) :: u64) +
      scast (word_of_int (schar (ds ! c) - 48) * tw_power 10 (n - 1 - of_nat c)) =
      of_nat (dec_val (drop c ds))"
    unfolding str_to_int_step[OF dig assms(3) c] d dec_val_Cons
    using assms(2) by (simp add: algebra_simps)
  moreover have "cstr_at ds (int c) = Ret (ds ! c)" using cl by (simp add: cstr_at_def)
  ultimately show ?case using Suc.IH c by simp
qed

lemma tw_convert_str_to_int_dec:
  "\<forall>ch\<in>set ds. isdigit ch \<Longrightarrow> length ds = unat n \<Longrightarrow> unat n \<le> 9 \<Longrightarrow>
   tw_convert_str_to_int ds n = Ret (of_nat (dec_val ds))"
  using str_to_int_loop_dec[of ds n "unat n"] by (simp add: tw_convert_str_to_int_def dec_val_def)


section \<open>Dotted addresses: lemmas\<close>


lemma cstr_at_nth: "i < length str \<Longrightarrow> cstr_at str (int i) = Ret (str ! i)"
  by (simp add: cstr_at_def)

lemma zero_char [simp]: "isdigit (CHR ''0'')" "digit_val (CHR ''0'') = 0"
  by (simp_all add: isdigit_def digit_val_def)

lemma dec_val_pad: "dec_val (CHR ''0'' # ds) = dec_val ds"
  by (simp add: dec_val_Cons)

lemma conv3:
  "isdigit a \<Longrightarrow> isdigit b \<Longrightarrow> isdigit c \<Longrightarrow>
   tw_convert_str_to_int [a, b, c] 3 = Ret (of_nat (dec_val [a, b, c]))"
  by (rule tw_convert_str_to_int_dec) simp_all

lemma ucast_of_nat_8: "(ucast (of_nat m :: u64) :: u8) = of_nat m"
  by (rule bit_word_eqI) (auto simp: bit_simps)

lemma ip_octet_digits:
  assumes dig: "\<forall>c\<in>set ds. isdigit c" and len: "1 \<le> length ds" "length ds \<le> 3"
    and lo: "lo + 1 = int (length pre)" and hi: "hi = int (length pre + length ds)"
  shows "ip_octet (pre @ ds @ post) lo hi = Ret (Some (of_nat (dec_val ds)))"
proof -
  have d: "hi - (lo + 1) = int (length ds)" using lo hi by simp
  have at: "cstr_at (pre @ ds @ post) (hi - int k) = Ret (ds ! (length ds - k))"
    if "1 \<le> k" "k \<le> length ds" for k
  proof -
    have "hi - int k = int (length pre + (length ds - k))" using hi that by simp
    then have "cstr_at (pre @ ds @ post) (hi - int k) = Ret ((pre @ ds @ post) ! (length pre + (length ds - k)))"
      using that by (simp only:) (rule cstr_at_nth, simp)
    moreover have "length ds - k < length ds" using that by linarith
    ultimately show ?thesis by (simp only: nth_append_length_plus) (simp add: nth_append)
  qed
  consider a where "ds = [a]" | a b where "ds = [a, b]" | a b c where "ds = [a, b, c]"
    using len by (auto simp: Suc_le_length_iff le_Suc_eq length_Suc_conv numeral_3_eq_3)
  then show ?thesis
  proof cases
    case (1 a)
    then show ?thesis using dig d at[of 1]
      by (simp add: ip_octet_def conv3 ucast_of_nat_8 dec_val_pad Let_def)
  next
    case (2 a b)
    then show ?thesis using dig d at[of 1] at[of 2]
      by (simp add: ip_octet_def conv3 ucast_of_nat_8 dec_val_pad Let_def)
  next
    case (3 a b c)
    then show ?thesis using dig d at[of 1] at[of 2] at[of 3]
      by (simp add: ip_octet_def conv3 ucast_of_nat_8 dec_val_pad Let_def)
  qed
qed

definition dotted :: "string \<Rightarrow> string \<Rightarrow> string \<Rightarrow> string \<Rightarrow> string" where
  "dotted d0 d1 d2 d3 = d0 @ ''.'' @ d1 @ ''.'' @ d2 @ ''.'' @ d3"

lemma positions_dotted:
  assumes "CHR ''.'' \<notin> set d0" "CHR ''.'' \<notin> set d1" "CHR ''.'' \<notin> set d2" "CHR ''.'' \<notin> set d3"
  shows "positions (CHR ''.'') (dotted d0 d1 d2 d3) =
    [length d0, length d0 + length d1 + 1, length d0 + length d1 + length d2 + 2]"
  using assms by (simp add: dotted_def positions_append positions_none positions_hit)

lemma tw_find_char_positions:
  assumes "CHR 0x00 \<notin> set str" "length str < 256" "length (positions c str) = unat n" "length loc = unat n"
  shows "tw_find_char str loc c n = (n, map int (positions c str))"
proof -
  have "find_loop str c (unat n) 0 0 ([] @ loc) =
    (let ps = take (unat n - 0) (filter (\<lambda>k. str ! k = c) [0..<unat (tw_str_len str)])
     in (0 + length ps, [] @ map int ps @ drop (length ps) loc))"
    using assms by (intro find_loop_eq) (simp_all add: tw_str_len_unat positions_def)
  moreover have "take (unat n) (positions c str) = positions c str" using assms(3) by simp
  ultimately show ?thesis
    using assms by (simp add: tw_find_char_def tw_str_len_unat flip: positions_def)
qed


definition octet_lens :: "string \<Rightarrow> string \<Rightarrow> string \<Rightarrow> string \<Rightarrow> int list" where
  "octet_lens d0 d1 d2 d3 = [-1, int (length d0), int (length d0 + length d1 + 1),
     int (length d0 + length d1 + length d2 + 2), int (length (dotted d0 d1 d2 d3))]"

definition plain_octet :: "string \<Rightarrow> bool" where
  "plain_octet d \<longleftrightarrow> CHR ''.'' \<notin> set d \<and> CHR 0x00 \<notin> set d"

lemma iparr_dotted:
  assumes "plain_octet d0" "plain_octet d1" "plain_octet d2" "plain_octet d3"
    and "length (dotted d0 d1 d2 d3) < 256" and "length junk = 3"
  shows "tw_convert_str_to_iparr junk (dotted d0 d1 d2 d3) ipVar =
    iparr_loop (dotted d0 d1 d2 d3) (octet_lens d0 d1 d2 d3) 0 ipVar"
proof -
  have pos: "positions (CHR ''.'') (dotted d0 d1 d2 d3) =
      [length d0, length d0 + length d1 + 1, length d0 + length d1 + length d2 + 2]"
    using assms by (intro positions_dotted) (auto simp: plain_octet_def)
  have nul: "CHR 0x00 \<notin> set (dotted d0 d1 d2 d3)"
    using assms by (auto simp: dotted_def plain_octet_def)
  have "tw_find_char (dotted d0 d1 d2 d3) junk (CHR ''.'') 3 =
      (3, map int (positions (CHR ''.'') (dotted d0 d1 d2 d3)))"
    using nul assms(5,6) pos by (intro tw_find_char_positions) simp_all
  then show ?thesis
    using tw_str_len_unat[OF nul assms(5)] pos
    by (simp add: tw_convert_str_to_iparr_def octet_lens_def Let_def)
qed

definition digit_octet :: "string \<Rightarrow> bool" where
  "digit_octet d \<longleftrightarrow> (\<forall>c\<in>set d. isdigit c) \<and> 1 \<le> length d \<and> length d \<le> 3"

lemma digit_octet_plain: "digit_octet d \<Longrightarrow> plain_octet d"
  by (auto simp: digit_octet_def plain_octet_def isdigit_def)

lemma ip_octets_digits:
  assumes "digit_octet d0" "digit_octet d1" "digit_octet d2" "digit_octet d3"
  shows
    "ip_octet (dotted d0 d1 d2 d3) (-1) (int (length d0)) = Ret (Some (of_nat (dec_val d0)))"
    "ip_octet (dotted d0 d1 d2 d3) (int (length d0)) (int (length d0 + length d1 + 1)) =
       Ret (Some (of_nat (dec_val d1)))"
    "ip_octet (dotted d0 d1 d2 d3) (int (length d0 + length d1 + 1))
       (int (length d0 + length d1 + length d2 + 2)) = Ret (Some (of_nat (dec_val d2)))"
    "ip_octet (dotted d0 d1 d2 d3) (int (length d0 + length d1 + length d2 + 2))
       (int (length (dotted d0 d1 d2 d3))) = Ret (Some (of_nat (dec_val d3)))"
  using assms
    ip_octet_digits[of d0 "-1" "[]" "int (length d0)" "''.'' @ d1 @ ''.'' @ d2 @ ''.'' @ d3"]
    ip_octet_digits[of d1 "int (length d0)" "d0 @ ''.''" "int (length d0 + length d1 + 1)" "''.'' @ d2 @ ''.'' @ d3"]
    ip_octet_digits[of d2 "int (length d0 + length d1 + 1)" "d0 @ ''.'' @ d1 @ ''.''"
      "int (length d0 + length d1 + length d2 + 2)" "''.'' @ d3"]
    ip_octet_digits[of d3 "int (length d0 + length d1 + length d2 + 2)" "d0 @ ''.'' @ d1 @ ''.'' @ d2 @ ''.''"
      "int (length (dotted d0 d1 d2 d3))" "[]"]
  by (simp_all add: digit_octet_def dotted_def)

lemma convert_ip_dotted:
  assumes "digit_octet d0" "digit_octet d1" "digit_octet d2" "digit_octet d3" and "length junk = 3"
  shows "tw_convert_ip_str_to_dec junk (dotted d0 d1 d2 d3) = Ret (tw_ip_arr_to_dec
    [of_nat (dec_val d0), of_nat (dec_val d1), of_nat (dec_val d2), of_nat (dec_val d3)])"
proof -
  have "length (dotted d0 d1 d2 d3) < 256"
    using assms by (simp add: dotted_def digit_octet_def)
  then have "tw_convert_str_to_iparr junk (dotted d0 d1 d2 d3) [0, 0, 0, 0] =
      iparr_loop (dotted d0 d1 d2 d3) (octet_lens d0 d1 d2 d3) 0 [0, 0, 0, 0]"
    using assms by (intro iparr_dotted) (simp_all add: digit_octet_plain)
  also have "\<dots> = Ret (1, [of_nat (dec_val d0), of_nat (dec_val d1), of_nat (dec_val d2), of_nat (dec_val d3)])"
    unfolding octet_lens_def using ip_octets_digits[OF assms(1-4)] by simp
  finally show ?thesis by (simp add: tw_convert_ip_str_to_dec_def)
qed


text \<open>An octet text that is empty or longer than three characters makes the conversion fail.\<close>

lemma conv3_total: "\<exists>v. tw_convert_str_to_int [a, b, c] 3 = Ret v"
proof -
  have u: "unat (3 :: u8) = Suc (Suc (Suc 0))" by simp
  show ?thesis unfolding tw_convert_str_to_int_def u by (simp add: cstr_at_def)
qed

lemma ip_octet_bad:
  "length d = 0 \<or> 3 < length d \<Longrightarrow> hi - (lo + 1) = int (length d) \<Longrightarrow> ip_octet value lo hi = Ret None"
  by (auto simp: ip_octet_def)

lemma ip_octet_total:
  assumes "0 \<le> lo + 1" and "hi \<le> int (length value)" and "lo < hi"
  shows "\<exists>r. ip_octet value lo hi = Ret r"
proof -
  have at: "\<exists>ch. cstr_at value (hi - k) = Ret ch" if "1 \<le> k" "k \<le> hi - (lo + 1)" for k
    using assms that by (auto simp: cstr_at_def)
  have fin: "\<exists>r. obnd (tw_convert_str_to_int [a, b, c] 3) (\<lambda>v. Ret (Some (ucast v :: u8))) = Ret r" for a b c
    using conv3_total[of a b c] by auto
  consider "hi - (lo + 1) = 1" | "hi - (lo + 1) = 2" | "hi - (lo + 1) = 3"
    | "hi - (lo + 1) \<noteq> 1" "hi - (lo + 1) \<noteq> 2" "hi - (lo + 1) \<noteq> 3" by blast
  then show ?thesis
  proof cases
    case 1
    then show ?thesis using at[of 1] fin by (auto simp: ip_octet_def Let_def)
  next
    case 2
    then show ?thesis using at[of 1] at[of 2] fin by (auto simp: ip_octet_def Let_def)
  next
    case 3
    then show ?thesis using at[of 1] at[of 2] at[of 3] fin by (auto simp: ip_octet_def Let_def)
  next
    case 4
    then show ?thesis by (simp add: ip_octet_def Let_def)
  qed
qed

lemma iparr_loop_Cons_total:
  assumes "\<exists>r. ip_octet value lo hi = Ret r"
    and "\<And>v. \<exists>a. iparr_loop value (hi # ip) (Suc n) (ipVar[n := v]) = Ret (0, a)"
  shows "\<exists>a. iparr_loop value (lo # hi # ip) n ipVar = Ret (0, a)"
  using assms by (auto split: option.splits)

lemma iparr_loop_bad:
  "ip_octet value lo hi = Ret None \<Longrightarrow> \<exists>a. iparr_loop value (lo # hi # ip) n ipVar = Ret (0, a)"
  by simp

section \<open>Printing, as the C library does\<close>

text \<open>The dotted decimal text of an address, \<open>%d.%d.%d.%d\<close> on its four octets.\<close>

definition digit_char :: "nat \<Rightarrow> char" where
  "digit_char d = char_of (48 + d)"

fun dec_str :: "nat \<Rightarrow> string" where
  "dec_str n = (if n < 10 then [digit_char n] else dec_str (n div 10) @ [digit_char (n mod 10)])"

declare dec_str.simps [simp del]

definition ip_text :: "u32 \<Rightarrow> string" where
  "ip_text ip = (let b = (\<lambda>k. dec_str (unat (tw_ip_dec_to_arr ip ! k)))
                   in dotted (b 0) (b 1) (b 2) (b 3))"

lemma digit_char_val [simp]: "d < 10 \<Longrightarrow> digit_val (digit_char d) = d" "d < 10 \<Longrightarrow> isdigit (digit_char d)"
  by (simp_all add: digit_char_def digit_val_def isdigit_def)

lemma dec_str_digits: "\<forall>c\<in>set (dec_str n). isdigit c"
  by (induction n rule: dec_str.induct) (subst dec_str.simps, auto)

lemma dec_val_dec_str: "dec_val (dec_str n) = n"
proof (induction n rule: dec_str.induct)
  case (1 n)
  show ?case
  proof (cases "n < 10")
    case True
    then show ?thesis by (subst dec_str.simps) (simp add: dec_val_def)
  next
    case False
    with 1 have "dec_val (dec_str (n div 10)) = n div 10" by blast
    with False show ?thesis by (subst dec_str.simps) (simp add: dec_val_snoc)
  qed
qed

lemma length_dec_str: "n < 1000 \<Longrightarrow> 1 \<le> length (dec_str n) \<and> length (dec_str n) \<le> 3"
proof -
  assume n: "n < 1000"
  have "length (dec_str k) \<le> 1" if "k < 10" for k using that by (subst dec_str.simps) simp
  then have "length (dec_str k) \<le> 2" if "k < 100" for k
    using that by (subst dec_str.simps) (auto simp: less_mult_imp_div_less)
  then have "length (dec_str n) \<le> 3"
    using n by (subst dec_str.simps) (auto simp: less_mult_imp_div_less)
  moreover have "dec_str n \<noteq> []" by (subst dec_str.simps) simp
  ultimately show ?thesis by (simp add: Suc_le_eq)
qed

lemma digit_octet_dec_str: "n < 1000 \<Longrightarrow> digit_octet (dec_str n)"
  using length_dec_str dec_str_digits by (auto simp: digit_octet_def)

lemma tw_ip_arr_to_dec_or:
  "tw_ip_arr_to_dec [a, b, c, d] =
     push_bit 24 (ucast a) OR push_bit 16 (ucast b) OR push_bit 8 (ucast c) OR ucast d"
proof -
  have 1: "(push_bit 24 (ucast a) :: u32) + push_bit 16 (ucast b) = push_bit 24 (ucast a) OR push_bit 16 (ucast b)"
    by (rule disjunctive_add) (auto simp: bit_simps dest: bit_imp_le_length)
  have 2: "(push_bit 24 (ucast a) OR push_bit 16 (ucast b) :: u32) + push_bit 8 (ucast c) =
      push_bit 24 (ucast a) OR push_bit 16 (ucast b) OR push_bit 8 (ucast c)"
    by (subst disjunctive_add) (auto simp: bit_simps or.assoc dest: bit_imp_le_length)
  have 3: "(push_bit 24 (ucast a) OR push_bit 16 (ucast b) OR push_bit 8 (ucast c) :: u32) + ucast d =
      push_bit 24 (ucast a) OR push_bit 16 (ucast b) OR push_bit 8 (ucast c) OR ucast d"
    by (subst disjunctive_add) (auto simp: bit_simps or.assoc dest: bit_imp_le_length)
  show ?thesis by (simp add: tw_ip_arr_to_dec_def 1 2 3)
qed

lemma tw_ip_arr_dec_id: "tw_ip_arr_to_dec (tw_ip_dec_to_arr ip) = ip"
  using bytes32_join[of ip] by (simp add: tw_ip_dec_to_arr_def tw_ip_arr_to_dec_or ac_simps)

lemma tw_ip_dec_arr_id: "tw_ip_dec_to_arr (tw_ip_arr_to_dec [a, b, c, d]) = [a, b, c, d]"
proof -
  let ?w = "push_bit 24 (ucast a) OR push_bit 16 (ucast b) OR push_bit 8 (ucast c) OR ucast d :: u32"
  have "ucast (drop_bit 24 ?w) = a" "ucast (drop_bit 16 ?w) = b" "ucast (drop_bit 8 ?w) = c" "ucast ?w = d"
    by (rule bit_word_eqI, auto simp: bit_simps dest: bit_imp_le_length)+
  then show ?thesis by (simp add: tw_ip_arr_to_dec_or tw_ip_dec_to_arr_def)
qed

section \<open>Hexadecimal numbers: lemmas\<close>

definition is_hex_lower :: "char \<Rightarrow> bool" where
  "is_hex_lower c \<longleftrightarrow> isdigit c \<or> (97::nat) \<le> of_char c \<and> of_char c \<le> (102::nat)"

definition hex_digit_val :: "char \<Rightarrow> nat" where
  "hex_digit_val c = (if isdigit c then of_char c - 48 else of_char c - 87)"

lemma schar_ascii: "of_char c < (128::nat) \<Longrightarrow> schar c = int (of_char c)"
proof -
  assume k: "of_char c < (128::nat)"
  define k where "k = (of_char c :: nat)"
  have u: "(of_char c :: u8) = of_nat k" by (simp add: k_def of_nat_of_char)
  show ?thesis using k unfolding schar_def u
    by (simp add: k_def[symmetric] sint_uint uint_nat unat_of_nat signed_take_bit_int_eq_self)
qed

lemma hex_element_lower:
  assumes "is_hex_lower c"
  shows "hex_element c = of_nat (hex_digit_val c) \<and> hex_digit_val c < 16"
proof (cases "isdigit c")
  case True
  then have "(48::nat) \<le> of_char c" "of_char c \<le> (57::nat)" by (simp_all add: isdigit_def)
  then show ?thesis using True
    by (simp add: hex_element_def schar_ascii hex_digit_val_def of_nat_diff)
next
  case False
  then have "(97::nat) \<le> of_char c" "of_char c \<le> (102::nat)" using assms by (auto simp: is_hex_lower_def)
  then show ?thesis using False
    by (simp add: hex_element_def schar_ascii hex_digit_val_def of_nat_diff)
qed

definition hex_val :: "string \<Rightarrow> nat" where
  "hex_val ds = foldl (\<lambda>v c. 16 * v + hex_digit_val c) 0 ds"

lemma hex_val_Cons: "hex_val (d # ds) = hex_digit_val d * 16 ^ length ds + hex_val ds"
  by (induction ds rule: rev_induct) (simp_all add: hex_val_def)

lemma hex_shift:
  "k < 16 \<Longrightarrow> push_bit (4 * m) (ucast (of_nat k :: u8) :: u32) = of_nat (k * 16 ^ m)"
  by (simp add: unsigned_of_nat take_bit_nat_eq_self push_bit_eq_mult power_mult)

lemma str_to_hex_loop_val:
  assumes "\<forall>c\<in>set hs. is_hex_lower c" and "length hs = unat len" and "unat len \<le> 8" and "n \<le> unat len"
  shows "str_to_hex_loop hs len n (of_nat (hex_val (drop n hs))) = Ret (of_nat (hex_val hs))"
  using assms(4)
proof (induction n)
  case 0
  then show ?case by simp
next
  case (Suc n)
  then have n: "n < length hs" using assms(2) by simp
  have d: "hex_val (drop n hs) = hex_digit_val (hs ! n) * 16 ^ (unat len - n - 1) + hex_val (drop (Suc n) hs)"
    using hex_val_Cons[of "hs ! n" "drop (Suc n) hs"] n assms(2) by (simp add: Cons_nth_drop_Suc)
  have hx: "hex_element (hs ! n) = of_nat (hex_digit_val (hs ! n))" "hex_digit_val (hs ! n) < 16"
    using hex_element_lower[of "hs ! n"] assms(1) n by auto
  have "4 * (unat len - n - 1) < 32" using assms(3) Suc.prems by linarith
  moreover have "cstr_at hs (int n) = Ret (hs ! n)" using n by (simp add: cstr_at_def)
  moreover have "of_nat (hex_val (drop (Suc n) hs)) + push_bit (4 * (unat len - n - 1)) (ucast (hex_element (hs ! n)) :: u32) =
      of_nat (hex_val (drop n hs))"
    unfolding hx(1) hex_shift[OF hx(2)] d by (simp only: of_nat_add add.commute)
  ultimately have "str_to_hex_loop hs len (Suc n) (of_nat (hex_val (drop (Suc n) hs))) =
      str_to_hex_loop hs len n (of_nat (hex_val (drop n hs)))"
    by (simp only: str_to_hex_loop.simps obnd_simps Let_def if_True)
  then show ?case using Suc by simp
qed

lemma hex_val_bound: "\<forall>c\<in>set hs. is_hex_lower c \<Longrightarrow> hex_val hs < 16 ^ length hs"
proof (induction hs)
  case Nil
  then show ?case by (simp add: hex_val_def)
next
  case (Cons h hs)
  then have "hex_digit_val h \<le> 15" "hex_val hs < 16 ^ length hs" using hex_element_lower[of h] by auto
  moreover from this(1) have "hex_digit_val h * 16 ^ length hs \<le> 15 * 16 ^ length hs" by (rule mult_right_mono) simp
  ultimately show ?case unfolding hex_val_Cons length_Cons power_Suc by linarith
qed

section \<open>Numbers in a text\<close>

lemma parse_int_no_digits: "\<forall>c\<in>set p. \<not> isdigit c \<Longrightarrow> parse_int_loop p val = val"
  by (induction p) (simp_all add: parse_int_loop.simps)

lemma dropWhile_digits: "\<forall>c\<in>set ds. isdigit c \<Longrightarrow> \<forall>c\<in>set post. \<not> isdigit c \<Longrightarrow>
   takeWhile isdigit (ds @ post) = ds \<and> dropWhile isdigit (ds @ post) = post"
  by (induction ds) (cases post; simp)+

lemma dropWhile_append_nondigit:
  "pre \<noteq> [] \<Longrightarrow> \<not> isdigit (last pre) \<Longrightarrow>
   \<exists>pre'. dropWhile isdigit (pre @ q) = pre' @ q \<and> pre' \<noteq> [] \<and> \<not> isdigit (last pre')"
  by (induction pre) (auto split: if_splits)

lemma parse_int_last_run:
  assumes "\<forall>c\<in>set ds. isdigit c" "ds \<noteq> []" "\<forall>c\<in>set post. \<not> isdigit c"
    and "pre = [] \<or> \<not> isdigit (last pre)"
  shows "parse_int_loop (pre @ ds @ post) val = word_of_int (min (int (dec_val ds)) (2 ^ 63 - 1))"
  using assms(4)
proof (induction "length pre" arbitrary: pre val rule: less_induct)
  case less
  show ?case
  proof (cases pre)
    case Nil
    obtain c cs where ds: "ds = c # cs" using assms(2) by (cases ds) auto
    with assms dropWhile_digits[OF assms(1,3)] show ?thesis
      by (subst parse_int_loop.simps) (simp add: Nil strtol10_def parse_int_no_digits)
  next
    case (Cons c cs)
    with less.prems have nd: "\<not> isdigit (last pre)" by simp
    show ?thesis
    proof (cases "isdigit c")
      case True
      with nd Cons have cs: "cs \<noteq> []" "\<not> isdigit (last cs)" by (auto split: if_splits)
      then obtain pre' where p: "dropWhile isdigit (cs @ ds @ post) = pre' @ ds @ post"
          "pre' \<noteq> []" "\<not> isdigit (last pre')"
        using dropWhile_append_nondigit by blast
      have "length (pre' @ ds @ post) \<le> length (cs @ ds @ post)"
        using p(1) length_dropWhile_le by metis
      then have "length pre' < length pre" using Cons by simp
      with less.hyps p True show ?thesis
        by (subst parse_int_loop.simps) (simp add: Cons strtol10_def)
    next
      case False
      with nd Cons have "cs = [] \<or> \<not> isdigit (last cs)" by auto
      with less.hyps[of cs] False show ?thesis
        by (subst parse_int_loop.simps) (simp add: Cons)
    qed
  qed
qed

lemma convert_ip_text:
  assumes "length junk = 3"
  shows "tw_convert_ip_str_to_dec junk (ip_text ip) = Ret ip"
proof -
  have lt: "unat (b :: u8) < 1000" for b by (rule order.strict_trans[OF unsigned_less]) simp
  have "tw_convert_ip_str_to_dec junk (ip_text ip) = Ret (tw_ip_arr_to_dec (tw_ip_dec_to_arr ip))"
    unfolding ip_text_def Let_def using assms lt
    by (subst convert_ip_dotted) (simp_all add: digit_octet_dec_str dec_val_dec_str tw_ip_dec_to_arr_def)
  then show ?thesis by (simp add: tw_ip_arr_dec_id)
qed

section \<open>Properties\<close>

text \<open>
  C39. Round trip of addresses: \<open>tw_convert_ip_str_to_dec\<close> applied to the dotted decimal text of
  any 32-bit address returns that address, whatever the uninitialised stack cells of
  \<open>tw_convert_str_to_iparr\<close> held before the call.
\<close>

theorem convert_ip_roundtrip:
  assumes "length junk = 3"
  shows "tw_convert_ip_str_to_dec junk (ip_text ip) = Ret ip"
  using assms by (rule convert_ip_text)

theorem convert_ip_roundtrip_witness:
  "tw_convert_ip_str_to_dec [77, - 4, 0] (ip_text 0xC0A80001) = Ret 0xC0A80001"
  by (rule convert_ip_roundtrip) simp

text \<open>
  Malformed octets: for a text of four dot-separated parts, \<open>tw_convert_ip_str_to_dec\<close> returns 0
  as soon as one part is empty or longer than three characters, and it never reads outside the text.
\<close>

theorem convert_ip_bad_octet:
  assumes plain: "plain_octet d0" "plain_octet d1" "plain_octet d2" "plain_octet d3"
    and len: "length (dotted d0 d1 d2 d3) < 256" and junk: "length junk = 3"
    and bad: "\<exists>d\<in>set [d0, d1, d2, d3]. length d = 0 \<or> 3 < length d"
  shows "tw_convert_ip_str_to_dec junk (dotted d0 d1 d2 d3) = Ret 0"
proof -
  let ?v = "dotted d0 d1 d2 d3"
  let ?p1 = "int (length d0)" and ?p2 = "int (length d0 + length d1 + 1)"
  let ?p3 = "int (length d0 + length d1 + length d2 + 2)" and ?p4 = "int (length ?v)"
  have L: "length ?v = length d0 + length d1 + length d2 + length d3 + 3" by (simp add: dotted_def)
  note tot = ip_octet_total[of _ _ ?v]
  have b3: "\<exists>a. iparr_loop ?v [?p3, ?p4] n ipVar = Ret (0, a)" if "length d3 = 0 \<or> 3 < length d3" for n ipVar
    using that by (intro iparr_loop_bad ip_octet_bad[of d3]) (simp_all add: L)
  have b2: "\<exists>a. iparr_loop ?v [?p2, ?p3, ?p4] n ipVar = Ret (0, a)"
    if "\<exists>d\<in>set [d2, d3]. length d = 0 \<or> 3 < length d" for n ipVar
  proof (cases "length d2 = 0 \<or> 3 < length d2")
    case True
    then show ?thesis by (intro iparr_loop_bad ip_octet_bad[of d2]) simp_all
  next
    case False
    with that show ?thesis by (intro iparr_loop_Cons_total tot b3) (auto simp: L)
  qed
  have b1: "\<exists>a. iparr_loop ?v [?p1, ?p2, ?p3, ?p4] n ipVar = Ret (0, a)"
    if "\<exists>d\<in>set [d1, d2, d3]. length d = 0 \<or> 3 < length d" for n ipVar
  proof (cases "length d1 = 0 \<or> 3 < length d1")
    case True
    then show ?thesis by (intro iparr_loop_bad ip_octet_bad[of d1]) simp_all
  next
    case False
    with that show ?thesis by (intro iparr_loop_Cons_total tot b2) (auto simp: L)
  qed
  have "\<exists>a. iparr_loop ?v (octet_lens d0 d1 d2 d3) 0 [0, 0, 0, 0] = Ret (0, a)"
  proof (cases "length d0 = 0 \<or> 3 < length d0")
    case True
    then show ?thesis unfolding octet_lens_def by (intro iparr_loop_bad ip_octet_bad[of d0]) simp_all
  next
    case False
    with bad show ?thesis unfolding octet_lens_def by (intro iparr_loop_Cons_total tot b1) (auto simp: L)
  qed
  then show ?thesis
    using iparr_dotted[OF plain len junk] by (auto simp: tw_convert_ip_str_to_dec_def)
qed

theorem convert_ip_bad_octet_witness:
  "tw_convert_ip_str_to_dec [1, 2, 3] (dotted ''10'' ''1234'' ''0'' ''1'') = Ret 0"
  by (rule convert_ip_bad_octet) (simp_all add: plain_octet_def dotted_def)

text \<open>
  Hexadecimal input: \<open>tw_convert_str_to_hex\<close> returns the value of a text of at most eight
  digits and lower-case letters \<open>a\<close> to \<open>f\<close>, without an undefined shift and without wrap-around.
\<close>

theorem convert_hex_value:
  assumes "\<forall>c\<in>set hs. is_hex_lower c" and "length hs = unat len" and "unat len \<le> 8"
  shows "tw_convert_str_to_hex hs len = Ret (of_nat (hex_val hs)) \<and> hex_val hs < 2 ^ 32"
proof -
  have "hex_val hs < 16 ^ length hs" using assms(1) by (rule hex_val_bound)
  also have "\<dots> \<le> 16 ^ 8" using assms by (intro power_increasing) simp_all
  finally show ?thesis
    using str_to_hex_loop_val[OF assms, of "unat len"] assms(2)
    by (simp add: tw_convert_str_to_hex_def hex_val_def)
qed

theorem convert_hex_value_witness:
  "tw_convert_str_to_hex ''c0a80001'' 8 = Ret 0xC0A80001"
  using convert_hex_value[of "''c0a80001''" 8]
  by (simp add: is_hex_lower_def isdigit_def hex_val_def hex_digit_val_def)

text \<open>
  \<open>tw_parse_int_from_string\<close> returns the last run of decimal digits of its argument, reduced
  modulo 256 by the 8-bit result type, whatever stands before and after it.
\<close>

theorem parse_int_last_number:
  assumes "\<forall>c\<in>set ds. isdigit c" "ds \<noteq> []" "\<forall>c\<in>set post. \<not> isdigit c"
    and "pre = [] \<or> \<not> isdigit (last pre)" and "dec_val ds < 2 ^ 63"
  shows "tw_parse_int_from_string (pre @ ds @ post) = of_nat (dec_val ds)"
proof -
  have "int (dec_val ds) \<le> 2 ^ 63 - 1" using assms(5) by simp
  then show ?thesis
    using parse_int_last_run[OF assms(1-4)] by (simp add: tw_parse_int_from_string_def min_absorb1)
qed

theorem parse_int_last_number_witness:
  "tw_parse_int_from_string (''cpu12-'' @ ''7'' @ ''x'') = 7"
  using parse_int_last_number[of "''7''" "''x''" "''cpu12-''"]
  by (simp add: isdigit_def dec_val_def digit_val_def)
end
