(* ===== verification/LcoreConf.thy ===== *)
theory LcoreConf
  imports PortConf CommonConv
begin

text \<open>
  \<open>twister/coremgmt\<close>: the table of processing engines (one per logical core), its initialisation,
  the lookup of an engine by name and the assignment of ports to engines. Which cores are enabled
  and on which socket they sit is answered by the EAL and taken as arguments.
\<close>

section \<open>struct mbuf\_table and struct lcore\_conf\<close>

record mbuf_table =
  mt_len :: int
  m_table :: "ptr list"
  mt_portid :: u8

record lcore_conf =
  core_name :: string
  core_id_external :: u8
  core_socket_id :: u8
  core_rx :: u8
  core_tx :: u8
  core_working :: u8
  num_port :: u8
  managed_port :: "u8 list"
  tx_mbufs :: "mbuf_table list"

record lcores = ports +
  lcore_confs :: "lcore_conf list"

abbreviation "MAX_LCORES \<equiv> (16 :: nat)"
abbreviation "MAX_TX_PKT_BURST \<equiv> (32 :: nat)"

section \<open>lcoreconf.c\<close>

definition tw_engine_name_to_lcore_id :: "string \<Rightarrow> 'a lcores_scheme \<Rightarrow> int" where
  "tw_engine_name_to_lcore_id engineName s = name_loop engineName (map core_name (lcore_confs s)) 0 (- 1)"

text \<open>\<open>sprintf(engine_string, "engine%d", n)\<close>\<close>

definition engine_string :: "nat \<Rightarrow> string" where
  "engine_string n = ''engine'' @ dec_str n"

definition init_lcore :: "u8 \<Rightarrow> u8 \<Rightarrow> lcore_conf \<Rightarrow> lcore_conf" where
  "init_lcore cnt cpuid c =
     c\<lparr>core_id_external := cnt, core_name := engine_string (unat cnt), core_socket_id := cpuid,
       core_rx := 1, core_tx := 1, core_working := 1, num_port := 0\<rparr>"

definition numa_update :: "u8 \<Rightarrow> u8 \<Rightarrow> u8" where
  "numa_update cpuid num = (if unat cpuid + 1 \<ge> unat num then cpuid else num)"

primrec lcore_loop :: "(nat \<Rightarrow> bool) \<Rightarrow> (nat \<Rightarrow> u8) \<Rightarrow> nat list \<Rightarrow> u8 \<Rightarrow> 'a lcores_scheme \<Rightarrow> 'a lcores_scheme" where
  "lcore_loop enabled socket [] cnt s = s"
| "lcore_loop enabled socket (l # ls) cnt s =
     (if enabled l then
        lcore_loop enabled socket ls (cnt + 1)
          (s\<lparr>lcore_confs := (lcore_confs s)[l := init_lcore cnt (socket l) (lcore_confs s ! l)],
             num_numa_sockets := numa_update (socket l) (num_numa_sockets s)\<rparr>)
      else lcore_loop enabled socket ls cnt s)"

definition tw_lcore_conf_init :: "(nat \<Rightarrow> bool) \<Rightarrow> (nat \<Rightarrow> u8) \<Rightarrow> 'a lcores_scheme \<Rightarrow> 'a lcores_scheme" where
  "tw_lcore_conf_init enabled socket s = lcore_loop enabled socket [0..<MAX_LCORES] 0 s"

definition tw_map_port_to_engine :: "string \<Rightarrow> string \<Rightarrow> ('a lcores_scheme, int) act" where
  "tw_map_port_to_engine portName coreName = (\<lambda>s.
     let p = tw_eth_name_to_id portName s; e = tw_engine_name_to_lcore_id coreName s in
     if p \<noteq> - 1 \<and> e \<noteq> - 1 then
       let c = lcore_confs s ! nat e in
       if unat (num_port c) < length (managed_port c)
       then Some (Ret (0, s\<lparr>lcore_confs := (lcore_confs s)[nat e :=
              c\<lparr>managed_port := (managed_port c)[unat (num_port c) := word_of_int p], num_port := num_port c + 1\<rparr>]\<rparr>))
       else Some (Fault OutOfBounds)
     else Some (Ret (0, s)))"

section \<open>processing\_engines.c\<close>

text \<open>\<open>rte_eal_remote_launch\<close> takes an unsigned core number: an unknown engine is core \<open>2 ^ 32 - 1\<close>.\<close>

definition tw_launch_engine :: "(u32 \<Rightarrow> ('a lcores_scheme, unit) act) \<Rightarrow> string \<Rightarrow> ('a lcores_scheme, unit) act" where
  "tw_launch_engine launch engine_name = (\<lambda>s. launch (word_of_int (tw_engine_name_to_lcore_id engine_name s)) s)"

definition tw_current_engine :: "'a hw_scheme \<Rightarrow> nat" where
  "tw_current_engine s = lcore_id s"

section \<open>Lemmas\<close>

definition managed :: "lcore_conf \<Rightarrow> u8 list" where
  "managed c = take (unat (num_port c)) (managed_port c)"

lemma engine_string_inj: "engine_string m = engine_string n \<longleftrightarrow> m = n"
  by (metis dec_val_dec_str engine_string_def same_append_eq)

lemma lcore_loop_ok:
  assumes "distinct ls" and "set ls \<subseteq> {..<length (lcore_confs s)}" and "unat cnt + length ls < 256"
  shows "let s' = lcore_loop enabled socket ls cnt s; es = filter enabled ls in
    length (lcore_confs s') = length (lcore_confs s) \<and>
    (\<forall>r < length es. lcore_confs s' ! (es ! r) =
       init_lcore (cnt + of_nat r) (socket (es ! r)) (lcore_confs s ! (es ! r))) \<and>
    (\<forall>l. l \<notin> set es \<longrightarrow> lcore_confs s' ! l = lcore_confs s ! l)"
  using assms
proof (induction ls arbitrary: cnt s)
  case Nil
  then show ?case by simp
next
  case (Cons l ls)
  show ?case
  proof (cases "enabled l")
    case False
    then show ?thesis using Cons by simp
  next
    case True
    let ?s1 = "s\<lparr>lcore_confs := (lcore_confs s)[l := init_lcore cnt (socket l) (lcore_confs s ! l)],
             num_numa_sockets := numa_update (socket l) (num_numa_sockets s)\<rparr>"
    let ?es = "filter enabled ls" and ?s' = "lcore_loop enabled socket ls (cnt + 1) ?s1"
    have "unat (cnt + 1) = unat cnt + 1" using Cons.prems(3) by (simp add: unat_word_ariths)
    then have IH: "length (lcore_confs ?s') = length (lcore_confs s)"
      "\<And>r. r < length ?es \<Longrightarrow> lcore_confs ?s' ! (?es ! r) =
         init_lcore (cnt + 1 + of_nat r) (socket (?es ! r)) (lcore_confs ?s1 ! (?es ! r))"
      "\<And>k. k \<notin> set ?es \<Longrightarrow> lcore_confs ?s' ! k = lcore_confs ?s1 ! k"
      using Cons.IH[of ?s1 "cnt + 1"] Cons.prems by (auto simp: Let_def)
    have l: "l \<notin> set ls" "l < length (lcore_confs s)" using Cons.prems by auto
    have es_l: "?es ! r \<noteq> l" if "r < length ?es" for r using that l(1) nth_mem[OF that] by auto
    show ?thesis
      using True IH l es_l by (auto simp: Let_def nth_Cons nth_list_update add.assoc split: nat.splits)
  qed
qed

section \<open>Properties\<close>

text \<open>
  Engine names: after \<open>tw_lcore_conf_init\<close> on a table with no names, the name
  \<open>engine\<close>\<open>k\<close> resolves to the \<open>k\<close>-th enabled core, for every \<open>k\<close> below the number of enabled cores.
\<close>

theorem engine_names_resolve:
  assumes "length (lcore_confs s) = MAX_LCORES" and "\<forall>c\<in>set (lcore_confs s). core_name c = []"
    and "k < length (filter enabled [0..<MAX_LCORES])"
  shows "tw_engine_name_to_lcore_id (engine_string k) (tw_lcore_conf_init enabled socket s) =
    int (filter enabled [0..<MAX_LCORES] ! k)"
proof -
  define es where "es = filter enabled [0..<MAX_LCORES]"
  define s' where "s' = tw_lcore_conf_init enabled socket s"
  define ns where "ns = map core_name (lcore_confs s')"
  have init: "length (lcore_confs s') = 16"
    "\<And>r. r < length es \<Longrightarrow> lcore_confs s' ! (es ! r) = init_lcore (of_nat r) (socket (es ! r)) (lcore_confs s ! (es ! r))"
    "\<And>l. l \<notin> set es \<Longrightarrow> lcore_confs s' ! l = lcore_confs s ! l"
    using lcore_loop_ok[of "[0..<MAX_LCORES]" s 0 enabled socket] assms(1)
    by (auto simp: Let_def s'_def es_def tw_lcore_conf_init_def atLeast0LessThan)
  have len: "length es \<le> 16" using length_filter_le[of enabled "[0..<16]"] by (simp add: es_def)
  have es16: "\<And>r. r < length es \<Longrightarrow> es ! r < 16" using nth_mem unfolding es_def by fastforce
  have nm: "ns ! (es ! r) = engine_string r" if "r < length es" for r
  proof -
    have "unat (of_nat r :: u8) = r" using that len by (simp add: unat_of_nat)
    then show ?thesis using that init es16 by (simp add: ns_def init_lcore_def)
  qed
  have other: "ns ! l = []" if "l < 16" "l \<notin> set es" for l
    using that init assms(1,2) by (simp add: ns_def)
  have k: "k < length es" using assms(3) by (simp add: es_def)
  have "hits (engine_string k) ns = {es ! k}"
  proof -
    have "i = es ! k" if i: "i < 16" "ns ! i = engine_string k" for i
    proof (cases "i \<in> set es")
      case True
      then obtain r where "r < length es" "i = es ! r" by (metis in_set_conv_nth)
      then show ?thesis using i nm by (simp add: engine_string_inj)
    next
      case False
      then show ?thesis using other i by (simp add: engine_string_def)
    qed
    then show ?thesis using k nm es16 init(1) by (auto simp: hits_def ns_def)
  qed
  moreover from this have "engine_string k \<in> set ns" using hits_empty[of "engine_string k" ns] by simp
  ultimately show ?thesis
    by (simp add: tw_engine_name_to_lcore_id_def name_loop_Max flip: ns_def s'_def es_def)
qed

definition demo_lcore :: lcore_conf where
  "demo_lcore = \<lparr>core_name = [], core_id_external = 0, core_socket_id = 0, core_rx = 0, core_tx = 0,
     core_working = 0, num_port = 0, managed_port = replicate 8 0,
     tx_mbufs = replicate 8 \<lparr>mt_len = 0, m_table = replicate 32 None, mt_portid = 0\<rparr>\<rparr>"

definition demo_lcores :: lcores where
  "demo_lcores = ports.extend demo_ports (lcores.fields (replicate 16 demo_lcore))"

theorem engine_names_resolve_witness:
  "tw_engine_name_to_lcore_id (engine_string 1) (tw_lcore_conf_init odd (\<lambda>_. 0) demo_lcores) = 3"
proof -
  have "filter odd [0..<MAX_LCORES] = [1, 3, 5, 7, 9, 11, 13, 15 :: nat]" by (simp add: upt_rec)
  then show ?thesis
    using engine_names_resolve[of demo_lcores 1 odd "\<lambda>_. 0"]
    by (simp add: demo_lcores_def demo_lcore_def lcores.defs ports.defs)
qed

text \<open>
  Assigning a port: when both names are known and the engine still has a free slot,
  \<open>tw_map_port_to_engine\<close> appends the port to the ports of that engine and changes no other engine;
  a ninth port would be written behind the array.
\<close>

theorem map_port_appends:
  assumes "tw_eth_name_to_id pn s = int p" and "p < 256" and "tw_engine_name_to_lcore_id en s = int e"
    and "e < length (lcore_confs s)" and "length (managed_port (lcore_confs s ! e)) = MAX_ETH_PORTS"
  shows "if unat (num_port (lcore_confs s ! e)) < MAX_ETH_PORTS
    then \<exists>s'. tw_map_port_to_engine pn en s = Some (Ret (0, s')) \<and>
      managed (lcore_confs s' ! e) = managed (lcore_confs s ! e) @ [of_nat p] \<and>
      (\<forall>e'. e' \<noteq> e \<longrightarrow> lcore_confs s' ! e' = lcore_confs s ! e')
    else tw_map_port_to_engine pn en s = Some (Fault OutOfBounds)"
proof (cases "unat (num_port (lcore_confs s ! e)) < 8")
  case True
  then have "unat (num_port (lcore_confs s ! e) + 1) = Suc (unat (num_port (lcore_confs s ! e)))"
    by (simp add: unat_word_ariths)
  with True assms show ?thesis
    by (simp add: tw_map_port_to_engine_def Let_def managed_def take_Suc_conv_app_nth)
qed (use assms in \<open>simp add: tw_map_port_to_engine_def Let_def\<close>)

theorem map_port_appends_witness:
  "\<exists>s'. tw_map_port_to_engine [] (engine_string 0) (tw_lcore_conf_init (\<lambda>l. l = 4) (\<lambda>_. 0) demo_lcores) = Some (Ret (0, s')) \<and>
     managed (lcore_confs s' ! 4) = [7]"
proof -
  let ?s = "tw_lcore_conf_init (\<lambda>l. l = 4) (\<lambda>_. 0) demo_lcores"
  have s: "?s = demo_lcores\<lparr>lcore_confs := (replicate 16 demo_lcore)[4 := init_lcore 0 0 demo_lcore], num_numa_sockets := 0\<rparr>"
    by (simp add: tw_lcore_conf_init_def upt_rec numa_update_def demo_lcores_def lcores.defs ports.defs demo_ports_def
        mempools.defs timers.defs) (simp add: eval_nat_numeral)
  have p: "port_infos ?s = replicate 8 demo_port" unfolding s by (simp add: demo_lcores_def lcores.defs demo_defs)
  have "tw_eth_name_to_id [] ?s = int 7"
    unfolding tw_eth_name_to_id_def p by (simp add: demo_port_def numeral_eq_Suc)
  moreover have "tw_engine_name_to_lcore_id (engine_string 0) ?s = int 4"
    unfolding tw_engine_name_to_lcore_id_def s
    by (simp add: demo_lcore_def numeral_eq_Suc init_lcore_def engine_string_def)
  moreover have "length (lcore_confs ?s) = 16" "lcore_confs ?s ! 4 = init_lcore 0 0 demo_lcore" unfolding s by simp_all
  moreover have "num_port (init_lcore 0 0 demo_lcore) = 0" "length (managed_port (init_lcore 0 0 demo_lcore)) = 8"
    "managed (init_lcore 0 0 demo_lcore) = []"
    by (simp_all add: demo_lcore_def init_lcore_def managed_def)
  ultimately show ?thesis
    using map_port_appends[of "[]" ?s 7 "engine_string 0" 4] by auto
qed

end
