(* ===== verification/LinkedHeap.thy ===== *)
theory LinkedHeap
  imports TwPrelude
begin

text \<open>
  Singly linked lists of heap nodes, the shape of every dynamic table of Twister: the ARP table,
  the packets waiting for an ARP reply, the handles of the event loop, the RTT window of the
  statistics and the routes of the gateway. \<open>seg nxt h p xs q\<close> says that following \<open>next\<close> from
  \<open>p\<close> visits the allocated nodes \<open>xs\<close> and ends at \<open>q\<close>. The locale \<open>linked\<close> is the interface a
  node type provides (its \<open>next\<close> field) and holds the facts the components share.
\<close>

section \<open>Chains of nodes\<close>

primrec seg :: "('n \<Rightarrow> ptr) \<Rightarrow> 'n heap \<Rightarrow> ptr \<Rightarrow> nat list \<Rightarrow> ptr \<Rightarrow> bool" where
  "seg nxt h p [] q \<longleftrightarrow> p = q"
| "seg nxt h p (a # as) q \<longleftrightarrow> p = Some a \<and> (\<exists>n. h a = Some n \<and> seg nxt h (nxt n) as q)"

abbreviation chain :: "('n \<Rightarrow> ptr) \<Rightarrow> 'n heap \<Rightarrow> ptr \<Rightarrow> nat list \<Rightarrow> bool" where
  "chain nxt h p xs \<equiv> seg nxt h p xs None"

text \<open>The loop \<open>while (p->next != NULL) p = p->next;\<close>, which ends at the last node.\<close>

partial_function (option) walk_last :: "('n \<Rightarrow> ptr) \<Rightarrow> 'n heap \<Rightarrow> nat \<Rightarrow> nat res" where
  "walk_last nxt h a = (case h a of
       None \<Rightarrow> Some (Fault WildDeref)
     | Some n \<Rightarrow> (case nxt n of None \<Rightarrow> Some (Ret a) | Some b \<Rightarrow> walk_last nxt h b))"

lemma seg_append: "seg nxt h p (xs @ ys) q \<longleftrightarrow> (\<exists>r. seg nxt h p xs r \<and> seg nxt h r ys q)"
  by (induction xs arbitrary: p) auto

lemma seg_dom: "seg nxt h p xs q \<Longrightarrow> set xs \<subseteq> dom h"
  by (induction xs arbitrary: p) auto

lemma chain_None [simp]: "chain nxt h None xs \<longleftrightarrow> xs = []"
  by (cases xs) auto

lemma chain_unique: "chain nxt h p xs \<Longrightarrow> chain nxt h p ys \<Longrightarrow> xs = ys"
proof (induction xs arbitrary: p ys)
  case Nil
  then show ?case by simp
next
  case (Cons x xs)
  then obtain y ys' where "ys = y # ys'" by (cases ys) auto
  with Cons show ?case by auto
qed

text \<open>A node cannot be reached from its own successor: a chain that ends in NULL has no cycle.\<close>

lemma chain_suffix_unique:
  assumes "chain nxt h p (xs @ a # ys)" and "chain nxt h p (zs @ a # ws)"
  shows "ys = ws"
proof -
  from assms obtain n m where "h a = Some n" "chain nxt h (nxt n) ys" "h a = Some m" "chain nxt h (nxt m) ws"
    by (auto simp: seg_append)
  then show ?thesis by (metis chain_unique option.inject)
qed

lemma chain_distinct: "chain nxt h p xs \<Longrightarrow> distinct xs"
proof (rule ccontr)
  assume c: "chain nxt h p xs" and "\<not> distinct xs"
  then obtain us vs ws a where xs: "xs = us @ a # vs @ a # ws"
    using not_distinct_decomp[of xs] by auto
  have "vs @ a # ws = ws"
    using c chain_suffix_unique[of nxt h p us a "vs @ a # ws" "us @ a # vs" ws] xs by simp
  then have "length (vs @ a # ws) = length ws" by (rule arg_cong)
  then show False by simp
qed

lemma seg_upd_other: "a \<notin> set xs \<Longrightarrow> seg nxt (h(a := v)) p xs q \<longleftrightarrow> seg nxt h p xs q"
  by (induction xs arbitrary: p) auto

lemma seg_heap_cong: "(\<And>a. a \<in> set xs \<Longrightarrow> h a = h' a) \<Longrightarrow> seg nxt h p xs q = seg nxt h' p xs q"
  by (induction xs arbitrary: p) auto

lemma walk_last_chain:
  assumes "chain nxt h (Some a) xs"
  shows "walk_last nxt h a = Some (Ret (last xs))"
  using assms
proof (induction xs arbitrary: a)
  case Nil
  then show ?case by simp
next
  case (Cons x xs)
  then obtain n where x: "x = a" and n: "h a = Some n" and rest: "chain nxt h (nxt n) xs" by auto
  show ?case
  proof (cases "nxt n")
    case None
    with x n rest show ?thesis by (simp add: walk_last.simps)
  next
    case (Some b)
    with rest have "walk_last nxt h b = Some (Ret (last xs))" by (intro Cons.IH) simp
    moreover from Some rest have "xs \<noteq> []" by auto
    ultimately show ?thesis using x n Some by (subst walk_last.simps) simp
  qed
qed

section \<open>Nodes with a \<open>next\<close> field\<close>

locale linked =
  fixes nxt :: "'n \<Rightarrow> ptr" and set_nxt :: "ptr \<Rightarrow> 'n \<Rightarrow> 'n"
  assumes nxt_set_nxt [simp]: "nxt (set_nxt p n) = p"
begin

text \<open>Linking a fresh node behind the last one appends it to the chain.\<close>

lemma append_node:
  assumes c: "chain nxt h p xs" and ne: "xs \<noteq> []" and fresh: "a \<notin> dom h"
    and l: "h (last xs) = Some l" and nd: "nxt nd = None"
  shows "chain nxt (h(last xs \<mapsto> set_nxt (Some a) l, a \<mapsto> nd)) p (xs @ [a])"
proof -
  obtain ys where xs: "xs = ys @ [last xs]" using ne by (metis append_butlast_last_id)
  have dis: "distinct xs" using c by (rule chain_distinct)
  then have notin: "last xs \<notin> set ys" using xs by (metis distinct_append disjoint_iff list.set_intros(1))
  have a_xs: "a \<notin> set xs" using seg_dom[OF c] fresh by auto
  then have a_ys: "a \<notin> set ys" and a_l: "a \<noteq> last xs"
    using xs ne by (metis Un_iff set_append, metis last_in_set)
  from c xs obtain r where pre: "seg nxt h p ys r" and r: "r = Some (last xs)"
    by (metis seg_append seg.simps(2))
  have "seg nxt (h(last xs \<mapsto> set_nxt (Some a) l, a \<mapsto> nd)) p ys (Some (last xs))"
    using pre r notin a_ys by (simp add: seg_upd_other)
  moreover have "chain nxt (h(last xs \<mapsto> set_nxt (Some a) l, a \<mapsto> nd)) (Some (last xs)) [last xs, a]"
    using a_l nd by simp
  ultimately have "chain nxt (h(last xs \<mapsto> set_nxt (Some a) l, a \<mapsto> nd)) p (ys @ [last xs, a])"
    by (auto simp: seg_append)
  moreover have "ys @ [last xs, a] = xs @ [a]" using xs by (metis append.assoc append_Cons append_Nil)
  ultimately show ?thesis by simp
qed

lemma single_node: "nxt nd = None \<Longrightarrow> chain nxt (h(a \<mapsto> nd)) (Some a) [a]"
  by simp

text \<open>Bypassing the nodes \<open>ys\<close> between \<open>x\<close> and \<open>q\<close>: \<open>x->next = q\<close>.\<close>

lemma bypass_nodes:
  assumes c: "chain nxt h p (xs @ x # ys @ zs)" and n: "h x = Some n" and q: "chain nxt h q zs"
  shows "chain nxt (h(x \<mapsto> set_nxt q n)) p (xs @ x # zs)"
proof -
  have d: "distinct (xs @ x # ys @ zs)" using c by (rule chain_distinct)
  from c have "seg nxt h p xs (Some x)" by (auto simp: seg_append)
  then have "seg nxt (h(x \<mapsto> set_nxt q n)) p xs (Some x)" using d by (simp add: seg_upd_other)
  moreover have "chain nxt (h(x \<mapsto> set_nxt q n)) q zs" using d q by (simp add: seg_upd_other)
  ultimately show ?thesis by (auto simp: seg_append)
qed

text \<open>Freeing a node that is not on the chain leaves the chain alone.\<close>

lemma free_other: "chain nxt h p xs \<Longrightarrow> a \<notin> set xs \<Longrightarrow> chain nxt (h(a := None)) p xs"
  by (simp add: seg_upd_other)

end

end
