(* ===== verification/Stats.thy ===== *)
theory Stats
  imports LcoreConf LinkedHeap
begin

text \<open>
  \<open>twister/stats/stats.c\<close>: the global packet counters, the per-second rates, and the moving window
  of round-trip times, a linked list of at most 255 entries. A C \<open>float\<close> is its 32-bit pattern; the
  float operations the code uses are the fields of \<open>float_ops\<close>, an argument of the functions that
  compute with them.
\<close>

section \<open>struct stats\_option and the globals\<close>

record stats_option =
  secs_passed :: u64
  payload_size :: u64
  stat_timestamp :: u64
  rx_pps :: u64
  tx_pps :: u64
  pkts_rx :: u64
  pkts_tx :: u64
  pkts_dropped :: u64
  rtt :: u64

record average_filter =
  af_timestamp :: u32
  af_next :: ptr

record stats = lcores +
  tw_stats :: stats_option
  prev_pkts_rx :: u64
  prev_pkts_tx :: u64
  average_rtt :: u32
  af_heap :: "average_filter heap"
  root_rtt_average :: ptr
  end_rtt_average :: ptr
  average_list_size :: u8

record float_ops =
  f_of_u64 :: "u64 \<Rightarrow> u32"
  f_to_u64 :: "u32 \<Rightarrow> u64"
  f_add :: "u32 \<Rightarrow> u32 \<Rightarrow> u32"
  f_sub :: "u32 \<Rightarrow> u32 \<Rightarrow> u32"
  f_div :: "u32 \<Rightarrow> u32 \<Rightarrow> u32"

abbreviation "average_filter_len \<equiv> (255 :: u8)"

definition tw_calc_global_stats :: "float_ops \<Rightarrow> 'a stats_scheme \<Rightarrow> 'a stats_scheme" where
  "tw_calc_global_stats fo s =
     s\<lparr>tw_stats := (tw_stats s)\<lparr>secs_passed := secs_passed (tw_stats s) + 1, rtt := f_to_u64 fo (average_rtt s),
         rx_pps := pkts_rx (tw_stats s) - prev_pkts_rx s, tx_pps := pkts_tx (tw_stats s) - prev_pkts_tx s\<rparr>,
       prev_pkts_rx := pkts_rx (tw_stats s), prev_pkts_tx := pkts_tx (tw_stats s)\<rparr>"

definition tw_calc_average_rtt :: "float_ops \<Rightarrow> u64 \<Rightarrow> ('a stats_scheme, unit) act" where
  "tw_calc_average_rtt fo time_clk =
     bnd rte_malloc (\<lambda>average_entry. case average_entry of None \<Rightarrow> fault NullDeref | Some a \<Rightarrow>
     let curr_pkt_rtt = f_div fo (f_of_u64 fo time_clk) (f_of_u64 fo (ucast average_filter_len)) in
     bnd (modify (\<lambda>s. s\<lparr>af_heap := (af_heap s)(a \<mapsto> \<lparr>af_timestamp = curr_pkt_rtt, af_next = None\<rparr>)\<rparr>)) (\<lambda>_ s.
     if average_list_size s = 0 then
       modify (\<lambda>s. s\<lparr>root_rtt_average := Some a, end_rtt_average := Some a, average_rtt := curr_pkt_rtt,
         average_list_size := average_list_size s + 1\<rparr>) s
     else if average_list_size s < average_filter_len then
       bnd (modify (\<lambda>s. s\<lparr>average_rtt := f_add fo (average_rtt s) curr_pkt_rtt\<rparr>)) (\<lambda>_.
       bnd (\<lambda>s. set_cell af_heap af_heap_update (end_rtt_average s) (\<lambda>n. n\<lparr>af_next := Some a\<rparr>) s) (\<lambda>_.
       modify (\<lambda>s. s\<lparr>end_rtt_average := Some a, average_list_size := average_list_size s + 1\<rparr>))) s
     else
       bnd (modify (\<lambda>s. s\<lparr>average_rtt := f_add fo (average_rtt s) curr_pkt_rtt\<rparr>)) (\<lambda>_.
       bnd (\<lambda>s. set_cell af_heap af_heap_update (end_rtt_average s) (\<lambda>n. n\<lparr>af_next := Some a\<rparr>) s) (\<lambda>_.
       bnd (modify (\<lambda>s. s\<lparr>end_rtt_average := Some a\<rparr>)) (\<lambda>_.
       bnd (gets root_rtt_average) (\<lambda>temp.
       bnd (deref af_heap temp) (\<lambda>root.
       bnd (modify (\<lambda>s. s\<lparr>average_rtt := f_sub fo (average_rtt s) (af_timestamp root)\<rparr>)) (\<lambda>_.
       bnd (modify (\<lambda>s. s\<lparr>root_rtt_average := af_next root\<rparr>)) (\<lambda>_.
       free_cell af_heap af_heap_update temp))))))) s))"

section \<open>Lemmas\<close>

interpretation af: linked af_next "\<lambda>p n. n\<lparr>af_next := p\<rparr>"
  by unfold_locales simp

text \<open>The window: the chain from the root, its length in the counter, its last node in \<open>end_rtt_average\<close>.\<close>

definition rtt_window :: "'a stats_scheme \<Rightarrow> nat list \<Rightarrow> bool" where
  "rtt_window s xs \<longleftrightarrow>
     (if average_list_size s = 0 then xs = []
      else chain af_next (af_heap s) (root_rtt_average s) xs \<and> end_rtt_average s = Some (last xs)) \<and>
     length xs = unat (average_list_size s)"

lemma chain_snoc_fresh:
  assumes "chain af_next h p xs" "xs \<noteq> []" "a \<notin> dom h" "h (last xs) = Some l"
  shows "chain af_next (h(a \<mapsto> \<lparr>af_timestamp = t, af_next = None\<rparr>, last xs \<mapsto> l\<lparr>af_next := Some a\<rparr>)) p (xs @ [a])"
proof -
  have "last xs \<noteq> a" using assms by auto
  then have "h(a \<mapsto> \<lparr>af_timestamp = t, af_next = None\<rparr>, last xs \<mapsto> l\<lparr>af_next := Some a\<rparr>) =
      h(last xs \<mapsto> l\<lparr>af_next := Some a\<rparr>, a \<mapsto> \<lparr>af_timestamp = t, af_next = None\<rparr>)"
    by (simp add: fun_upd_twist)
  then show ?thesis
    using af.append_node[OF assms, of "\<lparr>af_timestamp = t, af_next = None\<rparr>"] by simp
qed

lemma window_last:
  assumes "rtt_window s xs" "average_list_size s \<noteq> 0"
  obtains l where "xs \<noteq> []" "chain af_next (af_heap s) (root_rtt_average s) xs"
    "end_rtt_average s = Some (last xs)" "af_heap s (last xs) = Some l"
proof -
  have ne: "xs \<noteq> []" using assms by (auto simp: rtt_window_def unat_eq_0)
  moreover have c: "chain af_next (af_heap s) (root_rtt_average s) xs" "end_rtt_average s = Some (last xs)"
    using assms by (simp_all add: rtt_window_def)
  moreover obtain l where "af_heap s (last xs) = Some l"
    using seg_dom[OF c(1)] last_in_set[OF ne] by blast
  ultimately show thesis using that by blast
qed

lemma full_window_run:
  assumes "average_list_size s = 255" and "malloc_src s (malloc_cnt s) = Some a"
    and "end_rtt_average s = Some e" and "af_heap s e = Some l" and "e \<noteq> a"
    and "root_rtt_average s = Some x"
    and "((af_heap s)(a \<mapsto> \<lparr>af_timestamp = f_div fo (f_of_u64 fo t) (f_of_u64 fo 255), af_next = None\<rparr>,
       e \<mapsto> l\<lparr>af_next := Some a\<rparr>)) x = Some n"
  shows "\<exists>s'. tw_calc_average_rtt fo t s = Some (Ret ((), s')) \<and>
    af_heap s' = (af_heap s)(a \<mapsto> \<lparr>af_timestamp = f_div fo (f_of_u64 fo t) (f_of_u64 fo 255), af_next = None\<rparr>,
       e \<mapsto> l\<lparr>af_next := Some a\<rparr>, x := None) \<and>
    root_rtt_average s' = af_next n \<and> end_rtt_average s' = Some a \<and> average_list_size s' = 255"
  using assms
  by (auto simp: tw_calc_average_rtt_def rte_malloc_def run_simps Let_def split: if_splits)

text \<open>
  The round-trip window: with memory available, \<open>tw_calc_average_rtt\<close> appends the new sample
  to the list, and once the list holds 255 samples it drops (and frees) the oldest one, so the list
  never has more than 255 entries and \<open>average_list_size\<close> is its length.
\<close>

theorem rtt_window_moves:
  assumes win: "rtt_window s xs" and "malloc_src s (malloc_cnt s) = Some a" and fresh: "a \<notin> dom (af_heap s)"
  shows "\<exists>s'. tw_calc_average_rtt fo t s = Some (Ret ((), s')) \<and>
    rtt_window s' ((if length xs < 255 then xs else tl xs) @ [a]) \<and>
    (length xs = 255 \<longrightarrow> hd xs \<notin> dom (af_heap s'))"
proof -
  have "(- 1 :: u8) = 255" by simp
  then have "average_list_size s \<le> 255" using word_order.extremum[of "average_list_size s"] by metis
  then consider "average_list_size s = 0" | "average_list_size s \<noteq> 0" "average_list_size s < 255"
    | "average_list_size s = 255"
    by (auto simp: le_less)
  then show ?thesis
  proof cases
    case 1
    then show ?thesis using assms
      by (simp add: tw_calc_average_rtt_def rte_malloc_def run_simps rtt_window_def Let_def)
  next
    case 2
    obtain l where l: "xs \<noteq> []" "chain af_next (af_heap s) (root_rtt_average s) xs"
      "end_rtt_average s = Some (last xs)" "af_heap s (last xs) = Some l"
      using window_last[OF win 2(1)] by blast
    have ne: "last xs \<noteq> a" using l(4) fresh by auto
    have sz: "unat (average_list_size s + 1) = Suc (length xs)" "length xs < 255"
      using win 2(2) by (auto simp: rtt_window_def unat_word_ariths word_less_nat_alt)
    then have "average_list_size s + 1 \<noteq> 0" by auto
    then show ?thesis using 2 sz l ne assms(2) chain_snoc_fresh[OF l(2,1) fresh l(4)]
      by (simp add: tw_calc_average_rtt_def rte_malloc_def run_simps rtt_window_def Let_def)
  next
    case 3
    then have s0: "average_list_size s \<noteq> 0" by simp
    obtain l where l: "xs \<noteq> []" "chain af_next (af_heap s) (root_rtt_average s) xs"
      "end_rtt_average s = Some (last xs)" "af_heap s (last xs) = Some l"
      using window_last[OF win s0] by blast
    have ne: "last xs \<noteq> a" using l(4) fresh by auto
    have len: "length xs = 255" using win 3 by (simp add: rtt_window_def)
    define h where "h = (af_heap s)(a \<mapsto> \<lparr>af_timestamp = f_div fo (f_of_u64 fo t) (f_of_u64 fo 255), af_next = None\<rparr>,
       last xs \<mapsto> l\<lparr>af_next := Some a\<rparr>)"
    have c: "chain af_next h (root_rtt_average s) (xs @ [a])"
      unfolding h_def by (rule chain_snoc_fresh[OF l(2,1) fresh l(4)])
    obtain x ys where xs: "xs = x # ys" using l(1) by (cases xs) auto
    with c obtain n where n: "root_rtt_average s = Some x" "h x = Some n" "chain af_next h (af_next n) (ys @ [a])" by auto
    have "x \<notin> set (ys @ [a])" using chain_distinct[OF c] xs by simp
    then have c': "chain af_next (h(x := None)) (af_next n) (ys @ [a])" using n(3) by (intro af.free_other)
    obtain s' where "tw_calc_average_rtt fo t s = Some (Ret ((), s'))" "af_heap s' = h(x := None)"
        "root_rtt_average s' = af_next n" "end_rtt_average s' = Some a" "average_list_size s' = 255"
      using full_window_run[OF 3 assms(2) l(3,4) ne n(1)] n(2) unfolding h_def by blast
    moreover from this have "rtt_window s' (ys @ [a])" "x \<notin> dom (af_heap s')"
      using c' len xs by (auto simp: rtt_window_def)
    ultimately show ?thesis using len xs by auto
  qed
qed

definition demo_fo :: float_ops where
  "demo_fo = \<lparr>f_of_u64 = (\<lambda>x. ucast x), f_to_u64 = (\<lambda>x. ucast x), f_add = (+), f_sub = (-), f_div = (div)\<rparr>"

definition demo_stats :: stats where
  "demo_stats = lcores.extend demo_lcores (stats.fields
     \<lparr>secs_passed = 0, payload_size = 0, stat_timestamp = 0, rx_pps = 0, tx_pps = 0, pkts_rx = 0, pkts_tx = 0,
      pkts_dropped = 0, rtt = 0\<rparr> 0 0 0 Map.empty None None 0)"

theorem rtt_window_moves_witness:
  "\<exists>s'. tw_calc_average_rtt demo_fo 510 demo_stats = Some (Ret ((), s')) \<and> rtt_window s' [0]"
  using rtt_window_moves[of demo_stats "[]" 0 demo_fo 510]
  by (auto simp: rtt_window_def demo_stats_def demo_lcores_def demo_defs stats.defs lcores.defs)

text \<open>A run of the statistics: before each call the packet counters have the given values. The
  result is the sum of the published rates and the final state.\<close>

primrec stat_run :: "float_ops \<Rightarrow> (u64 \<times> u64) list \<Rightarrow> 'a stats_scheme \<Rightarrow> (u64 \<times> u64) \<times> 'a stats_scheme" where
  "stat_run fo [] s = ((0, 0), s)"
| "stat_run fo (c # cs) s =
     (let s1 = tw_calc_global_stats fo (s\<lparr>tw_stats := (tw_stats s)\<lparr>pkts_rx := fst c, pkts_tx := snd c\<rparr>\<rparr>);
          r = stat_run fo cs s1
      in ((rx_pps (tw_stats s1) + fst (fst r), tx_pps (tw_stats s1) + snd (fst r)), snd r))"

text \<open>
  Rates: over any number of calls of \<open>tw_calc_global_stats\<close> the published rates add up, modulo
  \<open>2 ^ 64\<close>, to the packets counted since the first call, nothing is counted twice or lost between two
  calls, and the seconds count the calls.
\<close>

theorem global_stats_rates:
  "(let ((r, x), t) = stat_run fo cs s in
    r = prev_pkts_rx t - prev_pkts_rx s \<and> x = prev_pkts_tx t - prev_pkts_tx s \<and>
    (prev_pkts_rx t, prev_pkts_tx t) = last ((prev_pkts_rx s, prev_pkts_tx s) # cs) \<and>
    secs_passed (tw_stats t) = secs_passed (tw_stats s) + of_nat (length cs))"
proof (induction cs arbitrary: s)
  case Nil
  then show ?case by simp
next
  case (Cons c cs)
  let ?s1 = "tw_calc_global_stats fo (s\<lparr>tw_stats := (tw_stats s)\<lparr>pkts_rx := fst c, pkts_tx := snd c\<rparr>\<rparr>)"
  show ?case using Cons.IH[of ?s1]
    by (cases "stat_run fo cs ?s1") (auto simp: tw_calc_global_stats_def Let_def split: if_splits)
qed

end
