(* ===== verification/RxTx.thy ===== *)
theory RxTx
  imports Stats "HOL-Library.Sublist"
begin

text \<open>
  \<open>twister/rxtxmodule/tx.c\<close> and \<open>rx.c\<close>: the transmit tables of the running core, one per port, that
  collect packets into bursts, the timed flush, and the receive bursts. The abstract view of a
  transmit table is the list of the packets waiting in it (\<open>txq\<close>).
\<close>

section \<open>Access to the tables of the running core\<close>

abbreviation cur_lcore :: "'a lcores_scheme \<Rightarrow> lcore_conf" where
  "cur_lcore s \<equiv> lcore_confs s ! lcore_id s"

definition get_qconf :: "('a lcores_scheme, lcore_conf) act" where
  "get_qconf = (\<lambda>s. index_ck (lcore_confs s) (lcore_id s) s)"

definition tx_table :: "'a lcores_scheme \<Rightarrow> nat \<Rightarrow> mbuf_table" where
  "tx_table s p = tx_mbufs (cur_lcore s) ! p"

definition put_table :: "nat \<Rightarrow> mbuf_table \<Rightarrow> 'a lcores_scheme \<Rightarrow> 'a lcores_scheme" where
  "put_table p t s = s\<lparr>lcore_confs := (lcore_confs s)[lcore_id s :=
     (cur_lcore s)\<lparr>tx_mbufs := (tx_mbufs (cur_lcore s))[p := t]\<rparr>]\<rparr>"

definition get_table :: "nat \<Rightarrow> ('a lcores_scheme, mbuf_table) act" where
  "get_table p = bnd get_qconf (\<lambda>qconf. index_ck (tx_mbufs qconf) p)"

section \<open>tx.c\<close>

definition add_pkts_tx :: "nat \<Rightarrow> 'a stats_scheme \<Rightarrow> 'a stats_scheme" where
  "add_pkts_tx k s = s\<lparr>tw_stats := (tw_stats s)\<lparr>pkts_tx := pkts_tx (tw_stats s) + of_nat k\<rparr>\<rparr>"

definition add_pkts_dropped :: "u64 \<Rightarrow> 'a stats_scheme \<Rightarrow> 'a stats_scheme" where
  "add_pkts_dropped d s = s\<lparr>tw_stats := (tw_stats s)\<lparr>pkts_dropped := pkts_dropped (tw_stats s) + d\<rparr>\<rparr>"

text \<open>The loop frees \<open>m_table[ret]\<close> for \<open>ret\<close> up to \<open>n\<close>; the drop counter is updated after it, with
  the \<open>ret\<close> the loop ends with, which is \<open>n\<close>.\<close>

definition tw_send_burst :: "u32 \<Rightarrow> u8 \<Rightarrow> ('a stats_scheme, int) act" where
  "tw_send_burst n port =
     bnd (get_table (unat port)) (\<lambda>t.
     let nb = unat (ucast n :: u16) in
     if length (m_table t) < nb then fault OutOfBounds else
     bnd (rte_eth_tx_burst port (take nb (m_table t))) (\<lambda>k.
     bnd (modify (add_pkts_tx k)) (\<lambda>_.
     if k < unat n then
       bnd (for_each [k..<unat n] (\<lambda>i. bnd (index_ck (m_table t) i) rte_pktmbuf_free)) (\<lambda>_.
       let ret_end = ucast n in
       bnd (modify (add_pkts_dropped (ucast n - ret_end))) (\<lambda>_. ret 0))
     else ret 0)))"

definition drain_tsc :: "'a hw_scheme \<Rightarrow> u64" where
  "drain_tsc s = (tsc_hz s + 1000000 - 1) div 1000000 * 200"

definition flush_port :: "u32 \<Rightarrow> nat \<Rightarrow> ('a stats_scheme, unit) act" where
  "flush_port cur_tsc portid =
     bnd (get_table portid) (\<lambda>t.
     if mt_len t = 0 then ret ()
     else bnd (tw_send_burst (word_of_int (mt_len t)) (of_nat portid)) (\<lambda>_.
          bnd (modify (\<lambda>s. put_table portid ((tx_table s portid)\<lparr>mt_len := 0\<rparr>) s)) (\<lambda>_.
          modify (\<lambda>s. s\<lparr>prev_tsc := ucast cur_tsc\<rparr>))))"

definition tw_timely_burst :: "('a stats_scheme, int) act" where
  "tw_timely_burst =
     bnd get_qconf (\<lambda>qconf.
     bnd rte_get_timer_cycles (\<lambda>c s.
     let cur_tsc = ucast c :: u32; diff_tsc = ucast (ucast cur_tsc - prev_tsc s) :: u32 in
     if ucast diff_tsc > drain_tsc s
     then bnd (for_each [0..<unat (num_port qconf)] (flush_port cur_tsc)) (\<lambda>_. ret 0) s
     else ret 0 s))"

definition tw_add_pkt_to_tx_queue :: "ptr \<Rightarrow> u8 \<Rightarrow> ('a stats_scheme, int) act" where
  "tw_add_pkt_to_tx_queue m port =
     bnd (get_table (unat port)) (\<lambda>t.
     let len = word_of_int (mt_len t) :: u32 in
     if length (m_table t) \<le> unat len then fault OutOfBounds else
     bnd (modify (put_table (unat port) (t\<lparr>m_table := (m_table t)[unat len := m]\<rparr>))) (\<lambda>_.
     bnd (if len + 1 = of_nat MAX_TX_PKT_BURST
          then bnd (tw_send_burst (of_nat MAX_TX_PKT_BURST) port) (\<lambda>_. ret 0)
          else ret (len + 1)) (\<lambda>len'.
     bnd (modify (\<lambda>s. put_table (unat port) ((tx_table s (unat port))\<lparr>mt_len := sint len'\<rparr>) s)) (\<lambda>_.
     ret 0))))"

section \<open>rx.c\<close>

abbreviation "MAX_RX_PKT_BURST \<equiv> (32 :: nat)"

text \<open>The receive table is an array of the caller; the functions return the table they filled.\<close>

definition tw_get_pkt_from_rx_queue :: "mbuf_table \<Rightarrow> u8 \<Rightarrow> u8 \<Rightarrow> ('a stats_scheme, u32 \<times> mbuf_table) act" where
  "tw_get_pkt_from_rx_queue m port queue_id =
     bnd (rte_eth_rx_burst port MAX_RX_PKT_BURST) (\<lambda>ps.
     bnd (modify (\<lambda>s. s\<lparr>tw_stats := (tw_stats s)\<lparr>pkts_rx := pkts_rx (tw_stats s) + of_nat (length ps)\<rparr>\<rparr>)) (\<lambda>_.
     ret (of_nat (length ps), m\<lparr>m_table := ps @ drop (length ps) (m_table m)\<rparr>)))"

primrec rx_loop :: "mbuf_table list \<Rightarrow> u8 list \<Rightarrow> u32 \<Rightarrow> ('a stats_scheme, u32 \<times> mbuf_table list) act" where
  "rx_loop ms [] acc = ret (acc, [])"
| "rx_loop ms (p # ps) acc = (case ms of [] \<Rightarrow> fault OutOfBounds | m # ms' \<Rightarrow>
     bnd (tw_get_pkt_from_rx_queue m p 0) (\<lambda>(nb, m').
     bnd (rx_loop ms' ps (acc + nb)) (\<lambda>(tot, rest).
     ret (tot, m'\<lparr>mt_portid := p, mt_len := uint nb\<rparr> # rest))))"

definition tw_rx_for_each_queue :: "mbuf_table list \<Rightarrow> ('a stats_scheme, u32 \<times> mbuf_table list) act" where
  "tw_rx_for_each_queue m = bnd get_qconf (\<lambda>qconf.
     if length (managed_port qconf) < unat (num_port qconf) then fault OutOfBounds
     else rx_loop m (managed qconf) 0)"

section \<open>The abstract view: one queue per port\<close>

definition txq :: "'a lcores_scheme \<Rightarrow> nat \<Rightarrow> nat list" where
  "txq s p = map the (take (nat (mt_len (tx_table s p))) (m_table (tx_table s p)))"

definition tx_pending :: "'a lcores_scheme \<Rightarrow> nat list" where
  "tx_pending s = concat (map (txq s) [0..<MAX_ETH_PORTS])"

definition table_ok :: "mbuf_table \<Rightarrow> bool" where
  "table_ok t \<longleftrightarrow> length (m_table t) = MAX_TX_PKT_BURST \<and> 0 \<le> mt_len t \<and> mt_len t < int MAX_TX_PKT_BURST \<and>
     (\<forall>i < nat (mt_len t). m_table t ! i \<noteq> None)"

definition tx_shape :: "'a lcores_scheme \<Rightarrow> bool" where
  "tx_shape s \<longleftrightarrow> lcore_id s < length (lcore_confs s) \<and> length (tx_mbufs (cur_lcore s)) = MAX_ETH_PORTS \<and>
     (\<forall>p < MAX_ETH_PORTS. table_ok (tx_table s p))"

text \<open>The invariant: fewer than 32 packets wait for each port, every waiting packet is an allocated
  buffer, and no buffer waits twice.\<close>

definition tx_inv :: "'a lcores_scheme \<Rightarrow> bool" where
  "tx_inv s \<longleftrightarrow> tx_shape s \<and> distinct (tx_pending s) \<and> set (tx_pending s) \<subseteq> dom (mbufs s)"

text \<open>The buffers nobody waits for: those the code that runs now is responsible for.\<close>

definition loose :: "'a lcores_scheme \<Rightarrow> rte_mbuf heap" where
  "loose s = mbufs s |` (- set (tx_pending s))"

lemma tx_view_cong:
  assumes "lcore_confs s' = lcore_confs s" "lcore_id s' = lcore_id s"
  shows "txq s' = txq s" "tx_shape s' = tx_shape s" "tx_pending s' = tx_pending s"
    "mbufs s' = mbufs s \<Longrightarrow> tx_inv s' = tx_inv s" "mbufs s' = mbufs s \<Longrightarrow> loose s' = loose s"
proof -
  show q: "txq s' = txq s" and sh: "tx_shape s' = tx_shape s"
    using assms by (simp_all add: fun_eq_iff txq_def tx_table_def tx_shape_def)
  then show p: "tx_pending s' = tx_pending s" by (simp add: tx_pending_def)
  show "mbufs s' = mbufs s \<Longrightarrow> tx_inv s' = tx_inv s" "mbufs s' = mbufs s \<Longrightarrow> loose s' = loose s"
    by (simp_all add: tx_inv_def loose_def p sh)
qed

lemma put_table_simps [simp]:
  "mbufs (put_table p t s) = mbufs s" "lcore_id (put_table p t s) = lcore_id s"
  "tx_src (put_table p t s) = tx_src s" "tx_cnt (put_table p t s) = tx_cnt s" "wire (put_table p t s) = wire s"
  "length (lcore_confs (put_table p t s)) = length (lcore_confs s)"
  by (simp_all add: put_table_def)

lemma put_table_stats [simp]: "tw_stats (put_table p t (s :: 'a stats_scheme)) = tw_stats s"
  by (simp add: put_table_def)

lemma tx_table_put:
  "tx_shape s \<Longrightarrow> p < 8 \<Longrightarrow> tx_table (put_table p t s) q = (if q = p then t else tx_table s q)"
  by (simp add: tx_table_def put_table_def tx_shape_def nth_list_update)

lemma put_put: "lcore_id s < length (lcore_confs s) \<Longrightarrow> put_table p t' (put_table p t s) = put_table p t' s"
  by (simp add: put_table_def)

lemma tx_shape_put: "tx_shape s \<Longrightarrow> p < 8 \<Longrightarrow> table_ok t \<Longrightarrow> tx_shape (put_table p t s)"
  by (auto simp: tx_shape_def tx_table_put) (simp_all add: put_table_def tx_table_def)

lemma txq_put: "tx_shape s \<Longrightarrow> p < 8 \<Longrightarrow>
  txq (put_table p t s) q = (if q = p then map the (take (nat (mt_len t)) (m_table t)) else txq s q)"
  by (simp add: txq_def tx_table_put)

lemma get_table_ok: "tx_shape s \<Longrightarrow> p < 8 \<Longrightarrow> get_table p s = Some (Ret (tx_table s p, s))"
  by (simp add: get_table_def get_qconf_def run_simps tx_shape_def tx_table_def)

section \<open>Bursts\<close>

lemma free_rest:
  assumes "\<And>i. i < length q \<Longrightarrow> i < length tbl \<and> tbl ! i = Some (q ! i)" and "distinct q"
    and "set (drop k q) \<subseteq> dom (mbufs s)" and "k \<le> length q"
  shows "for_each [k..<length q] (\<lambda>i. bnd (index_ck tbl i) rte_pktmbuf_free) s =
    Some (Ret ((), s\<lparr>mbufs := mbufs s |` (- set (drop k q))\<rparr>))"
  using assms(3,4)
proof (induction "length q - k" arbitrary: k s)
  case 0
  then show ?case by (simp add: run_simps)
next
  case (Suc d)
  then have k: "k < length q" by simp
  have dk: "drop k q = q ! k # drop (Suc k) q" using k by (simp add: Cons_nth_drop_Suc)
  have "distinct (drop k q)" using assms(2) by simp
  then have nk: "q ! k \<notin> set (drop (Suc k) q)" unfolding dk by simp
  obtain m where m: "mbufs s (q ! k) = Some m" using Suc.prems(1) unfolding dk by auto
  let ?s1 = "s\<lparr>mbufs := (mbufs s)(q ! k := None)\<rparr>"
  have "for_each [Suc k..<length q] (\<lambda>i. bnd (index_ck tbl i) rte_pktmbuf_free) ?s1 =
      Some (Ret ((), ?s1\<lparr>mbufs := mbufs ?s1 |` (- set (drop (Suc k) q))\<rparr>))"
    using Suc k nk unfolding dk by (intro Suc.hyps(1)) auto
  moreover have "((mbufs s)(q ! k := None)) |` (- set (drop (Suc k) q)) = mbufs s |` (- set (drop k q))"
    unfolding dk by (auto simp: restrict_map_def fun_eq_iff)
  ultimately show ?case
    using k assms(1)[OF k] m by (simp add: upt_conv_Cons run_simps)
qed

definition burst_state :: "nat \<Rightarrow> nat list \<Rightarrow> nat \<Rightarrow> 'a stats_scheme \<Rightarrow> 'a stats_scheme" where
  "burst_state k q p s = s\<lparr>tx_cnt := Suc (tx_cnt s), mbufs := mbufs s |` (- set q),
     wire := wire s @ map (\<lambda>a. (of_nat p, a, the (mbufs s a))) (take k q),
     tw_stats := (tw_stats s)\<lparr>pkts_tx := pkts_tx (tw_stats s) + of_nat k\<rparr>\<rparr>"

lemma add_pkts_dropped_0 [simp]: "add_pkts_dropped 0 s = s"
  by (simp add: add_pkts_dropped_def)

lemma no_drop_counted [simp]: "bnd (modify (add_pkts_dropped 0)) f = f ()"
  by (simp add: fun_eq_iff run_simps)

lemma send_burst_ok:
  assumes sh: "tx_shape s" "p < 8" and len: "length (m_table (tx_table s p)) = 32" and q: "length q \<le> 32"
    and tbl: "take (length q) (m_table (tx_table s p)) = map Some q"
    and own: "distinct q" "set q \<subseteq> dom (mbufs s)"
  shows "tw_send_burst (of_nat (length q)) (of_nat p) s =
    Some (Ret (0, burst_state (min (unat (tx_src s (tx_cnt s))) (length q)) q p s))"
proof -
  define k where "k = min (unat (tx_src s (tx_cnt s))) (length q)"
  let ?t = "tx_table s p"
  let ?s1 = "s\<lparr>tx_cnt := Suc (tx_cnt s)\<rparr>"
  let ?s2 = "?s1\<lparr>mbufs := mbufs s |` (- set (take k q)), wire := wire s @ map (\<lambda>a. (of_nat p, a, the (mbufs s a))) (take k q)\<rparr>"
  have up: "unat (of_nat p :: u8) = p" using sh(2) by (simp add: unat_of_nat)
  have un: "unat (of_nat (length q) :: u32) = length q" "unat (ucast (of_nat (length q) :: u32) :: u16) = length q"
    using q by (simp_all add: unat_of_nat unsigned_ucast_eq take_bit_nat_eq_self)
  have burst: "rte_eth_tx_burst (of_nat p) (take (length q) (m_table ?t)) s = Some (Ret (k, ?s2))"
    using own by (simp add: rte_eth_tx_burst_def tbl Let_def take_map run_simps driver_take_ok
        set_take_subset[THEN subset_trans] flip: k_def)
  have "q ! i = the (m_table ?t ! i) \<and> m_table ?t ! i \<noteq> None" if "i < length q" for i
    using that arg_cong[OF tbl, of "\<lambda>xs. xs ! i"] by simp
  then have idx: "i < length (m_table ?t) \<and> m_table ?t ! i = Some (q ! i)" if "i < length q" for i
    using that q len by auto
  have free: "for_each [k..<length q] (\<lambda>i. bnd (index_ck (m_table ?t) i) rte_pktmbuf_free) (add_pkts_tx k ?s2) =
      Some (Ret ((), (add_pkts_tx k ?s2)\<lparr>mbufs := mbufs (add_pkts_tx k ?s2) |` (- set (drop k q))\<rparr>))"
  proof (rule free_rest[OF idx own(1)])
    have "set (take k q) \<inter> set (drop k q) = {}" using own(1) by (rule set_take_disj_set_drop_if_distinct) simp
    then show "set (drop k q) \<subseteq> dom (mbufs (add_pkts_tx k ?s2))"
      using own(2) set_drop_subset[of k q] by (simp add: add_pkts_tx_def dom_restrict) blast
    show "k \<le> length q" by (simp add: k_def)
  qed
  have A: "tw_send_burst (of_nat (length q)) (of_nat p) s =
      bnd (modify (add_pkts_tx k)) (\<lambda>_. if k < length q
        then bnd (for_each [k..<length q] (\<lambda>i. bnd (index_ck (m_table ?t) i) rte_pktmbuf_free)) (\<lambda>_. ret 0)
        else ret 0) ?s2"
    unfolding tw_send_burst_def bnd_apply[of "get_table _"] up get_table_ok[OF sh] Let_def un
    using len q burst by (simp add: bnd_apply[of "rte_eth_tx_burst _ _"])
  have "mbufs s |` (- set (take k q)) |` (- set (drop k q)) = mbufs s |` (- set q)"
  proof -
    have "set q = set (take k q) \<union> set (drop k q)" by (metis append_take_drop_id set_append)
    then have "- set (take k q) \<inter> - set (drop k q) = - set q" by blast
    then show ?thesis by (simp only: restrict_restrict)
  qed
  moreover have "take k q = q" if "\<not> k < length q" using that by simp
  ultimately show ?thesis
    unfolding A k_def[symmetric] by (simp add: bnd_apply modify_apply ret_apply free) (simp add: add_pkts_tx_def burst_state_def)
qed

lemma burst_state_simps [simp]:
  "tx_table (burst_state k q p s) = tx_table s" "tx_shape (burst_state k q p s) = tx_shape s"
  "txq (burst_state k q p s) = txq s" "mbufs (burst_state k q p s) = mbufs s |` (- set q)"
  "wire (burst_state k q p s) = wire s @ map (\<lambda>a. (of_nat p, a, the (mbufs s a))) (take k q)"
  "lcore_id (burst_state k q p s) = lcore_id s" "lcore_confs (burst_state k q p s) = lcore_confs s"
  by (simp_all add: burst_state_def tx_table_def[abs_def] tx_shape_def txq_def[abs_def])

lemma txq_facts:
  assumes "tx_shape s" "p < 8"
  shows "take (length (txq s p)) (m_table (tx_table s p)) = map Some (txq s p)"
    and "length (txq s p) = nat (mt_len (tx_table s p))" and "length (txq s p) < 32"
    and "int (length (txq s p)) = mt_len (tx_table s p)"
proof -
  let ?t = "tx_table s p"
  have t: "length (m_table ?t) = 32" "0 \<le> mt_len ?t" "mt_len ?t < 32" "\<And>i. i < nat (mt_len ?t) \<Longrightarrow> m_table ?t ! i \<noteq> None"
    using assms by (simp_all add: tx_shape_def table_ok_def)
  then show len: "length (txq s p) = nat (mt_len ?t)" "length (txq s p) < 32" "int (length (txq s p)) = mt_len ?t"
    by (simp_all add: txq_def min_absorb2)
  show "take (length (txq s p)) (m_table ?t) = map Some (txq s p)"
    using t len(1) by (intro nth_equalityI) (auto simp: txq_def)
qed

text \<open>Changing one queue changes the pending packets by that queue.\<close>

lemma pending_split:
  assumes "p < 8"
  obtains pre post where "tx_pending s = pre @ txq s p @ post"
    and "\<And>s'. (\<And>q. q \<noteq> p \<Longrightarrow> txq s' q = txq s q) \<Longrightarrow> tx_pending s' = pre @ txq s' p @ post"
proof -
  have up: "[0..<8] = [0..<p] @ p # [Suc p..<8]"
    using assms upt_add_eq_append[of 0 p "8 - p"] by (simp add: upt_conv_Cons)
  have cong: "concat (map (txq s') xs) = concat (map (txq s) xs)"
    if "\<And>q. q \<noteq> p \<Longrightarrow> txq s' q = txq s q" "p \<notin> set xs" for s' :: "'b lcores_scheme" and xs
    using that by (intro arg_cong[of _ _ concat] map_cong) metis+
  show thesis
  proof
    show "tx_pending s = concat (map (txq s) [0..<p]) @ txq s p @ concat (map (txq s) [Suc p..<8])"
      unfolding tx_pending_def up by simp
    fix s' :: "'b lcores_scheme"
    assume "\<And>q. q \<noteq> p \<Longrightarrow> txq s' q = txq s q"
    then show "tx_pending s' = concat (map (txq s) [0..<p]) @ txq s' p @ concat (map (txq s) [Suc p..<8])"
      unfolding tx_pending_def up using cong[of s'] by simp
  qed
qed

text \<open>The frame of the transmit functions: what they may change.\<close>

definition tx_frame :: "'a stats_scheme \<Rightarrow> 'a stats_scheme \<Rightarrow> bool" where
  "tx_frame s s' \<longleftrightarrow> s' = s\<lparr>mbufs := mbufs s', tx_cnt := tx_cnt s', wire := wire s',
     lcore_confs := lcore_confs s', tw_stats := tw_stats s'\<rparr>"

lemma add_pkt_store:
  assumes "tx_shape s" "p < 8" "length (txq s p) < 31" 
  shows "tw_add_pkt_to_tx_queue (Some a) (of_nat p) s = Some (Ret (0, put_table p
    ((tx_table s p)\<lparr>m_table := (m_table (tx_table s p))[length (txq s p) := Some a],
      mt_len := int (length (txq s p)) + 1\<rparr>) s))"
proof -
  let ?t = "tx_table s p"
  note f = txq_facts[OF assms(1,2)]
  have up: "unat (of_nat p :: u8) = p" using assms(2) by (simp add: unat_of_nat)
  have ml: "mt_len ?t = int (length (txq s p))" using f(4) by simp
  have w: "word_of_int (mt_len ?t) = (of_nat (length (txq s p)) :: u32)" unfolding ml by simp
  have u: "unat (of_nat (length (txq s p)) :: u32) = length (txq s p)" using f(3) by (simp add: unat_of_nat)
  have ne: "(of_nat (length (txq s p)) + 1 :: u32) \<noteq> 32"
  proof
    assume "of_nat (length (txq s p)) + 1 = (32 :: u32)"
    then have "(of_nat (length (txq s p)) :: u32) = 31" by simp
    then show False using u assms(3) by simp
  qed
  have si: "sint (of_nat (length (txq s p)) + 1 :: u32) = int (length (txq s p)) + 1"
  proof -
    have "unat (of_nat (length (txq s p)) + 1 :: u32) = length (txq s p) + 1"
      using u assms(3) by (simp add: unat_word_ariths)
    then show ?thesis using assms(3) by (simp add: sint_cases)
  qed
  have tl: "length (m_table ?t) = 32" "lcore_id s < length (lcore_confs s)"
    using assms by (simp_all add: tx_shape_def table_ok_def)
  show ?thesis
    using assms tl f(3) si ne u
    by (simp add: tw_add_pkt_to_tx_queue_def run_simps up get_table_ok w Let_def put_put tx_table_put ml)
qed

lemma add_pkt_burst:
  assumes sh: "tx_shape s" "p < 8" and full: "length (txq s p) = 31"
    and own: "distinct (txq s p @ [a])" "set (txq s p @ [a]) \<subseteq> dom (mbufs s)"
  defines "t \<equiv> (tx_table s p)\<lparr>m_table := (m_table (tx_table s p))[31 := Some a]\<rparr>"
  shows "tw_add_pkt_to_tx_queue (Some a) (of_nat p) s = Some (Ret (0, put_table p (t\<lparr>mt_len := 0\<rparr>)
    (burst_state (min (unat (tx_src s (tx_cnt s))) 32) (txq s p @ [a]) p (put_table p t s))))"
proof -
  let ?t = "tx_table s p" and ?q = "txq s p @ [a]"
  let ?s1 = "put_table p t s"
  note f = txq_facts[OF sh]
  have up: "unat (of_nat p :: u8) = p" using sh(2) by (simp add: unat_of_nat)
  have ml: "mt_len ?t = 31" using f(4) full by simp
  have tl: "length (m_table ?t) = 32" "lcore_id s < length (lcore_confs s)" "table_ok ?t"
    using sh by (simp_all add: tx_shape_def table_ok_def)
  have tk: "table_ok t" using tl(3) ml by (auto simp: table_ok_def t_def nth_list_update)
  have sh1: "tx_shape ?s1" using tx_shape_put[OF sh tk] .
  have t1: "tx_table ?s1 p = t" using tx_table_put[OF sh] by simp
  have "m_table t = map Some ?q"
  proof (rule nth_equalityI)
    show "length (m_table t) = length (map Some ?q)" using tl(1) full by (simp add: t_def)
    fix i assume "i < length (m_table t)"
    then have i: "i < 32" using tl(1) by (simp add: t_def)
    show "m_table t ! i = map Some ?q ! i"
    proof (cases "i = 31")
      case True
      then show ?thesis using tl(1) full by (simp add: t_def nth_append)
    next
      case False
      then have "i < length (txq s p)" using i full by simp
      moreover from this have "m_table ?t ! i = Some (txq s p ! i)"
        using arg_cong[OF f(1), of "\<lambda>xs. xs ! i"] by simp
      ultimately show ?thesis using False by (simp add: t_def nth_append)
    qed
  qed
  then have tbl: "take (length ?q) (m_table (tx_table ?s1 p)) = map Some ?q"
    using t1 tl(1) full by simp
  have sb: "tw_send_burst (of_nat (length ?q)) (of_nat p) ?s1 =
      Some (Ret (0, burst_state (min (unat (tx_src ?s1 (tx_cnt ?s1))) (length ?q)) ?q p ?s1))"
    using own full tl(1) t1 tbl by (intro send_burst_ok[OF sh1 sh(2)]) (auto simp: t_def)
  then have sb': "tw_send_burst 32 (of_nat p) ?s1 =
      Some (Ret (0, burst_state (min (unat (tx_src s (tx_cnt s))) 32) ?q p ?s1))"
    using full by simp
  show ?thesis
    using tl ml sb' t1
    by (simp add: tw_add_pkt_to_tx_queue_def run_simps up get_table_ok[OF sh] Let_def flip: t_def)
qed

lemma restrict_upd_other: "a \<in> A \<Longrightarrow> f |` (- A) = (f |` (- (A - {a})))(a := None)"
  by (auto simp: restrict_map_def fun_eq_iff)

lemma tx_add_ok:
  assumes inv: "tx_inv s" and p: "p < 8" and a: "loose s a = Some m"
  defines "q \<equiv> txq s p @ [a]"
  shows "\<exists>s'. tw_add_pkt_to_tx_queue (Some a) (of_nat p) s = Some (Ret (0, s')) \<and> tx_inv s' \<and> tx_frame s s' \<and>
    loose s' = (loose s)(a := None) \<and> txq s' = (txq s)(p := if length q < 32 then q else []) \<and>
    wire s' = wire s @ (if length q < 32 then []
      else map (\<lambda>b. (of_nat p, b, the (mbufs s b))) (take (unat (tx_src s (tx_cnt s))) q)) \<and>
    mbufs s' = (if length q < 32 then mbufs s else mbufs s |` (- set q))"
proof -
  have sh: "tx_shape s" and di: "distinct (tx_pending s)" and ow: "set (tx_pending s) \<subseteq> dom (mbufs s)"
    using inv by (simp_all add: tx_inv_def)
  have am: "mbufs s a = Some m" "a \<notin> set (tx_pending s)"
    using a by (auto simp: loose_def restrict_map_def split: if_splits)
  obtain pre post where sp: "tx_pending s = pre @ txq s p @ post"
    "\<And>s' :: 'a stats_scheme. (\<And>r. r \<noteq> p \<Longrightarrow> txq s' r = txq s r) \<Longrightarrow> tx_pending s' = pre @ txq s' p @ post"
    using pending_split[OF p, of s, where 'b = "'a stats_ext"] by metis
  have step: "tx_inv s' \<and> loose s' = (loose s)(a := None)"
    if "tx_shape s'" and q': "txq s' = (txq s)(p := if length q < 32 then q else [])"
      and mb: "mbufs s' = (if length q < 32 then mbufs s else mbufs s |` (- set q))" for s' :: "'a stats_scheme"
  proof -
    have pend: "tx_pending s' = pre @ (if length q < 32 then q else []) @ post"
      using sp(2)[of s'] q' by auto
    have "distinct (pre @ q @ post)" using di am(2) by (auto simp: sp(1) q_def)
    moreover have "set (pre @ q @ post) \<subseteq> dom (mbufs s)" using ow am(1) by (auto simp: sp(1) q_def)
    ultimately have "tx_inv s'" using that(1) by (auto simp: tx_inv_def pend mb restrict_map_def)
    moreover have "loose s' = (loose s)(a := None)"
      unfolding loose_def pend mb sp(1) using am(1) by (auto simp: q_def restrict_map_def fun_eq_iff)
    ultimately show ?thesis by simp
  qed
  note f = txq_facts[OF sh p]
  show ?thesis
  proof (cases "length (txq s p) < 31")
    case True
    let ?t = "(tx_table s p)\<lparr>m_table := (m_table (tx_table s p))[length (txq s p) := Some a],
      mt_len := int (length (txq s p)) + 1\<rparr>"
    let ?s' = "put_table p ?t s"
    have tk: "table_ok (tx_table s p)" using sh p by (simp add: tx_shape_def)
    then have ok: "table_ok ?t" using True by (auto simp: table_ok_def f(4)[symmetric] nth_list_update less_Suc_eq nat_add_distrib)
    have "map the (take (nat (mt_len ?t)) (m_table ?t)) = q"
      using tk True f(1) by (simp add: table_ok_def f(4)[symmetric] nat_add_distrib take_Suc_conv_app_nth q_def)
    then have tq: "txq ?s' = (txq s)(p := q)" by (simp add: fun_eq_iff txq_put[OF sh p])
    have "tx_frame s ?s'" by (simp add: tx_frame_def put_table_def)
    with add_pkt_store[OF sh p True] step[of ?s'] tx_shape_put[OF sh p ok] tq True show ?thesis
      by (simp add: q_def)
  next
    case False
    then have full: "length (txq s p) = 31" using f(3) by simp
    let ?t = "(tx_table s p)\<lparr>m_table := (m_table (tx_table s p))[31 := Some a]\<rparr>"
    let ?k = "min (unat (tx_src s (tx_cnt s))) 32"
    let ?s' = "put_table p (?t\<lparr>mt_len := 0\<rparr>) (burst_state ?k q p (put_table p ?t s))"
    have tk: "table_ok (tx_table s p)" using sh p by (simp add: tx_shape_def)
    then have ok: "table_ok ?t" using f(2) full by (auto simp: table_ok_def nth_list_update)
    then have ok0: "table_ok (?t\<lparr>mt_len := 0\<rparr>)" by (simp add: table_ok_def)
    have sh1: "tx_shape (burst_state ?k q p (put_table p ?t s))" using tx_shape_put[OF sh p ok] by simp
    have tq: "txq ?s' = (txq s)(p := [])" by (simp add: fun_eq_iff txq_put[OF sh1 p] txq_put[OF sh p])
    have "tx_frame s ?s'" by (simp add: tx_frame_def put_table_def burst_state_def)
    moreover have "take ?k q = take (unat (tx_src s (tx_cnt s))) q" using full by (simp add: q_def min_def)
    moreover have "distinct q" "set q \<subseteq> dom (mbufs s)" using di ow am by (auto simp: q_def sp(1))
    ultimately show ?thesis
      using add_pkt_burst[OF sh p full] step[of ?s'] tx_shape_put[OF sh1 p ok0] tq full
      by (simp add: q_def)
  qed
qed

lemma flush_port_ok:
  assumes inv: "tx_inv s" and p: "p < 8"
  shows "\<exists>s'. flush_port c p s = Some (Ret ((), s')) \<and> tx_inv s' \<and> loose s' = loose s \<and>
    txq s' = (txq s)(p := []) \<and> lcore_id s' = lcore_id s \<and> num_port (cur_lcore s') = num_port (cur_lcore s) \<and>
    (\<exists>k. wire s' = wire s @ map (\<lambda>b. (of_nat p, b, the (mbufs s b))) (take k (txq s p))) \<and>
    mbufs s' = mbufs s |` (- set (txq s p)) \<and> tx_frame (s\<lparr>prev_tsc := prev_tsc s'\<rparr>) s'"
proof -
  have sh: "tx_shape s" and di: "distinct (tx_pending s)" and ow: "set (tx_pending s) \<subseteq> dom (mbufs s)"
    using inv by (simp_all add: tx_inv_def)
  note f = txq_facts[OF sh p]
  obtain pre post where sp: "tx_pending s = pre @ txq s p @ post"
    "\<And>s' :: 'a stats_scheme. (\<And>r. r \<noteq> p \<Longrightarrow> txq s' r = txq s r) \<Longrightarrow> tx_pending s' = pre @ txq s' p @ post"
    using pending_split[OF p, of s, where 'b = "'a stats_ext"] by metis
  have tl: "table_ok (tx_table s p)" "lcore_id s < length (lcore_confs s)" using sh p by (simp_all add: tx_shape_def)
  show ?thesis
  proof (cases "txq s p = []")
    case True
    then have "mt_len (tx_table s p) = 0" using f(4) by simp
    moreover have "(txq s)(p := []) = txq s" using True by auto
    ultimately show ?thesis using inv True
      by (simp add: flush_port_def run_simps get_table_ok[OF sh p] tx_frame_def restrict_map_def)
  next
    case False
    let ?k = "min (unat (tx_src s (tx_cnt s))) (length (txq s p))"
    let ?b = "burst_state ?k (txq s p) p s"
    let ?s' = "(put_table p ((tx_table s p)\<lparr>mt_len := 0\<rparr>) ?b)\<lparr>prev_tsc := ucast c\<rparr>"
    have tbl: "length (m_table (tx_table s p)) = 32" using tl(1) by (simp add: table_ok_def)
    have own: "distinct (txq s p)" "set (txq s p) \<subseteq> dom (mbufs s)" using di ow by (auto simp: sp(1))
    have "tw_send_burst (of_nat (length (txq s p))) (of_nat p) s = Some (Ret (0, ?b))"
      using f tbl own by (intro send_burst_ok[OF sh p]) auto
    moreover have "mt_len (tx_table s p) \<noteq> 0" using False f(4) by auto
    ultimately have run: "flush_port c p s = Some (Ret ((), ?s'))"
      by (simp add: flush_port_def run_simps get_table_ok[OF sh p] f(4)[symmetric])
    have shb: "tx_shape ?b" using sh by simp
    have ok0: "table_ok ((tx_table s p)\<lparr>mt_len := 0\<rparr>)" using tl(1) by (simp add: table_ok_def)
    have sh': "tx_shape ?s'" using tx_shape_put[OF shb p ok0] by (simp add: tx_shape_def tx_table_def)
    have tq: "txq ?s' = (txq s)(p := [])"
      using txq_put[OF shb p, of "(tx_table s p)\<lparr>mt_len := 0\<rparr>"] by (auto simp: fun_eq_iff txq_def tx_table_def)
    have pend: "tx_pending ?s' = pre @ post" using sp(2)[of ?s'] tq by auto
    have mb: "mbufs ?s' = mbufs s |` (- set (txq s p))" by simp
    have "tx_inv ?s'" using sh' di ow mb by (auto simp: tx_inv_def pend sp(1) restrict_map_def)
    moreover have "loose ?s' = loose s"
      unfolding loose_def pend sp(1) mb by (auto simp: restrict_map_def fun_eq_iff)
    moreover have "num_port (cur_lcore ?s') = num_port (cur_lcore s)" using tl(2) by (simp add: put_table_def)
    moreover have "tx_frame (s\<lparr>prev_tsc := prev_tsc ?s'\<rparr>) ?s'"
      by (simp add: tx_frame_def put_table_def burst_state_def)
    ultimately show ?thesis using run tq mb by auto
  qed
qed

lemma flush_all_ok:
  assumes "tx_inv s" "set ps \<subseteq> {..<8}"
  shows "\<exists>s'. for_each ps (flush_port c) s = Some (Ret ((), s')) \<and> tx_inv s' \<and> loose s' = loose s \<and>
    txq s' = (\<lambda>p. if p \<in> set ps then [] else txq s p) \<and>
    tx_frame (s\<lparr>prev_tsc := prev_tsc s'\<rparr>) s'"
  using assms
proof (induction ps arbitrary: s)
  case Nil
  then show ?case by (simp add: run_simps tx_frame_def)
next
  case (Cons p ps)
  obtain s1 where s1: "flush_port c p s = Some (Ret ((), s1))" "tx_inv s1" "loose s1 = loose s"
    "txq s1 = (txq s)(p := [])" "tx_frame (s\<lparr>prev_tsc := prev_tsc s1\<rparr>) s1"
    using flush_port_ok[of s p c] Cons.prems by auto
  obtain s' where s': "for_each ps (flush_port c) s1 = Some (Ret ((), s'))" "tx_inv s'" "loose s' = loose s1"
    "txq s' = (\<lambda>p. if p \<in> set ps then [] else txq s1 p)" "tx_frame (s1\<lparr>prev_tsc := prev_tsc s'\<rparr>) s'"
    using Cons.IH[OF s1(2)] Cons.prems by auto
  have fr: "tx_frame (s\<lparr>prev_tsc := prev_tsc s'\<rparr>) s'"
  proof -
    have "s1\<lparr>prev_tsc := prev_tsc s'\<rparr> = s\<lparr>prev_tsc := prev_tsc s', mbufs := mbufs s1, tx_cnt := tx_cnt s1, wire := wire s1,
        lcore_confs := lcore_confs s1, tw_stats := tw_stats s1\<rparr>"
      using arg_cong[OF s1(5)[unfolded tx_frame_def], of "\<lambda>x. x\<lparr>prev_tsc := prev_tsc s'\<rparr>"] by simp
    then show ?thesis using s'(5) by (simp add: tx_frame_def)
  qed
  moreover have "txq s' = (\<lambda>r. if r \<in> set (p # ps) then [] else txq s r)" using s'(4) s1(4) by auto
  ultimately show ?case using s1 s' by (auto simp: run_simps)
qed

section \<open>The contract of a packet handler\<close>

text \<open>
  Every function that is given a received or built packet must dispose of it: free it, hand it to a
  transmit table or queue it. The contract says that a packet the caller holds is not held any more
  afterwards, that no other held packet is touched, and that the invariant is kept. The lemma
  \<open>drain\<close> is what a receive loop needs: handling a batch leaves none of it behind.
\<close>

locale pkt_handler =
  fixes handle :: "u8 \<Rightarrow> ptr \<Rightarrow> ('s, 'r) act"
    and valid :: "'s \<Rightarrow> u8 \<Rightarrow> bool"
    and fits :: "rte_mbuf \<Rightarrow> bool"
    and good :: "'s \<Rightarrow> bool"
    and held :: "'s \<Rightarrow> rte_mbuf heap"
  assumes handled: "good s \<Longrightarrow> valid s port \<Longrightarrow> held s a = Some m \<Longrightarrow> fits m \<Longrightarrow>
    \<exists>r s'. handle port (Some a) s = Some (Ret (r, s')) \<and> good s' \<and> valid s' = valid s \<and> held s' = (held s)(a := None)"
begin

lemma drain:
  assumes "good s" "valid s port" "distinct as" "\<And>a. a \<in> set as \<Longrightarrow> \<exists>m. held s a = Some m \<and> fits m"
  shows "\<exists>s'. for_each as (\<lambda>a. bnd (handle port (Some a)) (\<lambda>_. ret ())) s = Some (Ret ((), s')) \<and> good s' \<and>
    valid s' = valid s \<and> held s' = held s |` (- set as)"
  using assms
proof (induction as arbitrary: s)
  case Nil
  then show ?case by (simp add: run_simps restrict_map_def)
next
  case (Cons a as)
  obtain m where "held s a = Some m" "fits m" using Cons.prems(4)[of a] by auto
  then obtain r s1 where s1: "handle port (Some a) s = Some (Ret (r, s1))" "good s1" "valid s1 = valid s"
    "held s1 = (held s)(a := None)"
    using handled[OF Cons.prems(1,2)] by metis
  have "\<exists>m. held s1 b = Some m \<and> fits m" if "b \<in> set as" for b
    using that Cons.prems(3,4) s1(4) by auto
  then obtain s' where "for_each as (\<lambda>a. bnd (handle port (Some a)) (\<lambda>_. ret ())) s1 = Some (Ret ((), s'))"
    "good s'" "valid s' = valid s1" "held s' = held s1 |` (- set as)"
    using Cons.IH[of s1] Cons.prems s1(2,3) by auto
  moreover have "held s1 |` (- set as) = held s |` (- set (a # as))"
    unfolding s1(4) by (auto simp: restrict_map_def fun_eq_iff)
  ultimately show ?case using s1(1,3) by (auto simp: bnd_Ret_iff ret_def)
qed

end

definition valid_port :: "'s \<Rightarrow> u8 \<Rightarrow> bool" where
  "valid_port s port \<longleftrightarrow> unat port < MAX_ETH_PORTS"

interpretation tx_handler: pkt_handler "\<lambda>port p. tw_add_pkt_to_tx_queue p port" valid_port "\<lambda>_. True" tx_inv loose
proof
  fix s :: "'a stats_scheme" and port :: u8 and a m
  assume "tx_inv s" "valid_port s port" "loose s a = Some m"
  then show "\<exists>r s'. tw_add_pkt_to_tx_queue (Some a) port s = Some (Ret (r, s')) \<and> tx_inv s' \<and>
      valid_port s' = valid_port s \<and> loose s' = (loose s)(a := None)"
    using tx_add_ok[of s "unat port" a m] by (auto simp: valid_port_def fun_eq_iff)
qed

text \<open>A packet whose bytes were written just before it is sent: \<open>sent\<close> is the effect of the send.\<close>

definition sent :: "nat \<Rightarrow> nat \<Rightarrow> rte_mbuf \<Rightarrow> 'a stats_scheme \<Rightarrow> 'a stats_scheme \<Rightarrow> bool" where
  "sent p a m s s' \<longleftrightarrow> (let q = txq s p @ [a]; h = (mbufs s)(a \<mapsto> m) in
     txq s' = (txq s)(p := if length q < 32 then q else []) \<and>
     wire s' = wire s @ (if length q < 32 then []
       else map (\<lambda>b. (of_nat p, b, the (h b))) (take (unat (tx_src s (tx_cnt s))) q)) \<and>
     mbufs s' = (if length q < 32 then h else h |` (- set q)))"

lemma tx_frame_upd: "tx_frame (s\<lparr>mbufs := h\<rparr>) s' \<longleftrightarrow> tx_frame s s'"
  by (simp add: tx_frame_def)

lemma send_written:
  assumes "tx_inv s" "unat port < 8" "loose s a = Some m"
  shows "\<exists>s'. tw_add_pkt_to_tx_queue (Some a) port (s\<lparr>mbufs := (mbufs s)(a \<mapsto> m')\<rparr>) = Some (Ret (0, s')) \<and>
    tx_inv s' \<and> tx_frame s s' \<and> loose s' = (loose s)(a := None) \<and> sent (unat port) a m' s s'"
proof -
  let ?s = "s\<lparr>mbufs := (mbufs s)(a \<mapsto> m')\<rparr>"
  have a: "mbufs s a = Some m" "a \<notin> set (tx_pending s)"
    using assms(3) by (auto simp: loose_def restrict_map_def split: if_splits)
  have v: "txq ?s = txq s" "tx_shape ?s = tx_shape s" "tx_pending ?s = tx_pending s"
    using tx_view_cong[of ?s s] by simp_all
  have "tx_inv ?s" using assms(1) a by (auto simp: tx_inv_def v)
  moreover have l: "loose ?s = (loose s)(a \<mapsto> m')"
    using a unfolding loose_def v by (auto simp: restrict_map_def fun_eq_iff)
  ultimately obtain s' where "tw_add_pkt_to_tx_queue (Some a) port ?s = Some (Ret (0, s'))" "tx_inv s'" "tx_frame ?s s'"
    "loose s' = (loose ?s)(a := None)"
    "txq s' = (txq ?s)(unat port := if length (txq ?s (unat port) @ [a]) < 32 then txq ?s (unat port) @ [a] else [])"
    "wire s' = wire ?s @ (if length (txq ?s (unat port) @ [a]) < 32 then []
      else map (\<lambda>b. (of_nat (unat port), b, the (mbufs ?s b))) (take (unat (tx_src ?s (tx_cnt ?s))) (txq ?s (unat port) @ [a])))"
    "mbufs s' = (if length (txq ?s (unat port) @ [a]) < 32 then mbufs ?s else mbufs ?s |` (- set (txq ?s (unat port) @ [a])))"
    using tx_add_ok[of ?s "unat port" a m'] assms(2) by auto
  then show ?thesis unfolding sent_def Let_def v l tx_frame_upd by auto
qed

lemma free_loose:
  assumes "tx_inv s" "loose s a = Some m"
  shows "rte_pktmbuf_free (Some a) s = Some (Ret ((), s\<lparr>mbufs := (mbufs s)(a := None)\<rparr>))"
    "tx_inv (s\<lparr>mbufs := (mbufs s)(a := None)\<rparr>)" "loose (s\<lparr>mbufs := (mbufs s)(a := None)\<rparr>) = (loose s)(a := None)"
proof -
  let ?s' = "s\<lparr>mbufs := (mbufs s)(a := None)\<rparr>"
  have a: "mbufs s a = Some m" "a \<notin> set (tx_pending s)"
    using assms(2) by (auto simp: loose_def restrict_map_def split: if_splits)
  have eq: "tx_shape ?s' = tx_shape s" and p: "tx_pending ?s' = tx_pending s"
    using tx_view_cong[of ?s' s] by simp_all
  show "rte_pktmbuf_free (Some a) s = Some (Ret ((), ?s'))" using a by (simp add: run_simps)
  show "tx_inv ?s'" using assms(1) a eq p by (auto simp: tx_inv_def)
  show "loose ?s' = (loose s)(a := None)" unfolding loose_def p by (auto simp: restrict_map_def fun_eq_iff)
qed

interpretation free_handler: pkt_handler "\<lambda>_ p. rte_pktmbuf_free p" valid_port "\<lambda>_. True" tx_inv loose
  by unfold_locales (use free_loose in \<open>fastforce simp: valid_port_def fun_eq_iff\<close>)

section \<open>Properties\<close>

text \<open>
  C1. Queueing a packet for transmission refines appending to the queue of the port. The packet is
  stored behind the waiting ones; the 32nd packet makes the driver take a prefix of the queue in
  order, the rest of the queue is freed, and the queue is empty. No other queue changes, fewer than
  32 packets wait afterwards, and the packet has left the hands of the caller.
\<close>

theorem add_pkt_refines_queue:
  assumes "tx_inv s" and "p < MAX_ETH_PORTS" and "loose s a = Some m"
  defines "q \<equiv> txq s p @ [a]"
  shows "\<exists>s'. tw_add_pkt_to_tx_queue (Some a) (of_nat p) s = Some (Ret (0, s')) \<and> tx_inv s' \<and>
    txq s' = (txq s)(p := if length q < 32 then q else []) \<and>
    wire s' = wire s @ (if length q < 32 then []
      else map (\<lambda>b. (of_nat p, b, the (mbufs s b))) (take (unat (tx_src s (tx_cnt s))) q)) \<and>
    mbufs s' = (if length q < 32 then mbufs s else mbufs s |` (- set q)) \<and> loose s' = (loose s)(a := None)"
  using tx_add_ok[OF assms(1-3)] unfolding q_def by blast

definition wire_of :: "'a hw_scheme \<Rightarrow> nat \<Rightarrow> nat list" where
  "wire_of s p = map (fst \<circ> snd) (filter (\<lambda>w. fst w = of_nat p) (wire s))"

definition send_all :: "(nat \<times> nat) list \<Rightarrow> ('a stats_scheme, unit) act" where
  "send_all sends = for_each sends (\<lambda>(a, p). bnd (tw_add_pkt_to_tx_queue (Some a) (of_nat p)) (\<lambda>_. ret ()))"

lemma of_nat_u8_eq: "p < 8 \<Longrightarrow> r < 8 \<Longrightarrow> (of_nat p :: u8) = of_nat r \<longleftrightarrow> p = r"
proof
  assume "p < 8" "r < 8" "(of_nat p :: u8) = of_nat r"
  then have "unat (of_nat p :: u8) = unat (of_nat r :: u8)" by simp
  with \<open>p < 8\<close> \<open>r < 8\<close> show "p = r" by (simp add: unat_of_nat)
qed simp

lemma send_step_order:
  assumes "tx_inv s" "p < 8" "loose s a = Some m"
  obtains s' where "tw_add_pkt_to_tx_queue (Some a) (of_nat p) s = Some (Ret (0, s'))" "tx_inv s'"
    "loose s' = (loose s)(a := None)"
    "\<And>r. r < 8 \<Longrightarrow> subseq (wire_of s' r @ txq s' r) (wire_of s r @ txq s r @ (if r = p then [a] else []))"
proof -
  define q where "q = txq s p @ [a]"
  define k where "k = unat (tx_src s (tx_cnt s))"
  obtain s' where s': "tw_add_pkt_to_tx_queue (Some a) (of_nat p) s = Some (Ret (0, s'))" "tx_inv s'"
    "loose s' = (loose s)(a := None)" "txq s' = (txq s)(p := if length q < 32 then q else [])"
    "wire s' = wire s @ (if length q < 32 then [] else map (\<lambda>b. (of_nat p, b, the (mbufs s b))) (take k q))"
    using tx_add_ok[OF assms] unfolding q_def k_def by blast
  have "subseq (wire_of s' r @ txq s' r) (wire_of s r @ txq s r @ (if r = p then [a] else []))" if "r < 8" for r
  proof -
    have w: "wire_of s' r = wire_of s r @ (if length q < 32 \<or> r \<noteq> p then [] else take k q)"
      using of_nat_u8_eq[OF assms(2) that] by (auto simp: wire_of_def s'(5) filter_map comp_def)
    show ?thesis
    proof (cases "r = p \<and> \<not> length q < 32")
      case True
      have "subseq (wire_of s p @ take k q) (wire_of s p @ q)"
        by (intro list_emb_append_mono subseq_order.refl prefix_imp_subseq take_is_prefix)
      with True show ?thesis unfolding w s'(4) by (simp add: q_def)
    next
      case False
      then show ?thesis by (auto simp: w s'(4) q_def)
    qed
  qed
  with s' that show thesis by blast
qed

text \<open>
  C17. Order of transmission: any sequence of packets handed to \<open>tw_add_pkt_to_tx_queue\<close> for any
  ports is accepted, and for each port what has reached the wire followed by what still waits is a
  subsequence of what waited before followed by the packets handed over for that port: packets are
  never reordered or sent twice, and at most dropped.
\<close>

theorem send_order:
  assumes "tx_inv s" and "distinct (map fst sends)" and "\<forall>x\<in>set sends. snd x < MAX_ETH_PORTS \<and> fst x \<in> dom (loose s)"
  shows "\<exists>s'. send_all sends s = Some (Ret ((), s')) \<and> tx_inv s' \<and>
    (\<forall>r<8. subseq (wire_of s' r @ txq s' r) (wire_of s r @ txq s r @ map fst (filter (\<lambda>x. snd x = r) sends)))"
  using assms
proof (induction sends arbitrary: s)
  case Nil
  then show ?case by (simp add: send_all_def run_simps)
next
  case (Cons x sends)
  obtain a p m where x: "x = (a, p)" "p < 8" "loose s a = Some m" using Cons.prems(3) by (cases x) auto
  obtain s1 where s1: "tw_add_pkt_to_tx_queue (Some a) (of_nat p) s = Some (Ret (0, s1))" "tx_inv s1"
    "loose s1 = (loose s)(a := None)"
    "\<And>r. r < 8 \<Longrightarrow> subseq (wire_of s1 r @ txq s1 r) (wire_of s r @ txq s r @ (if r = p then [a] else []))"
    using send_step_order[OF Cons.prems(1) x(2,3)] by blast
  have "\<forall>y\<in>set sends. snd y < 8 \<and> fst y \<in> dom (loose s1)" using Cons.prems(2,3) s1(3) x(1) by (auto simp: image_iff)
  then obtain s' where s': "send_all sends s1 = Some (Ret ((), s'))" "tx_inv s'"
    "\<And>r. r < 8 \<Longrightarrow> subseq (wire_of s' r @ txq s' r) (wire_of s1 r @ txq s1 r @ map fst (filter (\<lambda>x. snd x = r) sends))"
    using Cons.IH[OF s1(2)] Cons.prems(2) by auto
  have "subseq (wire_of s' r @ txq s' r) (wire_of s r @ txq s r @ map fst (filter (\<lambda>x. snd x = r) (x # sends)))"
    if r: "r < 8" for r
  proof -
    have "subseq ((wire_of s1 r @ txq s1 r) @ map fst (filter (\<lambda>x. snd x = r) sends))
        ((wire_of s r @ txq s r @ (if r = p then [a] else [])) @ map fst (filter (\<lambda>x. snd x = r) sends))"
      using s1(4)[OF r] by (simp only: subseq_append)
    with s'(3)[OF r] show ?thesis by (auto simp: x(1) intro: subseq_order.trans)
  qed
  moreover have "send_all (x # sends) s = Some (Ret ((), s'))"
    using s1(1) s'(1) by (auto simp: send_all_def x(1) bnd_Ret_iff ret_def)
  ultimately show ?case using s'(2) by blast
qed


definition demo_mbuf :: rte_mbuf where
  "demo_mbuf = \<lparr>buf = (\<lambda>_. 0), buf_len = 2176, data_off = 128, data_len = 64, pkt_len = 64, vlan_tci = 0,
     rx_vlan_pkt = False\<rparr>"

definition demo_tx :: stats where
  "demo_tx = demo_stats\<lparr>mbufs := (\<lambda>a. if a < 100 then Some demo_mbuf else None)\<rparr>"

lemma demo_tx_lcore: "lcore_confs demo_tx = replicate 16 demo_lcore" "lcore_id demo_tx = 0"
  "tsc_src demo_tx (tsc_cnt demo_tx) = 9000000" "prev_tsc demo_tx = 0" "tsc_hz demo_tx = 2000000000"
  by (simp_all add: demo_tx_def demo_stats_def demo_lcores_def demo_defs stats.defs lcores.defs)

lemma demo_tx_facts:
  "p < 8 \<Longrightarrow> txq demo_tx p = []" "tx_inv demo_tx" "a < 100 \<Longrightarrow> loose demo_tx a = Some demo_mbuf"
proof -
  have t: "tx_table demo_tx r = \<lparr>mt_len = 0, m_table = replicate 32 None, mt_portid = 0\<rparr>" if "r < 8" for r
    using that by (simp add: tx_table_def demo_tx_lcore demo_lcore_def)
  show q: "txq demo_tx p = []" if "p < 8" for p using that by (simp add: txq_def t)
  have pend: "tx_pending demo_tx = []" by (simp add: tx_pending_def q)
  show "tx_inv demo_tx"
    by (simp add: tx_inv_def pend tx_shape_def t table_ok_def) (simp add: demo_tx_lcore demo_lcore_def)
  show "a < 100 \<Longrightarrow> loose demo_tx a = Some demo_mbuf" by (simp add: loose_def pend) (simp add: demo_tx_def)
qed

theorem add_pkt_refines_queue_witness:
  "\<exists>s'. tw_add_pkt_to_tx_queue (Some 7) (of_nat 3) demo_tx = Some (Ret (0, s')) \<and> txq s' 3 = [7]"
  using add_pkt_refines_queue[of demo_tx 3 7 demo_mbuf] by (auto simp: demo_tx_facts)

theorem send_order_witness:
  "\<exists>s'. send_all [(1, 0), (2, 1), (3, 0)] demo_tx = Some (Ret ((), s')) \<and>
    subseq (wire_of s' 0 @ txq s' 0) (wire_of demo_tx 0 @ [1, 3])"
proof -
  have "x \<in> dom (loose demo_tx)" if "x < 100" for x using demo_tx_facts(3)[OF that] by blast
  then obtain s' where "send_all [(1, 0), (2, 1), (3, 0)] demo_tx = Some (Ret ((), s'))"
    "\<forall>r<8. subseq (wire_of s' r @ txq s' r) (wire_of demo_tx r @ txq demo_tx r @ map fst (filter (\<lambda>x. snd x = r) [(1, 0), (2, 1), (3, 0)]))"
    using send_order[OF demo_tx_facts(2), of "[(1, 0), (2, 1), (3, 0)]"] by auto
  from this(1) this(2)[rule_format, of 0] show ?thesis by (auto simp: demo_tx_facts(1))
qed


end
