(* ===== verification/ArpLogic.thy ===== *)
theory ArpLogic
  imports RxTx
begin

text \<open>
  \<open>twister/arp/arplogic.c\<close>: the ARP table, a linked list searched by address and extended at its
  end, and the handling of ARP packets: answering requests for the address of a port, learning the
  sender of requests and replies, and building requests. Addresses in a packet are in network byte
  order, addresses in the table in the byte order of the CPU.
\<close>

section \<open>struct arp\_table\<close>

record arp_table =
  at_ip_addr :: u32
  at_eth_mac :: ether_addr
  at_port_id :: u8
  at_next :: ptr

record arp = stats +
  arp_heap :: "arp_table heap"
  arp_table_root :: ptr
  arp_table_size :: u32

section \<open>The table\<close>

partial_function (option) arp_walk :: "arp_table heap \<Rightarrow> u32 \<Rightarrow> ptr \<Rightarrow> ptr res" where
  "arp_walk h ip p = (case p of None \<Rightarrow> Some (Ret None)
     | Some a \<Rightarrow> (case h a of None \<Rightarrow> Some (Fault WildDeref)
         | Some n \<Rightarrow> if at_ip_addr n = ip then Some (Ret (Some a)) else arp_walk h ip (at_next n)))"

definition tw_search_arp_table :: "u32 \<Rightarrow> ('a arp_scheme, ptr) act" where
  "tw_search_arp_table ip_to_search = (\<lambda>s.
     lift_res (arp_walk (arp_heap s) (tw_be_to_cpu_32 ip_to_search) (arp_table_root s)) s)"

definition fill_arp_entry :: "u32 \<Rightarrow> ether_addr \<Rightarrow> u8 \<Rightarrow> ptr \<Rightarrow> ('a arp_scheme, int) act" where
  "fill_arp_entry ip_to_add mac_to_add port_id p = (case p of None \<Rightarrow> exit_with 1
     | Some a \<Rightarrow> bnd (modify (\<lambda>s. s\<lparr>arp_heap := (arp_heap s)(a \<mapsto>
           \<lparr>at_ip_addr = tw_be_to_cpu_32 ip_to_add, at_eth_mac = mac_to_add, at_port_id = port_id, at_next = None\<rparr>),
           arp_table_size := arp_table_size s + 1\<rparr>)) (\<lambda>_. ret 0))"

definition tw_add_arp_entry :: "u32 \<Rightarrow> ether_addr \<Rightarrow> u8 \<Rightarrow> ('a arp_scheme, int) act" where
  "tw_add_arp_entry ip_to_add mac_to_add port_id = (\<lambda>s. case arp_table_root s of
       None \<Rightarrow> bnd rte_malloc (\<lambda>p. bnd (modify (\<lambda>s. s\<lparr>arp_table_root := p\<rparr>)) (\<lambda>_.
         fill_arp_entry ip_to_add mac_to_add port_id p)) s
     | Some r \<Rightarrow> bnd (lift_res (walk_last at_next (arp_heap s) r)) (\<lambda>l. bnd rte_malloc (\<lambda>p.
         bnd (set_cell arp_heap arp_heap_update (Some l) (\<lambda>n. n\<lparr>at_next := p\<rparr>)) (\<lambda>_.
         fill_arp_entry ip_to_add mac_to_add port_id p))) s)"

section \<open>Packets\<close>

text \<open>The stores of \<open>tw_send_arp_reply\<close>, in their order; \<open>e\<close> is the offset of the Ethernet header.\<close>

definition arp_reply_stores :: "port_info \<Rightarrow> ether_addr \<Rightarrow> nat \<Rightarrow> bytes \<Rightarrow> bytes" where
  "arp_reply_stores pi mac e b =
     (let a = e + sizeof_ether_hdr;
          b = set_arp_op a (tw_cpu_to_be_16 ARP_OP_REPLY) b;
          b = set_arp_tha a (arp_sha (arp_hdr_at b a)) b;
          b = set_arp_sha a mac b;
          b = set_arp_tip a (arp_sip (arp_hdr_at b a)) b;
          b = set_arp_sip a (tw_cpu_to_be_32 (start_ip_addr pi)) b;
          b = set_d_addr e (s_addr (ether_hdr_at b e)) b
      in set_s_addr e mac b)"

definition port_mac :: "port_info \<Rightarrow> ('s, ether_addr) act" where
  "port_mac pi = (case eth_mac pi of None \<Rightarrow> fault NullDeref | Some mac \<Rightarrow> ret mac)"

definition tw_send_arp_reply :: "ptr \<Rightarrow> u8 \<Rightarrow> ('a arp_scheme, int) act" where
  "tw_send_arp_reply pkt port_id =
     bnd (port_at (int (unat port_id))) (\<lambda>pi. bnd (port_mac pi) (\<lambda>mac.
     bnd (write_hdr pkt (sizeof_ether_hdr + sizeof_arp_hdr) (arp_reply_stores pi mac)) (\<lambda>_.
     bnd (tw_add_pkt_to_tx_queue pkt port_id) (\<lambda>_. ret 0))))"

definition get_arp :: "ptr \<Rightarrow> ('a arp_scheme, arp_hdr) act" where
  "get_arp pkt = bnd (mbuf_hdr pkt (sizeof_ether_hdr + sizeof_arp_hdr)) (\<lambda>m.
     ret (arp_hdr_at (buf m) (mtod m + sizeof_ether_hdr)))"

definition tw_process_arp_reply :: "ptr \<Rightarrow> u8 \<Rightarrow> ('a arp_scheme, int) act" where
  "tw_process_arp_reply pkt port_id =
     bnd (get_arp pkt) (\<lambda>arp_pkt.
     bnd (tw_search_arp_table (arp_sip arp_pkt)) (\<lambda>p.
     if p = None then
       bnd (tw_add_arp_entry (arp_sip arp_pkt) (arp_sha arp_pkt) port_id) (\<lambda>r.
       if r \<noteq> 0 then bnd (rte_pktmbuf_free pkt) (\<lambda>_. ret (- 1))
       else bnd (rte_pktmbuf_free pkt) (\<lambda>_. ret 0))
     else bnd (rte_pktmbuf_free pkt) (\<lambda>_. ret 0)))"

definition tw_parse_arp :: "ptr \<Rightarrow> u8 \<Rightarrow> ('a arp_scheme, int) act" where
  "tw_parse_arp pkt port_id =
     bnd (get_arp pkt) (\<lambda>arp_pkt.
     if tw_be_to_cpu_16 (arp_op arp_pkt) = ARP_OP_REQUEST then
       bnd (port_at (int (unat port_id))) (\<lambda>pi.
       if tw_be_to_cpu_32 (arp_tip arp_pkt) = start_ip_addr pi then
         bnd (tw_search_arp_table (arp_sip arp_pkt)) (\<lambda>p.
         bnd (if p = None then bnd (tw_add_arp_entry (arp_sip arp_pkt) (arp_sha arp_pkt) port_id) (\<lambda>_. ret ())
              else ret ()) (\<lambda>_.
         bnd (tw_send_arp_reply pkt port_id) (\<lambda>_. ret 0)))
       else bnd (rte_pktmbuf_free pkt) (\<lambda>_. ret 0))
     else if tw_be_to_cpu_16 (arp_op arp_pkt) = ARP_OP_REPLY then
       bnd (tw_process_arp_reply pkt port_id) (\<lambda>_. ret 0)
     else bnd (rte_pktmbuf_free pkt) (\<lambda>_. ret 0))"

text \<open>The stores of \<open>tw_construct_arp_packet\<close> before and after the Ethernet header is prepended.\<close>

definition arp_request_stores :: "port_info \<Rightarrow> ether_addr \<Rightarrow> u32 \<Rightarrow> nat \<Rightarrow> bytes \<Rightarrow> bytes" where
  "arp_request_stores pi mac ip a b =
     (let b = set_arp_op a (tw_cpu_to_be_16 ARP_OP_REQUEST) b;
          b = set_arp_pro a (tw_cpu_to_be_16 ETHER_TYPE_IPv4) b;
          b = set_arp_pln a 4 b;
          b = set_arp_hln a 6 b;
          b = set_arp_hrd a (tw_cpu_to_be_16 ARP_HRD_ETHER) b;
          b = set_arp_sha a mac b;
          b = set_arp_tha a querycastmac b;
          b = set_arp_sip a (tw_cpu_to_be_32 (start_ip_addr pi)) b
      in set_arp_tip a (tw_cpu_to_be_32 ip) b)"

definition arp_request_eth :: "ether_addr \<Rightarrow> nat \<Rightarrow> bytes \<Rightarrow> bytes" where
  "arp_request_eth mac e b =
     (let b = set_ether_type e (tw_cpu_to_be_16 ETHER_TYPE_ARP) b;
          b = set_s_addr e mac b
      in set_d_addr e broadcastmac b)"

definition tw_construct_arp_packet :: "u32 \<Rightarrow> u8 \<Rightarrow> ('a arp_scheme, int) act" where
  "tw_construct_arp_packet ip port_id =
     bnd (gets (\<lambda>s. fix_socket (dev_socket s port_id))) (\<lambda>socket_id.
     bnd (\<lambda>s. if 0 \<le> socket_id then index_ck (tx_mempool s) (nat socket_id) s else Some (Fault OutOfBounds)) (\<lambda>pool.
     bnd (rte_pktmbuf_alloc pool) (\<lambda>m.
     bnd (mbuf_append m (of_nat sizeof_arp_hdr)) (\<lambda>_.
     bnd (port_at (int (unat port_id))) (\<lambda>pi. bnd (port_mac pi) (\<lambda>mac.
     bnd (write_hdr m sizeof_arp_hdr (arp_request_stores pi mac ip)) (\<lambda>_.
     bnd (mbuf_prepend m (of_nat sizeof_ether_hdr)) (\<lambda>_.
     bnd (write_hdr m sizeof_ether_hdr (arp_request_eth mac)) (\<lambda>_.
     bnd (tw_add_pkt_to_tx_queue m port_id) (\<lambda>_. ret 0))))))))))"

section \<open>Functions of the API\<close>

definition tw_send_arp_request :: "u32 \<Rightarrow> string \<Rightarrow> ('a arp_scheme, int) act" where
  "tw_send_arp_request ip_addr port_nm = (\<lambda>s.
     bnd (tw_construct_arp_packet ip_addr (word_of_int (tw_eth_name_to_id port_nm s))) (\<lambda>_. ret 0) s)"

text \<open>The result is the entry whose \<open>eth_mac\<close> field the C function points into; \<open>junk\<close> is the
  uninitialised part of the conversion.\<close>

definition tw_search_arp_entry :: "int list \<Rightarrow> string \<Rightarrow> ('a arp_scheme, ptr) act" where
  "tw_search_arp_entry junk ip_string =
     bnd (lift_out (tw_convert_ip_str_to_dec junk ip_string)) (\<lambda>ip_addr.
     tw_search_arp_table (tw_cpu_to_be_32 ip_addr))"

definition tw_arp_parser :: "tw_buf \<Rightarrow> string \<Rightarrow> ('a arp_scheme, int) act" where
  "tw_arp_parser buffer port_nm = (\<lambda>s. tw_parse_arp (tb_pkt buffer) (word_of_int (tw_eth_name_to_id port_nm s)) s)"

section \<open>The table as a list of bindings\<close>

interpretation at: linked at_next "\<lambda>p n. n\<lparr>at_next := p\<rparr>"
  by unfold_locales simp

type_synonym binding = "u32 \<times> ether_addr \<times> u8"

definition entry :: "arp_table \<Rightarrow> binding" where
  "entry n = (at_ip_addr n, at_eth_mac n, at_port_id n)"

text \<open>\<open>arp_tab s es\<close>: the list from the root holds the bindings \<open>es\<close> in order, and the size counts them.\<close>

definition arp_tab :: "'a arp_scheme \<Rightarrow> binding list \<Rightarrow> bool" where
  "arp_tab s es \<longleftrightarrow> (\<exists>xs. chain at_next (arp_heap s) (arp_table_root s) xs \<and>
     es = map (entry \<circ> the \<circ> arp_heap s) xs \<and> arp_table_size s = of_nat (length xs))"

definition arp_frame :: "'a arp_scheme \<Rightarrow> 'a arp_scheme \<Rightarrow> bool" where
  "arp_frame s s' \<longleftrightarrow> s' = s\<lparr>malloc_cnt := malloc_cnt s', arp_heap := arp_heap s', arp_table_root := arp_table_root s',
     arp_table_size := arp_table_size s'\<rparr>"

text \<open>The allocator has memory left and hands out addresses that are not in use: the next ones are
  pairwise different and outside \<open>H\<close>.\<close>

definition malloc_fresh :: "'a hw_scheme \<Rightarrow> nat set \<Rightarrow> bool" where
  "malloc_fresh s H \<longleftrightarrow> inj_on (malloc_src s) {malloc_cnt s..} \<and>
     (\<forall>k\<ge>malloc_cnt s. \<exists>a. malloc_src s k = Some a \<and> a \<notin> H)"

lemma malloc_fresh_step:
  assumes "malloc_fresh s H"
  obtains a where "malloc_src s (malloc_cnt s) = Some a" "a \<notin> H"
    "\<And>s' :: 'b hw_scheme. malloc_src s' = malloc_src s \<Longrightarrow> malloc_cnt s' = Suc (malloc_cnt s) \<Longrightarrow> malloc_fresh s' (insert a H)"
proof -
  obtain a where a: "malloc_src s (malloc_cnt s) = Some a" "a \<notin> H"
    using assms by (auto simp: malloc_fresh_def)
  have "malloc_fresh s' (insert a H)" if "malloc_src s' = malloc_src s" "malloc_cnt s' = Suc (malloc_cnt s)" for s' :: "'b hw_scheme"
  proof -
    have "malloc_src s k \<noteq> Some a" if "k \<ge> Suc (malloc_cnt s)" for k
    proof
      assume "malloc_src s k = Some a"
      then have "malloc_cnt s = k"
        using assms a(1) that by (intro inj_onD[of "malloc_src s" "{malloc_cnt s..}"]) (auto simp: malloc_fresh_def)
      then show False using that by simp
    qed
    moreover have "\<exists>b. malloc_src s k = Some b \<and> b \<notin> H" if "k \<ge> Suc (malloc_cnt s)" for k
      using assms that by (auto simp: malloc_fresh_def)
    moreover have "inj_on (malloc_src s) {Suc (malloc_cnt s)..}"
      using assms by (auto simp: malloc_fresh_def elim: inj_on_subset)
    ultimately show ?thesis using that by (force simp: malloc_fresh_def)
  qed
  with a that show thesis by blast
qed

lemma arp_walk_chain:
  assumes "chain at_next h p xs"
  shows "\<exists>r. arp_walk h ip p = Some (Ret r) \<and>
    (case r of None \<Rightarrow> map_of (map (entry \<circ> the \<circ> h) xs) ip = None
     | Some a \<Rightarrow> a \<in> set xs \<and> (\<exists>n. h a = Some n \<and> at_ip_addr n = ip \<and>
         map_of (map (entry \<circ> the \<circ> h) xs) ip = Some (at_eth_mac n, at_port_id n)))"
  using assms
proof (induction xs arbitrary: p)
  case Nil
  then show ?case by (simp add: arp_walk.simps)
next
  case (Cons x xs)
  then obtain n where n: "p = Some x" "h x = Some n" "chain at_next h (at_next n) xs" by auto
  show ?case
  proof (cases "at_ip_addr n = ip")
    case True
    then show ?thesis using n by (subst arp_walk.simps) (simp add: entry_def)
  next
    case False
    obtain r where r: "arp_walk h ip (at_next n) = Some (Ret r)"
      "case r of None \<Rightarrow> map_of (map (entry \<circ> the \<circ> h) xs) ip = None
       | Some a \<Rightarrow> a \<in> set xs \<and> (\<exists>n. h a = Some n \<and> at_ip_addr n = ip \<and>
           map_of (map (entry \<circ> the \<circ> h) xs) ip = Some (at_eth_mac n, at_port_id n))"
      using Cons.IH[OF n(3)] by blast
    have "arp_walk h ip p = Some (Ret r)" using False n r(1) by (subst arp_walk.simps) simp
    moreover have "map_of (map (entry \<circ> the \<circ> h) (x # xs)) ip = map_of (map (entry \<circ> the \<circ> h) xs) ip"
      using False n(2) by (simp add: entry_def)
    ultimately show ?thesis using r(2) by (auto split: option.splits)
  qed
qed

lemma search_ok:
  assumes "arp_tab s es"
  shows "\<exists>p. tw_search_arp_table ip s = Some (Ret (p, s)) \<and>
    (case p of None \<Rightarrow> map_of es (tw_be_to_cpu_32 ip) = None
     | Some a \<Rightarrow> \<exists>n. arp_heap s a = Some n \<and> map_of es (tw_be_to_cpu_32 ip) = Some (at_eth_mac n, at_port_id n))"
proof -
  obtain xs where xs: "chain at_next (arp_heap s) (arp_table_root s) xs" "es = map (entry \<circ> the \<circ> arp_heap s) xs"
    using assms by (auto simp: arp_tab_def)
  obtain r where "arp_walk (arp_heap s) (tw_be_to_cpu_32 ip) (arp_table_root s) = Some (Ret r)"
    "case r of None \<Rightarrow> map_of es (tw_be_to_cpu_32 ip) = None
     | Some a \<Rightarrow> \<exists>n. arp_heap s a = Some n \<and> map_of es (tw_be_to_cpu_32 ip) = Some (at_eth_mac n, at_port_id n)"
    using arp_walk_chain[OF xs(1), of "tw_be_to_cpu_32 ip"] unfolding xs(2) by (fastforce split: option.splits)
  then show ?thesis by (simp add: tw_search_arp_table_def run_simps)
qed

lemma add_entry_ok:
  assumes tab: "arp_tab s es" and mal: "malloc_src s (malloc_cnt s) = Some a" and fresh: "a \<notin> dom (arp_heap s)"
  shows "\<exists>s'. tw_add_arp_entry ip mac port s = Some (Ret (0, s')) \<and>
    arp_tab s' (es @ [(tw_be_to_cpu_32 ip, mac, port)]) \<and> arp_frame s s' \<and>
    malloc_cnt s' = Suc (malloc_cnt s) \<and> dom (arp_heap s') = insert a (dom (arp_heap s))"
proof -
  let ?nd = "\<lparr>at_ip_addr = tw_be_to_cpu_32 ip, at_eth_mac = mac, at_port_id = port, at_next = None\<rparr>"
  obtain xs where xs: "chain at_next (arp_heap s) (arp_table_root s) xs" "es = map (entry \<circ> the \<circ> arp_heap s) xs"
    "arp_table_size s = of_nat (length xs)"
    using tab by (auto simp: arp_tab_def)
  have a_xs: "a \<notin> set xs" using seg_dom[OF xs(1)] fresh by auto
  show ?thesis
  proof (cases "arp_table_root s")
    case None
    then have "xs = []" using xs(1) by simp
    let ?s' = "s\<lparr>malloc_cnt := Suc (malloc_cnt s), arp_table_root := Some a, arp_heap := (arp_heap s)(a \<mapsto> ?nd),
       arp_table_size := arp_table_size s + 1\<rparr>"
    have "tw_add_arp_entry ip mac port s = Some (Ret (0, ?s'))"
      using None mal by (simp add: tw_add_arp_entry_def fill_arp_entry_def rte_malloc_def run_simps)
    moreover have "arp_tab ?s' (es @ [(tw_be_to_cpu_32 ip, mac, port)])"
      using xs \<open>xs = []\<close> by (auto simp: arp_tab_def entry_def intro!: exI[of _ "[a]"])
    moreover have "arp_frame s ?s'" by (simp add: arp_frame_def)
    ultimately show ?thesis by auto
  next
    case (Some r)
    with xs(1) have ne: "xs \<noteq> []" by auto
    have wl: "walk_last at_next (arp_heap s) r = Some (Ret (last xs))"
      using walk_last_chain[of at_next "arp_heap s" r xs] xs(1) Some by simp
    obtain l where l: "arp_heap s (last xs) = Some l" using seg_dom[OF xs(1)] last_in_set[OF ne] by blast
    let ?h = "(arp_heap s)(last xs \<mapsto> l\<lparr>at_next := Some a\<rparr>, a \<mapsto> ?nd)"
    let ?s' = "s\<lparr>malloc_cnt := Suc (malloc_cnt s), arp_heap := ?h, arp_table_size := arp_table_size s + 1\<rparr>"
    have run: "tw_add_arp_entry ip mac port s = Some (Ret (0, ?s'))"
      using Some mal wl l by (simp add: tw_add_arp_entry_def fill_arp_entry_def rte_malloc_def run_simps)
    have ch: "chain at_next ?h (arp_table_root s) (xs @ [a])"
      using at.append_node[OF xs(1) ne fresh l, of ?nd] by simp
    have "map (entry \<circ> the \<circ> ?h) xs = map (entry \<circ> the \<circ> arp_heap s) xs"
      using a_xs l by (auto simp: entry_def)
    then have "arp_tab ?s' (es @ [(tw_be_to_cpu_32 ip, mac, port)])"
      using ch xs(2,3) by (auto simp: arp_tab_def entry_def intro!: exI[of _ "xs @ [a]"])
    moreover have "arp_frame s ?s'" by (simp add: arp_frame_def)
    moreover have "dom ?h = insert a (dom (arp_heap s))" using l by auto
    ultimately show ?thesis using run by auto
  qed
qed

section \<open>The contract of an address table\<close>

text \<open>What learning an address means for the bindings: the first binding of an address is kept.\<close>

definition learned :: "binding list \<Rightarrow> binding \<Rightarrow> binding list" where
  "learned es b = (if map_of es (fst b) = None then es @ [b] else es)"

lemma learned_lookup:
  "map_of (learned es b) ip = (if ip = fst b \<and> map_of es ip = None then Some (snd b) else map_of es ip)"
  by (cases b) (auto simp: learned_def map_of_append map_add_def split: option.splits)

lemma learned_distinct: "distinct (map fst es) \<Longrightarrow> distinct (map fst (learned es b))"
  by (auto simp: learned_def map_of_eq_None_iff)

locale addr_store =
  fixes search :: "u32 \<Rightarrow> ('s, ptr) act"
    and add :: "u32 \<Rightarrow> ether_addr \<Rightarrow> u8 \<Rightarrow> ('s, int) act"
    and tab :: "'s \<Rightarrow> binding list \<Rightarrow> bool"
    and ready :: "'s \<Rightarrow> bool"
    and keeps :: "'s \<Rightarrow> 's \<Rightarrow> bool"
  assumes search_law: "tab s es \<Longrightarrow>
      \<exists>p. search ip s = Some (Ret (p, s)) \<and> (p = None \<longleftrightarrow> map_of es (tw_be_to_cpu_32 ip) = None)"
    and add_law: "tab s es \<Longrightarrow> ready s \<Longrightarrow>
      \<exists>s'. add ip mac port s = Some (Ret (0, s')) \<and> tab s' (es @ [(tw_be_to_cpu_32 ip, mac, port)]) \<and> ready s' \<and> keeps s s'"
    and keeps_refl: "keeps s s"
begin

text \<open>The idiom of the callers: add the address unless it is found.\<close>

lemma learn:
  assumes "tab s es" "ready s"
  obtains p s' where "search ip s = Some (Ret (p, s))"
    and "if p = None then add ip mac port s = Some (Ret (0, s')) else s' = s"
    and "tab s' (learned es (tw_be_to_cpu_32 ip, mac, port))" "ready s'" "keeps s s'"
proof -
  obtain p where p: "search ip s = Some (Ret (p, s))" "p = None \<longleftrightarrow> map_of es (tw_be_to_cpu_32 ip) = None"
    using search_law[OF assms(1)] by blast
  show thesis
  proof (cases "p = None")
    case True
    then show thesis using p add_law[OF assms] that[of None] by (auto simp: learned_def)
  next
    case False
    then show thesis using p assms keeps_refl that[of p s] by (auto simp: learned_def)
  qed
qed

end

definition arp_ready :: "'a arp_scheme \<Rightarrow> bool" where
  "arp_ready s \<longleftrightarrow> malloc_fresh s (dom (arp_heap s))"

lemma arp_frame_malloc: "arp_frame s s' \<Longrightarrow> malloc_src s' = malloc_src s"
  unfolding arp_frame_def by (drule arg_cong[where f = malloc_src]) simp

interpretation arp_store: addr_store tw_search_arp_table tw_add_arp_entry arp_tab arp_ready arp_frame
proof
  fix s :: "'a arp_scheme" and es ip
  assume "arp_tab s es"
  from search_ok[OF this, of ip] show "\<exists>p. tw_search_arp_table ip s = Some (Ret (p, s)) \<and>
      (p = None \<longleftrightarrow> map_of es (tw_be_to_cpu_32 ip) = None)"
    by (auto split: option.splits) (metis not_None_eq surj_pair)
next
  fix s :: "'a arp_scheme" and es ip mac port
  assume t: "arp_tab s es" and r: "arp_ready s"
  obtain a where a: "malloc_src s (malloc_cnt s) = Some a" "a \<notin> dom (arp_heap s)"
    "\<And>s' :: 'a arp_scheme. malloc_src s' = malloc_src s \<Longrightarrow> malloc_cnt s' = Suc (malloc_cnt s) \<Longrightarrow>
       malloc_fresh s' (insert a (dom (arp_heap s)))"
    using malloc_fresh_step[OF r[unfolded arp_ready_def]] by blast
  obtain s' where s': "tw_add_arp_entry ip mac port s = Some (Ret (0, s'))"
    "arp_tab s' (es @ [(tw_be_to_cpu_32 ip, mac, port)])" "arp_frame s s'" "malloc_cnt s' = Suc (malloc_cnt s)"
    "dom (arp_heap s') = insert a (dom (arp_heap s))"
    using add_entry_ok[OF t a(1,2)] by blast
  have "arp_ready s'" using a(3)[OF arp_frame_malloc[OF s'(3)] s'(4)] s'(5) by (simp add: arp_ready_def)
  with s' show "\<exists>s'. tw_add_arp_entry ip mac port s = Some (Ret (0, s')) \<and>
      arp_tab s' (es @ [(tw_be_to_cpu_32 ip, mac, port)]) \<and> arp_ready s' \<and> arp_frame s s'"
    by blast
qed (simp add: arp_frame_def)

section \<open>Handling a packet\<close>

definition port_up :: "'a ports_scheme \<Rightarrow> u8 \<Rightarrow> bool" where
  "port_up s port \<longleftrightarrow> unat port < MAX_ETH_PORTS \<and> length (port_infos s) = MAX_ETH_PORTS \<and>
     eth_mac (port_infos s ! unat port) \<noteq> None"

definition arp_fits :: "rte_mbuf \<Rightarrow> bool" where
  "arp_fits m \<longleftrightarrow> mtod m + (sizeof_ether_hdr + sizeof_arp_hdr) \<le> unat (buf_len m)"

definition arp_good :: "'a arp_scheme \<Rightarrow> bool" where
  "arp_good s \<longleftrightarrow> tx_inv s \<and> arp_ready s \<and> (\<exists>es. arp_tab s es)"

abbreviation arp_of :: "rte_mbuf \<Rightarrow> arp_hdr" where
  "arp_of m \<equiv> arp_hdr_at (buf m) (mtod m + sizeof_ether_hdr)"

lemma arp_frameD:
  assumes "arp_frame s s'"
  shows "lcore_confs s' = lcore_confs s" "lcore_id s' = lcore_id s" "mbufs s' = mbufs s" "port_infos s' = port_infos s"
    "wire s' = wire s" "tx_src s' = tx_src s" "tx_cnt s' = tx_cnt s"
proof -
  have eq: "s' = s\<lparr>malloc_cnt := malloc_cnt s', arp_heap := arp_heap s', arp_table_root := arp_table_root s',
      arp_table_size := arp_table_size s'\<rparr>"
    using assms by (simp add: arp_frame_def)
  show "lcore_confs s' = lcore_confs s" "lcore_id s' = lcore_id s" "mbufs s' = mbufs s" "port_infos s' = port_infos s"
    "wire s' = wire s" "tx_src s' = tx_src s" "tx_cnt s' = tx_cnt s"
    by (subst eq, simp)+
qed

lemma arp_frame_views:
  assumes "arp_frame s s'"
  shows "tx_inv s' = tx_inv s" "loose s' = loose s" "txq s' = txq s" "port_up s' = port_up s"
    "sent p a m s' t = sent p a m s t"
proof -
  note d = arp_frameD[OF assms]
  note v = tx_view_cong[OF d(1,2)]
  show "tx_inv s' = tx_inv s" "loose s' = loose s" "txq s' = txq s" using v d(3) by simp_all
  show "port_up s' = port_up s" by (simp add: port_up_def fun_eq_iff d(4))
  show "sent p a m s' t = sent p a m s t" by (simp add: sent_def v d Let_def)
qed

lemma tx_frame_arp:
  fixes s s' :: "'a arp_scheme"
  assumes "tx_frame s s'"
  shows "arp_tab s' = arp_tab s" "arp_ready s' = arp_ready s" "port_up s' = port_up s" "port_infos s' = port_infos s"
proof -
  have eq: "s' = s\<lparr>mbufs := mbufs s', tx_cnt := tx_cnt s', wire := wire s',
      lcore_confs := lcore_confs s', tw_stats := tw_stats s'\<rparr>"
    using assms by (simp add: tx_frame_def)
  have h: "arp_heap s' = arp_heap s" "arp_table_root s' = arp_table_root s" "arp_table_size s' = arp_table_size s"
    "malloc_src s' = malloc_src s" "malloc_cnt s' = malloc_cnt s" and p: "port_infos s' = port_infos s"
    by (subst eq, simp)+
  show "arp_tab s' = arp_tab s" "arp_ready s' = arp_ready s" "port_up s' = port_up s" "port_infos s' = port_infos s"
    by (simp_all add: fun_eq_iff arp_tab_def arp_ready_def malloc_fresh_def port_up_def h p)
qed

lemma looseD: "loose s a = Some m \<Longrightarrow> mbufs s a = Some m"
  by (auto simp: loose_def restrict_map_def split: if_splits)

lemma get_arp_ok: "mbufs s a = Some m \<Longrightarrow> arp_fits m \<Longrightarrow> get_arp (Some a) s = Some (Ret (arp_of m, s))"
  by (simp add: get_arp_def run_simps arp_fits_def)

lemma send_reply_ok:
  assumes "tx_inv s" "port_up s port" "loose s a = Some m" "arp_fits m"
  shows "\<exists>s'. tw_send_arp_reply (Some a) port s = Some (Ret (0, s')) \<and> tx_inv s' \<and> tx_frame s s' \<and>
    loose s' = (loose s)(a := None) \<and>
    sent (unat port) a (m\<lparr>buf := arp_reply_stores (port_infos s ! unat port) (the (eth_mac (port_infos s ! unat port)))
      (mtod m) (buf m)\<rparr>) s s'"
proof -
  let ?pi = "port_infos s ! unat port"
  obtain mac where mac: "eth_mac ?pi = Some mac" using assms(2) by (auto simp: port_up_def)
  let ?m' = "m\<lparr>buf := arp_reply_stores ?pi mac (mtod m) (buf m)\<rparr>"
  obtain s' where s': "tw_add_pkt_to_tx_queue (Some a) port (s\<lparr>mbufs := (mbufs s)(a \<mapsto> ?m')\<rparr>) = Some (Ret (0, s'))"
    "tx_inv s'" "tx_frame s s'" "loose s' = (loose s)(a := None)" "sent (unat port) a ?m' s s'"
    using send_written[OF assms(1) _ assms(3), of port ?m'] assms(2) by (auto simp: port_up_def)
  have "tw_send_arp_reply (Some a) port s = Some (Ret (0, s'))"
    using assms(2,4) looseD[OF assms(3)] mac s'(1)
    by (simp add: tw_send_arp_reply_def port_at_def port_mac_def run_simps port_up_def arp_fits_def)
  with s' mac show ?thesis by auto
qed

lemma parse_request_ok:
  assumes "tx_inv s" "arp_tab s es" "arp_ready s" "port_up s port" "loose s a = Some m" "arp_fits m"
    and "tw_be_to_cpu_16 (arp_op (arp_of m)) = ARP_OP_REQUEST"
    and "tw_be_to_cpu_32 (arp_tip (arp_of m)) = start_ip_addr (port_infos s ! unat port)"
  shows "\<exists>s'. tw_parse_arp (Some a) port s = Some (Ret (0, s')) \<and> tx_inv s' \<and> arp_ready s' \<and>
    arp_tab s' (learned es (tw_be_to_cpu_32 (arp_sip (arp_of m)), arp_sha (arp_of m), port)) \<and> port_up s' = port_up s \<and>
    loose s' = (loose s)(a := None) \<and>
    sent (unat port) a (m\<lparr>buf := arp_reply_stores (port_infos s ! unat port) (the (eth_mac (port_infos s ! unat port)))
      (mtod m) (buf m)\<rparr>) s s'"
proof -
  obtain p s1 where s1: "tw_search_arp_table (arp_sip (arp_of m)) s = Some (Ret (p, s))"
    "if p = None then tw_add_arp_entry (arp_sip (arp_of m)) (arp_sha (arp_of m)) port s = Some (Ret (0, s1)) else s1 = s"
    "arp_tab s1 (learned es (tw_be_to_cpu_32 (arp_sip (arp_of m)), arp_sha (arp_of m), port))" "arp_ready s1" "arp_frame s s1"
    using arp_store.learn[OF assms(2,3)] by blast
  note fv = arp_frame_views[OF s1(5)] arp_frameD(4)[OF s1(5)]
  obtain s' where s': "tw_send_arp_reply (Some a) port s1 = Some (Ret (0, s'))" "tx_inv s'" "tx_frame s1 s'"
    "loose s' = (loose s)(a := None)"
    "sent (unat port) a (m\<lparr>buf := arp_reply_stores (port_infos s ! unat port) (the (eth_mac (port_infos s ! unat port)))
      (mtod m) (buf m)\<rparr>) s s'"
    using send_reply_ok[of s1 port a m] assms fv by auto
  have "tw_parse_arp (Some a) port s = Some (Ret (0, s'))"
    using s1(1,2) s'(1) assms(4,7,8) get_arp_ok[OF looseD[OF assms(5)] assms(6)]
    by (cases p) (simp_all add: tw_parse_arp_def port_at_def run_simps port_up_def)
  then show ?thesis using s'(2,4,5) s1(3,4) tx_frame_arp[OF s'(3)] fv by auto
qed

text \<open>A packet that is not for us, or a reply, is freed.\<close>

lemma parse_other_ok:
  assumes "tx_inv s" "arp_tab s es" "arp_ready s" "port_up s port" "loose s a = Some m" "arp_fits m"
    and "\<not> (tw_be_to_cpu_16 (arp_op (arp_of m)) = ARP_OP_REQUEST \<and>
      tw_be_to_cpu_32 (arp_tip (arp_of m)) = start_ip_addr (port_infos s ! unat port))"
  shows "\<exists>s'. tw_parse_arp (Some a) port s = Some (Ret (0, s')) \<and> tx_inv s' \<and> arp_ready s' \<and>
    arp_tab s' (if tw_be_to_cpu_16 (arp_op (arp_of m)) = ARP_OP_REPLY
      then learned es (tw_be_to_cpu_32 (arp_sip (arp_of m)), arp_sha (arp_of m), port) else es) \<and> port_up s' = port_up s \<and>
    loose s' = (loose s)(a := None) \<and> txq s' = txq s \<and> wire s' = wire s \<and> mbufs s' = (mbufs s)(a := None)"
proof -
  have free: "\<exists>s'. rte_pktmbuf_free (Some a) t = Some (Ret ((), s')) \<and> tx_inv s' \<and> arp_ready s' = arp_ready t \<and>
      arp_tab s' = arp_tab t \<and> port_up s' = port_up t \<and> loose s' = (loose t)(a := None) \<and> txq s' = txq t \<and>
      wire s' = wire t \<and> mbufs s' = (mbufs t)(a := None)"
    if "tx_inv t" "loose t a = Some m" for t :: "'a arp_scheme"
    using free_loose[OF that] tx_view_cong(1)[of "t\<lparr>mbufs := (mbufs t)(a := None)\<rparr>" t]
    by (auto simp: arp_ready_def malloc_fresh_def arp_tab_def fun_eq_iff port_up_def)
  have ga: "get_arp (Some a) s = Some (Ret (arp_of m, s))" using get_arp_ok[OF looseD[OF assms(5)] assms(6)] .
  show ?thesis
  proof (cases "tw_be_to_cpu_16 (arp_op (arp_of m)) = ARP_OP_REPLY")
    case False
    obtain s' where s': "rte_pktmbuf_free (Some a) s = Some (Ret ((), s'))" "tx_inv s'" "arp_ready s' = arp_ready s"
      "arp_tab s' = arp_tab s" "port_up s' = port_up s" "loose s' = (loose s)(a := None)" "txq s' = txq s"
      "wire s' = wire s" "mbufs s' = (mbufs s)(a := None)"
      using free[OF assms(1,5)] by blast
    have "tw_parse_arp (Some a) port s = Some (Ret (0, s'))"
      using False assms(4,7) ga s'(1) by (simp add: tw_parse_arp_def port_at_def run_simps port_up_def)
    with s' assms False show ?thesis by auto
  next
    case True
    obtain p s1 where s1: "tw_search_arp_table (arp_sip (arp_of m)) s = Some (Ret (p, s))"
      "if p = None then tw_add_arp_entry (arp_sip (arp_of m)) (arp_sha (arp_of m)) port s = Some (Ret (0, s1)) else s1 = s"
      "arp_tab s1 (learned es (tw_be_to_cpu_32 (arp_sip (arp_of m)), arp_sha (arp_of m), port))" "arp_ready s1" "arp_frame s s1"
      using arp_store.learn[OF assms(2,3)] by blast
    note fv = arp_frame_views[OF s1(5)] arp_frameD[OF s1(5)]
    obtain s' where s': "rte_pktmbuf_free (Some a) s1 = Some (Ret ((), s'))" "tx_inv s'" "arp_ready s' = arp_ready s1"
      "arp_tab s' = arp_tab s1" "port_up s' = port_up s1" "loose s' = (loose s1)(a := None)" "txq s' = txq s1"
      "wire s' = wire s1" "mbufs s' = (mbufs s1)(a := None)"
      using free[of s1] assms(1,5) fv by auto
    have "tw_process_arp_reply (Some a) port s = Some (Ret (0, s'))"
      using ga s1(1,2) s'(1) by (cases p) (simp_all add: tw_process_arp_reply_def run_simps)
    then have "tw_parse_arp (Some a) port s = Some (Ret (0, s'))"
      using True ga by (simp add: tw_parse_arp_def run_simps)
    with s' s1 fv True show ?thesis by auto
  qed
qed

interpretation arp_handler: pkt_handler "\<lambda>port p. tw_parse_arp p port" port_up arp_fits arp_good loose
proof
  fix s :: "'a arp_scheme" and port a m
  assume g: "arp_good s" "port_up s port" "loose s a = Some m" "arp_fits m"
  then obtain es where "tx_inv s" "arp_tab s es" "arp_ready s" by (auto simp: arp_good_def)
  with g parse_request_ok[of s es port a m] parse_other_ok[of s es port a m]
  show "\<exists>r s'. tw_parse_arp (Some a) port s = Some (Ret (r, s')) \<and> arp_good s' \<and> port_up s' = port_up s \<and>
      loose s' = (loose s)(a := None)"
    unfolding arp_good_def by blast
qed

lemma reply_fields:
  "ether_hdr_at (arp_reply_stores pi mac e b) e =
     \<lparr>d_addr = s_addr (ether_hdr_at b e), s_addr = mac, ether_type = ether_type (ether_hdr_at b e)\<rparr>"
  "arp_hdr_at (arp_reply_stores pi mac e b) (e + 14) =
     (arp_hdr_at b (e + 14))\<lparr>arp_op := tw_cpu_to_be_16 ARP_OP_REPLY, arp_sha := mac,
       arp_sip := tw_cpu_to_be_32 (start_ip_addr pi), arp_tha := arp_sha (arp_hdr_at b (e + 14)),
       arp_tip := arp_sip (arp_hdr_at b (e + 14))\<rparr>"
  by (simp_all add: arp_reply_stores_def Let_def hdr_at_defs field_simps_buf wr16_at wr32_at wr_mac_other)

lemma request_fields:
  "arp_hdr_at (arp_request_stores pi mac ip a b) a =
     \<lparr>arp_hrd = tw_cpu_to_be_16 ARP_HRD_ETHER, arp_pro = tw_cpu_to_be_16 ETHER_TYPE_IPv4, arp_hln = 6, arp_pln = 4,
      arp_op = tw_cpu_to_be_16 ARP_OP_REQUEST, arp_sha = mac, arp_sip = tw_cpu_to_be_32 (start_ip_addr pi),
      arp_tha = querycastmac, arp_tip = tw_cpu_to_be_32 ip\<rparr>"
  "ether_hdr_at (arp_request_eth mac e b) e =
     \<lparr>d_addr = broadcastmac, s_addr = mac, ether_type = tw_cpu_to_be_16 ETHER_TYPE_ARP\<rparr>"
  "arp_hdr_at (arp_request_eth mac e b) (e + 14) = arp_hdr_at b (e + 14)"
  by (simp_all add: arp_request_stores_def arp_request_eth_def Let_def hdr_at_defs field_simps_buf wr8_at wr16_at wr32_at wr_mac_other)

section \<open>Building a request\<close>

text \<open>The packet \<open>tw_construct_arp_packet\<close> builds in the fresh buffer \<open>m0\<close>.\<close>

definition request_mbuf :: "port_info \<Rightarrow> u32 \<Rightarrow> rte_mbuf \<Rightarrow> rte_mbuf" where
  "request_mbuf pi ip m0 = (let mac = the (eth_mac pi) in
     m0\<lparr>pkt_len := 42, vlan_tci := 0, rx_vlan_pkt := False, data_off := 114, data_len := 42,
        buf := arp_request_eth mac 114 (arp_request_stores pi mac ip 128 (buf m0))\<rparr>)"

lemma alloc_pkt_ok:
  assumes "128 + 28 \<le> unat (buf_len m0)"
  shows "rte_pktmbuf_append 28 (rte_pktmbuf_reset m0) = Some ((rte_pktmbuf_reset m0)\<lparr>data_len := 28, pkt_len := 28\<rparr>)"
    and "data_off (rte_pktmbuf_reset m0) = 128" and "buf (rte_pktmbuf_reset m0) = buf m0"
    and "buf_len (rte_pktmbuf_reset m0) = buf_len m0"
proof -
  have le: "128 \<le> buf_len m0" using assms by (simp add: word_le_nat_alt)
  then have "unat (buf_len m0 - 128) = unat (buf_len m0) - 128" by (simp add: unat_sub)
  then have "28 \<le> buf_len m0 - 128" using assms by (simp add: word_le_nat_alt)
  then show "rte_pktmbuf_append 28 (rte_pktmbuf_reset m0) = Some ((rte_pktmbuf_reset m0)\<lparr>data_len := 28, pkt_len := 28\<rparr>)"
    using le by (simp add: rte_pktmbuf_append_def rte_pktmbuf_reset_def rte_pktmbuf_tailroom_def rte_pktmbuf_headroom_def not_less)
  show "data_off (rte_pktmbuf_reset m0) = 128" "buf (rte_pktmbuf_reset m0) = buf m0" "buf_len (rte_pktmbuf_reset m0) = buf_len m0"
    using le by (simp_all add: rte_pktmbuf_reset_def)
qed

definition pool_ready :: "'a ports_scheme \<Rightarrow> u8 \<Rightarrow> bool" where
  "pool_ready s port \<longleftrightarrow> (let k = fix_socket (dev_socket s port) in
     0 \<le> k \<and> nat k < length (tx_mempool s) \<and> tx_mempool s ! nat k \<noteq> None)"

lemma construct_ok:
  assumes "tx_inv s" "port_up s port" "pool_ready s port"
    and al: "mbuf_src s (mbuf_cnt s) = Some (a, m0)" "a \<notin> dom (mbufs s)" "128 + 28 \<le> unat (buf_len m0)"
  shows "\<exists>s'. tw_construct_arp_packet ip port s = Some (Ret (0, s')) \<and> tx_inv s' \<and>
    tx_frame (s\<lparr>mbuf_cnt := Suc (mbuf_cnt s)\<rparr>) s' \<and> loose s' = loose s \<and>
    sent (unat port) a (request_mbuf (port_infos s ! unat port) ip m0) s s'"
proof -
  let ?pi = "port_infos s ! unat port"
  obtain mac where mac: "eth_mac ?pi = Some mac" using assms(2) by (auto simp: port_up_def)
  let ?m1 = "rte_pktmbuf_reset m0"
  let ?s1 = "s\<lparr>mbuf_cnt := Suc (mbuf_cnt s), mbufs := (mbufs s)(a \<mapsto> ?m1)\<rparr>"
  have v: "txq ?s1 = txq s" "tx_shape ?s1 = tx_shape s" "tx_pending ?s1 = tx_pending s"
    using tx_view_cong[of ?s1 s] by simp_all
  have an: "a \<notin> set (tx_pending s)" using assms(1) al(2) by (auto simp: tx_inv_def)
  have inv1: "tx_inv ?s1" using assms(1) by (auto simp: tx_inv_def v)
  have l1: "loose ?s1 = (loose s)(a \<mapsto> ?m1)" unfolding loose_def v using an by (auto simp: restrict_map_def fun_eq_iff)
  have la: "loose s a = None" using al(2) by (auto simp: loose_def restrict_map_def)
  let ?m = "request_mbuf ?pi ip m0"
  obtain s' where s': "tw_add_pkt_to_tx_queue (Some a) port (?s1\<lparr>mbufs := (mbufs ?s1)(a \<mapsto> ?m)\<rparr>) = Some (Ret (0, s'))"
    "tx_inv s'" "tx_frame ?s1 s'" "loose s' = (loose ?s1)(a := None)" "sent (unat port) a ?m ?s1 s'"
    using send_written[OF inv1, of port a ?m1 ?m] assms(2) l1 by (auto simp: port_up_def)
  obtain pool where pool: "tx_mempool s ! nat (fix_socket (dev_socket s port)) = Some pool"
    using assms(3) by (auto simp: pool_ready_def Let_def)
  have m: "?m = ?m1\<lparr>data_off := 114, data_len := 42, pkt_len := 42, buf := arp_request_eth mac 114 (arp_request_stores ?pi mac ip 128 (buf m0))\<rparr>"
    using mac alloc_pkt_ok(2)[OF al(3)] by (simp add: request_mbuf_def rte_pktmbuf_reset_def Let_def)
  have "tw_construct_arp_packet ip port s = Some (Ret (0, s'))"
    using s'(1) assms(2,3) al pool mac alloc_pkt_ok[OF al(3)]
    by (simp add: tw_construct_arp_packet_def run_simps pool_ready_def Let_def rte_pktmbuf_alloc_def mbuf_append_def
        put_mbuf_def port_at_def port_mac_def port_up_def mbuf_prepend_def rte_pktmbuf_prepend_def
        rte_pktmbuf_headroom_def m)
  moreover have "loose s' = loose s" using s'(4) l1 la by auto
  moreover have "tx_frame (s\<lparr>mbuf_cnt := Suc (mbuf_cnt s)\<rparr>) s'" using s'(3) by (simp add: tx_frame_def)
  moreover have "sent (unat port) a ?m s s'" using s'(5) by (simp add: sent_def v Let_def)
  ultimately show ?thesis using s'(2) by blast
qed

section \<open>A machine for the witnesses\<close>

definition demo_up :: port_info where
  "demo_up = demo_port\<lparr>eth_mac := Some (EA 2 0 0 0 0 1), start_ip_addr := 0x0A000001, gateway_ip := 0x0A0000FE,
     subnet_mask := 0xFFFFFF00\<rparr>"

text \<open>A request from 10.0.0.2 for the address \<open>ip\<close>, and buffer 9 holding it.\<close>

definition demo_request :: "u32 \<Rightarrow> rte_mbuf" where
  "demo_request ip = demo_mbuf\<lparr>buf := arp_request_eth (EA 2 0 0 0 0 2) 128
     (arp_request_stores (demo_up\<lparr>start_ip_addr := 0x0A000002\<rparr>) (EA 2 0 0 0 0 2) ip 142 (\<lambda>_. 0))\<rparr>"

definition demo_arp :: "u32 \<Rightarrow> arp" where
  "demo_arp ip = stats.extend (demo_tx\<lparr>mbufs := [9 \<mapsto> demo_request ip], port_infos := replicate 8 demo_up,
     mbuf_src := (\<lambda>k. Some (1000 + k, demo_mbuf))\<rparr>) (arp.fields Map.empty None 0)"

lemma demo_arp_views:
  "lcore_confs (demo_arp ip) = lcore_confs demo_tx" "lcore_id (demo_arp ip) = lcore_id demo_tx"
  "mbufs (demo_arp ip) = [9 \<mapsto> demo_request ip]" "port_infos (demo_arp ip) = replicate 8 demo_up"
  "arp_heap (demo_arp ip) = Map.empty" "arp_table_root (demo_arp ip) = None" "arp_table_size (demo_arp ip) = 0"
  "malloc_src (demo_arp ip) = Some" "malloc_cnt (demo_arp ip) = 0" "mbuf_cnt (demo_arp ip) = 0"
  "mbuf_src (demo_arp ip) 0 = Some (1000, demo_mbuf)" "tx_mempool (demo_arp ip) = [Some 6, None]"
  "dev_socket (demo_arp ip) p = 0"
  by (auto simp: demo_arp_def arp.defs stats.defs demo_tx_def demo_stats_def lcores.defs demo_lcores_def demo_defs)

lemma demo_arp_facts:
  "tx_inv (demo_arp ip)" "arp_tab (demo_arp ip) []" "arp_ready (demo_arp ip)" "unat p < 8 \<Longrightarrow> port_up (demo_arp ip) p"
  "loose (demo_arp ip) 9 = Some (demo_request ip)" "arp_fits (demo_request ip)" "pool_ready (demo_arp ip) p"
  "r < 8 \<Longrightarrow> txq (demo_arp ip) r = []"
proof -
  note d = demo_arp_views[of ip]
  have q: "txq (demo_arp ip) r = []" if "r < 8" for r
    using demo_tx_facts(1)[OF that] by (simp add: txq_def tx_table_def d(1,2))
  then show "r < 8 \<Longrightarrow> txq (demo_arp ip) r = []" .
  have pend: "tx_pending (demo_arp ip) = []" by (simp add: tx_pending_def q)
  have "tx_shape demo_tx" using demo_tx_facts(2) by (simp add: tx_inv_def)
  then have "tx_shape (demo_arp ip)" by (simp add: tx_shape_def tx_table_def d(1,2))
  then show "tx_inv (demo_arp ip)" by (simp add: tx_inv_def pend)
  show "loose (demo_arp ip) 9 = Some (demo_request ip)" by (simp add: loose_def pend d)
  show "arp_tab (demo_arp ip) []" by (simp add: arp_tab_def d)
  show "arp_ready (demo_arp ip)" by (simp add: arp_ready_def malloc_fresh_def d)
  show "unat p < 8 \<Longrightarrow> port_up (demo_arp ip) p" by (simp add: port_up_def d demo_up_def)
  show "arp_fits (demo_request ip)" by (simp add: arp_fits_def demo_request_def demo_mbuf_def)
  show "pool_ready (demo_arp ip) p" by (simp add: pool_ready_def d fix_socket_def)
qed

lemma demo_request_fields:
  "mtod (demo_request ip) = 128"
  "arp_of (demo_request ip) = \<lparr>arp_hrd = tw_cpu_to_be_16 ARP_HRD_ETHER, arp_pro = tw_cpu_to_be_16 ETHER_TYPE_IPv4, arp_hln = 6,
     arp_pln = 4, arp_op = tw_cpu_to_be_16 ARP_OP_REQUEST, arp_sha = EA 2 0 0 0 0 2,
     arp_sip = tw_cpu_to_be_32 0x0A000002, arp_tha = querycastmac, arp_tip = tw_cpu_to_be_32 ip\<rparr>"
proof -
  show m: "mtod (demo_request ip) = 128" by (simp add: demo_request_def demo_mbuf_def)
  show "arp_of (demo_request ip) = \<lparr>arp_hrd = tw_cpu_to_be_16 ARP_HRD_ETHER, arp_pro = tw_cpu_to_be_16 ETHER_TYPE_IPv4, arp_hln = 6,
     arp_pln = 4, arp_op = tw_cpu_to_be_16 ARP_OP_REQUEST, arp_sha = EA 2 0 0 0 0 2,
     arp_sip = tw_cpu_to_be_32 0x0A000002, arp_tha = querycastmac, arp_tip = tw_cpu_to_be_32 ip\<rparr>"
    unfolding m demo_request_def
    using request_fields(3)[of "EA 2 0 0 0 0 2" 128] request_fields(1)[of _ "EA 2 0 0 0 0 2" ip 142]
    by (simp add: demo_mbuf_def)
qed

section \<open>Properties\<close>

text \<open>
  C8. A request for the address of the port is answered: \<open>tw_parse_arp\<close> turns the packet into a
  reply (operation, addresses and MAC addresses swapped as the protocol demands, all other fields
  kept), hands it to the transmit queue of the port, and records the sender unless it is known.
\<close>

theorem arp_request_answered:
  assumes "tx_inv s" "arp_tab s es" "arp_ready s" "port_up s port" "loose s a = Some m" "arp_fits m"
    and "tw_be_to_cpu_16 (arp_op (arp_of m)) = ARP_OP_REQUEST"
    and "tw_be_to_cpu_32 (arp_tip (arp_of m)) = start_ip_addr (port_infos s ! unat port)"
  defines "mac \<equiv> the (eth_mac (port_infos s ! unat port))"
  shows "\<exists>s' m'. tw_parse_arp (Some a) port s = Some (Ret (0, s')) \<and> tx_inv s' \<and> sent (unat port) a m' s s' \<and>
    m' = m\<lparr>buf := buf m'\<rparr> \<and>
    ether_hdr_at (buf m') (mtod m) = \<lparr>d_addr = s_addr (ether_hdr_at (buf m) (mtod m)), s_addr = mac,
      ether_type = ether_type (ether_hdr_at (buf m) (mtod m))\<rparr> \<and>
    arp_of m' = (arp_of m)\<lparr>arp_op := tw_cpu_to_be_16 ARP_OP_REPLY, arp_sha := mac,
      arp_sip := tw_cpu_to_be_32 (start_ip_addr (port_infos s ! unat port)),
      arp_tha := arp_sha (arp_of m), arp_tip := arp_sip (arp_of m)\<rparr> \<and>
    arp_tab s' (learned es (tw_be_to_cpu_32 (arp_sip (arp_of m)), arp_sha (arp_of m), port))"
proof -
  let ?m' = "m\<lparr>buf := arp_reply_stores (port_infos s ! unat port) mac (mtod m) (buf m)\<rparr>"
  obtain s' where "tw_parse_arp (Some a) port s = Some (Ret (0, s'))" "tx_inv s'" "sent (unat port) a ?m' s s'"
    "arp_tab s' (learned es (tw_be_to_cpu_32 (arp_sip (arp_of m)), arp_sha (arp_of m), port))"
    using parse_request_ok[OF assms(1-8)] unfolding mac_def by blast
  moreover note reply_fields[of "port_infos s ! unat port" mac "mtod m" "buf m"]
  ultimately show ?thesis by (intro exI[of _ s'] exI[of _ ?m']) simp
qed

theorem arp_request_answered_witness:
  "\<exists>s' m'. tw_parse_arp (Some 9) 3 (demo_arp 0x0A000001) = Some (Ret (0, s')) \<and> txq s' 3 = [9] \<and>
    tw_be_to_cpu_16 (arp_op (arp_of m')) = 2 \<and> arp_tab s' [(0x0A000002, EA 2 0 0 0 0 2, 3)]"
proof -
  let ?s = "demo_arp 0x0A000001" and ?m = "demo_request 0x0A000001"
  have op: "tw_be_to_cpu_16 (arp_op (arp_of ?m)) = 1" "tw_be_to_cpu_32 (arp_tip (arp_of ?m)) = 0x0A000001"
    unfolding demo_request_fields(2) by simp_all
  have pi: "port_infos ?s ! unat (3 :: u8) = demo_up" by (simp add: demo_arp_views)
  have up: "port_up ?s 3" by (rule demo_arp_facts) simp
  have tip: "tw_be_to_cpu_32 (arp_tip (arp_of ?m)) = start_ip_addr (port_infos ?s ! unat (3 :: u8))"
    unfolding pi op(2) by (simp add: demo_up_def)
  obtain s' m' where s': "tw_parse_arp (Some 9) 3 ?s = Some (Ret (0, s'))" "sent (unat (3 :: u8)) 9 m' ?s s'"
    "arp_op (arp_of m') = tw_cpu_to_be_16 ARP_OP_REPLY"
    "arp_tab s' (learned [] (tw_be_to_cpu_32 (arp_sip (arp_of ?m)), arp_sha (arp_of ?m), 3))"
    using arp_request_answered[OF demo_arp_facts(1-3) up demo_arp_facts(5,6) op(1) tip] by (auto simp del: hdr_fields)
  have "txq s' 3 = [9]" using s'(2) by (simp add: sent_def Let_def demo_arp_facts(8))
  moreover have "learned [] (tw_be_to_cpu_32 (arp_sip (arp_of ?m)), arp_sha (arp_of ?m), 3) = [(0x0A000002, EA 2 0 0 0 0 2, 3)]"
    unfolding demo_request_fields(2) by (simp add: learned_def)
  ultimately show ?thesis using s'(1,3,4) by (intro exI[of _ s'] exI[of _ m']) (simp del: hdr_fields)
qed

text \<open>
  Every other ARP packet is consumed without an answer: a request for another address is freed
  and changes nothing, a reply is freed after its sender was recorded unless known, any other
  operation is freed. Nothing is queued or sent.
\<close>

theorem arp_other_freed:
  assumes "tx_inv s" "arp_tab s es" "arp_ready s" "port_up s port" "loose s a = Some m" "arp_fits m"
    and "\<not> (tw_be_to_cpu_16 (arp_op (arp_of m)) = ARP_OP_REQUEST \<and>
      tw_be_to_cpu_32 (arp_tip (arp_of m)) = start_ip_addr (port_infos s ! unat port))"
  shows "\<exists>s'. tw_parse_arp (Some a) port s = Some (Ret (0, s')) \<and> tx_inv s' \<and> txq s' = txq s \<and> wire s' = wire s \<and>
    mbufs s' = (mbufs s)(a := None) \<and>
    arp_tab s' (if tw_be_to_cpu_16 (arp_op (arp_of m)) = ARP_OP_REPLY
      then learned es (tw_be_to_cpu_32 (arp_sip (arp_of m)), arp_sha (arp_of m), port) else es)"
  using parse_other_ok[OF assms] by blast

theorem arp_other_freed_witness:
  "\<exists>s'. tw_parse_arp (Some 9) 3 (demo_arp 0x0A000063) = Some (Ret (0, s')) \<and> mbufs s' 9 = None \<and> arp_tab s' []"
proof -
  let ?s = "demo_arp 0x0A000063" and ?m = "demo_request 0x0A000063"
  have op: "tw_be_to_cpu_16 (arp_op (arp_of ?m)) = 1" "tw_be_to_cpu_32 (arp_tip (arp_of ?m)) = 0x0A000063"
    unfolding demo_request_fields(2) by simp_all
  have pi: "port_infos ?s ! unat (3 :: u8) = demo_up" by (simp add: demo_arp_views)
  have up: "port_up ?s 3" by (rule demo_arp_facts) simp
  have "\<not> (tw_be_to_cpu_16 (arp_op (arp_of ?m)) = ARP_OP_REQUEST \<and>
      tw_be_to_cpu_32 (arp_tip (arp_of ?m)) = start_ip_addr (port_infos ?s ! unat (3 :: u8)))"
    unfolding op pi by (simp add: demo_up_def)
  from arp_other_freed[OF demo_arp_facts(1-3) up demo_arp_facts(5,6) this] op(1)
  show ?thesis by auto
qed

definition found :: "'a arp_scheme \<Rightarrow> ptr \<Rightarrow> (ether_addr \<times> u8) option" where
  "found s p = (case p of None \<Rightarrow> None | Some a \<Rightarrow> map_option (\<lambda>n. (at_eth_mac n, at_port_id n)) (arp_heap s a))"

text \<open>
  C18. The ARP table behaves as a map from addresses: after \<open>tw_add_arp_entry\<close> a search finds the new
  binding for its address if that address was unknown, and exactly what it found before for every
  address that was known or is different. Searching always ends and changes nothing.
\<close>

theorem arp_insert_lookup:
  assumes "arp_tab s es" and "arp_ready s"
  shows "\<exists>s'. tw_add_arp_entry ip mac port s = Some (Ret (0, s')) \<and> arp_ready s' \<and>
    arp_tab s' (es @ [(tw_be_to_cpu_32 ip, mac, port)]) \<and>
    (\<forall>ip'. \<exists>p. tw_search_arp_table ip' s' = Some (Ret (p, s')) \<and>
      found s' p = (if ip' = ip \<and> map_of es (tw_be_to_cpu_32 ip) = None then Some (mac, port)
        else map_of es (tw_be_to_cpu_32 ip')))"
proof -
  obtain s' where s': "tw_add_arp_entry ip mac port s = Some (Ret (0, s'))"
    "arp_tab s' (es @ [(tw_be_to_cpu_32 ip, mac, port)])" "arp_ready s'"
    using arp_store.add_law[OF assms] by blast
  have "\<exists>p. tw_search_arp_table ip' s' = Some (Ret (p, s')) \<and>
      found s' p = (if ip' = ip \<and> map_of es (tw_be_to_cpu_32 ip) = None then Some (mac, port)
        else map_of es (tw_be_to_cpu_32 ip'))" for ip'
  proof -
    obtain p where p: "tw_search_arp_table ip' s' = Some (Ret (p, s'))"
      "case p of None \<Rightarrow> map_of (es @ [(tw_be_to_cpu_32 ip, mac, port)]) (tw_be_to_cpu_32 ip') = None
       | Some a \<Rightarrow> \<exists>n. arp_heap s' a = Some n \<and>
           map_of (es @ [(tw_be_to_cpu_32 ip, mac, port)]) (tw_be_to_cpu_32 ip') = Some (at_eth_mac n, at_port_id n)"
      using search_ok[OF s'(2)] by blast
    define r where "r = map_of (es @ [(tw_be_to_cpu_32 ip, mac, port)]) (tw_be_to_cpu_32 ip')"
    have "found s' p = r" using p(2) unfolding r_def[symmetric] by (cases p) (auto simp: found_def)
    then have "found s' p = map_of (es @ [(tw_be_to_cpu_32 ip, mac, port)]) (tw_be_to_cpu_32 ip')" by (simp only: r_def)
    moreover have "map_of (es @ [(tw_be_to_cpu_32 ip, mac, port)]) (tw_be_to_cpu_32 ip') =
        (if ip' = ip \<and> map_of es (tw_be_to_cpu_32 ip) = None then Some (mac, port) else map_of es (tw_be_to_cpu_32 ip'))"
      by (auto simp: map_of_append map_add_def split: option.splits)
    ultimately show ?thesis using p(1) by simp
  qed
  with s' show ?thesis by blast
qed

theorem arp_insert_lookup_witness:
  "\<exists>s'. tw_add_arp_entry 7 (EA 1 2 3 4 5 6) 2 (demo_arp 0) = Some (Ret (0, s')) \<and>
    (\<exists>p. tw_search_arp_table 7 s' = Some (Ret (p, s')) \<and> found s' p = Some (EA 1 2 3 4 5 6, 2)) \<and>
    (\<exists>p. tw_search_arp_table 8 s' = Some (Ret (p, s')) \<and> found s' p = None)"
proof -
  obtain s' where s': "tw_add_arp_entry 7 (EA 1 2 3 4 5 6) 2 (demo_arp 0) = Some (Ret (0, s'))"
    "\<forall>ip'. \<exists>p. tw_search_arp_table ip' s' = Some (Ret (p, s')) \<and>
      found s' p = (if ip' = 7 \<and> map_of ([] :: binding list) (tw_be_to_cpu_32 7) = None then Some (EA 1 2 3 4 5 6, 2)
        else map_of ([] :: binding list) (tw_be_to_cpu_32 ip'))"
    using arp_insert_lookup[OF demo_arp_facts(2,3), of 7 "EA 1 2 3 4 5 6" 2 0] by blast
  from this(1) this(2)[rule_format, of 7] this(2)[rule_format, of 8] show ?thesis by auto
qed



text \<open>
  \<open>tw_construct_arp_packet\<close> builds a well-formed request: a 42-byte frame, broadcast, from the MAC
  address of the port, asking for the given address on behalf of the address of the port, and hands
  it to the transmit queue.
\<close>

theorem arp_request_built:
  assumes "tx_inv s" "port_up s port" "pool_ready s port"
    and "mbuf_src s (mbuf_cnt s) = Some (a, m0)" "a \<notin> dom (mbufs s)" "128 + 28 \<le> unat (buf_len m0)"
  defines "mac \<equiv> the (eth_mac (port_infos s ! unat port))"
  shows "\<exists>s' m. tw_construct_arp_packet ip port s = Some (Ret (0, s')) \<and> tx_inv s' \<and> sent (unat port) a m s s' \<and>
    unat (data_len m) = 42 \<and>
    ether_hdr_at (buf m) (mtod m) = \<lparr>d_addr = broadcastmac, s_addr = mac, ether_type = tw_cpu_to_be_16 ETHER_TYPE_ARP\<rparr> \<and>
    arp_of m = \<lparr>arp_hrd = tw_cpu_to_be_16 ARP_HRD_ETHER, arp_pro = tw_cpu_to_be_16 ETHER_TYPE_IPv4, arp_hln = 6, arp_pln = 4,
      arp_op = tw_cpu_to_be_16 ARP_OP_REQUEST, arp_sha = mac,
      arp_sip = tw_cpu_to_be_32 (start_ip_addr (port_infos s ! unat port)), arp_tha = querycastmac,
      arp_tip = tw_cpu_to_be_32 ip\<rparr>"
proof -
  let ?pi = "port_infos s ! unat port"
  obtain s' where s': "tw_construct_arp_packet ip port s = Some (Ret (0, s'))" "tx_inv s'"
    "sent (unat port) a (request_mbuf ?pi ip m0) s s'"
    using construct_ok[OF assms(1-6)] by blast
  have m: "data_len (request_mbuf ?pi ip m0) = 42" "mtod (request_mbuf ?pi ip m0) = 114"
    "buf (request_mbuf ?pi ip m0) = arp_request_eth mac 114 (arp_request_stores ?pi mac ip 128 (buf m0))"
    by (simp_all add: request_mbuf_def Let_def mac_def)
  have "arp_hdr_at (arp_request_eth mac 114 (arp_request_stores ?pi mac ip 128 (buf m0))) (114 + 14) =
      arp_hdr_at (arp_request_stores ?pi mac ip 128 (buf m0)) 128"
    using request_fields(3)[of mac 114 "arp_request_stores ?pi mac ip 128 (buf m0)"] by simp
  with s' m show ?thesis
    by (intro exI[of _ s'] exI[of _ "request_mbuf ?pi ip m0"]) (simp add: request_fields)
qed

theorem arp_request_built_witness:
  "\<exists>s' m. tw_construct_arp_packet 0x0A000005 2 (demo_arp 0) = Some (Ret (0, s')) \<and> txq s' 2 = [1000] \<and>
    tw_be_to_cpu_32 (arp_tip (arp_of m)) = 0x0A000005"
proof -
  have up: "port_up (demo_arp 0) 2" by (rule demo_arp_facts) simp
  have src: "mbuf_src (demo_arp 0) (mbuf_cnt (demo_arp 0)) = Some (1000, demo_mbuf)" "1000 \<notin> dom (mbufs (demo_arp 0))"
    "128 + 28 \<le> unat (buf_len demo_mbuf)"
    by (simp_all add: demo_arp_views) (simp add: demo_mbuf_def)
  obtain s' m where s': "tw_construct_arp_packet 0x0A000005 2 (demo_arp 0) = Some (Ret (0, s'))"
    "sent (unat (2 :: u8)) 1000 m (demo_arp 0) s'" "arp_tip (arp_of m) = tw_cpu_to_be_32 0x0A000005"
    using arp_request_built[OF demo_arp_facts(1) up demo_arp_facts(7) src, of "0x0A000005"] by (auto simp del: hdr_fields)
  have "txq s' 2 = [1000]" using s'(2) by (simp add: sent_def Let_def demo_arp_facts(8))
  with s'(1,3) show ?thesis by (intro exI[of _ s'] exI[of _ m]) (simp del: hdr_fields)
qed

text \<open>
  Running out of packet buffers is not handled: when the pool is empty, \<open>tw_construct_arp_packet\<close>
  dereferences the null pointer the allocation returned.
\<close>

theorem arp_request_no_buffer:
  assumes "pool_ready s port" and "mbuf_src s (mbuf_cnt s) = None"
  shows "tw_construct_arp_packet ip port s = Some (Fault NullDeref)"
  using assms
  by (auto simp: tw_construct_arp_packet_def run_simps pool_ready_def Let_def rte_pktmbuf_alloc_def mbuf_append_def)

theorem arp_request_no_buffer_witness:
  "tw_construct_arp_packet 1 0 ((demo_arp 0)\<lparr>mbuf_src := (\<lambda>_. None)\<rparr>) = Some (Fault NullDeref)"
  by (rule arp_request_no_buffer) (use demo_arp_facts(7)[of 0 0] in \<open>simp_all add: pool_ready_def\<close>)

end
