(* ===== verification/QueuedPkts.thy ===== *)
theory QueuedPkts
  imports ArpLogic
begin

text \<open>
  \<open>twister/rxtxmodule/queued_pkts.c\<close>: packets whose next hop has no ARP entry yet wait in a linked
  list of at most 1024; the update pass frees those that waited too long and sends those whose
  address has been learned. The C functions that change the loop variables through pointers return
  the new values here.
\<close>

section \<open>struct queued\_pkt\<close>

record queued_pkt =
  qp_pkt :: ptr
  qp_timercycle :: u64
  qp_arp_ip :: u32
  qp_port_id :: u16
  qp_next :: ptr

record queue = arp +
  qp_heap :: "queued_pkt heap"
  root_queued_pkt :: ptr
  total_queued_pkts :: u32
  queued_pkt_time_limit :: u64

abbreviation "MAX_QUEUED_PKTS \<equiv> (1024 :: u32)"

section \<open>Operations\<close>

definition fill_queued_pkt :: "ptr \<Rightarrow> u64 \<Rightarrow> u32 \<Rightarrow> u16 \<Rightarrow> ptr \<Rightarrow> ('a queue_scheme, int) act" where
  "fill_queued_pkt pkt curr_timer_cycle arp_ip_of_pkt port_id p = (case p of None \<Rightarrow> ret (- 1)
     | Some a \<Rightarrow> bnd (modify (\<lambda>s. s\<lparr>qp_heap := (qp_heap s)(a \<mapsto>
           \<lparr>qp_pkt = pkt, qp_timercycle = curr_timer_cycle, qp_arp_ip = tw_cpu_to_be_32 arp_ip_of_pkt,
            qp_port_id = port_id, qp_next = None\<rparr>),
           total_queued_pkts := total_queued_pkts s + 1\<rparr>)) (\<lambda>_. ret 0))"

definition tw_add_pkt_to_queue :: "ptr \<Rightarrow> u32 \<Rightarrow> u16 \<Rightarrow> ('a queue_scheme, int) act" where
  "tw_add_pkt_to_queue pkt arp_ip_of_pkt port_id = (\<lambda>s.
     if total_queued_pkts s \<ge> MAX_QUEUED_PKTS then bnd (rte_pktmbuf_free pkt) (\<lambda>_. ret (- 1)) s
     else bnd tw_get_current_timer_cycles (\<lambda>curr_timer_cycle s. case root_queued_pkt s of
         None \<Rightarrow> bnd rte_malloc (\<lambda>p. bnd (modify (\<lambda>s. s\<lparr>root_queued_pkt := p\<rparr>)) (\<lambda>_.
           fill_queued_pkt pkt curr_timer_cycle arp_ip_of_pkt port_id p)) s
       | Some r \<Rightarrow> bnd (lift_res (walk_last qp_next (qp_heap s) r)) (\<lambda>l. bnd rte_malloc (\<lambda>p.
           bnd (set_cell qp_heap qp_heap_update (Some l) (\<lambda>n. n\<lparr>qp_next := p\<rparr>)) (\<lambda>_.
           fill_queued_pkt pkt curr_timer_cycle arp_ip_of_pkt port_id p))) s) s)"

definition tw_delete_queued_pkt :: "ptr \<Rightarrow> ptr \<Rightarrow> ('a queue_scheme, ptr \<times> ptr) act" where
  "tw_delete_queued_pkt prev_queued_pkt curr_queued_pkt =
     bnd (deref qp_heap curr_queued_pkt) (\<lambda>n.
     let temp_queued_pkt = qp_next n in
     bnd (\<lambda>s. if curr_queued_pkt = root_queued_pkt s
          then Some (Ret (qp_next n, s\<lparr>root_queued_pkt := qp_next n\<rparr>))
          else bnd (set_cell qp_heap qp_heap_update prev_queued_pkt (\<lambda>q. q\<lparr>qp_next := qp_next n\<rparr>)) (\<lambda>_. ret prev_queued_pkt) s)
       (\<lambda>prev'.
     bnd (free_cell qp_heap qp_heap_update curr_queued_pkt) (\<lambda>_.
     bnd (modify (\<lambda>s. s\<lparr>total_queued_pkts := total_queued_pkts s - 1\<rparr>)) (\<lambda>_.
     ret (prev', temp_queued_pkt)))))"

definition tw_send_queued_pkt :: "ptr \<Rightarrow> ptr \<Rightarrow> ether_addr \<Rightarrow> ('a queue_scheme, ptr \<times> ptr) act" where
  "tw_send_queued_pkt prev_queued_pkt curr_queued_pkt mac =
     bnd (deref qp_heap curr_queued_pkt) (\<lambda>n.
     bnd (write_hdr (qp_pkt n) sizeof_ether_hdr (\<lambda>e. set_d_addr e mac)) (\<lambda>_.
     bnd (tw_delete_queued_pkt prev_queued_pkt curr_queued_pkt) (\<lambda>pc.
     bnd (tw_add_pkt_to_tx_queue (qp_pkt n) (ucast (qp_port_id n))) (\<lambda>_.
     bnd (modify (\<lambda>s. s\<lparr>total_queued_pkts := total_queued_pkts s - 1\<rparr>)) (\<lambda>_.
     ret pc)))))"

text \<open>One turn of the loop of \<open>tw_update_queued_pkts\<close>, and the loop.\<close>

definition update_turn :: "u64 \<Rightarrow> ptr \<Rightarrow> ptr \<Rightarrow> ('a queue_scheme, ptr \<times> ptr) act" where
  "update_turn curr_timer_cycle prev cur =
     bnd (deref qp_heap cur) (\<lambda>n.
     bnd (\<lambda>s. lift_out (tw_get_time_diff curr_timer_cycle (qp_timercycle n) (one_sec s)) s) (\<lambda>time_diff.
     bnd (gets queued_pkt_time_limit) (\<lambda>limit.
     if time_diff < limit then
       bnd (tw_search_arp_table (qp_arp_ip n)) (\<lambda>arp_entry.
       if arp_entry \<noteq> None then bnd (deref arp_heap arp_entry) (\<lambda>e. tw_send_queued_pkt prev cur (at_eth_mac e))
       else ret (prev, qp_next n))
     else bnd (rte_pktmbuf_free (qp_pkt n)) (\<lambda>_. tw_delete_queued_pkt prev cur))))"

partial_function (option) update_loop :: "u64 \<Rightarrow> ptr \<Rightarrow> ptr \<Rightarrow> 'a queue_scheme \<Rightarrow> (unit \<times> 'a queue_scheme) res" where
  "update_loop c prev cur s = (case cur of None \<Rightarrow> Some (Ret ((), s))
     | Some a \<Rightarrow> (case update_turn c prev cur s of
         None \<Rightarrow> None
       | Some r \<Rightarrow> (case r of
           Ret x \<Rightarrow> update_loop c (fst (fst x)) (snd (fst x)) (snd x)
         | Fault e \<Rightarrow> Some (Fault e)
         | Exit k \<Rightarrow> Some (Exit k))))"

definition tw_update_queued_pkts :: "u64 \<Rightarrow> ('a queue_scheme, int) act" where
  "tw_update_queued_pkts curr_timer_cycle =
     bnd (\<lambda>s. update_loop curr_timer_cycle (root_queued_pkt s) (root_queued_pkt s) s) (\<lambda>_. ret 0)"

section \<open>The queue as a list\<close>

interpretation qp: linked qp_next "\<lambda>p n. n\<lparr>qp_next := p\<rparr>"
  by unfold_locales simp

definition qp_chain :: "'a queue_scheme \<Rightarrow> nat list \<Rightarrow> bool" where
  "qp_chain s xs \<longleftrightarrow> chain qp_next (qp_heap s) (root_queued_pkt s) xs"

text \<open>The packets of a list of entries, each a buffer nobody else holds.\<close>

definition pkt_of :: "'a queue_scheme \<Rightarrow> nat \<Rightarrow> ptr" where
  "pkt_of s x = (case qp_heap s x of None \<Rightarrow> None | Some n \<Rightarrow> qp_pkt n)"

definition entry_ok :: "'a queue_scheme \<Rightarrow> nat \<Rightarrow> bool" where
  "entry_ok s x \<longleftrightarrow> (\<exists>n b m. qp_heap s x = Some n \<and> qp_pkt n = Some b \<and> loose s b = Some m \<and>
     mtod m + sizeof_ether_hdr \<le> unat (buf_len m) \<and> unat (ucast (qp_port_id n) :: u8) < MAX_ETH_PORTS)"

definition pkts_ok :: "'a queue_scheme \<Rightarrow> nat list \<Rightarrow> bool" where
  "pkts_ok s xs \<longleftrightarrow> (\<forall>x\<in>set xs. entry_ok s x) \<and> distinct (map (pkt_of s) xs)"

section \<open>What the update pass does to one entry\<close>

datatype fate = Keep | Drop | Send ether_addr

text \<open>An entry that waited for the time limit is dropped, one whose address is known is sent.\<close>

definition node_fate :: "binding list \<Rightarrow> u64 \<Rightarrow> u64 \<Rightarrow> u64 \<Rightarrow> queued_pkt \<Rightarrow> fate" where
  "node_fate es c sec limit n =
     (if \<not> c_abs ((c - qp_timercycle n) div sec) < limit then Drop
      else case map_of es (tw_be_to_cpu_32 (qp_arp_ip n)) of None \<Rightarrow> Keep | Some b \<Rightarrow> Send (fst b))"

definition del_state :: "ptr \<Rightarrow> nat \<Rightarrow> queued_pkt \<Rightarrow> 'a queue_scheme \<Rightarrow> 'a queue_scheme" where
  "del_state prev y n s =
     (if Some y = root_queued_pkt s
      then s\<lparr>root_queued_pkt := qp_next n, qp_heap := (qp_heap s)(y := None), total_queued_pkts := total_queued_pkts s - 1\<rparr>
      else s\<lparr>qp_heap := (qp_heap s)(the prev \<mapsto> (the (qp_heap s (the prev)))\<lparr>qp_next := qp_next n\<rparr>, y := None),
             total_queued_pkts := total_queued_pkts s - 1\<rparr>)"

text \<open>Before an entry is deleted it is the root, or \<open>prev\<close> points to another allocated entry.\<close>

definition del_ok :: "ptr \<Rightarrow> nat \<Rightarrow> 'a queue_scheme \<Rightarrow> bool" where
  "del_ok prev y s \<longleftrightarrow> Some y = root_queued_pkt s \<or> (\<exists>x q. prev = Some x \<and> x \<noteq> y \<and> qp_heap s x = Some q)"

lemma delete_run:
  assumes "qp_heap s y = Some n" "del_ok prev y s"
  shows "tw_delete_queued_pkt prev (Some y) s =
    Some (Ret ((if Some y = root_queued_pkt s then qp_next n else prev, qp_next n), del_state prev y n s))"
proof (cases "root_queued_pkt s = Some y")
  case True
  then show ?thesis using assms by (simp add: tw_delete_queued_pkt_def run_simps del_state_def Let_def)
next
  case False
  then have "Some y \<noteq> root_queued_pkt s" by metis
  with assms show ?thesis by (auto simp: tw_delete_queued_pkt_def run_simps del_state_def del_ok_def Let_def)
qed

lemma del_state_views [simp]:
  "mbufs (del_state prev y n s) = mbufs s" "lcore_confs (del_state prev y n s) = lcore_confs s"
  "lcore_id (del_state prev y n s) = lcore_id s" "wire (del_state prev y n s) = wire s"
  "tx_src (del_state prev y n s) = tx_src s" "tx_cnt (del_state prev y n s) = tx_cnt s"
  "total_queued_pkts (del_state prev y n s) = total_queued_pkts s - 1"
  by (simp_all add: del_state_def)

lemma del_state_tx [simp]:
  "txq (del_state prev y n s) = txq s" "tx_inv (del_state prev y n s) = tx_inv s" "loose (del_state prev y n s) = loose s"
  using tx_view_cong[of "del_state prev y n s" s] by simp_all

text \<open>The parts of the state the pass reads and never writes.\<close>

definition same_env :: "'a queue_scheme \<Rightarrow> 'a queue_scheme \<Rightarrow> bool" where
  "same_env s s' \<longleftrightarrow> arp_tab s' = arp_tab s \<and> one_sec s' = one_sec s \<and> queued_pkt_time_limit s' = queued_pkt_time_limit s"

lemma same_env_trans: "same_env s t \<Longrightarrow> same_env t u \<Longrightarrow> same_env s u"
  by (simp add: same_env_def)

lemma tx_frame_queue:
  fixes s s' :: "'a queue_scheme"
  assumes "tx_frame s s'"
  shows "same_env s s'" "qp_heap s' = qp_heap s" "root_queued_pkt s' = root_queued_pkt s"
    "total_queued_pkts s' = total_queued_pkts s"
proof -
  have eq: "s' = s\<lparr>mbufs := mbufs s', tx_cnt := tx_cnt s', wire := wire s',
      lcore_confs := lcore_confs s', tw_stats := tw_stats s'\<rparr>"
    using assms by (simp add: tx_frame_def)
  show "qp_heap s' = qp_heap s" "root_queued_pkt s' = root_queued_pkt s" "total_queued_pkts s' = total_queued_pkts s"
    by (subst eq, simp)+
  have "one_sec s' = one_sec s" "queued_pkt_time_limit s' = queued_pkt_time_limit s" by (subst eq, simp)+
  then show "same_env s s'" using tx_frame_arp(1)[OF assms] by (simp add: same_env_def)
qed

lemma del_state_env: "same_env s (del_state prev y n s)" "same_env s (del_state prev y n (s\<lparr>mbufs := h\<rparr>))"
  by (auto simp: same_env_def del_state_def arp_tab_def fun_eq_iff)

lemma turn_keep:
  assumes "qp_heap s y = Some n" "arp_tab s es" "one_sec s \<noteq> 0"
    and "node_fate es c (one_sec s) (queued_pkt_time_limit s) n = Keep"
  shows "update_turn c prev (Some y) s = Some (Ret ((prev, qp_next n), s))"
proof -
  have f: "c_abs ((c - qp_timercycle n) div one_sec s) < queued_pkt_time_limit s"
    "map_of es (tw_be_to_cpu_32 (qp_arp_ip n)) = None"
    using assms(4) by (auto simp: node_fate_def split: if_splits option.splits)
  obtain p where "tw_search_arp_table (qp_arp_ip n) s = Some (Ret (p, s))"
    "p = None \<longleftrightarrow> map_of es (tw_be_to_cpu_32 (qp_arp_ip n)) = None"
    using arp_store.search_law[OF assms(2)] by blast
  with f assms show ?thesis by (simp add: update_turn_def run_simps tw_get_time_diff_def)
qed

text \<open>Dropping or sending an entry: its packet is not held any more, the entry is gone.\<close>

lemma turn_remove:
  assumes n: "qp_heap s y = Some n" and tab: "arp_tab s es" and sec: "one_sec s \<noteq> 0" and inv: "tx_inv s"
    and ok: "entry_ok s y" "del_ok prev y s"
    and f: "node_fate es c (one_sec s) (queued_pkt_time_limit s) n \<noteq> Keep"
  shows "\<exists>s' b m. update_turn c prev (Some y) s =
      Some (Ret ((if Some y = root_queued_pkt s then qp_next n else prev, qp_next n), s')) \<and>
    tx_inv s' \<and> same_env s s' \<and> qp_pkt n = Some b \<and> mbufs s b = Some m \<and> loose s' = (loose s)(b := None) \<and>
    qp_heap s' = qp_heap (del_state prev y n s) \<and> root_queued_pkt s' = root_queued_pkt (del_state prev y n s) \<and>
    (case node_fate es c (one_sec s) (queued_pkt_time_limit s) n of
       Send mac \<Rightarrow> total_queued_pkts s' = total_queued_pkts s - 2 \<and>
         sent (unat (ucast (qp_port_id n) :: u8)) b (m\<lparr>buf := set_d_addr (mtod m) mac (buf m)\<rparr>) s s'
     | _ \<Rightarrow> total_queued_pkts s' = total_queued_pkts s - 1 \<and>
         txq s' = txq s \<and> wire s' = wire s \<and> mbufs s' = (mbufs s)(b := None))"
proof -
  obtain b m where b: "qp_pkt n = Some b" "loose s b = Some m" "mtod m + 14 \<le> unat (buf_len m)"
    "unat (ucast (qp_port_id n) :: u8) < 8"
    using ok(1) n by (auto simp: entry_ok_def)
  have mb: "mbufs s b = Some m" using looseD[OF b(2)] .
  show ?thesis
  proof (cases "c_abs ((c - qp_timercycle n) div one_sec s) < queued_pkt_time_limit s")
    case False
    let ?t = "s\<lparr>mbufs := (mbufs s)(b := None)\<rparr>"
    note fl = free_loose[OF inv b(2)]
    have d: "del_ok prev y ?t" "qp_heap ?t y = Some n" using ok(2) n by (simp_all add: del_ok_def)
    have "update_turn c prev (Some y) s =
        Some (Ret ((if Some y = root_queued_pkt s then qp_next n else prev, qp_next n), del_state prev y n ?t))"
      using False n sec b(1) fl(1) delete_run[OF d(2,1)]
      by (simp add: update_turn_def run_simps tw_get_time_diff_def)
    moreover have "node_fate es c (one_sec s) (queued_pkt_time_limit s) n = Drop" using False by (simp add: node_fate_def)
    moreover have "qp_heap (del_state prev y n ?t) = qp_heap (del_state prev y n s)"
      "root_queued_pkt (del_state prev y n ?t) = root_queued_pkt (del_state prev y n s)" by (simp_all add: del_state_def)
    moreover have "txq ?t = txq s" using tx_view_cong[of ?t s] by simp
    ultimately show ?thesis using fl b mb del_state_env(2) by simp
  next
    case True
    then obtain e where e: "map_of es (tw_be_to_cpu_32 (qp_arp_ip n)) = Some e"
      and F: "node_fate es c (one_sec s) (queued_pkt_time_limit s) n = Send (fst e)"
      using f by (auto simp: node_fate_def split: option.splits)
    obtain p where p: "tw_search_arp_table (qp_arp_ip n) s = Some (Ret (p, s))"
      "case p of None \<Rightarrow> map_of es (tw_be_to_cpu_32 (qp_arp_ip n)) = None
       | Some a \<Rightarrow> \<exists>k. arp_heap s a = Some k \<and> map_of es (tw_be_to_cpu_32 (qp_arp_ip n)) = Some (at_eth_mac k, at_port_id k)"
      using search_ok[OF tab] by blast
    then obtain a k where a: "p = Some a" "arp_heap s a = Some k" "fst e = at_eth_mac k"
      using e by (auto split: option.splits)
    let ?m' = "m\<lparr>buf := set_d_addr (mtod m) (fst e) (buf m)\<rparr>"
    let ?d = "del_state prev y n s"
    obtain s1 where s1: "tw_add_pkt_to_tx_queue (Some b) (ucast (qp_port_id n)) (?d\<lparr>mbufs := (mbufs ?d)(b \<mapsto> ?m')\<rparr>) = Some (Ret (0, s1))"
      "tx_inv s1" "tx_frame ?d s1" "loose s1 = (loose s)(b := None)" "sent (unat (ucast (qp_port_id n) :: u8)) b ?m' ?d s1"
      using send_written[of ?d "ucast (qp_port_id n)" b m ?m'] inv b by auto
    let ?s' = "s1\<lparr>total_queued_pkts := total_queued_pkts s1 - 1\<rparr>"
    let ?w = "s\<lparr>mbufs := (mbufs s)(b \<mapsto> ?m')\<rparr>"
    have dw: "del_state prev y n ?w = ?d\<lparr>mbufs := (mbufs ?d)(b \<mapsto> ?m')\<rparr>" by (simp add: del_state_def)
    have "tw_send_queued_pkt prev (Some y) (fst e) s =
        Some (Ret ((if Some y = root_queued_pkt s then qp_next n else prev, qp_next n), ?s'))"
      using n b mb s1(1) ok(2) delete_run[of ?w y n prev]
      by (simp add: tw_send_queued_pkt_def run_simps dw del_ok_def)
    then have run: "update_turn c prev (Some y) s =
        Some (Ret ((if Some y = root_queued_pkt s then qp_next n else prev, qp_next n), ?s'))"
      using True n sec p(1) a by (simp add: update_turn_def run_simps tw_get_time_diff_def)
    have v: "tx_inv ?s' = tx_inv s1" "loose ?s' = loose s1" "txq ?s' = txq s1" using tx_view_cong[of ?s' s1] by simp_all
    have "same_env s s1" using same_env_trans[OF del_state_env(1) tx_frame_queue(1)[OF s1(3)]] .
    then have "same_env s ?s'" by (simp add: same_env_def arp_tab_def fun_eq_iff)
    moreover have "sent (unat (ucast (qp_port_id n) :: u8)) b ?m' s ?s'" using s1(5) v(3) by (simp add: sent_def Let_def)
    moreover have "total_queued_pkts ?s' = total_queued_pkts s - 2" using tx_frame_queue(4)[OF s1(3)] by simp
    ultimately show ?thesis
      using run s1(2,4) v b(1) mb tx_frame_queue(2,3)[OF s1(3)] by (intro exI[of _ ?s'] exI[of _ b] exI[of _ m]) (simp add: F)
  qed
qed

section \<open>The pass over the whole queue\<close>

text \<open>
  The variable \<open>prev\<close> of the loop is the root whenever an entry is deleted, because nothing advances
  it. Deleting an entry behind the root therefore unlinks the entries kept since the last deletion.
  \<open>pass_list F ks zs\<close> is what stays linked behind the root: \<open>ks\<close> was kept so far, \<open>zs\<close> is to come.
\<close>

primrec pass_list :: "(nat \<Rightarrow> fate) \<Rightarrow> nat list \<Rightarrow> nat list \<Rightarrow> nat list" where
  "pass_list F ks [] = ks"
| "pass_list F ks (y # zs) = pass_list F (if F y = Keep then ks @ [y] else []) zs"

lemma pass_list_kept: "\<forall>y\<in>set zs. F y = Keep \<Longrightarrow> pass_list F ks zs = ks @ zs"
  by (induction zs arbitrary: ks) auto

lemma pass_list_removed:
  "\<exists>y\<in>set zs. F y \<noteq> Keep \<Longrightarrow> pass_list F ks zs = rev (takeWhile (\<lambda>y. F y = Keep) (rev zs))"
proof (induction zs arbitrary: ks)
  case Nil
  then show ?case by simp
next
  case (Cons y zs)
  show ?case
  proof (cases "\<exists>z\<in>set zs. F z \<noteq> Keep")
    case True
    then show ?thesis using Cons.IH by (auto simp: takeWhile_append1)
  next
    case False
    then have "F y \<noteq> Keep" using Cons.prems by auto
    moreover have "takeWhile (\<lambda>y. F y = Keep) (rev zs @ [y]) = rev zs @ takeWhile (\<lambda>y. F y = Keep) [y]"
      using False by (intro takeWhile_append2) simp
    ultimately show ?thesis using False by (simp add: pass_list_kept)
  qed
qed

text \<open>What the counter loses: one for a dropped entry, two for one that is sent.\<close>

primrec pass_cost :: "fate \<Rightarrow> u32" where
  "pass_cost Keep = 0"
| "pass_cost Drop = 1"
| "pass_cost (Send mac) = 2"

text \<open>What happens to the packet of an entry, and to those of a list of entries one after the other.\<close>

definition fate_effect :: "fate \<Rightarrow> queued_pkt \<Rightarrow> 'a queue_scheme \<Rightarrow> 'a queue_scheme \<Rightarrow> bool" where
  "fate_effect f n s s' = (case f of
     Keep \<Rightarrow> txq s' = txq s \<and> wire s' = wire s \<and> mbufs s' = mbufs s
   | Drop \<Rightarrow> txq s' = txq s \<and> wire s' = wire s \<and> mbufs s' = (mbufs s)(the (qp_pkt n) := None)
   | Send mac \<Rightarrow> (\<exists>m. mbufs s (the (qp_pkt n)) = Some m \<and>
       sent (unat (ucast (qp_port_id n) :: u8)) (the (qp_pkt n)) (m\<lparr>buf := set_d_addr (mtod m) mac (buf m)\<rparr>) s s'))"

primrec pass_effect :: "(fate \<times> queued_pkt) list \<Rightarrow> 'a queue_scheme \<Rightarrow> 'a queue_scheme \<Rightarrow> bool" where
  "pass_effect [] s s' \<longleftrightarrow> s' = s"
| "pass_effect (x # xs) s s' \<longleftrightarrow> (\<exists>t. fate_effect (fst x) (snd x) s t \<and> pass_effect xs t s')"

definition gone :: "'a queue_scheme \<Rightarrow> (nat \<Rightarrow> fate) \<Rightarrow> nat list \<Rightarrow> nat set" where
  "gone s F zs = {b. \<exists>y\<in>set zs. F y \<noteq> Keep \<and> pkt_of s y = Some b}"

text \<open>The situation of the loop at an entry \<open>y\<close>, and of the entries after it.\<close>

definition pass_ready :: "binding list \<Rightarrow> u64 \<Rightarrow> (nat \<Rightarrow> fate) \<Rightarrow> nat list \<Rightarrow> 'a queue_scheme \<Rightarrow> bool" where
  "pass_ready es c F zs s \<longleftrightarrow> tx_inv s \<and> arp_tab s es \<and> one_sec s \<noteq> 0 \<and> pkts_ok s zs \<and>
     (\<forall>y\<in>set zs. F y = node_fate es c (one_sec s) (queued_pkt_time_limit s) (the (qp_heap s y)))"

text \<open>A removed entry leaves the loop ready for the entries after it.\<close>

lemma turn_removes:
  assumes r: "pass_ready es c F (y # zs) s" and F: "F y \<noteq> Keep" and d: "del_ok prev y s"
    and z: "y \<notin> set zs" "Some y \<noteq> root_queued_pkt s \<Longrightarrow> the prev \<notin> set zs"
  shows "\<exists>n s'. qp_heap s y = Some n \<and> update_turn c prev (Some y) s =
      Some (Ret ((if Some y = root_queued_pkt s then qp_next n else prev, qp_next n), s')) \<and>
    pass_ready es c F zs s' \<and> same_env s s' \<and> loose s' = (loose s)(the (qp_pkt n) := None) \<and> qp_pkt n \<noteq> None \<and>
    qp_heap s' = qp_heap (del_state prev y n s) \<and> root_queued_pkt s' = root_queued_pkt (del_state prev y n s) \<and>
    total_queued_pkts s' = total_queued_pkts s - pass_cost (F y) \<and> fate_effect (F y) n s s' \<and>
    (\<forall>x\<in>set zs. qp_heap s' x = qp_heap s x)"
proof -
  obtain n where n: "qp_heap s y = Some n" using r by (auto simp: pass_ready_def pkts_ok_def entry_ok_def)
  have Fy: "F y = node_fate es c (one_sec s) (queued_pkt_time_limit s) n" using r n by (simp add: pass_ready_def)
  have a: "arp_tab s es" "one_sec s \<noteq> 0" "tx_inv s" "entry_ok s y" using r by (simp_all add: pass_ready_def pkts_ok_def)
  obtain s' b m where run: "update_turn c prev (Some y) s =
      Some (Ret ((if Some y = root_queued_pkt s then qp_next n else prev, qp_next n), s'))"
    and s': "tx_inv s'" "same_env s s'" "qp_pkt n = Some b" "mbufs s b = Some m" "loose s' = (loose s)(b := None)"
      "qp_heap s' = qp_heap (del_state prev y n s)" "root_queued_pkt s' = root_queued_pkt (del_state prev y n s)"
    and eff: "case F y of Send mac \<Rightarrow> total_queued_pkts s' = total_queued_pkts s - 2 \<and>
         sent (unat (ucast (qp_port_id n) :: u8)) b (m\<lparr>buf := set_d_addr (mtod m) mac (buf m)\<rparr>) s s'
     | _ \<Rightarrow> total_queued_pkts s' = total_queued_pkts s - 1 \<and>
         txq s' = txq s \<and> wire s' = wire s \<and> mbufs s' = (mbufs s)(b := None)"
    using turn_remove[OF n a d] F Fy by metis
  have h: "\<forall>x\<in>set zs. qp_heap s' x = qp_heap s x" using s'(6) z by (auto simp: del_state_def)
  have p: "pkt_of s' x = pkt_of s x" if "x \<in> set zs" for x using h that by (simp add: pkt_of_def)
  have "pkt_of s y = Some b" using n s'(3) by (simp add: pkt_of_def)
  moreover have dist: "distinct (map (pkt_of s) (y # zs))" using r by (simp add: pass_ready_def pkts_ok_def)
  ultimately have nb: "pkt_of s x \<noteq> Some b" if "x \<in> set zs" for x using that by (auto simp: image_iff)
  have "entry_ok s' x" if x: "x \<in> set zs" for x
  proof -
    have "entry_ok s x" using r x by (simp add: pass_ready_def pkts_ok_def)
    then obtain k d l where k: "qp_heap s x = Some k" "qp_pkt k = Some d" "loose s d = Some l"
      "mtod l + sizeof_ether_hdr \<le> unat (buf_len l)" "unat (ucast (qp_port_id k) :: u8) < MAX_ETH_PORTS"
      unfolding entry_ok_def by blast
    then have "d \<noteq> b" using nb[OF x] by (simp add: pkt_of_def)
    then show ?thesis using k h x unfolding entry_ok_def s'(5)
      by (intro exI[of _ k] exI[of _ d] exI[of _ l]) simp
  qed
  then have "pkts_ok s' zs" using dist p by (auto simp: pkts_ok_def cong: map_cong)
  then have "pass_ready es c F zs s'" using r s'(1,2) h by (simp add: pass_ready_def same_env_def)
  moreover have "total_queued_pkts s' = total_queued_pkts s - pass_cost (F y)" using eff F by (cases "F y") auto
  moreover have "fate_effect (F y) n s s'" using eff F s'(3,4) by (cases "F y") (auto simp: fate_effect_def)
  ultimately show ?thesis using n run s' h by auto
qed

lemma update_loop_end: "update_loop c prev None s = Some (Ret ((), s))"
  by (simp add: update_loop.simps)

lemma update_loop_turn:
  "update_turn c prev (Some y) s = Some (Ret ((prev', cur'), s')) \<Longrightarrow>
   update_loop c prev (Some y) s = update_loop c prev' cur' s'"
  by (subst update_loop.simps) simp

text \<open>What the rest of the loop leaves behind, when it still has the entries \<open>zs\<close> before it.\<close>

definition pass_left :: "(nat \<Rightarrow> fate) \<Rightarrow> nat list \<Rightarrow> 'a queue_scheme \<Rightarrow> 'a queue_scheme \<Rightarrow> bool" where
  "pass_left F zs s s' \<longleftrightarrow> tx_inv s' \<and> same_env s s' \<and> loose s' = loose s |` (- gone s F zs) \<and>
     total_queued_pkts s' = total_queued_pkts s - (\<Sum>y\<leftarrow>zs. pass_cost (F y)) \<and>
     pass_effect (map (\<lambda>y. (F y, the (qp_heap s y))) zs) s s'"

lemma pass_left_Nil: "tx_inv s \<Longrightarrow> pass_left F [] s s"
  by (simp add: pass_left_def same_env_def gone_def restrict_map_def)

lemma pass_left_keep: "pass_left F zs s s' \<Longrightarrow> F y = Keep \<Longrightarrow> pass_left F (y # zs) s s'"
  by (auto simp: pass_left_def gone_def fate_effect_def)

lemma pass_left_remove:
  assumes l: "pass_left F zs t s'" and F: "F y \<noteq> Keep" and n: "qp_heap s y = Some n" "qp_pkt n \<noteq> None" and e: "same_env s t"
    and lo: "loose t = (loose s)(the (qp_pkt n) := None)"
    and tot: "total_queued_pkts t = total_queued_pkts s - pass_cost (F y)" and eff: "fate_effect (F y) n s t"
    and h: "\<forall>x\<in>set zs. qp_heap t x = qp_heap s x"
  shows "pass_left F (y # zs) s s'"
proof -
  have p: "pkt_of t x = pkt_of s x" if "x \<in> set zs" for x using h that by (simp add: pkt_of_def)
  then have "gone s F (y # zs) = insert (the (qp_pkt n)) (gone t F zs)"
    using F n by (auto simp: gone_def pkt_of_def)
  moreover have "(loose s)(the (qp_pkt n) := None) |` (- gone t F zs) = loose s |` (- insert (the (qp_pkt n)) (gone t F zs))"
    by (auto simp: restrict_map_def fun_eq_iff)
  ultimately have "loose s' = loose s |` (- gone s F (y # zs))" using l lo by (simp add: pass_left_def)
  moreover have mp: "map (\<lambda>y. (F y, the (qp_heap t y))) zs = map (\<lambda>y. (F y, the (qp_heap s y))) zs" using h by simp
  have "pass_effect (map (\<lambda>y. (F y, the (qp_heap s y))) zs) t s'" using l unfolding pass_left_def mp by simp
  then have "pass_effect (map (\<lambda>y. (F y, the (qp_heap s y))) (y # zs)) s s'" using n(1) eff by auto
  ultimately show ?thesis using l e tot same_env_trans[OF e] by (simp add: pass_left_def diff_diff_eq)
qed

text \<open>Behind a root \<open>x\<close> that stays.\<close>

lemma pass_behind:
  assumes "root_queued_pkt s = Some x" "chain qp_next (qp_heap s) (Some x) (x # ks @ zs)"
    "chain qp_next (qp_heap s) cur zs" "pass_ready es c F zs s"
  shows "\<exists>s'. update_loop c (Some x) cur s = Some (Ret ((), s')) \<and> qp_chain s' (x # pass_list F ks zs) \<and> pass_left F zs s s'"
  using assms
proof (induction zs arbitrary: s ks cur)
  case Nil
  then show ?case using pass_left_Nil by (auto simp: update_loop_end qp_chain_def pass_ready_def)
next
  case (Cons y zs)
  note r = Cons.prems(4)
  obtain n where cur: "cur = Some y" and n: "qp_heap s y = Some n" "chain qp_next (qp_heap s) (qp_next n) zs"
    using Cons.prems(3) by auto
  have dis: "distinct (x # ks @ y # zs)" by (rule chain_distinct[OF Cons.prems(2)])
  show ?case
  proof (cases "F y = Keep")
    case True
    have "update_turn c (Some x) (Some y) s = Some (Ret ((Some x, qp_next n), s))"
      using turn_keep[OF n(1), of es c] r True n(1) by (simp add: pass_ready_def)
    note turn = update_loop_turn[OF this]
    have "pass_ready es c F zs s" using r by (simp add: pass_ready_def pkts_ok_def)
    then obtain s' where "update_loop c (Some x) (qp_next n) s = Some (Ret ((), s'))"
      "qp_chain s' (x # pass_list F (ks @ [y]) zs)" "pass_left F zs s s'"
      using Cons.IH[OF Cons.prems(1), of "ks @ [y]" "qp_next n"] Cons.prems(2) n(2) by auto
    then show ?thesis using True pass_left_keep turn cur by auto
  next
    case False
    obtain q where q: "qp_heap s x = Some q" using Cons.prems(2) by auto
    have nr: "Some y \<noteq> root_queued_pkt s" using Cons.prems(1) dis by auto
    have d: "del_ok (Some x) y s" using q dis by (auto simp: del_ok_def)
    obtain t where t: "update_turn c (Some x) (Some y) s = Some (Ret ((Some x, qp_next n), t))"
      "pass_ready es c F zs t" "same_env s t" "loose t = (loose s)(the (qp_pkt n) := None)" "qp_pkt n \<noteq> None"
      "qp_heap t = qp_heap (del_state (Some x) y n s)" "root_queued_pkt t = root_queued_pkt (del_state (Some x) y n s)"
      "total_queued_pkts t = total_queued_pkts s - pass_cost (F y)" "fate_effect (F y) n s t"
      "\<forall>x\<in>set zs. qp_heap t x = qp_heap s x"
      using turn_removes[OF r False d] dis nr n(1) by auto
    have ht: "qp_heap t = (qp_heap s)(x \<mapsto> q\<lparr>qp_next := qp_next n\<rparr>, y := None)" using t(6) nr q by (simp add: del_state_def)
    have "chain qp_next ((qp_heap s)(x \<mapsto> q\<lparr>qp_next := qp_next n\<rparr>)) (Some x) (x # zs)"
      using qp.bypass_nodes[of "qp_heap s" "Some x" "[]" x "ks @ [y]" zs q "qp_next n"] Cons.prems(2) q n(2) by simp
    then have c1: "chain qp_next (qp_heap t) (Some x) (x # zs)"
      unfolding ht using dis by (intro qp.free_other) auto
    have "qp_next (the (qp_heap t x)) = qp_next n" using ht dis by auto
    then have c2: "chain qp_next (qp_heap t) (qp_next n) zs" using c1 by auto
    have rt: "root_queued_pkt t = Some x" using t(7) nr Cons.prems(1) by (simp add: del_state_def)
    obtain s' where "update_loop c (Some x) (qp_next n) t = Some (Ret ((), s'))"
      "qp_chain s' (x # pass_list F [] zs)" "pass_left F zs t s'"
      using Cons.IH[OF rt, of "[]" "qp_next n"] c1 c2 t(2) by auto
    then show ?thesis
      using False update_loop_turn[OF t(1)] cur pass_left_remove[where F = F and y = y, OF _ False n(1) t(5,3,4,8,9,10)] by auto
  qed
qed

text \<open>The entries that stay linked after the whole pass.\<close>

definition pass_result :: "(nat \<Rightarrow> fate) \<Rightarrow> nat list \<Rightarrow> nat list" where
  "pass_result F zs = (case dropWhile (\<lambda>y. F y \<noteq> Keep) zs of [] \<Rightarrow> [] | x # ys \<Rightarrow> x # pass_list F [] ys)"

lemma pass_from_root:
  assumes "qp_chain s zs" "pass_ready es c F zs s"
  shows "\<exists>s'. update_loop c (root_queued_pkt s) (root_queued_pkt s) s = Some (Ret ((), s')) \<and>
    qp_chain s' (pass_result F zs) \<and> pass_left F zs s s'"
  using assms
proof (induction zs arbitrary: s)
  case Nil
  then have "root_queued_pkt s = None" by (simp add: qp_chain_def)
  then show ?case using Nil pass_left_Nil
    by (auto simp: update_loop_end qp_chain_def pass_ready_def pass_result_def)
next
  case (Cons y zs)
  note r = Cons.prems(2)
  obtain n where root: "root_queued_pkt s = Some y" and n: "qp_heap s y = Some n" "chain qp_next (qp_heap s) (qp_next n) zs"
    using Cons.prems(1) by (auto simp: qp_chain_def)
  have dis: "distinct (y # zs)" using chain_distinct Cons.prems(1) unfolding qp_chain_def by blast
  show ?case
  proof (cases "F y = Keep")
    case True
    have "update_turn c (Some y) (Some y) s = Some (Ret ((Some y, qp_next n), s))"
      using turn_keep[OF n(1), of es c] r True n(1) by (simp add: pass_ready_def)
    note turn = update_loop_turn[OF this]
    have "pass_ready es c F zs s" using r by (simp add: pass_ready_def pkts_ok_def)
    then obtain s' where "update_loop c (Some y) (qp_next n) s = Some (Ret ((), s'))"
      "qp_chain s' (y # pass_list F [] zs)" "pass_left F zs s s'"
      using pass_behind[OF root, of "[]" zs "qp_next n" es c F] Cons.prems(1) n(2) root unfolding qp_chain_def by auto
    then show ?thesis using True pass_left_keep turn root by (auto simp: pass_result_def)
  next
    case False
    have d: "del_ok (Some y) y s" using root by (simp add: del_ok_def)
    obtain t where t: "update_turn c (Some y) (Some y) s = Some (Ret ((qp_next n, qp_next n), t))"
      "pass_ready es c F zs t" "same_env s t" "loose t = (loose s)(the (qp_pkt n) := None)" "qp_pkt n \<noteq> None"
      "qp_heap t = qp_heap (del_state (Some y) y n s)" "root_queued_pkt t = root_queued_pkt (del_state (Some y) y n s)"
      "total_queued_pkts t = total_queued_pkts s - pass_cost (F y)" "fate_effect (F y) n s t"
      "\<forall>x\<in>set zs. qp_heap t x = qp_heap s x"
      using turn_removes[OF r False d] dis root n(1) by auto
    have rt: "root_queued_pkt t = qp_next n" using t(7) root by (simp add: del_state_def)
    have "chain qp_next (qp_heap t) (qp_next n) zs" using n(2) t(10) seg_heap_cong[of zs "qp_heap t" "qp_heap s"] by blast
    then obtain s' where "update_loop c (qp_next n) (qp_next n) t = Some (Ret ((), s'))"
      "qp_chain s' (pass_result F zs)" "pass_left F zs t s'"
      using Cons.IH[of t] t(2) rt by (auto simp: qp_chain_def)
    then show ?thesis
      using False update_loop_turn[OF t(1)] root pass_left_remove[where F = F and y = y, OF _ False n(1) t(5,3,4,8,9,10)]
      by (auto simp: pass_result_def)
  qed
qed

section \<open>Adding a packet\<close>

lemma fill_run: "fill_queued_pkt pkt c ip port (Some a) s = Some (Ret (0,
    s\<lparr>qp_heap := (qp_heap s)(a \<mapsto> \<lparr>qp_pkt = pkt, qp_timercycle = c, qp_arp_ip = tw_cpu_to_be_32 ip, qp_port_id = port, qp_next = None\<rparr>),
      total_queued_pkts := total_queued_pkts s + 1\<rparr>))"
  by (simp add: fill_queued_pkt_def run_simps)

text \<open>The entry \<open>tw_add_pkt_to_queue\<close> makes.\<close>

abbreviation new_entry :: "ptr \<Rightarrow> u32 \<Rightarrow> u16 \<Rightarrow> 'a queue_scheme \<Rightarrow> queued_pkt" where
  "new_entry pkt ip port s \<equiv> \<lparr>qp_pkt = pkt, qp_timercycle = tsc_src s (tsc_cnt s), qp_arp_ip = tw_cpu_to_be_32 ip,
     qp_port_id = port, qp_next = None\<rparr>"

lemma add_pkt_ok:
  assumes c: "qp_chain s xs" and lim: "total_queued_pkts s < MAX_QUEUED_PKTS"
    and a: "malloc_src s (malloc_cnt s) = Some a" "a \<notin> dom (qp_heap s)"
  shows "\<exists>s'. tw_add_pkt_to_queue pkt ip port s = Some (Ret (0, s')) \<and> qp_chain s' (xs @ [a]) \<and>
    qp_heap s' a = Some (new_entry pkt ip port s) \<and> (\<forall>x\<in>set xs. pkt_of s' x = pkt_of s x) \<and>
    s' = s\<lparr>tsc_cnt := tsc_cnt s + 1, malloc_cnt := malloc_cnt s + 1, qp_heap := qp_heap s', root_queued_pkt := root_queued_pkt s',
      total_queued_pkts := total_queued_pkts s + 1\<rparr>"
proof (cases "root_queued_pkt s")
  case None
  then show ?thesis using assms
    by (auto simp: tw_add_pkt_to_queue_def tw_get_current_timer_cycles_def rte_get_timer_cycles_def rte_malloc_def fill_run run_simps qp_chain_def)
next
  case (Some r)
  have ch: "chain qp_next (qp_heap s) (Some r) xs" using c Some by (simp add: qp_chain_def)
  then have ne: "xs \<noteq> []" by auto
  have "last xs \<in> dom (qp_heap s)" using seg_dom[OF ch] last_in_set[OF ne] by blast
  then obtain l where l: "qp_heap s (last xs) = Some l" by blast
  then have al: "a \<noteq> last xs" using a(2) by blast
  note w = walk_last_chain[OF ch]
  let ?h = "(qp_heap s)(last xs \<mapsto> l\<lparr>qp_next := Some a\<rparr>, a \<mapsto> new_entry pkt ip port s)"
  let ?s' = "s\<lparr>tsc_cnt := tsc_cnt s + 1, malloc_cnt := malloc_cnt s + 1, qp_heap := ?h, total_queued_pkts := total_queued_pkts s + 1\<rparr>"
  have "tw_add_pkt_to_queue pkt ip port s = Some (Ret (0, ?s'))"
    using lim Some a(1) l w linorder_not_le[THEN iffD2, OF lim]
    by (simp add: tw_add_pkt_to_queue_def tw_get_current_timer_cycles_def rte_get_timer_cycles_def rte_malloc_def fill_run run_simps)
  moreover have "chain qp_next ?h (Some r) (xs @ [a])" using qp.append_node[OF ch ne a(2) l] by simp
  moreover have "pkt_of ?s' x = pkt_of s x" if "x \<in> set xs" for x
  proof -
    have "x \<noteq> a" using seg_dom[OF ch] a(2) that by blast
    then show ?thesis using l by (simp add: pkt_of_def)
  qed
  ultimately show ?thesis using Some by (intro exI[of _ ?s']) (simp add: qp_chain_def)
qed

section \<open>Properties\<close>

text \<open>Three entries wait at 1, 2 and 3; the address of the last one is in the ARP table.\<close>

definition demo_queue :: queue where
  "demo_queue = arp.extend ((demo_arp 0)\<lparr>mbufs := (\<lambda>a. if a < 100 then Some demo_mbuf else None),
     arp_heap := [50 \<mapsto> \<lparr>at_ip_addr = 0x0A000009, at_eth_mac = EA 2 0 0 0 0 9, at_port_id = 1, at_next = None\<rparr>],
     arp_table_root := Some 50, arp_table_size := 1\<rparr>)
   (queue.fields
     [1 \<mapsto> \<lparr>qp_pkt = Some 11, qp_timercycle = 0, qp_arp_ip = tw_cpu_to_be_32 0x0A000007, qp_port_id = 1, qp_next = Some 2\<rparr>,
      2 \<mapsto> \<lparr>qp_pkt = Some 12, qp_timercycle = 0, qp_arp_ip = tw_cpu_to_be_32 0x0A000008, qp_port_id = 1, qp_next = Some 3\<rparr>,
      3 \<mapsto> \<lparr>qp_pkt = Some 13, qp_timercycle = 0, qp_arp_ip = tw_cpu_to_be_32 0x0A000009, qp_port_id = 1, qp_next = None\<rparr>]
     (Some 1) 3 10)"

lemma demo_queue_views:
  "lcore_confs demo_queue = lcore_confs demo_tx" "lcore_id demo_queue = lcore_id demo_tx"
  "mbufs demo_queue = (\<lambda>a. if a < 100 then Some demo_mbuf else None)"
  "one_sec demo_queue = 2000000000" "queued_pkt_time_limit demo_queue = 10" "total_queued_pkts demo_queue = 3"
  "root_queued_pkt demo_queue = Some 1" "malloc_src demo_queue = Some" "malloc_cnt demo_queue = 0"
  by (auto simp: demo_queue_def arp.defs demo_arp_def queue.defs stats.defs demo_tx_def demo_stats_def lcores.defs demo_lcores_def demo_defs)

lemma demo_queue_nodes:
  "qp_heap demo_queue = 
     [1 \<mapsto> \<lparr>qp_pkt = Some 11, qp_timercycle = 0, qp_arp_ip = tw_cpu_to_be_32 0x0A000007, qp_port_id = 1, qp_next = Some 2\<rparr>,
      2 \<mapsto> \<lparr>qp_pkt = Some 12, qp_timercycle = 0, qp_arp_ip = tw_cpu_to_be_32 0x0A000008, qp_port_id = 1, qp_next = Some 3\<rparr>,
      3 \<mapsto> \<lparr>qp_pkt = Some 13, qp_timercycle = 0, qp_arp_ip = tw_cpu_to_be_32 0x0A000009, qp_port_id = 1, qp_next = None\<rparr>]"
  "arp_tab demo_queue [(0x0A000009, EA 2 0 0 0 0 9, 1)]"
proof -
  show "arp_tab demo_queue [(0x0A000009, EA 2 0 0 0 0 9, 1)]"
    unfolding arp_tab_def by (rule exI[of _ "[50]"]) (simp add: demo_queue_def arp.defs entry_def)
qed (simp add: demo_queue_def arp.defs queue.defs)

lemma demo_queue_facts:
  "tx_inv demo_queue" "a < 100 \<Longrightarrow> loose demo_queue a = Some demo_mbuf" "qp_chain demo_queue [1, 2, 3]"
  "pkts_ok demo_queue [1, 2, 3]"
proof -
  have q: "txq demo_queue r = []" if "r < 8" for r
    using demo_tx_facts(1)[OF that] by (simp add: txq_def tx_table_def demo_queue_views(1,2))
  have pend: "tx_pending demo_queue = []" by (simp add: tx_pending_def q)
  have "tx_shape demo_tx" using demo_tx_facts(2) by (simp add: tx_inv_def)
  then have "tx_shape demo_queue" by (simp add: tx_shape_def tx_table_def demo_queue_views(1,2))
  then show "tx_inv demo_queue" by (simp add: tx_inv_def pend)
  show l: "loose demo_queue a = Some demo_mbuf" if "a < 100" for a using that by (simp add: loose_def pend demo_queue_views)
  show "qp_chain demo_queue [1, 2, 3]" by (simp add: qp_chain_def demo_queue_views demo_queue_nodes)
  show "pkts_ok demo_queue [1, 2, 3]"
    by (simp add: pkts_ok_def entry_ok_def pkt_of_def demo_queue_nodes l) (simp add: demo_mbuf_def)
qed

text \<open>
  C9. The update pass over the waiting packets returns, and this is exactly what it leaves: the leading
  entries that time out or can be sent are removed, the first entry that must wait stays the root, and
  behind it stay all the others if no entry behind the root is removed, but only those after the last
  removed one otherwise (entries that still wait before it are unlinked and lost). Each removed
  packet is freed, or sent to the learned address on its port, in queue order, and the
  counter drops by one for each dropped packet and by two for each sent one.
\<close>

theorem queue_pass_exact:
  fixes es c s zs
  defines "F \<equiv> \<lambda>y. node_fate es c (one_sec s) (queued_pkt_time_limit s) (the (qp_heap s y))"
  assumes "qp_chain s zs" "tx_inv s" "arp_tab s es" "one_sec s \<noteq> 0" "pkts_ok s zs"
  shows "\<exists>s'. tw_update_queued_pkts c s = Some (Ret (0, s')) \<and>
    qp_chain s' (case dropWhile (\<lambda>y. F y \<noteq> Keep) zs of [] \<Rightarrow> []
      | x # ys \<Rightarrow> x # (if \<forall>y\<in>set ys. F y = Keep then ys else rev (takeWhile (\<lambda>y. F y = Keep) (rev ys)))) \<and>
    pass_effect (map (\<lambda>y. (F y, the (qp_heap s y))) zs) s s' \<and>
    total_queued_pkts s' = total_queued_pkts s - (\<Sum>y\<leftarrow>zs. pass_cost (F y)) \<and>
    tx_inv s' \<and> arp_tab s' es \<and> loose s' = loose s |` (- {b. \<exists>y\<in>set zs. F y \<noteq> Keep \<and> pkt_of s y = Some b})"
proof -
  have "pass_ready es c F zs s" using assms by (simp add: pass_ready_def)
  then obtain s' where s': "update_loop c (root_queued_pkt s) (root_queued_pkt s) s = Some (Ret ((), s'))"
    "qp_chain s' (pass_result F zs)" "pass_left F zs s s'"
    using pass_from_root[OF assms(2)] by blast
  have "pass_list F [] ys = (if \<forall>y\<in>set ys. F y = Keep then ys else rev (takeWhile (\<lambda>y. F y = Keep) (rev ys)))" for ys
    by (simp add: pass_list_kept pass_list_removed)
  then have "pass_result F zs = (case dropWhile (\<lambda>y. F y \<noteq> Keep) zs of [] \<Rightarrow> []
      | x # ys \<Rightarrow> x # (if \<forall>y\<in>set ys. F y = Keep then ys else rev (takeWhile (\<lambda>y. F y = Keep) (rev ys))))"
    by (simp only: pass_result_def)
  with s' assms(4) show ?thesis
    by (auto simp: tw_update_queued_pkts_def run_simps pass_left_def gone_def same_env_def)
qed

theorem queue_pass_exact_witness:
  "\<exists>s'. tw_update_queued_pkts 0 demo_queue = Some (Ret (0, s')) \<and> qp_chain s' [1] \<and> total_queued_pkts s' = 1"
proof -
  define F where "F = (\<lambda>y. node_fate [(0x0A000009, EA 2 0 0 0 0 9, 1)] 0 (one_sec demo_queue) (queued_pkt_time_limit demo_queue)
    (the (qp_heap demo_queue y)))"
  have sec: "one_sec demo_queue \<noteq> 0" by (simp add: demo_queue_views)
  have F: "F 1 = Keep" "F (Suc 0) = Keep" "F 2 = Keep" "F 3 = Send (EA 2 0 0 0 0 9)"
    by (simp_all add: F_def node_fate_def demo_queue_nodes demo_queue_views c_abs_def)
  obtain s' where s': "tw_update_queued_pkts 0 demo_queue = Some (Ret (0, s'))"
    "qp_chain s' (case dropWhile (\<lambda>y. F y \<noteq> Keep) [1, 2, 3] of [] \<Rightarrow> []
      | x # ys \<Rightarrow> x # (if \<forall>y\<in>set ys. F y = Keep then ys else rev (takeWhile (\<lambda>y. F y = Keep) (rev ys))))"
    "total_queued_pkts s' = total_queued_pkts demo_queue - (\<Sum>y\<leftarrow>[1, 2, 3]. pass_cost (F y))"
    using queue_pass_exact[OF demo_queue_facts(3,1) demo_queue_nodes(2) sec demo_queue_facts(4), of 0] unfolding F_def by blast
  have "qp_chain s' [1]" using s'(2) by (simp add: F)
  moreover have "total_queued_pkts s' = 1" using s'(3) by (simp add: F demo_queue_views)
  ultimately show ?thesis using s'(1) by blast
qed

text \<open>
  A packet queued while fewer than 1024 wait goes to the end of the queue with the current time, its
  next hop in network order and its port; the entries before it keep their packets and nothing else
  changes but the clock and allocator readings and the counter.
\<close>

theorem queue_add_appends:
  assumes "qp_chain s xs" "total_queued_pkts s < 1024" "malloc_src s (malloc_cnt s) = Some a" "a \<notin> dom (qp_heap s)"
  shows "\<exists>s'. tw_add_pkt_to_queue pkt ip port s = Some (Ret (0, s')) \<and> qp_chain s' (xs @ [a]) \<and>
    qp_heap s' a = Some \<lparr>qp_pkt = pkt, qp_timercycle = tsc_src s (tsc_cnt s), qp_arp_ip = tw_cpu_to_be_32 ip,
      qp_port_id = port, qp_next = None\<rparr> \<and>
    (\<forall>x\<in>set xs. pkt_of s' x = pkt_of s x) \<and>
    s' = s\<lparr>tsc_cnt := tsc_cnt s + 1, malloc_cnt := malloc_cnt s + 1, qp_heap := qp_heap s', root_queued_pkt := root_queued_pkt s',
      total_queued_pkts := total_queued_pkts s + 1\<rparr>"
  using add_pkt_ok[OF assms(1) _ assms(3,4)] assms(2) by simp

theorem queue_add_appends_witness:
  "\<exists>s'. tw_add_pkt_to_queue (Some 20) 5 1 demo_queue = Some (Ret (0, s')) \<and> qp_chain s' [1, 2, 3, 0] \<and> total_queued_pkts s' = 4"
proof -
  obtain s' where s': "tw_add_pkt_to_queue (Some 20) 5 1 demo_queue = Some (Ret (0, s'))" "qp_chain s' ([1, 2, 3] @ [0])"
    and eq: "s' = demo_queue\<lparr>tsc_cnt := tsc_cnt demo_queue + 1, malloc_cnt := malloc_cnt demo_queue + 1, qp_heap := qp_heap s',
      root_queued_pkt := root_queued_pkt s', total_queued_pkts := total_queued_pkts demo_queue + 1\<rparr>"
    using queue_add_appends[OF demo_queue_facts(3), of 0 "Some 20" 5 1] by (auto simp: demo_queue_views demo_queue_nodes)
  have "total_queued_pkts s' = 4" by (subst eq) (simp add: demo_queue_views)
  then show ?thesis using s' by auto
qed

text \<open>
  A packet the queue cannot take is refused with -1 in both cases the code distinguishes, but only the
  full queue frees it: when the allocator has no memory the packet stays allocated and nothing refers to it.
\<close>

theorem queue_add_refused:
  assumes "qp_chain s xs" "tx_inv s" "loose s b = Some m"
    and "total_queued_pkts s \<ge> 1024 \<or> malloc_src s (malloc_cnt s) = None"
  shows "\<exists>s'. tw_add_pkt_to_queue (Some b) ip port s = Some (Ret (- 1, s')) \<and> qp_chain s' xs \<and>
    total_queued_pkts s' = total_queued_pkts s \<and> tx_inv s' \<and>
    loose s' = (if total_queued_pkts s \<ge> 1024 then (loose s)(b := None) else loose s)"
proof (cases "total_queued_pkts s \<ge> 1024")
  case True
  then show ?thesis using assms(1) free_loose[OF assms(2,3)] by (simp add: tw_add_pkt_to_queue_def run_simps qp_chain_def)
next
  case False
  then have none: "malloc_src s (malloc_cnt s) = None" using assms(4) by simp
  let ?t = "s\<lparr>tsc_cnt := Suc (tsc_cnt s), malloc_cnt := Suc (malloc_cnt s)\<rparr>"
  note d = tw_add_pkt_to_queue_def tw_get_current_timer_cycles_def rte_get_timer_cycles_def rte_malloc_def fill_queued_pkt_def
  show ?thesis
  proof (cases "root_queued_pkt s")
    case None
    have "tx_inv (?t\<lparr>root_queued_pkt := None\<rparr>)" "loose (?t\<lparr>root_queued_pkt := None\<rparr>) = loose s"
      using assms(2) tx_view_cong[of "?t\<lparr>root_queued_pkt := None\<rparr>" s] by simp_all
    then show ?thesis using assms(1) False none None by (simp add: d run_simps qp_chain_def)
  next
    case (Some r)
    have ch: "chain qp_next (qp_heap s) (Some r) xs" using assms(1) Some by (simp add: qp_chain_def)
    then obtain ys where xs: "xs = ys @ [last xs]" by (cases xs rule: rev_cases) auto
    then obtain l where l: "qp_heap s (last xs) = Some l" "qp_next l = None" using ch
      by (metis seg_append seg.simps(1) seg.simps(2))
    let ?u = "qp_heap_update (\<lambda>h. h(last xs \<mapsto> l\<lparr>qp_next := None\<rparr>)) ?t"
    have same: "(qp_heap s)(last xs \<mapsto> l\<lparr>qp_next := None\<rparr>) = qp_heap s" using l by (cases l) (simp add: fun_upd_idem)
    have "tx_inv ?u = tx_inv s" "loose ?u = loose s" using tx_view_cong[of ?u s] by simp_all
    then show ?thesis using assms(2) ch False none Some l walk_last_chain[OF ch] same by (simp add: d run_simps qp_chain_def)
  qed
qed

theorem queue_add_refused_witness:
  "\<exists>s'. tw_add_pkt_to_queue (Some 20) 5 1 (demo_queue\<lparr>malloc_src := (\<lambda>_. None)\<rparr>) = Some (Ret (- 1, s')) \<and> loose s' 20 = Some demo_mbuf"
proof -
  let ?s = "demo_queue\<lparr>malloc_src := (\<lambda>_. None)\<rparr>"
  have v: "tx_inv ?s" "loose ?s = loose demo_queue" using demo_queue_facts(1) tx_view_cong[of ?s demo_queue] by simp_all
  have "qp_chain ?s [1, 2, 3]" using demo_queue_facts(3) by (simp add: qp_chain_def)
  moreover have "loose ?s 20 = Some demo_mbuf" using v demo_queue_facts(2) by simp
  ultimately obtain s' where "tw_add_pkt_to_queue (Some 20) 5 1 ?s = Some (Ret (- 1, s'))"
    "loose s' = (if total_queued_pkts ?s \<ge> 1024 then (loose ?s)(20 := None) else loose ?s)"
    using queue_add_refused[of ?s "[1, 2, 3]" 20 demo_mbuf 5 1] v(1) by auto
  then show ?thesis using \<open>loose ?s 20 = Some demo_mbuf\<close> by (simp add: demo_queue_views)
qed

end
