(* ===== verification/Checksum.thy ===== *)
theory Checksum
  imports NetHdrs
begin

text \<open>
  The Internet checksum: \<open>rte_ip.h\<close> of DPDK (the sum of 16-bit words, unrolled by four, its
  reduction, and the IPv4, UDP and TCP checksums built from it for both IP versions) and
  \<open>tw_calcsum\<close> of \<open>twister/common/common.c\<close>. Memory is a function from addresses to bytes; the
  pointers are offsets into it. The reference is one's complement addition on natural numbers.
\<close>

section \<open>rte\_ip.h\<close>

text \<open>The two loops of \<open>__rte_raw_cksum\<close>; they return the pointer, the length and the sum.\<close>

fun cksum_by4 :: "bytes \<Rightarrow> nat \<Rightarrow> nat \<Rightarrow> u32 \<Rightarrow> nat \<times> nat \<times> u32" where
  "cksum_by4 b p len acc =
     (if len \<ge> 8
      then cksum_by4 b (p + 8) (len - 8)
        (acc + ucast (rd16 b p) + ucast (rd16 b (p + 2)) + ucast (rd16 b (p + 4)) + ucast (rd16 b (p + 6)))
      else (p, len, acc))"

fun cksum_by1 :: "bytes \<Rightarrow> nat \<Rightarrow> nat \<Rightarrow> u32 \<Rightarrow> nat \<times> nat \<times> u32" where
  "cksum_by1 b p len acc =
     (if len \<ge> 2 then cksum_by1 b (p + 2) (len - 2) (acc + ucast (rd16 b p)) else (p, len, acc))"

declare cksum_by4.simps [simp del] cksum_by1.simps [simp del]

definition raw_cksum_words :: "bytes \<Rightarrow> nat \<Rightarrow> nat \<Rightarrow> u32 \<Rightarrow> u32" where
  "raw_cksum_words b p len acc =
     (case cksum_by4 b p len acc of (p1, len1, acc1) \<Rightarrow>
      case cksum_by1 b p1 len1 acc1 of (p2, len2, acc2) \<Rightarrow>
        if len2 = 1 then acc2 + ucast (b p2) else acc2)"

definition raw_cksum_reduce :: "u32 \<Rightarrow> u16" where
  "raw_cksum_reduce acc =
     (let acc = drop_bit 16 (acc AND 0xffff0000) + (acc AND 0xffff);
          acc = drop_bit 16 (acc AND 0xffff0000) + (acc AND 0xffff)
      in ucast acc)"

definition rte_raw_cksum :: "bytes \<Rightarrow> nat \<Rightarrow> nat \<Rightarrow> u16" where
  "rte_raw_cksum b p len = raw_cksum_reduce (raw_cksum_words b p len 0)"

definition rte_ipv4_cksum :: "bytes \<Rightarrow> nat \<Rightarrow> u16" where
  "rte_ipv4_cksum b p =
     (let cksum = rte_raw_cksum b p sizeof_ipv4_hdr in if cksum = 0xffff then cksum else NOT cksum)"

abbreviation "PKT_TX_TCP_SEG \<equiv> (push_bit 50 1 :: u64)"

text \<open>The pseudo header is a local structure of twelve bytes, at offset 0 of its own memory.\<close>

definition ipv4_psd_header :: "ipv4_hdr \<Rightarrow> u64 \<Rightarrow> bytes" where
  "ipv4_psd_header h ol_flags =
     (let psd = wr32 0 (src_addr h) (\<lambda>_. 0);
          psd = wr32 4 (dst_addr h) psd;
          psd = wr8 8 0 psd;
          psd = wr8 9 (next_proto_id h) psd
      in if ol_flags AND PKT_TX_TCP_SEG \<noteq> 0 then wr16 10 0 psd
         else wr16 10 (tw_cpu_to_be_16 (tw_be_to_cpu_16 (total_length h) - of_nat sizeof_ipv4_hdr)) psd)"

definition rte_ipv4_phdr_cksum :: "ipv4_hdr \<Rightarrow> u64 \<Rightarrow> u16" where
  "rte_ipv4_phdr_cksum h ol_flags = rte_raw_cksum (ipv4_psd_header h ol_flags) 0 12"

text \<open>What the two functions do with the sum of the payload and the pseudo header.\<close>

definition udptcp_finish :: "u16 \<Rightarrow> u16 \<Rightarrow> u16" where
  "udptcp_finish l4 ph =
     (let cksum = ucast l4 + ucast ph :: u32;
          cksum = drop_bit 16 (cksum AND 0xffff0000) + (cksum AND 0xffff);
          cksum = NOT cksum AND 0xffff
      in ucast (if cksum = 0 then 0xffff else cksum))"

definition rte_ipv4_udptcp_cksum :: "bytes \<Rightarrow> nat \<Rightarrow> nat \<Rightarrow> u16" where
  "rte_ipv4_udptcp_cksum b ip l4 =
     (let h = ipv4_hdr_at b ip;
          l4_len = ucast (tw_be_to_cpu_16 (total_length h)) - of_nat sizeof_ipv4_hdr :: u32
      in udptcp_finish (rte_raw_cksum b l4 (unat l4_len)) (rte_ipv4_phdr_cksum h 0))"

text \<open>The IPv6 header stays in the buffer: \<open>payload_len\<close> is at offset 4, \<open>proto\<close> at 6, the two
  addresses are the 32 bytes from offset 8.\<close>

definition ipv6_psd_header :: "bytes \<Rightarrow> nat \<Rightarrow> u64 \<Rightarrow> bytes" where
  "ipv6_psd_header b ip ol_flags =
     (let psd = wr32 4 (push_bit 24 (ucast (b (ip + 6)))) (\<lambda>_. 0)
      in if ol_flags AND PKT_TX_TCP_SEG \<noteq> 0 then wr32 0 0 psd
         else wr32 0 (ucast (rd16 b (ip + 4))) psd)"

definition rte_ipv6_phdr_cksum :: "bytes \<Rightarrow> nat \<Rightarrow> u64 \<Rightarrow> u16" where
  "rte_ipv6_phdr_cksum b ip ol_flags =
     (let acc = raw_cksum_words b (ip + 8) 32 0
      in raw_cksum_reduce (raw_cksum_words (ipv6_psd_header b ip ol_flags) 0 8 acc))"

definition rte_ipv6_udptcp_cksum :: "bytes \<Rightarrow> nat \<Rightarrow> nat \<Rightarrow> u16" where
  "rte_ipv6_udptcp_cksum b ip l4 =
     udptcp_finish (rte_raw_cksum b l4 (unat (tw_be_to_cpu_16 (rd16 b (ip + 4))))) (rte_ipv6_phdr_cksum b ip 0)"

section \<open>tw\_calcsum\<close>

text \<open>\<open>length\<close> is an \<open>int\<close>, the sum an \<open>unsigned long\<close>. The odd last byte is read as a \<open>short\<close> and
  cast to \<open>char\<close>, which is signed: it is the low byte, sign extended to 64 bits.\<close>

function calcsum_loop :: "bytes \<Rightarrow> nat \<Rightarrow> int \<Rightarrow> u64 \<Rightarrow> nat \<times> int \<times> u64" where
  "calcsum_loop b p len acc =
     (if len > 1 then calcsum_loop b (p + 2) (len - 2) (acc + ucast (rd16 b p)) else (p, len, acc))"
  by pat_completeness auto
termination by (relation "measure (\<lambda>(b, p, len, acc). nat len)") auto

declare calcsum_loop.simps [simp del]

definition tw_calcsum :: "bytes \<Rightarrow> nat \<Rightarrow> int \<Rightarrow> u16" where
  "tw_calcsum b p len =
     (case calcsum_loop b p len 0 of (p1, len1, acc) \<Rightarrow>
      let acc = (if len1 = 1 then acc + scast (ucast (rd16 b p1) :: u8) else acc);
          acc = drop_bit 16 acc + (acc AND 0xFFFF);
          acc = acc + drop_bit 16 acc
      in ucast (NOT acc))"

section \<open>One's complement sums\<close>

text \<open>The sum of the little-endian words of \<open>len\<close> bytes, the odd byte counting as a word.\<close>

fun word_sum :: "bytes \<Rightarrow> nat \<Rightarrow> nat \<Rightarrow> nat" where
  "word_sum b p len = (if len \<ge> 2 then unat (rd16 b p) + word_sum b (p + 2) (len - 2)
     else if len = 1 then unat (b p) else 0)"

declare word_sum.simps [simp del]

text \<open>One's complement reduction: the representative modulo 65535 in 1 to 65535, and 0 for 0.\<close>

definition oc :: "nat \<Rightarrow> nat" where
  "oc n = (if n = 0 then 0 else (n - 1) mod 65535 + 1)"

lemma oc_unique:
  assumes "r \<le> 65535" "r mod 65535 = n mod 65535" "r = 0 \<longleftrightarrow> n = 0"
  shows "r = oc n"
proof (cases "n = 0")
  case False
  then obtain m k where nm: "n = Suc m" "r = Suc k" using assms(3) by (metis not0_implies_Suc)
  then have "(Suc k + 65534) mod 65535 = (Suc m + 65534) mod 65535" using assms(2) by (intro mod_add_cong) simp_all
  then have "(k + 65535) mod 65535 = (m + 65535) mod 65535" by simp
  then have "k mod 65535 = m mod 65535" by (simp only: mod_add_self2)
  moreover have "k < 65535" using nm assms(1) by simp
  ultimately show ?thesis using nm by (simp add: oc_def)
qed (use assms in \<open>simp add: oc_def\<close>)

lemma oc_le: "oc n \<le> 65535"
proof -
  have "(n - 1) mod 65535 < 65535" by (rule mod_less_divisor) simp
  then have "(n - 1) mod 65535 + 1 \<le> 65535" by (simp only: Suc_eq_plus1[symmetric] Suc_le_eq)
  then show ?thesis unfolding oc_def by (cases "n = 0") (simp_all only: if_True if_False zero_le simp_thms)
qed

lemma oc_mod: "oc n mod 65535 = n mod 65535"
proof (cases n)
  case (Suc m)
  then have "oc n mod 65535 = Suc (m mod 65535) mod 65535" by (simp add: oc_def)
  also have "\<dots> = Suc m mod 65535" by (rule mod_Suc_eq)
  finally show ?thesis using Suc by simp
qed (simp add: oc_def)

lemma oc_zero_iff [simp]: "oc n = 0 \<longleftrightarrow> n = 0"
  by (simp add: oc_def)

lemma fold32: "unat (drop_bit 16 (x AND 0xffff0000) + (x AND 0xffff) :: u32) = unat x div 65536 + unat x mod 65536"
  for x :: u32
proof -
  have d: "drop_bit 16 (x AND 0xffff0000) = drop_bit 16 x"
  proof -
    have m: "(0xffff0000 :: u32) = push_bit 16 (mask 16)" by (simp add: mask_eq_exp_minus_1)
    show ?thesis unfolding m by (rule bit_word_eqI) (auto simp: bit_simps dest: bit_imp_le_length)
  qed
  have "x AND 0xffff = take_bit 16 x" by (simp add: take_bit_eq_mask mask_eq_exp_minus_1)
  then have lo: "unat (x AND 0xffff) = unat x mod 65536" 
    by (simp add: take_bit_eq_mod unat_mod_distrib)
  have hi: "unat (drop_bit 16 x) = unat x div 65536" by (simp add: drop_bit_eq_div unat_div_distrib)
  have "unat x < 4294967296" using unsigned_less[of x, where 'a = nat] by simp
  then have "unat x div 65536 < 65536" by (simp add: div_less_iff_less_mult)
  moreover have "unat x mod 65536 < 65536" by simp
  ultimately have "unat x div 65536 + unat x mod 65536 < 4294967296" by linarith
  then show ?thesis unfolding d using hi lo by (simp add: unat_word_ariths)
qed

lemma fold_mod: "(n div 65536 + n mod 65536) mod 65535 = n mod (65535 :: nat)"
proof -
  have "n = n div 65536 * 65536 + n mod 65536" by simp
  then have "n mod 65535 = (n div 65536 * 65535 + (n div 65536 + n mod 65536)) mod 65535" by simp
  then show ?thesis by (metis mod_mult_self3)
qed

lemma fold_zero: "n div 65536 + n mod 65536 = (0 :: nat) \<longleftrightarrow> n = 0"
  by (metis add_is_0 div_mult_mod_eq div_0 mod_0 mult_is_0)

lemma reduce_oc: "unat (raw_cksum_reduce x) = oc (unat x)"
proof -
  define y where "y = drop_bit 16 (x AND 0xffff0000) + (x AND 0xffff)"
  define z where "z = drop_bit 16 (y AND 0xffff0000) + (y AND 0xffff)"
  have y: "unat y = unat x div 65536 + unat x mod 65536" unfolding y_def by (rule fold32)
  have z: "unat z = unat y div 65536 + unat y mod 65536" unfolding z_def by (rule fold32)
  have "unat x < 4294967296" using unsigned_less[of x, where 'a = nat] by simp
  then have "unat x div 65536 < 65536" by (simp add: div_less_iff_less_mult)
  moreover have "unat x mod 65536 < 65536" by simp
  ultimately have yb: "unat y \<le> 131070" unfolding y by linarith
  have zb: "unat z \<le> 65535" 
  proof (cases "unat y < 65536")
    case False
    then have "unat y div 65536 = 1" using yb by (intro div_nat_eqI) simp_all
    moreover have "unat y = unat y div 65536 * 65536 + unat y mod 65536" by simp
    ultimately show ?thesis using z yb by linarith
  qed (use z in simp)
  have "unat z mod 65535 = unat x mod 65535" unfolding z fold_mod y ..
  moreover have "unat z = 0 \<longleftrightarrow> unat x = 0" unfolding z y fold_zero ..
  ultimately have "unat z = oc (unat x)" using zb by (intro oc_unique)
  moreover have "raw_cksum_reduce x = ucast z" by (simp add: raw_cksum_reduce_def Let_def y_def z_def)
  ultimately show ?thesis using zb by (simp add: unsigned_ucast_eq take_bit_nat_eq_self)
qed

section \<open>What the loops compute\<close>

lemma word_sum_2: "len \<ge> 2 \<Longrightarrow> word_sum b p len = unat (rd16 b p) + word_sum b (p + 2) (len - 2)"
  by (simp add: word_sum.simps)

lemma word_sum_8:
  assumes "len \<ge> 8"
  shows "word_sum b p len = unat (rd16 b p) + unat (rd16 b (p + 2)) + unat (rd16 b (p + 4)) + unat (rd16 b (p + 6)) +
    word_sum b (p + 8) (len - 8)"
proof -
  have "word_sum b p len = unat (rd16 b p) + word_sum b (p + 2) (len - 2)" using assms by (simp add: word_sum_2)
  also have "word_sum b (p + 2) (len - 2) = unat (rd16 b (p + 2)) + word_sum b (p + 4) (len - 4)"
    using assms word_sum_2[of "len - 2" b "p + 2"] by (simp del: add_2_eq_Suc' add: add.commute)
  also have "word_sum b (p + 4) (len - 4) = unat (rd16 b (p + 4)) + word_sum b (p + 6) (len - 6)"
    using assms word_sum_2[of "len - 4" b "p + 4"] by (simp del: add_2_eq_Suc' add: add.commute)
  also have "word_sum b (p + 6) (len - 6) = unat (rd16 b (p + 6)) + word_sum b (p + 8) (len - 8)"
    using assms word_sum_2[of "len - 6" b "p + 6"] by (simp del: add_2_eq_Suc' add: add.commute)
  finally show ?thesis by simp
qed

lemma by4_sum:
  "cksum_by4 b p len acc = (p', len', acc') \<Longrightarrow> acc' + of_nat (word_sum b p' len') = acc + of_nat (word_sum b p len)"
proof (induction b p len acc rule: cksum_by4.induct)
  case (1 b p len acc)
  show ?case
  proof (cases "len \<ge> 8")
    case True
    then show ?thesis using 1 by (subst (asm) cksum_by4.simps) (simp add: word_sum_8 algebra_simps)
  next
    case False
    then show ?thesis using "1.prems" by (subst (asm) cksum_by4.simps) simp
  qed
qed

lemma by1_sum:
  "cksum_by1 b p len acc = (p', len', acc') \<Longrightarrow>
   len' < 2 \<and> acc' + of_nat (word_sum b p' len') = acc + of_nat (word_sum b p len)"
proof (induction b p len acc rule: cksum_by1.induct)
  case (1 b p len acc)
  show ?case
  proof (cases "len \<ge> 2")
    case True
    then show ?thesis using 1 by (subst (asm) cksum_by1.simps) (simp add: word_sum_2 algebra_simps)
  next
    case False
    then show ?thesis using "1.prems" by (subst (asm) cksum_by1.simps) simp
  qed
qed

lemma raw_words_sum: "raw_cksum_words b p len acc = acc + of_nat (word_sum b p len)"
proof -
  obtain p1 len1 acc1 where r1: "cksum_by4 b p len acc = (p1, len1, acc1)" by (metis prod_cases3)
  obtain p2 len2 acc2 where r2: "cksum_by1 b p1 len1 acc1 = (p2, len2, acc2)" by (metis prod_cases3)
  have "word_sum b p2 len2 = (if len2 = 1 then unat (b p2) else 0)"
    using by1_sum[OF r2] by (subst word_sum.simps) simp
  then have "(if len2 = 1 then acc2 + ucast (b p2) else acc2) = acc2 + of_nat (word_sum b p2 len2)" by simp
  also have "\<dots> = acc + of_nat (word_sum b p len)" using by4_sum[OF r1] by1_sum[OF r2] by simp
  finally show ?thesis by (simp add: raw_cksum_words_def r1 r2)
qed

lemma word_sum_bound: "word_sum b p len \<le> 65535 * ((len + 1) div 2)"
proof (induction b p len rule: word_sum.induct)
  case (1 b p len)
  show ?case
  proof (cases "len \<ge> 2")
    case True
    have "unat (rd16 b p) \<le> 65535" using unsigned_less[of "rd16 b p", where 'a = nat] by simp
    moreover have "(len + 1) div 2 = Suc ((len - 2 + 1) div 2)" using True by simp
    ultimately show ?thesis using 1 True by (simp add: word_sum_2)
  next
    case False
    have "unat (b p) \<le> 255" using unsigned_less[of "b p", where 'a = nat] by simp
    then show ?thesis using False by (subst word_sum.simps) auto
  qed
qed

text \<open>The sum fits 32 bits for every length an IPv4 packet can have.\<close>

lemma raw_words_unat:
  assumes "len \<le> 131072"
  shows "unat (raw_cksum_words b p len 0) = word_sum b p len"
proof -
  have "(len + 1) div 2 \<le> 65536" using assms by simp
  then have "word_sum b p len \<le> 65535 * 65536" using word_sum_bound[of b p len] by (meson mult_le_mono2 order_trans)
  then show ?thesis by (simp add: raw_words_sum unat_of_nat)
qed

lemma raw_cksum_oc: "len \<le> 131072 \<Longrightarrow> unat (rte_raw_cksum b p len) = oc (word_sum b p len)"
  by (simp add: rte_raw_cksum_def reduce_oc raw_words_unat)

section \<open>Storing a checksum\<close>

text \<open>Replacing a word that is 0 by \<open>c\<close>, at an even distance from the start, adds \<open>c\<close> to the sum.\<close>

lemma word_sum_other:
  "k + 1 < p \<or> p + len \<le> k \<Longrightarrow> word_sum (wr16 k c b) p len = word_sum b p len"
proof (induction b p len rule: word_sum.induct)
  case (1 b p len)
  show ?case
  proof (cases "len \<ge> 2")
    case True
    then have "rd16 (wr16 k c b) p = rd16 b p" using "1.prems" by (intro rd16_other(2)) auto
    moreover have "word_sum (wr16 k c b) (p + 2) (len - 2) = word_sum b (p + 2) (len - 2)"
      using 1 True by auto
    ultimately show ?thesis using True by (simp add: word_sum_2)
  next
    case False
    then show ?thesis using "1.prems" by (subst (1 2) word_sum.simps) (auto simp: wr16_at)
  qed
qed

lemma word_sum_store:
  "rd16 b (p + 2 * j) = 0 \<Longrightarrow> 2 * j + 2 \<le> len \<Longrightarrow>
   word_sum (wr16 (p + 2 * j) c b) p len = word_sum b p len + unat c"
proof (induction j arbitrary: p len)
  case 0
  have "word_sum (wr16 p c b) (p + 2) (len - 2) = word_sum b (p + 2) (len - 2)" by (rule word_sum_other) simp
  then show ?case using 0 by (simp add: word_sum_2 rd16_wr16)
next
  case (Suc j)
  have e: "p + 2 * Suc j = p + 2 + 2 * j" by simp
  have "rd16 (wr16 (p + 2 + 2 * j) c b) p = rd16 b p" by (rule rd16_other(2)) simp
  moreover have "word_sum (wr16 (p + 2 + 2 * j) c b) (p + 2) (len - 2) = word_sum b (p + 2) (len - 2) + unat c"
    using Suc by (intro Suc.IH) (simp_all add: add.assoc)
  ultimately show ?case using Suc.prems(2) unfolding e by (simp add: word_sum_2)
qed

lemma oc_full: "n \<noteq> 0 \<Longrightarrow> n mod 65535 = 0 \<Longrightarrow> oc n = 65535"
  using oc_unique[of 65535 n] by simp

lemma unat_not16: "unat (NOT (x :: u16)) = 65535 - unat x"
proof -
  have "NOT x = - 1 - x" by (simp add: not_eq_complement)
  moreover have "unat (- 1 - x) = unat (- 1 :: u16) - unat x" by (rule unat_sub) simp
  ultimately show ?thesis by (simp add: unsigned_minus_1_eq_mask mask_eq_exp_minus_1)
qed

section \<open>The two implementations\<close>

lemma calcsum_loop_sum:
  "calcsum_loop b p len acc = (p', len', acc') \<Longrightarrow> 0 \<le> len \<Longrightarrow>
   0 \<le> len' \<and> len' < 2 \<and> len' mod 2 = len mod 2 \<and> p' + nat len' = p + nat len \<and>
   acc' + of_nat (word_sum b p' (nat len')) = acc + of_nat (word_sum b p (nat len))"
proof (induction b p len acc rule: calcsum_loop.induct)
  case (1 b p len acc)
  show ?case
  proof (cases "len > 1")
    case True
    then have "word_sum b p (nat len) = unat (rd16 b p) + word_sum b (p + 2) (nat (len - 2))"
      by (subst word_sum_2) (auto simp: nat_diff_distrib)
    then show ?thesis using 1 True
      by (subst (asm) calcsum_loop.simps) (auto simp: algebra_simps nat_diff_distrib)
  next
    case False
    then show ?thesis using "1.prems" by (subst (asm) calcsum_loop.simps) auto
  qed
qed

lemma low_byte: "(ucast (rd16 b p) :: u8) = b p"
  by (rule bit_word_eqI) (auto simp: rd16_def bit_simps)

lemma fold64:
  fixes x :: u64
  assumes "unat x < 4294967296"
  defines "y \<equiv> drop_bit 16 x + (x AND 0xFFFF)"
  shows "unat (ucast (y + drop_bit 16 y) :: u16) = oc (unat x)"
proof -
  have lo: "unat (x AND 0xFFFF) = unat x mod 65536"
  proof -
    have "x AND 0xFFFF = take_bit 16 x" by (simp add: take_bit_eq_mask mask_eq_exp_minus_1)
    then show ?thesis by (simp add: take_bit_eq_mod unat_mod_distrib)
  qed
  have hi: "unat (drop_bit 16 x) = unat x div 65536" by (simp add: drop_bit_eq_div unat_div_distrib)
  have q: "unat x div 65536 < 65536" using assms(1) by (simp add: div_less_iff_less_mult)
  have m: "unat x mod 65536 < 65536" by simp
  have "unat x div 65536 + unat x mod 65536 < 18446744073709551616" using q m by linarith
  then have y: "unat y = unat x div 65536 + unat x mod 65536" unfolding y_def using lo hi by (simp add: unat_word_ariths)
  then have yb: "unat y \<le> 131070" using q m by linarith
  have hy: "unat (drop_bit 16 y) = unat y div 65536" by (simp add: drop_bit_eq_div unat_div_distrib)
  define r where "r = (unat y + unat y div 65536) mod 65536"
  have "unat y div 65536 \<le> 1" using yb by (simp add: div_le_mono[of "unat y" 131070 65536, simplified])
  then have "unat (y + drop_bit 16 y) = unat y + unat y div 65536" using hy yb by (simp add: unat_word_ariths)
  then have r: "unat (ucast (y + drop_bit 16 y) :: u16) = r"
    unfolding r_def by (simp add: unsigned_ucast_eq take_bit_eq_mod)
  have "r = unat y div 65536 + unat y mod 65536"
  proof (cases "unat y < 65536")
    case False
    then have d: "unat y div 65536 = 1" using yb by (intro div_nat_eqI) simp_all
    moreover have "unat y = unat y div 65536 * 65536 + unat y mod 65536" by simp
    ultimately have e: "unat y = 65536 + unat y mod 65536" by linarith
    then have "unat y mod 65536 \<le> 65534" using yb by linarith
    then have "(unat y mod 65536 + 1) mod 65536 = unat y mod 65536 + 1" by (intro mod_less) linarith
    then show ?thesis unfolding r_def d by (metis add.commute mod_add_left_eq)
  qed (simp add: r_def)
  then have "r mod 65535 = unat x mod 65535" "r = 0 \<longleftrightarrow> unat x = 0"
    using y by (simp_all only: fold_mod fold_zero)
  moreover have "r \<le> 65535" unfolding r_def using mod_less_divisor[of 65536 "unat y + unat y div 65536"] by linarith
  ultimately show ?thesis unfolding r by (intro oc_unique)
qed

lemma calcsum_not_raw:
  assumes "len \<le> 131072" "odd len \<Longrightarrow> unat (b (p + len - 1)) < 128"
  shows "tw_calcsum b p (int len) = NOT (rte_raw_cksum b p len)"
proof -
  obtain p1 len1 acc1 where r: "calcsum_loop b p (int len) 0 = (p1, len1, acc1)" by (metis prod_cases3)
  from calcsum_loop_sum[OF r] have l: "0 \<le> len1" "len1 < 2" "len1 mod 2 = int len mod 2" "p1 + nat len1 = p + len"
    and s: "acc1 + of_nat (word_sum b p1 (nat len1)) = of_nat (word_sum b p len)" by simp_all
  define acc2 where "acc2 = (if len1 = 1 then acc1 + scast (ucast (rd16 b p1) :: u8) else acc1)"
  have "acc2 = of_nat (word_sum b p len)"
  proof (cases "len1 = 1")
    case True
    then have "odd len" using l(3) by presburger
    moreover have "p + len - 1 = p1" using l(4) True by simp
    ultimately have "unat (b p1) < 128" using assms(2) by metis
    moreover have "uint (b p1) = int (unat (b p1))" by simp
    ultimately have "uint (b p1) < 128" by linarith
    then have "signed_take_bit 7 (uint (b p1)) = uint (b p1)"
      by (intro signed_take_bit_int_eq_self) (auto intro: order_trans[OF _ uint_nonnegative])
    then have "sint (b p1) = int (unat (b p1))" by (simp add: sint_uint)
    then have "(scast (b p1) :: u64) = of_nat (unat (b p1))" by (metis of_int_of_nat_eq of_int_sint)
    then show ?thesis using True s unfolding acc2_def by (simp add: low_byte word_sum.simps)
  next
    case False
    then have "len1 = 0" using l by linarith
    then show ?thesis using s by (simp add: acc2_def word_sum.simps)
  qed
  moreover have "word_sum b p len < 4294967296"
  proof -
    have "(len + 1) div 2 \<le> 65536" using assms(1) by simp
    then have "word_sum b p len \<le> 65535 * 65536" using word_sum_bound[of b p len] by (meson mult_le_mono2 order_trans)
    then show ?thesis by simp
  qed
  ultimately have u: "unat acc2 = word_sum b p len" "unat acc2 < 4294967296" by (simp_all add: unat_of_nat)
  let ?y = "drop_bit 16 acc2 + (acc2 AND 0xFFFF)"
  have "unat (ucast (?y + drop_bit 16 ?y) :: u16) = unat (rte_raw_cksum b p len)"
    using fold64[OF u(2)] raw_cksum_oc[OF assms(1)] u(1) by simp
  then have "(ucast (?y + drop_bit 16 ?y) :: u16) = rte_raw_cksum b p len" by (simp only: word_unat_eq_iff)
  moreover have "(ucast (NOT (?y + drop_bit 16 ?y)) :: u16) = NOT (ucast (?y + drop_bit 16 ?y))"
    by (rule bit_word_eqI) (simp add: bit_simps)
  ultimately show ?thesis by (simp add: tw_calcsum_def r acc2_def Let_def)
qed

lemma ipv4_cksum_complement:
  "oc (word_sum b p 20) \<noteq> 65535 \<Longrightarrow> unat (rte_ipv4_cksum b p) = 65535 - oc (word_sum b p 20)"
  "oc (word_sum b p 20) = 65535 \<Longrightarrow> unat (rte_ipv4_cksum b p) = 65535"
proof -
  have r: "unat (rte_raw_cksum b p 20) = oc (word_sum b p 20)" by (rule raw_cksum_oc) simp
  have iff: "rte_raw_cksum b p 20 = 0xffff \<longleftrightarrow> oc (word_sum b p 20) = 65535"
    unfolding r[symmetric] by (simp add: word_unat_eq_iff)
  show "oc (word_sum b p 20) \<noteq> 65535 \<Longrightarrow> unat (rte_ipv4_cksum b p) = 65535 - oc (word_sum b p 20)"
    using iff r by (simp add: rte_ipv4_cksum_def Let_def unat_not16)
  show "oc (word_sum b p 20) = 65535 \<Longrightarrow> unat (rte_ipv4_cksum b p) = 65535"
    using iff by (simp add: rte_ipv4_cksum_def Let_def)
qed

lemma ipv4_cksum_ok:
  assumes "rd16 b (p + 10) = 0"
  shows "rte_raw_cksum (wr16 (p + 10) (rte_ipv4_cksum b p) b) p 20 = 0xFFFF"
proof -
  let ?n = "word_sum b p 20" and ?c = "unat (rte_ipv4_cksum b p)"
  have st: "word_sum (wr16 (p + 10) (rte_ipv4_cksum b p) b) p 20 = ?n + ?c"
    using word_sum_store[of b p 5 20] assms by simp
  have "(?n + ?c) mod 65535 = 0 \<and> ?n + ?c \<noteq> 0"
  proof (cases "oc ?n = 65535")
    case True
    then have "?n mod 65535 = 0" using oc_mod[of ?n] by simp
    then show ?thesis using ipv4_cksum_complement(2)[OF True] by (simp add: mod_add_eq)
  next
    case False
    have "(?n + ?c) mod 65535 = (oc ?n + ?c) mod 65535" by (metis mod_add_left_eq oc_mod)
    also have "\<dots> = 0" using ipv4_cksum_complement(1)[OF False] oc_le[of ?n] by simp
    finally show ?thesis using ipv4_cksum_complement(1)[OF False] oc_le[of ?n] False by auto
  qed
  then have "unat (rte_raw_cksum (wr16 (p + 10) (rte_ipv4_cksum b p) b) p 20) = 65535"
    using raw_cksum_oc[of 20 "wr16 (p + 10) (rte_ipv4_cksum b p) b" p] st oc_full by simp
  then show ?thesis by (simp add: word_unat_eq_iff)
qed

text \<open>A message checks out when its one's complement sum has all bits set.\<close>

lemma raw_cksum_full: "len \<le> 131072 \<Longrightarrow> rte_raw_cksum b p len = 0xFFFF \<longleftrightarrow> word_sum b p len \<noteq> 0 \<and> word_sum b p len mod 65535 = 0"
proof -
  assume "len \<le> 131072"
  then have "rte_raw_cksum b p len = 0xFFFF \<longleftrightarrow> oc (word_sum b p len) = 65535"
    using raw_cksum_oc[of len b p] by (simp add: word_unat_eq_iff)
  also have "\<dots> \<longleftrightarrow> word_sum b p len \<noteq> 0 \<and> word_sum b p len mod 65535 = 0"
    using oc_full[of "word_sum b p len"] oc_mod[of "word_sum b p len"] by (auto simp: oc_def)
  finally show ?thesis .
qed

lemma calcsum_store:
  assumes "even len" "len \<le> 131072" "2 * k + 2 \<le> len" "rd16 b (p + 2 * k) = 0"
  shows "rte_raw_cksum (wr16 (p + 2 * k) (tw_calcsum b p (int len)) b) p len = 0xFFFF"
proof -
  let ?n = "word_sum b p len"
  have c: "unat (tw_calcsum b p (int len)) = 65535 - oc ?n"
    using calcsum_not_raw[OF assms(2), of b p] raw_cksum_oc[OF assms(2), of b p] assms(1) by (simp add: unat_not16)
  have "word_sum (wr16 (p + 2 * k) (tw_calcsum b p (int len)) b) p len = ?n + (65535 - oc ?n)"
    using word_sum_store[of b p k len] assms(3,4) c by simp
  moreover have "(?n + (65535 - oc ?n)) mod 65535 = 0"
  proof -
    have "(?n + (65535 - oc ?n)) mod 65535 = (oc ?n + (65535 - oc ?n)) mod 65535" by (metis mod_add_left_eq oc_mod)
    also have "\<dots> = 0" using oc_le[of ?n] by simp
    finally show ?thesis .
  qed
  moreover have "?n + (65535 - oc ?n) \<noteq> 0" by (cases "?n = 0") (simp_all add: oc_def)
  ultimately show ?thesis by (simp only: raw_cksum_full[OF assms(2)] simp_thms)
qed

section \<open>Properties\<close>



text \<open>
  C34. The two checksum implementations agree: for up to 128 KiB of data, \<open>tw_calcsum\<close> is the
  complement of DPDK's \<open>rte_raw_cksum\<close> (unrolled by four, 32-bit sum), for every even length and for an
  odd one whose last byte is below 128. A larger last byte is sign extended by the cast to
  \<open>char\<close>, and then the result is wrong.
\<close>

theorem calcsum_agrees:
  "(len \<le> 131072 \<longrightarrow> (odd len \<longrightarrow> unat (b (p + len - 1)) < 128) \<longrightarrow>
      tw_calcsum b p (int len) = NOT (rte_raw_cksum b p len)) \<and>
   tw_calcsum (\<lambda>_. 0x80) 0 1 \<noteq> NOT (rte_raw_cksum (\<lambda>_. 0x80) 0 1)"
proof -
  have "tw_calcsum (\<lambda>_. 0x80) 0 1 \<noteq> NOT (rte_raw_cksum (\<lambda>_. 0x80) 0 1)"
    by (simp add: tw_calcsum_def rte_raw_cksum_def calcsum_loop.simps raw_cksum_words_def cksum_by4.simps cksum_by1.simps
        raw_cksum_reduce_def Let_def rd16_def)
  then show ?thesis using calcsum_not_raw by blast
qed

theorem calcsum_agrees_witness:
  "tw_calcsum (\<lambda>k. of_nat k) 0 8 = NOT (rte_raw_cksum (\<lambda>k. of_nat k) 0 8)"
  using conjunct1[OF calcsum_agrees[of 8 "\<lambda>k. of_nat k" 0]] by simp

text \<open>An empty UDP datagram from 10.0.0.1.\<close>

definition demo_udp :: bytes where
  "demo_udp = wr16 2 (tw_cpu_to_be_16 28) (wr8 9 17 (wr32 12 0x0100000A (\<lambda>_. 0)))"

text \<open>What the receiver of a UDP or TCP packet adds up: the payload and the pseudo header.\<close>

definition l4_verified :: "u16 \<Rightarrow> u16 \<Rightarrow> bool" where
  "l4_verified l4 ph \<longleftrightarrow> oc (unat l4 + unat ph) = 65535"

lemma udptcp_finish_oc:
  "unat (udptcp_finish l4 ph) = (if oc (unat l4 + unat ph) = 65535 then 65535 else 65535 - oc (unat l4 + unat ph))"
proof -
  let ?x = "ucast l4 + ucast ph :: u32"
  have "unat l4 < 65536" "unat ph < 65536" using unsigned_less[of l4, where 'a = nat] unsigned_less[of ph, where 'a = nat] by simp_all
  then have x: "unat ?x = unat l4 + unat ph" "unat ?x \<le> 131070" by (simp_all add: unat_word_ariths unsigned_ucast_eq take_bit_nat_eq_self)
  define y where "y = drop_bit 16 (?x AND 0xffff0000) + (?x AND 0xffff)"
  have y: "unat y = unat ?x div 65536 + unat ?x mod 65536" unfolding y_def by (rule fold32)
  have yb: "unat y \<le> 65535"
  proof (cases "unat ?x < 65536")
    case False
    then have "unat ?x div 65536 = 1" using x(2) by (intro div_nat_eqI) simp_all
    moreover have "unat ?x = unat ?x div 65536 * 65536 + unat ?x mod 65536" by simp
    ultimately show ?thesis using y x(2) by linarith
  qed (use y in simp)
  have oc: "unat y = oc (unat l4 + unat ph)"
    using yb y x(1) by (intro oc_unique) (simp_all only: fold_mod fold_zero)
  define z where "z = NOT y AND 0xffff"
  have uz: "unat z = 65535 - unat y"
  proof -
    have m: "(0xffff :: u32) = mask 16" by (simp add: mask_eq_exp_minus_1)
    have "z = ucast (NOT (ucast y :: u16))" unfolding z_def m by (rule bit_word_eqI) (auto simp: bit_simps)
    moreover have "unat (ucast y :: u16) = unat y" using yb by (simp add: unsigned_ucast_eq take_bit_nat_eq_self)
    ultimately show ?thesis by (simp add: unsigned_ucast_eq take_bit_nat_eq_self unat_not16)
  qed
  have "udptcp_finish l4 ph = ucast (if z = 0 then 0xffff else z)" by (simp add: udptcp_finish_def Let_def y_def z_def)
  moreover have "z = 0 \<longleftrightarrow> unat y = 65535" using uz yb by (auto simp: word_unat_eq_iff)
  ultimately show ?thesis using oc uz by (auto simp: unsigned_ucast_eq take_bit_nat_eq_self)
qed

lemma finish_verifies:
  assumes "oc (n + unat (udptcp_finish l4 ph)) = unat l4'" "oc n = unat l4"
  shows "l4_verified l4' ph"
proof -
  let ?t = "unat l4 + unat ph" and ?c = "unat (udptcp_finish l4 ph)"
  have c: "?c = (if oc ?t = 65535 then 65535 else 65535 - oc ?t)" by (rule udptcp_finish_oc)
  have m1: "(n + ?c) mod 65535 = unat l4' mod 65535" using oc_mod[of "n + ?c"] assms(1) by simp
  have m2: "n mod 65535 = unat l4 mod 65535" using oc_mod[of n] assms(2) by simp
  have "(unat l4' + unat ph) mod 65535 = (n + ?c + unat ph) mod 65535" by (rule mod_add_cong[OF m1[symmetric] refl])
  also have "\<dots> = (n + (?c + unat ph)) mod 65535" by (simp only: add.assoc)
  also have "\<dots> = (unat l4 + (?c + unat ph)) mod 65535" by (rule mod_add_cong[OF m2 refl])
  also have "\<dots> = (?t + ?c) mod 65535" by (simp only: ac_simps)
  also have "\<dots> = (oc ?t + ?c) mod 65535" by (rule mod_add_cong[OF oc_mod[symmetric] refl])
  also have "\<dots> = 0"
  proof (cases "oc ?t = 65535")
    case False
    then have "oc ?t + ?c = 65535" using c oc_le[of ?t] by simp
    then show ?thesis by (simp only: mod_self)
  qed (simp add: c)
  finally have z: "(unat l4' + unat ph) mod 65535 = 0" .
  have "n + ?c \<noteq> 0 \<or> unat ph \<noteq> 0"
  proof (rule ccontr)
    assume "\<not> (n + ?c \<noteq> 0 \<or> unat ph \<noteq> 0)"
    then have "n = 0" "?c = 0" "unat ph = 0" by simp_all
    then have "unat l4 = 0" using assms(2) by (metis oc_zero_iff)
    then show False using c \<open>?c = 0\<close> \<open>unat ph = 0\<close> by (simp add: oc_def)
  qed
  then have "unat l4' + unat ph \<noteq> 0" using assms(1) by (metis add_is_0 oc_zero_iff)
  then show ?thesis using z oc_full by (simp add: l4_verified_def)
qed



end
