(* ===== verification/Eth.thy ===== *)
theory Eth
  imports QueuedPkts Checksum
begin

text \<open>
  \<open>twister/ethernet/eth.c\<close>: sending and parsing Ethernet frames. The constructor prepends the
  header, picks the next hop and either sends the frame or lets it wait for an ARP reply; the parser
  filters frames by destination and hands ARP to \<open>arplogic.c\<close>.
\<close>

section \<open>Operations\<close>

text \<open>\<open>ether_addr_copy\<close> between two places of one buffer.\<close>

definition ether_addr_copy :: "nat \<Rightarrow> nat \<Rightarrow> bytes \<Rightarrow> bytes" where
  "ether_addr_copy ea_from ea_to b = wr_mac ea_to (rd_mac b ea_from) b"

definition tw_copy_ether_addr :: "nat \<Rightarrow> nat \<Rightarrow> bytes \<Rightarrow> bytes" where
  "tw_copy_ether_addr src dst b = ether_addr_copy src dst b"

text \<open>The checksum field of the caller is cleared as a side effect.\<close>

definition tw_ipv4_cksum :: "nat \<Rightarrow> bytes \<Rightarrow> u16 \<times> bytes" where
  "tw_ipv4_cksum p b = (let b = set_hdr_checksum p 0 b in (rte_ipv4_cksum b p, b))"

definition vlan_strip :: "ptr \<Rightarrow> ('a hw_scheme, int) act" where
  "vlan_strip pkt =
     bnd (mbuf_hdr pkt sizeof_ether_hdr) (\<lambda>m.
     bnd (if ether_type (ether_hdr_at (buf m) (mtod m)) = tw_cpu_to_be_16 ETHER_TYPE_VLAN
          then bnd (mbuf_hdr pkt (sizeof_ether_hdr + sizeof_vlan_hdr)) (\<lambda>_. ret ()) else ret ()) (\<lambda>_.
     bnd (lift_out (rte_vlan_strip m)) (\<lambda>(r, m').
     bnd (put_mbuf pkt m') (\<lambda>_. ret r))))"

definition tw_vlan_strip :: "tw_buf \<Rightarrow> ('a hw_scheme, unit) act" where
  "tw_vlan_strip buffer = bnd (vlan_strip (tb_pkt buffer)) (\<lambda>_. ret ())"

definition tw_match_port_ether_addr :: "ether_addr \<Rightarrow> string \<Rightarrow> ('a ports_scheme, bool) act" where
  "tw_match_port_ether_addr ea port_nm = (\<lambda>s.
     bnd (port_at (tw_eth_name_to_id port_nm s)) (\<lambda>pi. bnd (port_mac pi) (\<lambda>mac. ret (is_same_ether_addr ea mac))) s)"

definition tw_is_broadcast_ether_addr :: "ether_addr \<Rightarrow> bool" where
  "tw_is_broadcast_ether_addr ea = is_broadcast_ether_addr ea"

definition tw_send_pkt :: "tw_buf \<Rightarrow> string \<Rightarrow> ('a stats_scheme, int) act" where
  "tw_send_pkt buffer port_nm = (\<lambda>s.
     tw_add_pkt_to_tx_queue (tb_pkt buffer) (word_of_int (tw_eth_name_to_id port_nm s)) s)"

text \<open>The result is the pointer of the port, which is null before the port was set up.\<close>

definition tw_get_ether_addr :: "string \<Rightarrow> ('a ports_scheme, ether_addr option) act" where
  "tw_get_ether_addr port_nm = (\<lambda>s. bnd (port_at (tw_eth_name_to_id port_nm s)) (\<lambda>pi. ret (eth_mac pi)) s)"

definition next_hop :: "port_info \<Rightarrow> u32 \<Rightarrow> u32" where
  "next_hop pi dst_ip =
     (let source_and = start_ip_addr pi AND subnet_mask pi; dest_and = dst_ip AND subnet_mask pi
      in if source_and = dest_and then dst_ip else gateway_ip pi)"

definition tw_eth_pkt_ctor :: "ptr \<Rightarrow> u8 \<Rightarrow> u16 \<Rightarrow> u32 \<Rightarrow> ('a queue_scheme, int) act" where
  "tw_eth_pkt_ctor m port_id eth_type dst_ip =
     bnd (mbuf_prepend m (of_nat sizeof_ether_hdr)) (\<lambda>_.
     bnd (port_at (int (unat port_id))) (\<lambda>pi. bnd (port_mac pi) (\<lambda>mac.
     bnd (write_hdr m sizeof_ether_hdr (\<lambda>e b. set_s_addr e mac (set_ether_type e (tw_cpu_to_be_16 eth_type) b))) (\<lambda>_.
     let arp_ip = next_hop pi dst_ip in
     bnd (tw_search_arp_table (tw_cpu_to_be_32 arp_ip)) (\<lambda>arp_table_ptr.
     if arp_table_ptr = None then
       bnd (tw_add_pkt_to_queue m arp_ip (ucast port_id)) (\<lambda>r.
       if r = 0 then bnd (tw_construct_arp_packet arp_ip port_id) (\<lambda>_. ret 0) else ret 0)
     else
       bnd (deref arp_heap arp_table_ptr) (\<lambda>e.
       bnd (write_hdr m sizeof_ether_hdr (\<lambda>o'. set_d_addr o' (at_eth_mac e))) (\<lambda>_.
       bnd (tw_add_pkt_to_tx_queue m port_id) (\<lambda>_. ret 0))))))))"

definition tw_eth_pkt_parser :: "ptr \<Rightarrow> u8 \<Rightarrow> ('a arp_scheme, int) act" where
  "tw_eth_pkt_parser pkt port_id =
     bnd (mbuf_hdr pkt sizeof_ether_hdr) (\<lambda>m.
     bnd (port_at (int (unat port_id))) (\<lambda>pi. bnd (port_mac pi) (\<lambda>mac.
     let eth = ether_hdr_at (buf m) (mtod m); accept_brdcast = is_broadcast_ether_addr (d_addr eth) in
     if is_same_ether_addr (d_addr eth) mac \<or> accept_brdcast then
       if tw_be_to_cpu_16 (ether_type eth) = ETHER_TYPE_ARP then bnd (tw_parse_arp pkt port_id) (\<lambda>_. ret 0)
       else if tw_be_to_cpu_16 (ether_type eth) = ETHER_TYPE_VLAN then
         bnd (vlan_strip pkt) (\<lambda>_. bnd (tw_parse_arp pkt port_id) (\<lambda>_. ret 0))
       else bnd (rte_pktmbuf_free pkt) (\<lambda>_. ret 0)
     else bnd (rte_pktmbuf_free pkt) (\<lambda>_. ret 0))))"

section \<open>Stripping a VLAN tag\<close>

abbreviation is_vlan :: "rte_mbuf \<Rightarrow> bool" where
  "is_vlan m \<equiv> ether_type (ether_hdr_at (buf m) (mtod m)) = tw_cpu_to_be_16 ETHER_TYPE_VLAN"

text \<open>The packet the strip leaves, when it is tagged.\<close>

definition stripped :: "rte_mbuf \<Rightarrow> rte_mbuf" where
  "stripped m = m\<lparr>rx_vlan_pkt := True, vlan_tci := tw_be_to_cpu_16 (rd16 (buf m) (mtod m + 14)),
     data_len := data_len m - 4, data_off := data_off m + 4, pkt_len := pkt_len m - 4,
     buf := memmove_buf (mtod m + 4) (mtod m) 12 (buf m)\<rparr>"

lemma mtod_4: "mtod m + 46 \<le> unat (buf_len m) \<Longrightarrow> unat (data_off m + 4) = mtod m + 4"
proof -
  assume "mtod m + 46 \<le> unat (buf_len m)"
  moreover have "unat (buf_len m) < 65536" using unsigned_less[of "buf_len m", where 'a = nat] by simp
  ultimately show ?thesis by (simp add: unat_word_ariths)
qed

lemma strip_tagged:
  assumes "is_vlan m" "4 \<le> unat (data_len m)" "mtod m + 46 \<le> unat (buf_len m)"
  shows "rte_vlan_strip m = Ret (0, stripped m)"
proof -
  have "\<not> data_len m < 4" using assms(2) by (simp add: word_less_nat_alt)
  then show ?thesis using assms(1) mtod_4[OF assms(3)]
    by (simp add: rte_vlan_strip_def Let_def rte_pktmbuf_adj_def stripped_def)
qed

lemma strip_untagged: "\<not> is_vlan m \<Longrightarrow> rte_vlan_strip m = Ret (- 1, m)"
  by (simp add: rte_vlan_strip_def Let_def)

lemma pkt_bytes_nth: "i < unat (data_len m) \<Longrightarrow> pkt_bytes m ! i = buf m (mtod m + i)"
  by (simp add: pkt_bytes_def)

lemma stripped_bytes:
  assumes "18 \<le> unat (data_len m)" "mtod m + 46 \<le> unat (buf_len m)"
  shows "pkt_bytes (stripped m) = take 12 (pkt_bytes m) @ drop 16 (pkt_bytes m)"
proof (rule nth_equalityI)
  have dl: "unat (data_len m - 4) = unat (data_len m) - 4" using assms(1) by (simp add: unat_sub word_le_nat_alt)
  have f: "data_len (stripped m) = data_len m - 4" "mtod (stripped m) = mtod m + 4"
    "buf (stripped m) = memmove_buf (mtod m + 4) (mtod m) 12 (buf m)"
    using mtod_4[OF assms(2)] by (simp_all add: stripped_def)
  have len: "length (pkt_bytes (stripped m)) = unat (data_len m) - 4" using dl f by (simp add: pkt_bytes_def)
  show "length (pkt_bytes (stripped m)) = length (take 12 (pkt_bytes m) @ drop 16 (pkt_bytes m))"
    using len assms(1) by (simp add: pkt_bytes_def)
  fix i assume "i < length (pkt_bytes (stripped m))"
  then have i: "i < unat (data_len m) - 4" using len by simp
  have "pkt_bytes (stripped m) ! i = memmove_buf (mtod m + 4) (mtod m) 12 (buf m) (mtod m + 4 + i)"
    using i dl f pkt_bytes_nth[of i "stripped m"] by simp
  also have "\<dots> = (if i < 12 then buf m (mtod m + i) else buf m (mtod m + 4 + i))" by (simp add: memmove_buf_def)
  also have "\<dots> = (take 12 (pkt_bytes m) @ drop 16 (pkt_bytes m)) ! i"
    using i assms(1) by (simp add: pkt_bytes_def nth_append algebra_simps)
  finally show "pkt_bytes (stripped m) ! i = (take 12 (pkt_bytes m) @ drop 16 (pkt_bytes m)) ! i" .
qed

section \<open>Writing to a packet the caller holds\<close>

lemma loose_write:
  fixes s :: "'a stats_scheme" and m' :: rte_mbuf
  assumes "tx_inv s" "loose s a = Some m"
  defines "t \<equiv> s\<lparr>mbufs := (mbufs s)(a \<mapsto> m')\<rparr>"
  shows "tx_inv t" "loose t = (loose s)(a \<mapsto> m')" "txq t = txq s" "port_up t = port_up s"
proof -
  have a: "mbufs s a = Some m" "a \<notin> set (tx_pending s)"
    using assms(2) by (auto simp: loose_def restrict_map_def split: if_splits)
  have v: "txq t = txq s" "tx_shape t = tx_shape s" "tx_pending t = tx_pending s"
    using tx_view_cong[of t s] by (simp_all add: t_def)
  show "txq t = txq s" by (rule v)
  show "tx_inv t" using assms(1) a by (auto simp: tx_inv_def v) (auto simp: t_def)
  show "loose t = (loose s)(a \<mapsto> m')"
    using a unfolding loose_def v by (auto simp: restrict_map_def fun_eq_iff t_def)
  show "port_up t = port_up s" by (simp add: t_def port_up_def fun_eq_iff)
qed

lemma arp_mbufs:
  fixes s :: "'a arp_scheme"
  shows "arp_tab (s\<lparr>mbufs := h\<rparr>) = arp_tab s" "arp_ready (s\<lparr>mbufs := h\<rparr>) = arp_ready s"
  by (simp_all add: arp_tab_def arp_ready_def malloc_fresh_def fun_eq_iff)

section \<open>The parser\<close>

text \<open>Room for a tagged ARP packet, as every Ethernet frame of the minimal size has.\<close>

definition eth_fits :: "rte_mbuf \<Rightarrow> bool" where
  "eth_fits m \<longleftrightarrow> mtod m + 46 \<le> unat (buf_len m) \<and> 4 \<le> unat (data_len m)"

lemma eth_fits_arp: "eth_fits m \<Longrightarrow> arp_fits m" "eth_fits m \<Longrightarrow> arp_fits (stripped m)"
  using mtod_4[of m] by (auto simp: eth_fits_def arp_fits_def stripped_def)

lemma vlan_strip_run:
  assumes "mbufs s a = Some m" "eth_fits m" "is_vlan m"
  shows "vlan_strip (Some a) s = Some (Ret (0, s\<lparr>mbufs := (mbufs s)(a \<mapsto> stripped m)\<rparr>))"
  using assms strip_tagged[of m]
  by (simp add: vlan_strip_def run_simps eth_fits_def put_mbuf_def)

lemma be16_vlan: "tw_be_to_cpu_16 x = ETHER_TYPE_VLAN \<longleftrightarrow> x = tw_cpu_to_be_16 ETHER_TYPE_VLAN"
  by (metis be_cpu_be_16)

interpretation eth_handler: pkt_handler "\<lambda>port p. tw_eth_pkt_parser p port" port_up eth_fits arp_good loose
proof
  fix s :: "'a arp_scheme" and port a m
  assume g: "arp_good s" "port_up s port" "loose s a = Some m" "eth_fits m"
  have inv: "tx_inv s" using g(1) by (simp add: arp_good_def)
  obtain mac where mac: "eth_mac (port_infos s ! unat port) = Some mac" using g(2) by (auto simp: port_up_def)
  let ?eth = "ether_hdr_at (buf m) (mtod m)"
  let ?t = "s\<lparr>mbufs := (mbufs s)(a \<mapsto> stripped m)\<rparr>"
  have free: "\<exists>s'. rte_pktmbuf_free (Some a) s = Some (Ret ((), s')) \<and> arp_good s' \<and> port_up s' = port_up s \<and> loose s' = (loose s)(a := None)"
    using free_loose[OF inv g(3)] g(1) by (simp add: arp_good_def arp_mbufs) (simp add: port_up_def fun_eq_iff)
  obtain r1 s1 where arp: "tw_parse_arp (Some a) port s = Some (Ret (r1, s1))" "arp_good s1" "port_up s1 = port_up s" "loose s1 = (loose s)(a := None)"
    using arp_handler.handled[OF g(1-3) eth_fits_arp(1)[OF g(4)]] by blast
  have t: "arp_good ?t" "port_up ?t port" "loose ?t a = Some (stripped m)"
    using g(1,2) loose_write[OF inv g(3), of "stripped m"] by (simp_all add: arp_good_def arp_mbufs)
  obtain r2 s2 where vl: "tw_parse_arp (Some a) port ?t = Some (Ret (r2, s2))" "arp_good s2" "port_up s2 = port_up ?t" "loose s2 = (loose ?t)(a := None)"
    using arp_handler.handled[OF t eth_fits_arp(2)[OF g(4)]] by blast
  have l2: "loose s2 = (loose s)(a := None)" "port_up s2 = port_up s"
    using vl(3,4) loose_write[OF inv g(3), of "stripped m"] by simp_all
  have hdr: "mbuf_hdr (Some a) sizeof_ether_hdr s = Some (Ret (m, s))"
    using looseD[OF g(3)] g(4) by (simp add: mbuf_hdr_def run_simps eth_fits_def)
  note d = tw_eth_pkt_parser_def port_at_def port_mac_def hdr mac
  consider (drop) "\<not> (is_same_ether_addr (d_addr ?eth) mac \<or> is_broadcast_ether_addr (d_addr ?eth))"
    | (arp) "is_same_ether_addr (d_addr ?eth) mac \<or> is_broadcast_ether_addr (d_addr ?eth)" "tw_be_to_cpu_16 (ether_type ?eth) = ETHER_TYPE_ARP"
    | (vlan) "is_same_ether_addr (d_addr ?eth) mac \<or> is_broadcast_ether_addr (d_addr ?eth)" "tw_be_to_cpu_16 (ether_type ?eth) = ETHER_TYPE_VLAN"
    | (other) "is_same_ether_addr (d_addr ?eth) mac \<or> is_broadcast_ether_addr (d_addr ?eth)"
        "tw_be_to_cpu_16 (ether_type ?eth) \<noteq> ETHER_TYPE_ARP" "tw_be_to_cpu_16 (ether_type ?eth) \<noteq> ETHER_TYPE_VLAN"
    by blast
  then show "\<exists>r s'. tw_eth_pkt_parser (Some a) port s = Some (Ret (r, s')) \<and> arp_good s' \<and> port_up s' = port_up s \<and>
      loose s' = (loose s)(a := None)"
  proof cases
    case drop
    then show ?thesis using free g(2) by (auto simp: d run_simps port_up_def)
  next
    case arp
    then show ?thesis using \<open>tw_parse_arp (Some a) port s = _\<close> \<open>arp_good s1\<close> \<open>port_up s1 = _\<close> \<open>loose s1 = _\<close> g(2)
      by (auto simp: d run_simps port_up_def)
  next
    case vlan
    then have "vlan_strip (Some a) s = Some (Ret (0, ?t))" using looseD[OF g(3)] g(4) by (intro vlan_strip_run) (simp_all add: be16_vlan)
    then show ?thesis using vlan vl(1,2) l2 g(2) by (auto simp: d run_simps port_up_def)
  next
    case other
    then show ?thesis using free g(2) by (auto simp: d run_simps port_up_def)
  qed
qed

section \<open>The constructor\<close>

text \<open>The frame before and after its destination is known.\<close>

definition framed :: "port_info \<Rightarrow> u16 \<Rightarrow> rte_mbuf \<Rightarrow> rte_mbuf" where
  "framed pi eth_type m = m\<lparr>data_off := data_off m - 14, data_len := data_len m + 14, pkt_len := pkt_len m + 14,
     buf := set_s_addr (mtod m - 14) (the (eth_mac pi)) (set_ether_type (mtod m - 14) (tw_cpu_to_be_16 eth_type) (buf m))\<rparr>"

definition addressed :: "ether_addr \<Rightarrow> rte_mbuf \<Rightarrow> rte_mbuf" where
  "addressed mac m = m\<lparr>buf := set_d_addr (mtod m) mac (buf m)\<rparr>"

lemma framed_mtod: "14 \<le> mtod m \<Longrightarrow> mtod (framed pi ty m) = mtod m - 14"
  by (simp add: framed_def unat_sub word_le_nat_alt)

text \<open>The fields of the finished frame, and its payload.\<close>

lemma addressed_fields:
  assumes "14 \<le> mtod m"
  shows "ether_hdr_at (buf (addressed mac (framed pi ty m))) (mtod m - 14) =
      \<lparr>d_addr = mac, s_addr = the (eth_mac pi), ether_type = tw_cpu_to_be_16 ty\<rparr>"
    and "mbuf_ok m \<Longrightarrow> pkt_bytes (addressed mac (framed pi ty m)) = map (buf (addressed mac (framed pi ty m))) [mtod m - 14..<mtod m] @ pkt_bytes m"
proof -
  show "ether_hdr_at (buf (addressed mac (framed pi ty m))) (mtod m - 14) =
      \<lparr>d_addr = mac, s_addr = the (eth_mac pi), ether_type = tw_cpu_to_be_16 ty\<rparr>"
    using framed_mtod[OF assms, of pi ty] unfolding addressed_def
    by (simp add: framed_def hdr_at_defs field_simps_buf wr16_at wr_mac_other)
  assume ok: "mbuf_ok m"
  let ?m = "addressed mac (framed pi ty m)"
  have "unat (buf_len m) < 65536" using unsigned_less[of "buf_len m", where 'a = nat] by simp
  then have "unat (data_len m + 14) = unat (data_len m) + 14"
    using ok assms by (simp add: mbuf_ok_def unat_word_ariths)
  then have pk: "pkt_bytes ?m = map (buf ?m) [mtod m - 14..<mtod m + unat (data_len m)]"
    using assms framed_mtod[OF assms, of pi ty] by (simp add: pkt_bytes_def addressed_def) (simp add: framed_def)
  have "buf ?m k = buf m k" if "mtod m \<le> k" for k
  proof -
    obtain d where "mtod m = d + 14" using assms by (metis le_add_diff_inverse2)
    then show ?thesis using that framed_mtod[OF assms, of pi ty] unfolding addressed_def
      by (simp add: framed_def wr16_at wr_mac_other)
  qed
  then have "map (buf ?m) [mtod m..<mtod m + unat (data_len m)] = pkt_bytes m" by (simp add: pkt_bytes_def)
  then show "pkt_bytes ?m = map (buf ?m) [mtod m - 14..<mtod m] @ pkt_bytes m"
    unfolding pk using upt_add_eq_append[of "mtod m - 14" "mtod m" "unat (data_len m)"] by simp
qed

lemma ctor_start:
  assumes "port_up s port" "mbufs s a = Some m" "14 \<le> mtod m" "mtod m \<le> unat (buf_len m)"
  defines "pi \<equiv> port_infos s ! unat port"
  shows "tw_eth_pkt_ctor (Some a) port ty dst s =
     bnd (tw_search_arp_table (tw_cpu_to_be_32 (next_hop pi dst))) (\<lambda>p.
     if p = None then
       bnd (tw_add_pkt_to_queue (Some a) (next_hop pi dst) (ucast port)) (\<lambda>r.
       if r = 0 then bnd (tw_construct_arp_packet (next_hop pi dst) port) (\<lambda>_. ret 0) else ret 0)
     else
       bnd (deref arp_heap p) (\<lambda>e.
       bnd (write_hdr (Some a) 14 (\<lambda>o'. set_d_addr o' (at_eth_mac e))) (\<lambda>_.
       bnd (tw_add_pkt_to_tx_queue (Some a) port) (\<lambda>_. ret 0)))) (s\<lparr>mbufs := (mbufs s)(a \<mapsto> framed pi ty m)\<rparr>)"
proof -
  obtain mac where mac: "eth_mac pi = Some mac" using assms(1) by (auto simp: port_up_def pi_def)
  let ?m1 = "m\<lparr>data_off := data_off m - 14, data_len := data_len m + 14, pkt_len := pkt_len m + 14\<rparr>"
  have pre: "rte_pktmbuf_prepend 14 m = Some ?m1"
    using assms(3) by (simp add: rte_pktmbuf_prepend_def rte_pktmbuf_headroom_def word_less_nat_alt)
  have mt: "unat (data_off m - 14) = mtod m - 14" using assms(3) by (simp add: unat_sub word_le_nat_alt)
  have "?m1\<lparr>buf := set_s_addr (mtod ?m1) mac (set_ether_type (mtod ?m1) (tw_cpu_to_be_16 ty) (buf ?m1))\<rparr> = framed pi ty m"
    using mac mt by (simp add: framed_def)
  then show ?thesis using assms(1-4) mac pre mt
    by (simp add: tw_eth_pkt_ctor_def mbuf_prepend_def put_mbuf_def port_at_def port_mac_def port_up_def run_simps Let_def
        flip: pi_def)
qed

lemma ctor_known:
  assumes inv: "tx_inv s" "arp_tab s es" "port_up s port" and m: "loose s a = Some m" "14 \<le> mtod m" "mtod m \<le> unat (buf_len m)"
  defines "pi \<equiv> port_infos s ! unat port"
  assumes known: "map_of es (next_hop pi dst) = Some (mac, prt)"
  shows "\<exists>s'. tw_eth_pkt_ctor (Some a) port ty dst s = Some (Ret (0, s')) \<and> tx_inv s' \<and> tx_frame s s' \<and>
    loose s' = (loose s)(a := None) \<and> sent (unat port) a (addressed mac (framed pi ty m)) s s'"
proof -
  let ?f = "framed pi ty m"
  let ?t = "s\<lparr>mbufs := (mbufs s)(a \<mapsto> ?f)\<rparr>"
  note w = loose_write[OF inv(1) m(1), of ?f]
  have tab: "arp_tab ?t es" using inv(2) by (simp add: arp_mbufs)
  obtain p where p: "tw_search_arp_table (tw_cpu_to_be_32 (next_hop pi dst)) ?t = Some (Ret (p, ?t))"
    "case p of None \<Rightarrow> map_of es (next_hop pi dst) = None
     | Some x \<Rightarrow> \<exists>n. arp_heap ?t x = Some n \<and> map_of es (next_hop pi dst) = Some (at_eth_mac n, at_port_id n)"
    using search_ok[OF tab, of "tw_cpu_to_be_32 (next_hop pi dst)"] unfolding be_cpu_be_32 by blast
  then obtain x n where x: "p = Some x" "arp_heap s x = Some n" "at_eth_mac n = mac" using known by (auto split: option.splits)
  obtain s' where s': "tw_add_pkt_to_tx_queue (Some a) port (?t\<lparr>mbufs := (mbufs ?t)(a \<mapsto> addressed mac ?f)\<rparr>) = Some (Ret (0, s'))"
    "tx_inv s'" "tx_frame ?t s'" "loose s' = (loose ?t)(a := None)" "sent (unat port) a (addressed mac ?f) ?t s'"
    using send_written[OF w(1), of port a ?f "addressed mac ?f"] w(2) inv(3) by (auto simp: port_up_def)
  have fit: "mtod ?f + 14 \<le> unat (buf_len ?f)" using framed_mtod[OF m(2), of pi ty] m(2,3) by (simp add: framed_def)
  have "tw_eth_pkt_ctor (Some a) port ty dst s = Some (Ret (0, s'))"
    using ctor_start[OF inv(3) looseD[OF m(1)] m(2,3), of ty dst] p(1) x s'(1) fit
    by (simp add: run_simps addressed_def flip: pi_def)
  moreover have "tx_frame s s'" using s'(3) by (simp add: tx_frame_upd)
  moreover have "loose s' = (loose s)(a := None)" using s'(4) w(2) by simp
  moreover have "sent (unat port) a (addressed mac ?f) s s'" using s'(5) w(3) by (simp add: sent_def Let_def)
  ultimately show ?thesis using s'(2) by blast
qed

text \<open>What the queue and the machine offer when a packet has to wait.\<close>

definition can_wait :: "nat list \<Rightarrow> nat \<Rightarrow> 'a queue_scheme \<Rightarrow> bool" where
  "can_wait xs n s \<longleftrightarrow> qp_chain s xs \<and> total_queued_pkts s < MAX_QUEUED_PKTS \<and>
     malloc_src s (malloc_cnt s) = Some n \<and> n \<notin> dom (qp_heap s)"

lemma ctor_waits:
  assumes inv: "tx_inv s" "arp_tab s es" "port_up s port" and m: "loose s a = Some m" "14 \<le> mtod m" "mtod m \<le> unat (buf_len m)"
  defines "pi \<equiv> port_infos s ! unat port"
  assumes unknown: "map_of es (next_hop pi dst) = None" and q: "can_wait xs n s"
    and al: "pool_ready s port" "mbuf_src s (mbuf_cnt s) = Some (r, m0)" "r \<notin> dom (mbufs s)" "128 + 28 \<le> unat (buf_len m0)"
  shows "\<exists>s' t. tw_eth_pkt_ctor (Some a) port ty dst s = Some (Ret (0, s')) \<and> tx_inv s' \<and> arp_tab s' es \<and>
    qp_chain s' (xs @ [n]) \<and> qp_heap s' n = Some \<lparr>qp_pkt = Some a, qp_timercycle = tsc_src s (tsc_cnt s),
      qp_arp_ip = tw_cpu_to_be_32 (next_hop pi dst), qp_port_id = ucast port, qp_next = None\<rparr> \<and>
    loose s' = (loose s)(a \<mapsto> framed pi ty m) \<and> mbufs t = (mbufs s)(a \<mapsto> framed pi ty m) \<and> txq t = txq s \<and> wire t = wire s \<and>
    sent (unat port) r (request_mbuf pi (next_hop pi dst) m0) t s'"
proof -
  let ?f = "framed pi ty m"
  let ?t = "s\<lparr>mbufs := (mbufs s)(a \<mapsto> ?f)\<rparr>"
  note w = loose_write[OF inv(1) m(1), of ?f]
  have tab: "arp_tab ?t es" using inv(2) by (simp add: arp_mbufs)
  have srch: "tw_search_arp_table (tw_cpu_to_be_32 (next_hop pi dst)) ?t = Some (Ret (None, ?t))"
    using arp_store.search_law[OF tab, of "tw_cpu_to_be_32 (next_hop pi dst)"] unknown by auto
  obtain u where u: "tw_add_pkt_to_queue (Some a) (next_hop pi dst) (ucast port) ?t = Some (Ret (0, u))" "qp_chain u (xs @ [n])"
    "qp_heap u n = Some (new_entry (Some a) (next_hop pi dst) (ucast port) ?t)"
    and ueq: "u = ?t\<lparr>tsc_cnt := tsc_cnt ?t + 1, malloc_cnt := malloc_cnt ?t + 1, qp_heap := qp_heap u, root_queued_pkt := root_queued_pkt u,
      total_queued_pkts := total_queued_pkts ?t + 1\<rparr>"
    using add_pkt_ok[of ?t xs n "Some a" "next_hop pi dst" "ucast port"] q by (auto simp: can_wait_def qp_chain_def)
  have uv: "lcore_confs u = lcore_confs ?t" "lcore_id u = lcore_id ?t" "mbufs u = (mbufs s)(a \<mapsto> ?f)" "wire u = wire s" "port_infos u = port_infos s"
    "mbuf_src u = mbuf_src s" "mbuf_cnt u = mbuf_cnt s" "arp_heap u = arp_heap s" "arp_table_root u = arp_table_root s"
    "arp_table_size u = arp_table_size s" "dev_socket u = dev_socket s" "tx_mempool u = tx_mempool s"
    by (subst ueq, simp)+
  have v: "txq u = txq s" "tx_inv u" "loose u = (loose s)(a \<mapsto> ?f)" using tx_view_cong[OF uv(1,2)] uv(3) w by simp_all
  have up: "port_up u port" "pool_ready u port" using inv(3) al(1) by (simp_all add: port_up_def pool_ready_def uv)
  have "a \<noteq> r" using looseD[OF m(1)] al(3) by auto
  then obtain s' where s': "tw_construct_arp_packet (next_hop pi dst) port u = Some (Ret (0, s'))" "tx_inv s'"
    "tx_frame (u\<lparr>mbuf_cnt := Suc (mbuf_cnt u)\<rparr>) s'" "loose s' = loose u" "sent (unat port) r (request_mbuf pi (next_hop pi dst) m0) u s'"
    using construct_ok[OF v(2) up, of r m0 "next_hop pi dst"] al(2-4) by (auto simp: uv pi_def)
  note fr = tx_frame_queue[OF s'(3)]
  have "qp_chain s' (xs @ [n])" "qp_heap s' n = Some (new_entry (Some a) (next_hop pi dst) (ucast port) ?t)"
    using u(2,3) fr by (simp_all add: qp_chain_def)
  moreover have "arp_tab s' es" using fr(1) inv(2) by (simp add: same_env_def arp_tab_def uv)
  moreover have "tw_eth_pkt_ctor (Some a) port ty dst s = Some (Ret (0, s'))"
    using ctor_start[OF inv(3) looseD[OF m(1)] m(2,3), of ty dst] srch u(1) s'(1) by (simp add: run_simps flip: pi_def)
  ultimately show ?thesis using s'(2,4,5) v uv(3,4) by (intro exI[of _ s'] exI[of _ u]) simp
qed

section \<open>Properties\<close>

text \<open>
  C22. Sending to a known next hop: \<open>tw_eth_pkt_ctor\<close> prepends a 14-byte Ethernet header with the type, the MAC
  address of the port and the MAC address the ARP table has for the next hop (the destination
  itself inside the subnet of the port, the gateway outside), leaves the payload as it is, and hands the
  frame to the transmit queue of the port.
\<close>

theorem eth_ctor_sends:
  fixes dst :: u32
  assumes "tx_inv s" "arp_tab s es" "port_up s port" "loose s a = Some m" "14 \<le> mtod m" "mbuf_ok m"
  defines "pi \<equiv> port_infos s ! unat port"
  defines "hop \<equiv> if start_ip_addr pi AND subnet_mask pi = dst AND subnet_mask pi then dst else gateway_ip pi"
  assumes "map_of es hop = Some (mac, prt)"
  shows "\<exists>s' m'. tw_eth_pkt_ctor (Some a) port ty dst s = Some (Ret (0, s')) \<and> tx_inv s' \<and> sent (unat port) a m' s s' \<and>
    ether_hdr_at (buf m') (mtod m') = \<lparr>d_addr = mac, s_addr = the (eth_mac pi), ether_type = tw_cpu_to_be_16 ty\<rparr> \<and>
    mtod m' + 14 = mtod m \<and> drop 14 (pkt_bytes m') = pkt_bytes m \<and> loose s' = (loose s)(a := None)"
proof -
  have h: "hop = next_hop pi dst" by (simp add: hop_def next_hop_def Let_def)
  have le: "mtod m \<le> unat (buf_len m)" using assms(6) by (simp add: mbuf_ok_def)
  let ?m' = "addressed mac (framed pi ty m)"
  obtain s' where s': "tw_eth_pkt_ctor (Some a) port ty dst s = Some (Ret (0, s'))" "tx_inv s'"
    "loose s' = (loose s)(a := None)" "sent (unat port) a ?m' s s'"
    using ctor_known[OF assms(1-5) le, of dst mac prt ty] assms(9) unfolding h pi_def by blast
  have mt: "mtod ?m' = mtod m - 14" using framed_mtod[OF assms(5), of pi ty] by (simp add: addressed_def)
  have "drop 14 (pkt_bytes ?m') = pkt_bytes m"
    unfolding addressed_fields(2)[OF assms(5,6)] using assms(5) by simp
  then show ?thesis using s' addressed_fields(1)[OF assms(5), of mac pi ty] mt assms(5)
    by (intro exI[of _ s'] exI[of _ ?m']) simp
qed



text \<open>
  Stripping a VLAN tag: on a tagged packet \<open>rte_vlan_strip\<close> returns 0, removes exactly the four bytes of the
  tag behind the two addresses, and records the tag in network order; an untagged packet is
  unchanged and the result is -1.
\<close>

theorem vlan_strip_exact:
  assumes "18 \<le> unat (data_len m)" "mtod m + 46 \<le> unat (buf_len m)"
  shows "if is_vlan m
    then \<exists>m'. rte_vlan_strip m = Ret (0, m') \<and> pkt_bytes m' = take 12 (pkt_bytes m) @ drop 16 (pkt_bytes m) \<and>
      vlan_tci m' = tw_be_to_cpu_16 (rd16 (buf m) (mtod m + 14)) \<and> rx_vlan_pkt m'
    else rte_vlan_strip m = Ret (- 1, m)"
proof (cases "is_vlan m")
  case True
  have "rte_vlan_strip m = Ret (0, stripped m)" using strip_tagged[OF True _ assms(2)] assms(1) by simp
  moreover have "vlan_tci (stripped m) = tw_be_to_cpu_16 (rd16 (buf m) (mtod m + 14))" "rx_vlan_pkt (stripped m)"
    by (simp_all add: stripped_def)
  ultimately show ?thesis using True stripped_bytes[OF assms] by auto
qed (simp add: strip_untagged)

section \<open>Witnesses\<close>

lemma demo_queue_more:
  "port_infos demo_queue = replicate 8 demo_up" "mbuf_src demo_queue 0 = Some (1000, demo_mbuf)" "mbuf_cnt demo_queue = 0"
  "tx_mempool demo_queue = [Some 6, None]" "dev_socket demo_queue p = 0" "arp_heap demo_queue = [50 \<mapsto> \<lparr>at_ip_addr = 0x0A000009, at_eth_mac = EA 2 0 0 0 0 9, at_port_id = 1, at_next = None\<rparr>]"
  by (auto simp: demo_queue_def arp.defs demo_arp_def queue.defs stats.defs demo_tx_def demo_stats_def lcores.defs demo_lcores_def demo_defs)

lemma demo_queue_ready:
  "unat p < 8 \<Longrightarrow> port_up demo_queue p" "pool_ready demo_queue p" "arp_tab demo_queue [(0x0A000009, EA 2 0 0 0 0 9, 1)]"
  "can_wait [1, 2, 3] 0 demo_queue" "mtod demo_mbuf = 128" "mbuf_ok demo_mbuf" "eth_fits demo_mbuf"
  using demo_queue_facts(3)
  by (simp_all add: port_up_def demo_queue_more demo_up_def pool_ready_def fix_socket_def demo_queue_nodes
      can_wait_def demo_queue_views demo_mbuf_def mbuf_ok_def eth_fits_def)

theorem eth_ctor_sends_witness:
  "\<exists>s' m'. tw_eth_pkt_ctor (Some 20) 3 ETHER_TYPE_IPv4 0x0A000009 demo_queue = Some (Ret (0, s')) \<and> mtod m' = 114 \<and>
    d_addr (ether_hdr_at (buf m') 114) = EA 2 0 0 0 0 9"
proof -
  have "start_ip_addr (port_infos demo_queue ! unat (3 :: u8)) AND subnet_mask (port_infos demo_queue ! unat (3 :: u8)) =
      0x0A000009 AND subnet_mask (port_infos demo_queue ! unat (3 :: u8))"
    by (simp add: demo_queue_more demo_up_def demo_defs)
  then obtain s' m' where "tw_eth_pkt_ctor (Some 20) 3 ETHER_TYPE_IPv4 0x0A000009 demo_queue = Some (Ret (0, s'))"
    "ether_hdr_at (buf m') (mtod m') = \<lparr>d_addr = EA 2 0 0 0 0 9, s_addr = the (eth_mac (port_infos demo_queue ! unat (3 :: u8))),
      ether_type = tw_cpu_to_be_16 ETHER_TYPE_IPv4\<rparr>" "mtod m' + 14 = mtod demo_mbuf"
    using eth_ctor_sends[OF demo_queue_facts(1) demo_queue_ready(3) demo_queue_ready(1)[of 3] demo_queue_facts(2)[of 20] _ demo_queue_ready(6),
        where dst = "0x0A000009" and mac = "EA 2 0 0 0 0 9" and prt = 1 and ty = ETHER_TYPE_IPv4] demo_queue_ready(5) by auto
  then show ?thesis using demo_queue_ready(5) by (intro exI[of _ s'] exI[of _ m']) simp
qed



theorem vlan_strip_exact_witness:
  "\<exists>m'. rte_vlan_strip (demo_mbuf\<lparr>buf := wr16 140 (tw_cpu_to_be_16 ETHER_TYPE_VLAN) (\<lambda>_. 7)\<rparr>) = Ret (0, m') \<and> vlan_tci m' = 0x0707 \<and>
    length (pkt_bytes m') = 60"
proof -
  let ?m = "demo_mbuf\<lparr>buf := wr16 140 (tw_cpu_to_be_16 ETHER_TYPE_VLAN) (\<lambda>_. 7)\<rparr>"
  have v: "is_vlan ?m" by (simp add: hdr_at_defs demo_mbuf_def rd16_wr16)
  have t: "tw_be_to_cpu_16 (rd16 (buf ?m) (mtod ?m + 14)) = 0x0707"
    by (simp add: demo_mbuf_def be16_bytes wr16_at)
  have "length (take 12 (pkt_bytes ?m) @ drop 16 (pkt_bytes ?m)) = 60" by (simp add: pkt_bytes_def demo_mbuf_def)
  moreover obtain m' where "rte_vlan_strip ?m = Ret (0, m')" "pkt_bytes m' = take 12 (pkt_bytes ?m) @ drop 16 (pkt_bytes ?m)"
    "vlan_tci m' = tw_be_to_cpu_16 (rd16 (buf ?m) (mtod ?m + 14))"
    using vlan_strip_exact[of ?m] v by (auto simp: demo_mbuf_def)
  ultimately show ?thesis using t by (intro exI[of _ m']) simp
qed

end
