(* ===== verification/EventLoop.thy ===== *)
theory EventLoop
  imports Eth
begin

text \<open>
  \<open>twister/event/event_loop.c\<close>: the event loop, its receive, transmit and timer handles, and
  \<open>tw_run\<close>. The callbacks of the application are an argument: a function pointer is a code address and
  \<open>callbacks\<close> says what the code at an address does. \<open>rte_malloc\<close> does not clear memory, so a fresh
  handle has the arbitrary content \<open>rx_junk\<close>, \<open>tx_junk\<close>, \<open>timer_junk\<close> or \<open>loop_junk\<close>.
\<close>

section \<open>event\_loop.h\<close>

record tw_loop =
  lp_data :: ptr
  active_handles :: u8
  rx_handle_queue :: ptr
  tx_handle_queue :: ptr
  timer_handle_queue :: ptr
  stop_flag :: u32
  secs_to_run :: u16

text \<open>The fields no function of the repository reads or writes (\<open>sock_fd\<close>, \<open>addr\<close>, \<open>flags\<close>, \<open>repeat\<close>)
  are left out.\<close>

record tw_rx =
  rx_type :: u8
  rx_last_run_time :: u64
  recv_cb :: ptr
  rx_next :: ptr

record tw_tx =
  tx_type :: u8
  tx_last_run_time :: u64
  tx_next :: ptr
  tx_cb :: ptr

record tw_timer =
  tm_type :: u8
  tm_last_run_time :: u64
  tm_next :: ptr
  timeout :: u64
  timer_cb :: ptr

abbreviation "TW_UDP_HANDLE \<equiv> (0x01 :: u8)"
abbreviation "TW_TX_HANDLE \<equiv> (0x04 :: u8)"
abbreviation "TW_TIMER_HANDLE \<equiv> (0x05 :: u8)"

record evloop = queue +
  loops :: "tw_loop heap"
  rx_hs :: "tw_rx heap"
  tx_hs :: "tw_tx heap"
  timer_hs :: "tw_timer heap"
  loop_junk :: "nat \<Rightarrow> tw_loop"
  rx_junk :: "nat \<Rightarrow> tw_rx"
  tx_junk :: "nat \<Rightarrow> tw_tx"
  timer_junk :: "nat \<Rightarrow> tw_timer"
  global_pps_limit :: u64
  global_pps_delay :: u64

text \<open>The code of the application. A receive callback gets its handle and the buffer.\<close>

record 's callbacks =
  rx_code :: "nat \<Rightarrow> ptr \<Rightarrow> ptr \<Rightarrow> ('s, unit) act"
  tx_code :: "nat \<Rightarrow> ptr \<Rightarrow> ('s, unit) act"
  timer_code :: "nat \<Rightarrow> ptr \<Rightarrow> ('s, unit) act"

section \<open>Loops\<close>

definition tw_loop_init :: "ptr \<Rightarrow> ('a evloop_scheme, int) act" where
  "tw_loop_init event_loop =
     bnd (set_cell loops loops_update event_loop (\<lambda>l. l\<lparr>lp_data := None\<rparr>)) (\<lambda>_.
     bnd (modify (\<lambda>s. s\<lparr>global_pps_delay := (if global_pps_limit s \<noteq> 0 then 10000000000 div global_pps_limit s else 0)\<rparr>)) (\<lambda>_.
     ret 0))"

definition tw_stop :: "ptr \<Rightarrow> ('a evloop_scheme, int) act" where
  "tw_stop event_loop = bnd (set_cell loops loops_update event_loop (\<lambda>l. l\<lparr>stop_flag := 0\<rparr>)) (\<lambda>_. ret 0)"

definition tw_default_loop :: "u16 \<Rightarrow> ('a evloop_scheme, ptr) act" where
  "tw_default_loop time_to_run = bnd rte_malloc (\<lambda>p. case p of None \<Rightarrow> fault NullDeref
     | Some a \<Rightarrow> bnd (modify (\<lambda>s. s\<lparr>loops := (loops s)(a \<mapsto> (loop_junk s a)\<lparr>secs_to_run := time_to_run\<rparr>)\<rparr>)) (\<lambda>_. ret p))"

section \<open>Handles\<close>

text \<open>A fresh handle: whatever the memory contained.\<close>

definition alloc_rx :: "('a evloop_scheme, ptr) act" where
  "alloc_rx = bnd rte_malloc (\<lambda>p. bnd (case p of None \<Rightarrow> ret ()
     | Some a \<Rightarrow> modify (\<lambda>s. s\<lparr>rx_hs := (rx_hs s)(a \<mapsto> rx_junk s a)\<rparr>)) (\<lambda>_. ret p))"

definition alloc_tx :: "('a evloop_scheme, ptr) act" where
  "alloc_tx = bnd rte_malloc (\<lambda>p. bnd (case p of None \<Rightarrow> ret ()
     | Some a \<Rightarrow> modify (\<lambda>s. s\<lparr>tx_hs := (tx_hs s)(a \<mapsto> tx_junk s a)\<rparr>)) (\<lambda>_. ret p))"

definition alloc_timer :: "('a evloop_scheme, ptr) act" where
  "alloc_timer = bnd rte_malloc (\<lambda>p. bnd (case p of None \<Rightarrow> ret ()
     | Some a \<Rightarrow> modify (\<lambda>s. s\<lparr>timer_hs := (timer_hs s)(a \<mapsto> timer_junk s a)\<rparr>)) (\<lambda>_. ret p))"

definition tw_rx_init :: "ptr \<Rightarrow> ('a evloop_scheme, ptr) act" where
  "tw_rx_init lp =
     bnd (deref loops lp) (\<lambda>l.
     bnd (case rx_handle_queue l of
            None \<Rightarrow> bnd alloc_rx (\<lambda>p. bnd (set_cell loops loops_update lp (\<lambda>l. l\<lparr>rx_handle_queue := p\<rparr>)) (\<lambda>_. ret p))
          | Some r \<Rightarrow> bnd (\<lambda>s. lift_res (walk_last rx_next (rx_hs s) r) s) (\<lambda>e. bnd alloc_rx (\<lambda>p.
              bnd (set_cell rx_hs rx_hs_update (Some e) (\<lambda>n. n\<lparr>rx_next := p\<rparr>)) (\<lambda>_. ret p)))) (\<lambda>p.
     bnd (set_cell rx_hs rx_hs_update p (\<lambda>n. n\<lparr>rx_type := TW_UDP_HANDLE\<rparr>)) (\<lambda>_. ret p)))"

definition tw_rx_start :: "ptr \<Rightarrow> ptr \<Rightarrow> ('a evloop_scheme, int) act" where
  "tw_rx_start rx_handle cb = (if rx_handle = None then ret (- 1)
     else bnd (set_cell rx_hs rx_hs_update rx_handle (\<lambda>n. n\<lparr>recv_cb := cb\<rparr>)) (\<lambda>_. ret 0))"

definition tw_tx_init :: "ptr \<Rightarrow> ('a evloop_scheme, ptr) act" where
  "tw_tx_init lp =
     bnd (deref loops lp) (\<lambda>l.
     bnd (case tx_handle_queue l of
            None \<Rightarrow> bnd alloc_tx (\<lambda>p. bnd (set_cell loops loops_update lp (\<lambda>l. l\<lparr>tx_handle_queue := p\<rparr>)) (\<lambda>_. ret p))
          | Some r \<Rightarrow> bnd (\<lambda>s. lift_res (walk_last tx_next (tx_hs s) r) s) (\<lambda>e. bnd alloc_tx (\<lambda>p.
              bnd (set_cell tx_hs tx_hs_update (Some e) (\<lambda>n. n\<lparr>tx_next := p\<rparr>)) (\<lambda>_. ret p)))) (\<lambda>p.
     bnd (set_cell tx_hs tx_hs_update p (\<lambda>n. n\<lparr>tx_type := TW_TX_HANDLE\<rparr>)) (\<lambda>_.
     bnd (set_cell loops loops_update lp (\<lambda>l. l\<lparr>active_handles := active_handles l + 1\<rparr>)) (\<lambda>_. ret p))))"

definition tw_tx_start :: "ptr \<Rightarrow> ptr \<Rightarrow> ('a evloop_scheme, int) act" where
  "tw_tx_start tx_handle cb = (if tx_handle = None then ret (- 1)
     else bnd (set_cell tx_hs tx_hs_update tx_handle (\<lambda>n. n\<lparr>tx_cb := cb\<rparr>)) (\<lambda>_. ret 0))"

definition tw_timer_init :: "ptr \<Rightarrow> ('a evloop_scheme, ptr) act" where
  "tw_timer_init lp =
     bnd (deref loops lp) (\<lambda>l.
     bnd (case timer_handle_queue l of
            None \<Rightarrow> bnd alloc_timer (\<lambda>p. bnd (set_cell loops loops_update lp (\<lambda>l. l\<lparr>timer_handle_queue := p\<rparr>)) (\<lambda>_. ret p))
          | Some r \<Rightarrow> bnd (\<lambda>s. lift_res (walk_last tm_next (timer_hs s) r) s) (\<lambda>e. bnd alloc_timer (\<lambda>p.
              bnd (set_cell timer_hs timer_hs_update (Some e) (\<lambda>n. n\<lparr>tm_next := p\<rparr>)) (\<lambda>_. ret p)))) (\<lambda>p.
     bnd (set_cell timer_hs timer_hs_update p (\<lambda>n. n\<lparr>tm_type := TW_TIMER_HANDLE\<rparr>)) (\<lambda>_.
     bnd (set_cell loops loops_update lp (\<lambda>l. l\<lparr>active_handles := active_handles l + 1\<rparr>)) (\<lambda>_. ret p))))"

definition tw_timer_start :: "ptr \<Rightarrow> ptr \<Rightarrow> u64 \<Rightarrow> ('a evloop_scheme, int) act" where
  "tw_timer_start timer_handle cb t = (if timer_handle = None then ret (- 1)
     else (\<lambda>s. bnd (set_cell timer_hs timer_hs_update timer_handle (\<lambda>n. n\<lparr>timer_cb := cb, timeout := t * (tsc_hz s div 1000)\<rparr>))
       (\<lambda>_. ret 0) s))"

text \<open>The loop that looks for the handle before \<open>t\<close>; \<open>None\<close> is the return of -1 at the end of the list.\<close>

partial_function (option) walk_prev :: "('n \<Rightarrow> ptr) \<Rightarrow> 'n heap \<Rightarrow> ptr \<Rightarrow> nat \<Rightarrow> ptr res" where
  "walk_prev nxt h t a = (case h a of
       None \<Rightarrow> Some (Fault WildDeref)
     | Some n \<Rightarrow> if nxt n = t then Some (Ret (Some a))
         else (case nxt n of None \<Rightarrow> Some (Ret None) | Some b \<Rightarrow> walk_prev nxt h t b))"

text \<open>The functions return \<open>uint8_t\<close>, so that -1 is 255.\<close>

definition tw_timer_unregister :: "ptr \<Rightarrow> ptr \<Rightarrow> ('a evloop_scheme, u8) act" where
  "tw_timer_unregister h lp =
     bnd (deref loops lp) (\<lambda>l. case timer_handle_queue l of None \<Rightarrow> ret (- 1)
     | Some r \<Rightarrow>
        if timer_handle_queue l = h then
          bnd (deref timer_hs h) (\<lambda>n.
          bnd (set_cell loops loops_update lp (\<lambda>l. l\<lparr>timer_handle_queue := tm_next n\<rparr>)) (\<lambda>_.
          bnd (free_cell timer_hs timer_hs_update h) (\<lambda>_.
          bnd (set_cell loops loops_update lp (\<lambda>l. l\<lparr>active_handles := active_handles l - 1\<rparr>)) (\<lambda>_. ret 0))))
        else
          bnd (\<lambda>s. lift_res (walk_prev tm_next (timer_hs s) h r) s) (\<lambda>prev.
          if prev = None then ret (- 1)
          else bnd (deref timer_hs h) (\<lambda>n.
               bnd (set_cell timer_hs timer_hs_update prev (\<lambda>q. q\<lparr>tm_next := tm_next n\<rparr>)) (\<lambda>_.
               bnd (free_cell timer_hs timer_hs_update h) (\<lambda>_.
               bnd (set_cell loops loops_update lp (\<lambda>l. l\<lparr>active_handles := active_handles l - 1\<rparr>)) (\<lambda>_. ret 0))))))"

text \<open>The last free is of the handle before the one that is unregistered.\<close>

definition tw_tx_unregister :: "ptr \<Rightarrow> ptr \<Rightarrow> ('a evloop_scheme, u8) act" where
  "tw_tx_unregister h lp =
     bnd (deref loops lp) (\<lambda>l. case tx_handle_queue l of None \<Rightarrow> ret (- 1)
     | Some r \<Rightarrow>
        if h = None then ret (- 1)
        else if tx_handle_queue l = h then
          bnd (deref tx_hs h) (\<lambda>n.
          bnd (set_cell loops loops_update lp (\<lambda>l. l\<lparr>tx_handle_queue := tx_next n\<rparr>)) (\<lambda>_.
          bnd (free_cell tx_hs tx_hs_update h) (\<lambda>_.
          bnd (set_cell loops loops_update lp (\<lambda>l. l\<lparr>active_handles := active_handles l - 1\<rparr>)) (\<lambda>_. ret 0))))
        else
          bnd (\<lambda>s. lift_res (walk_prev tx_next (tx_hs s) h r) s) (\<lambda>prev.
          if prev = None then ret (- 1)
          else bnd (deref tx_hs h) (\<lambda>n.
               bnd (set_cell tx_hs tx_hs_update prev (\<lambda>q. q\<lparr>tx_next := tx_next n\<rparr>)) (\<lambda>_.
               bnd (free_cell tx_hs tx_hs_update prev) (\<lambda>_.
               bnd (set_cell loops loops_update lp (\<lambda>l. l\<lparr>active_handles := active_handles l - 1\<rparr>)) (\<lambda>_. ret 0))))))"

section \<open>tw\_run\<close>

definition call_rx :: "'a evloop_scheme callbacks \<Rightarrow> ptr \<Rightarrow> ptr \<Rightarrow> ('a evloop_scheme, unit) act" where
  "call_rx cbs h buffer = bnd (deref rx_hs h) (\<lambda>n. case recv_cb n of None \<Rightarrow> fault NullDeref
     | Some c \<Rightarrow> rx_code cbs c h buffer)"

text \<open>
  One pass from \<open>label\<close>: \<open>True\<close> is the jump back to it after a VLAN tag was removed. \<open>tmp\<close> is the address of
  the local variable \<open>temp_buffer\<close>, \<open>i\<close> the loop variable, which the code also uses as port number.
\<close>

definition dispatch_step :: "'a evloop_scheme callbacks \<Rightarrow> ptr \<Rightarrow> nat \<Rightarrow> nat \<Rightarrow> ptr \<Rightarrow> ('a evloop_scheme, bool) act" where
  "dispatch_step cbs rxh tmp i pkt =
     bnd (mbuf_hdr pkt sizeof_ether_hdr) (\<lambda>m.
     let eth_type = tw_be_to_cpu_16 (ether_type (ether_hdr_at (buf m) (mtod m))) in
     if eth_type = ETHER_TYPE_VLAN then bnd (vlan_strip pkt) (\<lambda>_. ret True)
     else if eth_type = ETHER_TYPE_ARP then bnd (tw_parse_arp pkt (of_nat i)) (\<lambda>_. ret False)
     else if eth_type = ETHER_TYPE_IPv4 then
       bnd (port_at (int i)) (\<lambda>pi.
       bnd (modify (\<lambda>s. s\<lparr>tw_bufs := (tw_bufs s)(tmp \<mapsto>
          \<lparr>tb_pkt = pkt, tb_data = (pkt, mtod m), tb_size = data_len m, tb_port_name = port_name pi\<rparr>)\<rparr>)) (\<lambda>_.
       bnd (call_rx cbs rxh (Some tmp)) (\<lambda>_. ret False)))
     else ret False)"

partial_function (option) dispatch ::
  "'a evloop_scheme callbacks \<Rightarrow> ptr \<Rightarrow> nat \<Rightarrow> nat \<Rightarrow> ptr \<Rightarrow> 'a evloop_scheme \<Rightarrow> (unit \<times> 'a evloop_scheme) res" where
  "dispatch cbs rxh tmp i pkt s = (case dispatch_step cbs rxh tmp i pkt s of
       None \<Rightarrow> None
     | Some r \<Rightarrow> (case r of
         Ret x \<Rightarrow> if fst x then dispatch cbs rxh tmp i pkt (snd x) else Some (Ret ((), snd x))
       | Fault e \<Rightarrow> Some (Fault e)
       | Exit k \<Rightarrow> Some (Exit k)))"

text \<open>The packets of one port, and all ports; \<open>qconf->num_port\<close> (a byte) is read again before each turn.\<close>

definition dispatch_port :: "'a evloop_scheme callbacks \<Rightarrow> ptr \<Rightarrow> nat \<Rightarrow> mbuf_table list \<Rightarrow> nat \<Rightarrow> ('a evloop_scheme, unit) act" where
  "dispatch_port cbs rxh tmp m i = bnd (index_ck m i) (\<lambda>t.
     for_each [0..<nat (mt_len t)] (\<lambda>k. bnd (index_ck (m_table t) k) (\<lambda>pkt. dispatch cbs rxh tmp i pkt)))"

definition dispatch_all :: "'a evloop_scheme callbacks \<Rightarrow> ptr \<Rightarrow> nat \<Rightarrow> mbuf_table list \<Rightarrow> ('a evloop_scheme, unit) act" where
  "dispatch_all cbs rxh tmp m = for_each [0..<256] (\<lambda>i. bnd get_qconf (\<lambda>qconf.
     if i < unat (num_port qconf) then dispatch_port cbs rxh tmp m i else ret ()))"

text \<open>The walks over the transmit and timer handles.\<close>

definition tx_turn :: "'a evloop_scheme callbacks \<Rightarrow> u64 \<Rightarrow> ptr \<Rightarrow> ('a evloop_scheme, ptr) act" where
  "tx_turn cbs now h =
     bnd (deref tx_hs h) (\<lambda>n.
     bnd (case tx_cb n of None \<Rightarrow> fault NullDeref | Some c \<Rightarrow> tx_code cbs c h) (\<lambda>_.
     bnd (set_cell tx_hs tx_hs_update h (\<lambda>n. n\<lparr>tx_last_run_time := now\<rparr>)) (\<lambda>_.
     bnd (deref tx_hs h) (\<lambda>n. ret (tx_next n)))))"

definition timer_turn :: "'a evloop_scheme callbacks \<Rightarrow> u64 \<Rightarrow> ptr \<Rightarrow> ('a evloop_scheme, ptr) act" where
  "timer_turn cbs now h =
     bnd (deref timer_hs h) (\<lambda>n.
     let time_diff = now - tm_last_run_time n in
     bnd (if time_diff > timeout n then
            bnd (case timer_cb n of None \<Rightarrow> fault NullDeref | Some c \<Rightarrow> timer_code cbs c h) (\<lambda>_.
            set_cell timer_hs timer_hs_update h (\<lambda>n. n\<lparr>tm_last_run_time := now\<rparr>))
          else ret ()) (\<lambda>_.
     bnd (deref timer_hs h) (\<lambda>n. ret (tm_next n))))"

text \<open>\<open>while (h != NULL) h = turn(h)\<close>\<close>

partial_function (option) walk_handles :: "(ptr \<Rightarrow> ('s, ptr) act) \<Rightarrow> ptr \<Rightarrow> 's \<Rightarrow> (unit \<times> 's) res" where
  "walk_handles turn h s = (case h of None \<Rightarrow> Some (Ret ((), s))
     | Some a \<Rightarrow> (case turn h s of
         None \<Rightarrow> None
       | Some r \<Rightarrow> (case r of
           Ret x \<Rightarrow> walk_handles turn (fst x) (snd x)
         | Fault e \<Rightarrow> Some (Fault e)
         | Exit k \<Rightarrow> Some (Exit k))))"

definition handle_phase :: "'a evloop_scheme callbacks \<Rightarrow> ptr \<Rightarrow> u64 \<Rightarrow> ('a evloop_scheme, unit) act" where
  "handle_phase cbs lp now =
     bnd (deref loops lp) (\<lambda>l. if active_handles l > 0 then
       bnd (walk_handles (tx_turn cbs now) (tx_handle_queue l)) (\<lambda>_.
       bnd (deref loops lp) (\<lambda>l.
       walk_handles (timer_turn cbs now) (timer_handle_queue l)))
     else ret ())"

text \<open>One turn of the loop. The local variables that live on are the number of received packets and the
  tables they were received into.\<close>

definition run_turn :: "'a evloop_scheme callbacks \<Rightarrow> nat \<Rightarrow> ptr \<Rightarrow> int \<times> mbuf_table list \<Rightarrow> ('a evloop_scheme, int \<times> mbuf_table list) act" where
  "run_turn cbs tmp lp = (\<lambda>(num_rx_pkts, m).
     bnd tw_get_current_timer_cycles (\<lambda>curr_time_cycle.
     bnd tw_timely_burst (\<lambda>_.
     bnd (deref loops lp) (\<lambda>l.
     bnd (if rx_handle_queue l \<noteq> None then bnd (tw_rx_for_each_queue m) (\<lambda>(n, m'). ret (sint n, m'))
          else ret (num_rx_pkts, m)) (\<lambda>(num_rx_pkts, m).
     bnd (if num_rx_pkts > 0 then dispatch_all cbs (rx_handle_queue l) tmp m else ret ()) (\<lambda>_.
     bnd (handle_phase cbs lp curr_time_cycle) (\<lambda>_.
     ret (num_rx_pkts, m))))))))"

partial_function (option) run_loop ::
  "'a evloop_scheme callbacks \<Rightarrow> nat \<Rightarrow> ptr \<Rightarrow> int \<times> mbuf_table list \<Rightarrow> 'a evloop_scheme \<Rightarrow> (int \<times> 'a evloop_scheme) res" where
  "run_loop cbs tmp lp loc s = (case run_turn cbs tmp lp loc s of
       None \<Rightarrow> None
     | Some r \<Rightarrow> (case r of
         Ret x \<Rightarrow> run_loop cbs tmp lp (fst x) (snd x)
       | Fault e \<Rightarrow> Some (Fault e)
       | Exit k \<Rightarrow> Some (Exit k)))"

text \<open>\<open>m0\<close> is the uninitialised array of tables, one for each port of the engine.\<close>

definition tw_run :: "'a evloop_scheme callbacks \<Rightarrow> nat \<Rightarrow> mbuf_table list \<Rightarrow> ptr \<Rightarrow> ('a evloop_scheme, int) act" where
  "tw_run cbs tmp m0 event_loop = run_loop cbs tmp event_loop (0, m0)"

section \<open>The loop does not return\<close>

lemma run_loop_no_return: "run_loop cbs tmp lp loc s = Some r \<Longrightarrow> (\<forall>x. r \<noteq> Ret x)"
  by (erule run_loop.raw_induct[where P = "\<lambda>_ _ _ _ _ r. \<forall>x. r \<noteq> Ret x", rotated])
    (force split: option.splits outcome.splits)

section \<open>Every packet is dispatched in finitely many steps\<close>

lemma stripped_len: "4 \<le> unat (data_len m) \<Longrightarrow> unat (data_len (stripped m)) = unat (data_len m) - 4"
  by (simp add: stripped_def unat_sub word_le_nat_alt)

lemma vlan_strip_shrinks:
  assumes "mbufs s a = Some m" "is_vlan m" "vlan_strip (Some a) s = Some (Ret (r, s'))"
  shows "4 \<le> unat (data_len m)" "\<exists>m'. unat (data_len m') = unat (data_len m) - 4 \<and> s' = s\<lparr>mbufs := (mbufs s)(a \<mapsto> m')\<rparr>"
proof -
  have d: "data_len m \<ge> 4"
    using assms by (auto simp: vlan_strip_def run_simps mbuf_hdr_def rte_vlan_strip_def Let_def rte_pktmbuf_adj_def not_less
        split: if_splits option.splits)
  then show "4 \<le> unat (data_len m)" by (simp add: word_le_nat_alt)
  then have "unat (data_len m - 4) = unat (data_len m) - 4" by (simp add: unat_sub word_le_nat_alt)
  let ?m' = "m\<lparr>rx_vlan_pkt := True, vlan_tci := tw_be_to_cpu_16 (rd16 (buf m) (mtod m + 14)),
      data_len := data_len m - 4, data_off := data_off m + 4, pkt_len := pkt_len m - 4,
      buf := memmove_buf (unat (data_off m + 4)) (mtod m) 12 (buf m)\<rparr>"
  have "s' = s\<lparr>mbufs := (mbufs s)(a \<mapsto> ?m')\<rparr>"
    using assms d by (auto simp: vlan_strip_def run_simps mbuf_hdr_def rte_vlan_strip_def Let_def rte_pktmbuf_adj_def not_less put_mbuf_def
        split: if_splits option.splits)
  with \<open>unat (data_len m - 4) = unat (data_len m) - 4\<close>
  show "\<exists>m'. unat (data_len m') = unat (data_len m) - 4 \<and> s' = s\<lparr>mbufs := (mbufs s)(a \<mapsto> m')\<rparr>"
    by (intro exI[of _ ?m']) simp
qed

lemma vlan_strip_ends: "vlan_strip (Some a) s \<noteq> None"
  by (auto simp: vlan_strip_def run_simps mbuf_hdr_def rte_vlan_strip_def Let_def put_mbuf_def split: option.splits)

lemma ends_free [ends_intros]: "ends (rte_pktmbuf_free p)"
  by (auto simp: ends_def rte_pktmbuf_free_def run_simps split: option.splits)

lemma ends_driver [ends_intros]: "ends (driver_take port ps)"
  by (induction ps) (auto intro!: ends_intros)

lemma ends_tx_burst [ends_intros]: "ends (rte_eth_tx_burst port tbl)"
proof -
  have "ends (bnd (driver_take port ps) (\<lambda>_. ret k))" for ps and k :: nat by (intro ends_intros)
  then show ?thesis by (auto simp: ends_def rte_eth_tx_burst_def Let_def)
qed

lemma ends_get_table [ends_intros]: "ends (get_table p)"
  by (auto simp: ends_def get_table_def get_qconf_def run_simps)

lemma ends_send [ends_intros]: "ends (tw_send_burst n port)"
  unfolding tw_send_burst_def Let_def by (intro ends_intros)

lemma ends_add_pkt [ends_intros]: "ends (tw_add_pkt_to_tx_queue p port)"
  unfolding tw_add_pkt_to_tx_queue_def Let_def by (intro ends_intros)

lemma ends_hdr [ends_intros]: "ends (mbuf_hdr p n)" "ends (put_mbuf p m)"
  unfolding mbuf_hdr_def put_mbuf_def by (auto intro!: ends_intros split: option.split)

lemma ends_port_at [ends_intros]: "ends (port_at i)" "ends (port_mac pi)"
  unfolding port_at_def port_mac_def by (auto simp: ends_def run_simps split: option.splits)

lemma ends_reply [ends_intros]: "ends (tw_send_arp_reply p port)" "ends (get_arp p)"
  unfolding tw_send_arp_reply_def get_arp_def write_hdr_def by (intro ends_intros)+

lemma process_reply_ends:
  assumes h: "get_arp p s = Some (Ret (h, s))" and q: "tw_search_arp_table (arp_sip h) s = Some (Ret (q, s))"
    "if q = None then tw_add_arp_entry (arp_sip h) (arp_sha h) port s = Some (Ret (0, s1)) else s1 = s"
  shows "tw_process_arp_reply p port s \<noteq> None"
proof -
  have fr: "bnd (rte_pktmbuf_free p) (\<lambda>_. ret k) t \<noteq> None" for k :: int and t
  proof -
    have "rte_pktmbuf_free p t \<noteq> None" using ends_free unfolding ends_def by blast
    then show ?thesis by (intro bnd_ends) (simp_all add: ret_def)
  qed
  note u = tw_process_arp_reply_def bnd_after[where m = "get_arp p" and s = s, OF h]
    bnd_after[where m = "tw_search_arp_table (arp_sip h)" and s = s, OF q(1)]
  show ?thesis
  proof (cases q)
    case None
    then show ?thesis using q fr unfolding u by (simp add: bnd_def)
  next
    case (Some x)
    then show ?thesis using fr unfolding u by simp
  qed
qed

lemma parse_arp_ends:
  assumes "arp_good s"
  shows "tw_parse_arp p port s \<noteq> None"
proof -
  obtain es where tab: "arp_tab s es" "arp_ready s" using assms by (auto simp: arp_good_def)
  have ga: "get_arp p s = Some (Ret (h, s')) \<Longrightarrow> s' = s" for h s'
    by (cases p) (auto simp: get_arp_def run_simps mbuf_hdr_def split: option.splits if_splits)
  have nn: "get_arp p s \<noteq> None" "\<And>t. tw_send_arp_reply p port t \<noteq> None" "\<And>t. rte_pktmbuf_free p t \<noteq> None"
    using ends_reply ends_free unfolding ends_def by blast+
  show ?thesis
  proof (cases "\<exists>h. get_arp p s = Some (Ret (h, s))")
    case False
    then show ?thesis using nn(1) ga by (auto simp: tw_parse_arp_def bnd_def split: option.splits outcome.splits)
  next
    case True
    then obtain h where h: "get_arp p s = Some (Ret (h, s))" by blast
    obtain q s1 where q: "tw_search_arp_table (arp_sip h) s = Some (Ret (q, s))"
      "if q = None then tw_add_arp_entry (arp_sip h) (arp_sha h) port s = Some (Ret (0, s1)) else s1 = s"
      using arp_store.learn[OF tab] by blast
    have fr: "bnd (rte_pktmbuf_free p) (\<lambda>_. ret k) t \<noteq> None" for k :: int and t
      using nn(3) by (intro bnd_ends) (simp_all add: ret_def)
    have "tw_process_arp_reply p port s \<noteq> None" using process_reply_ends[OF h q] .
    then have pr: "bnd (tw_process_arp_reply p port) (\<lambda>_. ret 0) s \<noteq> None" by (intro bnd_ends) (simp_all add: ret_def)
    have rep: "bnd (tw_send_arp_reply p port) (\<lambda>_. ret 0) t \<noteq> None" for t
      using nn(2) by (intro bnd_ends) (simp_all add: ret_def)
    have "bnd (if q = None then bnd (tw_add_arp_entry (arp_sip h) (arp_sha h) port) (\<lambda>_. ret ()) else ret ()) (\<lambda>_.
         bnd (tw_send_arp_reply p port) (\<lambda>_. ret 0)) s \<noteq> None"
    proof (cases q)
      case None
      then have "bnd (tw_add_arp_entry (arp_sip h) (arp_sha h) port) (\<lambda>_. ret ()) s = Some (Ret ((), s1))" using q(2) by (simp add: bnd_def ret_def)
      then show ?thesis using None rep by (simp add: bnd_def)
    qed (use rep in simp)
    then have srch: "bnd (tw_search_arp_table (arp_sip h)) (\<lambda>p'. bnd (if p' = None then bnd (tw_add_arp_entry (arp_sip h) (arp_sha h) port) (\<lambda>_. ret ())
         else ret ()) (\<lambda>_. bnd (tw_send_arp_reply p port) (\<lambda>_. ret 0))) s \<noteq> None"
      unfolding bnd_after[where m = "tw_search_arp_table (arp_sip h)" and s = s, OF q(1)] .
    have pa: "bnd (port_at (int (unat port))) f s \<noteq> None" if "\<And>pi. f pi s \<noteq> None" for f :: "port_info \<Rightarrow> ('a arp_scheme, int) act"
      using that by (simp add: bnd_def port_at_def index_ck_def ret_def fault_def)
    have br: "(if c then m else n) s \<noteq> None" if "m s \<noteq> None" "n s \<noteq> None" for c and m n :: "('a arp_scheme, int) act" using that by simp
    show ?thesis unfolding tw_parse_arp_def bnd_after[where m = "get_arp p" and s = s, OF h]
      by (intro br pa fr pr srch)
  qed
qed

lemma dispatch_unfold:
  "dispatch_step cbs rxh tmp i pkt s = Some (Ret (again, s')) \<Longrightarrow>
     dispatch cbs rxh tmp i pkt s = (if again then dispatch cbs rxh tmp i pkt s' else Some (Ret ((), s')))"
  "dispatch_step cbs rxh tmp i pkt s = Some (Fault e) \<Longrightarrow> dispatch cbs rxh tmp i pkt s = Some (Fault e)"
  "dispatch_step cbs rxh tmp i pkt s = Some (Exit k) \<Longrightarrow> dispatch cbs rxh tmp i pkt s = Some (Exit k)"
  by (subst dispatch.simps; simp)+

text \<open>What a step does: it removes a tag, or it is the last one.\<close>

lemma dispatch_step_cases:
  assumes "arp_good s" "loose s a = Some m" "\<And>c h b t. rx_code cbs c h b t \<noteq> None"
  obtains (last) r where "dispatch_step cbs rxh tmp i (Some a) s = Some r" "\<And>x s'. r = Ret (x, s') \<Longrightarrow> \<not> x"
    | (tag) m' where "dispatch_step cbs rxh tmp i (Some a) s = Some (Ret (True, s\<lparr>mbufs := (mbufs s)(a \<mapsto> m')\<rparr>))"
        "unat (data_len m') < unat (data_len m)"
proof -
  have mb: "mbufs s a = Some m" using looseD[OF assms(2)] .
  show thesis
  proof (cases "mtod m + 14 \<le> unat (buf_len m)")
    case False
    then show thesis using mb by (intro last[of "Fault OutOfBounds"]) (simp_all add: dispatch_step_def run_simps mbuf_hdr_def)
  next
    case True
    let ?ty = "tw_be_to_cpu_16 (ether_type (ether_hdr_at (buf m) (mtod m)))"
    have hdr: "mbuf_hdr (Some a) sizeof_ether_hdr s = Some (Ret (m, s))" using mb True by (simp add: mbuf_hdr_def run_simps)
    show thesis
    proof (cases "?ty = ETHER_TYPE_VLAN")
      case vlan: True
      then have v: "is_vlan m" by (simp add: be16_vlan)
      show thesis
      proof (cases "\<exists>r s'. vlan_strip (Some a) s = Some (Ret (r, s'))")
        case True
        then obtain r s' where rs: "vlan_strip (Some a) s = Some (Ret (r, s'))" by blast
        obtain m' where "unat (data_len m') = unat (data_len m) - 4" "s' = s\<lparr>mbufs := (mbufs s)(a \<mapsto> m')\<rparr>"
          using vlan_strip_shrinks(2)[OF mb v rs] by blast
        with vlan_strip_shrinks(1)[OF mb v rs] show thesis
          using rs vlan hdr by (intro tag[of m']) (simp_all add: dispatch_step_def bnd_def ret_def)
      next
        case False
        then obtain r where "vlan_strip (Some a) s = Some r" "\<And>x. r \<noteq> Ret x" using vlan_strip_ends[of a s] by auto
        then show thesis using vlan hdr
          by (intro last[of "case r of Ret x \<Rightarrow> Fault NullDeref | Fault e \<Rightarrow> Fault e | Exit k \<Rightarrow> Exit k"])
            (auto simp: dispatch_step_def bnd_def split: outcome.splits)
      qed
    next
      case nv: False
      have cb: "ends (call_rx cbs rxh b)" for b
        unfolding call_rx_def using assms(3) by (intro ends_intros) (auto intro: ends_intros simp: ends_def fault_def split: option.split)
      have "ends (bnd (port_at (int i)) (\<lambda>pi. bnd (modify (f pi)) (\<lambda>_. bnd (call_rx cbs rxh b) (\<lambda>_. ret False))))" for f b
        by (intro ends_intros cb)
      moreover have "bnd (tw_parse_arp (Some a) (of_nat i)) (\<lambda>_. ret False) s \<noteq> None"
        using parse_arp_ends[OF assms(1)] by (intro bnd_ends) (simp_all add: ret_def)
      ultimately have "dispatch_step cbs rxh tmp i (Some a) s \<noteq> None"
        using nv unfolding dispatch_step_def bnd_after[where m = "mbuf_hdr (Some a) sizeof_ether_hdr" and s = s, OF hdr] ends_def by (simp add: Let_def ret_def)
      moreover have "\<not> x" if "dispatch_step cbs rxh tmp i (Some a) s = Some (Ret (x, s'))" for x s'
        using that nv unfolding dispatch_step_def bnd_after[where m = "mbuf_hdr (Some a) sizeof_ether_hdr" and s = s, OF hdr] by (auto simp: bnd_Ret_iff ret_def Let_def split: if_splits)
      ultimately show thesis using last by blast
    qed
  qed
qed

lemma dispatch_ends_aux:
  assumes "arp_good s" "loose s a = Some m" "\<And>c h b t. rx_code cbs c h b t \<noteq> None"
  shows "dispatch cbs rxh tmp i (Some a) s \<noteq> None"
  using assms(1,2)
proof (induction "unat (data_len m)" arbitrary: s m rule: less_induct)
  case less
  show ?case
  proof (cases rule: dispatch_step_cases[OF less.prems assms(3), of rxh tmp i])
    case (1 r)
    then show ?thesis by (cases r) (auto simp: dispatch_unfold)
  next
    case (2 m')
    let ?t = "s\<lparr>mbufs := (mbufs s)(a \<mapsto> m')\<rparr>"
    have inv: "tx_inv s" using less.prems(1) by (simp add: arp_good_def)
    have "arp_good ?t" "loose ?t a = Some m'"
      using less.prems(1) loose_write[OF inv less.prems(2), of m'] by (simp_all add: arp_good_def arp_mbufs)
    then show ?thesis using less.hyps[OF 2(2)] 2(1) by (simp add: dispatch_unfold)
  qed
qed

section \<open>Registering and unregistering\<close>

interpretation rxl: linked rx_next "\<lambda>p n. n\<lparr>rx_next := p\<rparr>" by unfold_locales simp
interpretation txl: linked tx_next "\<lambda>p n. n\<lparr>tx_next := p\<rparr>" by unfold_locales simp
interpretation tml: linked tm_next "\<lambda>p n. n\<lparr>tm_next := p\<rparr>" by unfold_locales simp

lemma walk_prev_found:
  "chain nxt h (Some r) (xs @ p # t # ys) \<Longrightarrow> walk_prev nxt h (Some t) r = Some (Ret (Some p))"
proof (induction xs arbitrary: r)
  case Nil
  then show ?case by (auto simp: walk_prev.simps)
next
  case (Cons x xs)
  then obtain n where n: "x = r" "h r = Some n" "chain nxt h (nxt n) (xs @ p # t # ys)" by auto
  obtain r' where r': "nxt n = Some r'" using n(3) by (cases xs) auto
  have d: "distinct (x # xs @ p # t # ys)" using chain_distinct[OF Cons.prems] by simp
  have "r' \<noteq> t" using n(3) r' d by (cases xs) auto
  then show ?case using Cons.IH[of r'] n r' by (simp add: walk_prev.simps[of nxt h "Some t" r])
qed

lemma walk_prev_missing:
  "chain nxt h (Some r) xs \<Longrightarrow> t \<notin> set xs \<Longrightarrow> walk_prev nxt h (Some t) r = Some (Ret None)"
proof (induction xs arbitrary: r)
  case Nil
  then show ?case by simp
next
  case (Cons x xs)
  then obtain n where n: "x = r" "h r = Some n" "chain nxt h (nxt n) xs" by auto
  show ?case
  proof (cases "nxt n")
    case None
    then show ?thesis using n by (simp add: walk_prev.simps)
  next
    case (Some r')
    then have "r' \<in> set xs" using n(3) by (cases xs) auto
    then have "r' \<noteq> t" using Cons.prems(2) by auto
    then show ?thesis using Some n Cons.IH[of r'] Cons.prems(2) by (simp add: walk_prev.simps[of nxt h "Some t" r])
  qed
qed

text \<open>A chain with a freed node in it is no chain.\<close>

lemma chain_freed:
  assumes "chain nxt h p xs" "a \<in> set xs"
  shows "\<not> chain nxt (h(a := None)) p zs"
proof
  assume c: "chain nxt (h(a := None)) p zs"
  have "a \<notin> set zs" using seg_dom[OF c] by auto
  then have "chain nxt h p zs" using c by (simp add: seg_upd_other)
  then show False using chain_unique[OF assms(1)] assms(2) \<open>a \<notin> set zs\<close> by blast
qed

text \<open>The timers and the transmit handles of a loop, in the order of their queue.\<close>

definition timers_of :: "nat \<Rightarrow> 'a evloop_scheme \<Rightarrow> nat list \<Rightarrow> bool" where
  "timers_of lp s xs \<longleftrightarrow> (\<exists>l. loops s lp = Some l \<and> chain tm_next (timer_hs s) (timer_handle_queue l) xs)"

definition txs_of :: "nat \<Rightarrow> 'a evloop_scheme \<Rightarrow> nat list \<Rightarrow> bool" where
  "txs_of lp s xs \<longleftrightarrow> (\<exists>l. loops s lp = Some l \<and> chain tx_next (tx_hs s) (tx_handle_queue l) xs)"

lemma timer_init_run:
  assumes t: "timers_of lp s xs" and a: "malloc_src s (malloc_cnt s) = Some a" "a \<notin> dom (timer_hs s)"
    and z: "tm_next (timer_junk s a) = None"
  shows "\<exists>s'. tw_timer_init (Some lp) s = Some (Ret (Some a, s')) \<and> timers_of lp s' (xs @ [a]) \<and>
    timer_hs s' a = Some ((timer_junk s a)\<lparr>tm_type := TW_TIMER_HANDLE\<rparr>) \<and>
    active_handles (the (loops s' lp)) = active_handles (the (loops s lp)) + 1"
proof -
  obtain l where l: "loops s lp = Some l" "chain tm_next (timer_hs s) (timer_handle_queue l) xs" using t by (auto simp: timers_of_def)
  note d = tw_timer_init_def alloc_timer_def rte_malloc_def run_simps timers_of_def
  show ?thesis
  proof (cases "timer_handle_queue l")
    case None
    then show ?thesis using l a z by (auto simp: d)
  next
    case (Some r)
    have ch: "chain tm_next (timer_hs s) (Some r) xs" using l(2) Some by simp
    then have ne: "xs \<noteq> []" by auto
    have "last xs \<in> dom (timer_hs s)" using seg_dom[OF ch] last_in_set[OF ne] by blast
    then obtain e where e: "timer_hs s (last xs) = Some e" by blast
    then have al: "a \<noteq> last xs" using a(2) by blast
    have "chain tm_next ((timer_hs s)(last xs \<mapsto> e\<lparr>tm_next := Some a\<rparr>, a \<mapsto> (timer_junk s a)\<lparr>tm_type := TW_TIMER_HANDLE\<rparr>)) (Some r) (xs @ [a])"
      using tml.append_node[OF ch ne a(2) e, of "(timer_junk s a)\<lparr>tm_type := TW_TIMER_HANDLE\<rparr>"] z by simp
    moreover have "((timer_hs s)(a \<mapsto> timer_junk s a, last xs \<mapsto> e\<lparr>tm_next := Some a\<rparr>, a \<mapsto> (timer_junk s a)\<lparr>tm_type := TW_TIMER_HANDLE\<rparr>)) =
       ((timer_hs s)(last xs \<mapsto> e\<lparr>tm_next := Some a\<rparr>, a \<mapsto> (timer_junk s a)\<lparr>tm_type := TW_TIMER_HANDLE\<rparr>))" using al by (auto simp: fun_eq_iff)
    ultimately show ?thesis using l Some a(1) e al walk_last_chain[OF ch] by (simp add: d)
  qed
qed

lemma timer_unregister_first:
  assumes l: "loops s lp = Some l" "chain tm_next (timer_hs s) (timer_handle_queue l) (h # ys)"
  shows "\<exists>s'. tw_timer_unregister (Some h) (Some lp) s = Some (Ret (0, s')) \<and> timers_of lp s' ys \<and>
    timer_hs s' h = None \<and> active_handles (the (loops s' lp)) = active_handles l - 1"
proof -
  obtain n where n: "timer_hs s h = Some n" "timer_handle_queue l = Some h" "chain tm_next (timer_hs s) (tm_next n) ys" using l(2) by auto
  have "h \<notin> set ys" using chain_distinct[OF l(2)] by simp
  then show ?thesis using l(1) n by (simp add: tw_timer_unregister_def run_simps timers_of_def seg_upd_other)
qed

lemma timer_unregister_later:
  assumes l: "loops s lp = Some l" "chain tm_next (timer_hs s) (timer_handle_queue l) (xs @ p # h # ys)"
  shows "\<exists>s'. tw_timer_unregister (Some h) (Some lp) s = Some (Ret (0, s')) \<and> timers_of lp s' (xs @ p # ys) \<and>
    timer_hs s' h = None \<and> active_handles (the (loops s' lp)) = active_handles l - 1"
proof -
  obtain r where r: "timer_handle_queue l = Some r" using l(2) by (cases xs) auto
  have d: "distinct (xs @ p # h # ys)" using chain_distinct[OF l(2)] .
  have "r = hd (xs @ p # h # ys)" using l(2) r by (cases xs) auto
  then have rh: "r \<noteq> h" using d by (cases xs) auto
  have w: "walk_prev tm_next (timer_hs s) (Some h) r = Some (Ret (Some p))" using l(2) unfolding r by (rule walk_prev_found)
  obtain n where n: "timer_hs s h = Some n" "chain tm_next (timer_hs s) (tm_next n) ys" using l(2) by (auto simp: seg_append)
  obtain q where q: "timer_hs s p = Some q" using l(2) by (auto simp: seg_append)
  have "chain tm_next ((timer_hs s)(p \<mapsto> q\<lparr>tm_next := tm_next n\<rparr>, h := None)) (Some r) (xs @ p # ys)"
    using tml.bypass_nodes[where ys = "[h]" and zs = ys, OF _ q n(2)] l(2) d r by (intro tml.free_other) auto
  then show ?thesis using l(1) n q r rh w d by (auto simp: tw_timer_unregister_def run_simps timers_of_def)
qed

lemma tx_unregister_later:
  assumes l: "loops s lp = Some l" "chain tx_next (tx_hs s) (tx_handle_queue l) (xs @ p # h # ys)"
  shows "\<exists>s'. tw_tx_unregister (Some h) (Some lp) s = Some (Ret (0, s')) \<and> tx_hs s' = (tx_hs s)(p := None) \<and>
    loops s' = (loops s)(lp \<mapsto> l\<lparr>active_handles := active_handles l - 1\<rparr>)"
proof -
  obtain r where r: "tx_handle_queue l = Some r" using l(2) by (cases xs) auto
  have d: "distinct (xs @ p # h # ys)" using chain_distinct[OF l(2)] .
  have "r = hd (xs @ p # h # ys)" using l(2) r by (cases xs) auto
  then have rh: "r \<noteq> h" using d by (cases xs) auto
  have w: "walk_prev tx_next (tx_hs s) (Some h) r = Some (Ret (Some p))" using l(2) unfolding r by (rule walk_prev_found)
  obtain n where n: "tx_hs s h = Some n" using l(2) by (auto simp: seg_append)
  obtain q where q: "tx_hs s p = Some q" using l(2) by (auto simp: seg_append)
  show ?thesis using l(1) n q r rh w d by (auto simp: tw_tx_unregister_def run_simps)
qed

section \<open>A turn of the handles\<close>

text \<open>
  What the walk over the timers relies on: a callback comes back and leaves the timer handles alone; \<open>eff\<close>
  is what it does to the rest of the state. \<open>fired\<close> is the state after the timers \<open>xs\<close> that are due at
  \<open>now\<close> ran, in order.
\<close>

definition quiet_timers :: "'a evloop_scheme callbacks \<Rightarrow> (nat \<Rightarrow> nat \<Rightarrow> 'a evloop_scheme \<Rightarrow> 'a evloop_scheme) \<Rightarrow> bool" where
  "quiet_timers cbs eff \<longleftrightarrow> (\<forall>c h s. timer_code cbs c (Some h) s = Some (Ret ((), eff c h s)) \<and> timer_hs (eff c h s) = timer_hs s)"

definition fire1 :: "(nat \<Rightarrow> nat \<Rightarrow> 'a evloop_scheme \<Rightarrow> 'a evloop_scheme) \<Rightarrow> u64 \<Rightarrow> nat \<Rightarrow> 'a evloop_scheme \<Rightarrow> 'a evloop_scheme" where
  "fire1 eff now h s = (case timer_hs s h of None \<Rightarrow> s | Some n \<Rightarrow>
     if timeout n < now - tm_last_run_time n
     then timer_hs_update (\<lambda>hs. hs(h \<mapsto> n\<lparr>tm_last_run_time := now\<rparr>)) (eff (the (timer_cb n)) h s) else s)"

definition fired :: "(nat \<Rightarrow> nat \<Rightarrow> 'a evloop_scheme \<Rightarrow> 'a evloop_scheme) \<Rightarrow> u64 \<Rightarrow> nat list \<Rightarrow> 'a evloop_scheme \<Rightarrow> 'a evloop_scheme" where
  "fired eff now hs s = fold (fire1 eff now) hs s"

lemma fire1_hs:
  assumes "quiet_timers cbs eff" "h \<notin> set xs"
  shows "chain tm_next (timer_hs (fire1 eff now h s)) p xs = chain tm_next (timer_hs s) p xs"
  using assms by (simp add: fire1_def quiet_timers_def seg_upd_other split: option.split)

lemma fire1_cb:
  assumes "quiet_timers cbs eff" "\<forall>h\<in>dom (timer_hs s). timer_cb (the (timer_hs s h)) \<noteq> None"
  shows "\<forall>k\<in>dom (timer_hs (fire1 eff now h s)). timer_cb (the (timer_hs (fire1 eff now h s) k)) \<noteq> None"
  proof -
  have "timer_cb n \<noteq> None" if "timer_hs s k = Some n" for k n using assms(2) that by force
  then show ?thesis using assms(1) by (simp add: fire1_def quiet_timers_def domIff split: option.split)
qed

lemma walk_fires:
  assumes "quiet_timers cbs eff"
  shows "chain tm_next (timer_hs s) p xs \<Longrightarrow> \<forall>h\<in>dom (timer_hs s). timer_cb (the (timer_hs s h)) \<noteq> None \<Longrightarrow>
     walk_handles (timer_turn cbs now) p s = Some (Ret ((), fired eff now xs s))"
proof (induction xs arbitrary: p s)
  case Nil
  then show ?case by (simp add: walk_handles.simps fired_def)
next
  case (Cons h xs)
  then obtain n where n: "p = Some h" "timer_hs s h = Some n" "chain tm_next (timer_hs s) (tm_next n) xs" by auto
  obtain c where c: "timer_cb n = Some c" using Cons.prems(2) n(2) by force
  have h: "h \<notin> set xs" using chain_distinct[OF Cons.prems(1)] by simp
  have turn: "timer_turn cbs now p s = Some (Ret (tm_next n, fire1 eff now h s))"
    using assms n(1,2) c by (simp add: timer_turn_def run_simps fire1_def quiet_timers_def Let_def)
  have "walk_handles (timer_turn cbs now) (tm_next n) (fire1 eff now h s) = Some (Ret ((), fired eff now xs (fire1 eff now h s)))"
    using n(3) fire1_hs[OF assms h] fire1_cb[OF assms Cons.prems(2)] by (intro Cons.IH) simp_all
  then show ?case using turn n(1) by (simp add: walk_handles.simps[of _ "Some h"] fired_def)
qed

lemma fired_hs:
  assumes "quiet_timers cbs eff" "distinct xs"
  shows "timer_hs (fired eff now xs s) h = map_option (\<lambda>n. if h \<in> set xs \<and> timeout n < now - tm_last_run_time n
    then n\<lparr>tm_last_run_time := now\<rparr> else n) (timer_hs s h)"
  using assms(2)
proof (induction xs arbitrary: s)
  case Nil
  then show ?case by (cases "timer_hs s h") (simp_all add: fired_def)
next
  case (Cons x xs)
  have "timer_hs (fire1 eff now x s) = (timer_hs s)(x := map_option (\<lambda>n. if timeout n < now - tm_last_run_time n
      then n\<lparr>tm_last_run_time := now\<rparr> else n) (timer_hs s x))"
    using assms(1) by (auto simp: fire1_def quiet_timers_def fun_eq_iff split: option.split)
  then show ?case using Cons by (cases "timer_hs s h") (auto simp: fired_def)
qed

section \<open>Properties\<close>

text \<open>A loop at 7 with the transmit handles 1, 2, 3 and the timers 30 and 31, on the state with three waiting packets.\<close>

definition demo_timer :: "u64 \<Rightarrow> ptr \<Rightarrow> tw_timer" where
  "demo_timer t p = \<lparr>tm_type = TW_TIMER_HANDLE, tm_last_run_time = 0, tm_next = p, timeout = t, timer_cb = Some 77\<rparr>"

definition demo_tx_handle :: "ptr \<Rightarrow> tw_tx" where
  "demo_tx_handle p = \<lparr>tx_type = TW_TX_HANDLE, tx_last_run_time = 0, tx_next = p, tx_cb = Some 78\<rparr>"

definition demo_loop :: evloop where
  "demo_loop = queue.extend (demo_queue\<lparr>malloc_src := (\<lambda>k. Some (200 + k))\<rparr>) (evloop.fields
     [7 \<mapsto> \<lparr>lp_data = None, active_handles = 5, rx_handle_queue = Some 40, tx_handle_queue = Some 1,
       timer_handle_queue = Some 30, stop_flag = 0, secs_to_run = 0\<rparr>]
     [40 \<mapsto> \<lparr>rx_type = TW_UDP_HANDLE, rx_last_run_time = 0, recv_cb = Some 79, rx_next = None\<rparr>]
     [1 \<mapsto> demo_tx_handle (Some 2), 2 \<mapsto> demo_tx_handle (Some 3), 3 \<mapsto> demo_tx_handle None]
     [30 \<mapsto> demo_timer 100 (Some 31), 31 \<mapsto> demo_timer 1000 None]
     (\<lambda>_. \<lparr>lp_data = None, active_handles = 0, rx_handle_queue = None, tx_handle_queue = None,
       timer_handle_queue = None, stop_flag = 0, secs_to_run = 0\<rparr>)
     (\<lambda>_. \<lparr>rx_type = 0, rx_last_run_time = 0, recv_cb = None, rx_next = None\<rparr>)
     (\<lambda>_. demo_tx_handle None) (\<lambda>_. demo_timer 0 None) 0 0)"

lemma demo_loop_views:
  "lcore_confs demo_loop = lcore_confs demo_queue" "lcore_id demo_loop = lcore_id demo_queue" "mbufs demo_loop = mbufs demo_queue"
  "arp_heap demo_loop = arp_heap demo_queue" "arp_table_root demo_loop = arp_table_root demo_queue" "arp_table_size demo_loop = arp_table_size demo_queue"
  "malloc_src demo_loop = (\<lambda>k. Some (200 + k))" "malloc_cnt demo_loop = 0"
  "loops demo_loop = [7 \<mapsto> \<lparr>lp_data = None, active_handles = 5, rx_handle_queue = Some 40, tx_handle_queue = Some 1,
       timer_handle_queue = Some 30, stop_flag = 0, secs_to_run = 0\<rparr>]"
  "tx_hs demo_loop = [1 \<mapsto> demo_tx_handle (Some 2), 2 \<mapsto> demo_tx_handle (Some 3), 3 \<mapsto> demo_tx_handle None]"
  "timer_hs demo_loop = [30 \<mapsto> demo_timer 100 (Some 31), 31 \<mapsto> demo_timer 1000 None]"
  "timer_junk demo_loop = (\<lambda>_. demo_timer 0 None)" "global_pps_limit demo_loop = 0"
  by (simp_all add: demo_loop_def queue.defs evloop.defs demo_queue_views)

lemma demo_loop_facts:
  "arp_good demo_loop" "a < 100 \<Longrightarrow> loose demo_loop a = Some demo_mbuf" "timers_of 7 demo_loop [30, 31]" "txs_of 7 demo_loop [1, 2, 3]"
proof -
  have v: "tx_inv demo_loop" "loose demo_loop = loose demo_queue"
    using demo_queue_facts(1) tx_view_cong[of demo_loop demo_queue] by (simp_all add: demo_loop_views)
  have "arp_tab demo_loop [(0x0A000009, EA 2 0 0 0 0 9, 1)]" using demo_queue_ready(3) by (simp add: arp_tab_def demo_loop_views)
  then show "arp_good demo_loop" using v by (auto simp: arp_good_def arp_ready_def malloc_fresh_def demo_loop_views demo_queue_more inj_on_def)
  show "a < 100 \<Longrightarrow> loose demo_loop a = Some demo_mbuf" using v demo_queue_facts(2) by simp
qed (simp_all add: timers_of_def txs_of_def demo_loop_views demo_timer_def demo_tx_handle_def)

text \<open>
  tw\_run does not return, whatever the callbacks do and whatever the loop is told: it runs for ever,
  faults or exits. In particular neither tw\_stop nor the running time given to tw\_default\_loop ends it.
\<close>

theorem tw_run_never_returns: "tw_run cbs tmp m0 lp s \<noteq> Some (Ret r)"
  unfolding tw_run_def using run_loop_no_return by fast

text \<open>
  C36. The dispatch of a received packet ends, for every content of the packet and every number of stacked
  VLAN tags, if the receive callbacks end: the jump back to the label is taken only after four bytes were
  removed, and a packet that is too short for another tag stops it.
\<close>

theorem dispatch_terminates:
  assumes "arp_good s" "loose s a = Some m" "\<And>c h b t. rx_code cbs c h b t \<noteq> None"
  shows "dispatch cbs rxh tmp i (Some a) s \<noteq> None"
  using assms by (rule dispatch_ends_aux)

theorem dispatch_terminates_witness:
  "dispatch \<lparr>rx_code = (\<lambda>_ _ _. ret ()), tx_code = (\<lambda>_ _. ret ()), timer_code = (\<lambda>_ _. ret ())\<rparr> (Some 40) 500 0 (Some 20) demo_loop \<noteq> None"
  using dispatch_terminates[OF demo_loop_facts(1) demo_loop_facts(2)[of 20]] by (simp add: ret_def)

text \<open>
  tw\_timer\_unregister removes exactly the given timer from a loop's queue, wherever it stands, frees it
  and counts one active handle less; a timer that is not in the queue is answered with 255 and
  nothing changes.
\<close>

theorem timer_unregister_exact:
  assumes "timers_of lp s xs"
  shows "if h \<in> set xs then \<exists>s'. tw_timer_unregister (Some h) (Some lp) s = Some (Ret (0, s')) \<and> timers_of lp s' (remove1 h xs) \<and>
      timer_hs s' h = None \<and> active_handles (the (loops s' lp)) = active_handles (the (loops s lp)) - 1
    else tw_timer_unregister (Some h) (Some lp) s = Some (Ret (255, s))"
proof -
  obtain l where l: "loops s lp = Some l" "chain tm_next (timer_hs s) (timer_handle_queue l) xs" using assms by (auto simp: timers_of_def)
  show ?thesis
  proof (cases "h \<in> set xs")
    case True
    then obtain us vs where xs: "xs = us @ h # vs" by (meson split_list)
    then have r: "remove1 h xs = us @ vs" using chain_distinct[OF l(2)] by (simp add: remove1_append)
    show ?thesis
    proof (cases us rule: rev_cases)
      case Nil
      then show ?thesis using True xs r timer_unregister_first[OF l(1)] l by auto
    next
      case (snoc ws p)
      then show ?thesis using True xs r timer_unregister_later[OF l(1), of ws p h vs] l by auto
    qed
  next
    case False
    then have "walk_prev tm_next (timer_hs s) (Some h) r = Some (Ret None) \<and> r \<noteq> h" if "timer_handle_queue l = Some r" for r
      using walk_prev_missing[of tm_next "timer_hs s" r xs h] l(2) that by (cases xs) auto
    then show ?thesis using False l(1) by (auto simp: tw_timer_unregister_def run_simps split: option.split)
  qed
qed

theorem timer_unregister_exact_witness:
  "\<exists>s'. tw_timer_unregister (Some 31) (Some 7) demo_loop = Some (Ret (0, s')) \<and> timers_of 7 s' [30] \<and> active_handles (the (loops s' 7)) = 4"
  using timer_unregister_exact[OF demo_loop_facts(3), of 31] by (auto simp: demo_loop_views)

text \<open>
  Registering a timer and unregistering it again gives the queue and the number of active handles there
  were before. The hypothesis that a fresh handle has no successor is about memory the code does not clear.
\<close>

theorem timer_register_roundtrip:
  assumes "timers_of lp s xs" "malloc_src s (malloc_cnt s) = Some a" "a \<notin> dom (timer_hs s)" "tm_next (timer_junk s a) = None"
  shows "\<exists>s1 s2. tw_timer_init (Some lp) s = Some (Ret (Some a, s1)) \<and> timers_of lp s1 (xs @ [a]) \<and>
    tw_timer_unregister (Some a) (Some lp) s1 = Some (Ret (0, s2)) \<and> timers_of lp s2 xs \<and>
    active_handles (the (loops s2 lp)) = active_handles (the (loops s lp))"
proof -
  obtain s1 where s1: "tw_timer_init (Some lp) s = Some (Ret (Some a, s1))" "timers_of lp s1 (xs @ [a])"
    "active_handles (the (loops s1 lp)) = active_handles (the (loops s lp)) + 1" using timer_init_run[OF assms] by blast
  obtain l where l: "loops s1 lp = Some l" "chain tm_next (timer_hs s1) (timer_handle_queue l) (xs @ [a])" using s1(2) by (auto simp: timers_of_def)
  show ?thesis
  proof (cases xs rule: rev_cases)
    case Nil
    then show ?thesis using s1 l timer_unregister_first[OF l(1), of a "[]"] by auto
  next
    case (snoc ws p)
    then show ?thesis using s1 l timer_unregister_later[OF l(1), of ws p a "[]"] by auto
  qed
qed

theorem timer_register_roundtrip_witness:
  "\<exists>s1 s2. tw_timer_init (Some 7) demo_loop = Some (Ret (Some 200, s1)) \<and> timers_of 7 s1 [30, 31, 200] \<and>
    tw_timer_unregister (Some 200) (Some 7) s1 = Some (Ret (0, s2)) \<and> timers_of 7 s2 [30, 31] \<and> active_handles (the (loops s2 7)) = 5"
  using timer_register_roundtrip[OF demo_loop_facts(3), of 200] by (auto simp: demo_loop_views demo_timer_def)




text \<open>A callback that counts in \<open>global_pps_limit\<close> how often it ran.\<close>

definition demo_cbs :: "evloop callbacks" where
  "demo_cbs = \<lparr>rx_code = (\<lambda>_ _ _. ret ()), tx_code = (\<lambda>_ _. ret ()), timer_code = (\<lambda>_ _. modify (\<lambda>s. s\<lparr>global_pps_limit := global_pps_limit s + 1\<rparr>))\<rparr>"


end
