(* ===== verification/CJson.thy ===== *)
theory CJson
  imports LinkedHeap CommonConv
begin

text \<open>
  \<open>twister/jsonmodule/cJSON.c\<close>, first part: the nodes of a JSON tree in memory, their allocation and
  release, and the functions that look up, link and unlink the items of an array or object. A node is a
  record in the heap \<open>nodes\<close>, a string that belongs to a node is a block of the heap \<open>strs\<close> (its characters
  without the terminator). A \<open>double\<close> is its 64 bit pattern; the arithmetic on them is the
  argument \<open>fp\<close>.
\<close>

section \<open>Recursive actions\<close>

text \<open>The rules that let a recursive function be written with the combinators.\<close>

lemma bnd_mono [partial_function_mono]:
  fixes B :: "('p \<Rightarrow> 'q option) \<Rightarrow> ('s, 'a) act" and C :: "('p \<Rightarrow> 'q option) \<Rightarrow> 'a \<Rightarrow> ('s, 'b) act"
  assumes "\<And>s. monotone (fun_ord option_ord) option_ord (\<lambda>f. B f s)"
    and "\<And>y s. monotone (fun_ord option_ord) option_ord (\<lambda>f. C f y s)"
  shows "monotone (fun_ord option_ord) option_ord (\<lambda>f. bnd (B f) (C f) s)"
proof (rule monotoneI)
  fix f g :: "'p \<Rightarrow> 'q option"
  assume fg: "fun_ord option_ord f g"
  have b: "option_ord (B f s) (B g s)" using assms(1)[of s] fg unfolding monotone_on_def by blast
  have c: "option_ord (C f y t) (C g y t)" for y t using assms(2)[of y t] fg unfolding monotone_on_def by blast
  show "option_ord (bnd (B f) (C f) s) (bnd (B g) (C g) s)"
  proof (cases "B f s")
    case None
    then show ?thesis by (simp add: bnd_def flat_ord_def)
  next
    case (Some r)
    then have "B g s = Some r" using b by (auto simp: flat_ord_def)
    then show ?thesis using Some c by (auto simp: bnd_def flat_ord_def split: outcome.splits)
  qed
qed

lemma if_mono [partial_function_mono]:
  assumes "monotone (fun_ord option_ord) option_ord (\<lambda>f. A f s)" "monotone (fun_ord option_ord) option_ord (\<lambda>f. B f s)"
  shows "monotone (fun_ord option_ord) option_ord (\<lambda>f. (if c then A f else B f) s)"
  using assms by (cases c) simp_all

section \<open>cJSON.h\<close>

abbreviation "cJSON_False \<equiv> (0 :: u32)"
abbreviation "cJSON_True \<equiv> (1 :: u32)"
abbreviation "cJSON_NULL \<equiv> (2 :: u32)"
abbreviation "cJSON_Number \<equiv> (3 :: u32)"
abbreviation "cJSON_String \<equiv> (4 :: u32)"
abbreviation "cJSON_Array \<equiv> (5 :: u32)"
abbreviation "cJSON_Object \<equiv> (6 :: u32)"
abbreviation "cJSON_IsReference \<equiv> (256 :: u32)"
abbreviation "cJSON_StringIsConst \<equiv> (512 :: u32)"

record cJSON =
  cj_next :: ptr
  cj_prev :: ptr
  cj_child :: ptr
  cj_type :: u32
  valuestring :: ptr
  valueint :: int
  valuedouble :: u64
  cj_string :: ptr

text \<open>
  \<open>mem_src f k\<close> is what call number \<open>k\<close> of an allocation function returns when the hook selects the
  function \<open>f\<close> (0 is \<open>malloc\<close>). \<open>cj_ep\<close> is the position of the last parse error.
\<close>

record json =
  nodes :: "cJSON heap"
  strs :: "string heap"
  mem_src :: "nat \<Rightarrow> nat \<Rightarrow> ptr"
  mem_cnt :: nat
  malloc_hook :: nat
  free_hook :: nat
  cj_ep :: ptr

text \<open>Floating point arithmetic of the machine and of the C library, on bit patterns.\<close>

record fp =
  fp_of_int :: "int \<Rightarrow> u64"
  fp_to_int :: "u64 \<Rightarrow> int"
  fp_of_float :: "u32 \<Rightarrow> u64"
  fp_add :: "u64 \<Rightarrow> u64 \<Rightarrow> u64"
  fp_sub :: "u64 \<Rightarrow> u64 \<Rightarrow> u64"
  fp_mul :: "u64 \<Rightarrow> u64 \<Rightarrow> u64"
  fp_pow :: "u64 \<Rightarrow> u64 \<Rightarrow> u64"
  fp_abs :: "u64 \<Rightarrow> u64"
  fp_floor :: "u64 \<Rightarrow> u64"
  fp_eq :: "u64 \<Rightarrow> u64 \<Rightarrow> bool"
  fp_le :: "u64 \<Rightarrow> u64 \<Rightarrow> bool"
  fp_lt :: "u64 \<Rightarrow> u64 \<Rightarrow> bool"
  fp_const :: "string \<Rightarrow> u64"
  fp_fmt :: "string \<Rightarrow> u64 \<Rightarrow> string"

section \<open>Memory\<close>

definition cJSON_malloc :: "(json, ptr) act" where
  "cJSON_malloc = (\<lambda>s. Some (Ret (mem_src s (malloc_hook s) (mem_cnt s), s\<lparr>mem_cnt := mem_cnt s + 1\<rparr>)))"

abbreviation "free_str \<equiv> free_cell strs strs_update"
abbreviation "free_node \<equiv> free_cell nodes nodes_update"
abbreviation "set_node \<equiv> set_cell nodes nodes_update"

definition cJSON_strdup :: "string \<Rightarrow> (json, ptr) act" where
  "cJSON_strdup str = bnd cJSON_malloc (\<lambda>p. case p of None \<Rightarrow> ret None
     | Some a \<Rightarrow> bnd (modify (\<lambda>s. s\<lparr>strs := (strs s)(a \<mapsto> str)\<rparr>)) (\<lambda>_. ret p))"

text \<open>The argument of \<open>cJSON_InitHooks\<close>: NULL, or a structure with two function pointers.\<close>

definition cJSON_InitHooks :: "(nat option \<times> nat option) option \<Rightarrow> (json, unit) act" where
  "cJSON_InitHooks hooks = (case hooks of
       None \<Rightarrow> modify (\<lambda>s. s\<lparr>malloc_hook := 0, free_hook := 0\<rparr>)
     | Some (mf, ff) \<Rightarrow> modify (\<lambda>s. s\<lparr>malloc_hook := (case mf of Some f \<Rightarrow> f | None \<Rightarrow> 0),
         free_hook := (case ff of Some f \<Rightarrow> f | None \<Rightarrow> 0)\<rparr>))"

definition zero_node :: cJSON where
  "zero_node = \<lparr>cj_next = None, cj_prev = None, cj_child = None, cj_type = 0, valuestring = None,
     valueint = 0, valuedouble = 0, cj_string = None\<rparr>"

definition cJSON_New_Item :: "(json, ptr) act" where
  "cJSON_New_Item = bnd cJSON_malloc (\<lambda>p. case p of None \<Rightarrow> ret None
     | Some a \<Rightarrow> bnd (modify (\<lambda>s. s\<lparr>nodes := (nodes s)(a \<mapsto> zero_node)\<rparr>)) (\<lambda>_. ret p))"

definition cJSON_GetErrorPtr :: "(json, ptr) act" where
  "cJSON_GetErrorPtr = gets cj_ep"

partial_function (option) cJSON_Delete :: "ptr \<Rightarrow> json \<Rightarrow> (unit \<times> json) res" where
  "cJSON_Delete c s = (if c = None then ret () s else
     bnd (deref nodes c) (\<lambda>n.
     bnd (if cj_type n AND cJSON_IsReference = 0 \<and> cj_child n \<noteq> None then cJSON_Delete (cj_child n) else ret ()) (\<lambda>_.
     bnd (deref nodes c) (\<lambda>n1.
     bnd (if cj_type n1 AND cJSON_IsReference = 0 then free_str (valuestring n1) else ret ()) (\<lambda>_.
     bnd (if cj_type n1 AND cJSON_StringIsConst = 0 then free_str (cj_string n1) else ret ()) (\<lambda>_.
     bnd (free_node c) (\<lambda>_.
     cJSON_Delete (cj_next n))))))) s)"

section \<open>Looking up\<close>

definition tolower :: "char \<Rightarrow> int" where
  "tolower c = (let n = of_char c :: int in if 65 \<le> n \<and> n \<le> 90 then n + 32 else n)"

fun casecmp :: "string \<Rightarrow> string \<Rightarrow> int" where
  "casecmp [] [] = 0"
| "casecmp [] (b # bs) = - tolower b"
| "casecmp (a # as) [] = tolower a"
| "casecmp (a # as) (b # bs) = (if tolower a = tolower b then casecmp as bs else tolower a - tolower b)"

definition cJSON_strcasecmp :: "string option \<Rightarrow> string option \<Rightarrow> int" where
  "cJSON_strcasecmp s1 s2 = (case s1 of
       None \<Rightarrow> if s2 = None then 0 else 1
     | Some a \<Rightarrow> (case s2 of None \<Rightarrow> 1 | Some b \<Rightarrow> casecmp a b))"

partial_function (option) count_nodes :: "cJSON heap \<Rightarrow> ptr \<Rightarrow> int \<Rightarrow> int res" where
  "count_nodes h c i = (case c of None \<Rightarrow> Some (Ret i)
     | Some a \<Rightarrow> (case h a of None \<Rightarrow> Some (Fault WildDeref) | Some n \<Rightarrow> count_nodes h (cj_next n) (i + 1)))"

definition cJSON_GetArraySize :: "ptr \<Rightarrow> (json, int) act" where
  "cJSON_GetArraySize array = bnd (deref nodes array) (\<lambda>n s. lift_res (count_nodes (nodes s) (cj_child n) 0) s)"

text \<open>\<open>while (c && k > 0) k--, c = c->next;\<close>\<close>

partial_function (option) walk_nth :: "cJSON heap \<Rightarrow> ptr \<Rightarrow> int \<Rightarrow> ptr res" where
  "walk_nth h c k = (case c of None \<Rightarrow> Some (Ret None)
     | Some a \<Rightarrow> if k > 0 then (case h a of None \<Rightarrow> Some (Fault WildDeref) | Some n \<Rightarrow> walk_nth h (cj_next n) (k - 1))
         else Some (Ret c))"

definition cJSON_GetArrayItem :: "ptr \<Rightarrow> int \<Rightarrow> (json, ptr) act" where
  "cJSON_GetArrayItem array item = bnd (deref nodes array) (\<lambda>n s. lift_res (walk_nth (nodes s) (cj_child n) item) s)"

text \<open>\<open>while (c && cJSON_strcasecmp(c->string, string)) i++, c = c->next;\<close>\<close>

partial_function (option) walk_name :: "cJSON heap \<Rightarrow> string heap \<Rightarrow> string \<Rightarrow> ptr \<Rightarrow> int \<Rightarrow> (ptr \<times> int) res" where
  "walk_name h st str c i = (case c of None \<Rightarrow> Some (Ret (None, i))
     | Some a \<Rightarrow> (case h a of None \<Rightarrow> Some (Fault WildDeref)
         | Some n \<Rightarrow> (case cj_string n of
             None \<Rightarrow> walk_name h st str (cj_next n) (i + 1)
           | Some b \<Rightarrow> (case st b of None \<Rightarrow> Some (Fault WildDeref)
               | Some name \<Rightarrow> if cJSON_strcasecmp (Some name) (Some str) = 0 then Some (Ret (c, i))
                   else walk_name h st str (cj_next n) (i + 1)))))"

definition cJSON_GetObjectItem :: "ptr \<Rightarrow> string \<Rightarrow> (json, ptr) act" where
  "cJSON_GetObjectItem object str = bnd (deref nodes object) (\<lambda>n s.
     bnd (lift_res (walk_name (nodes s) (strs s) str (cj_child n) 0)) (\<lambda>(c, i). ret c) s)"

section \<open>Linking and unlinking\<close>

definition suffix_object :: "ptr \<Rightarrow> ptr \<Rightarrow> (json, unit) act" where
  "suffix_object prev item =
     bnd (set_node prev (\<lambda>n. n\<lparr>cj_next := item\<rparr>)) (\<lambda>_. set_node item (\<lambda>n. n\<lparr>cj_prev := prev\<rparr>))"

definition create_reference :: "ptr \<Rightarrow> (json, ptr) act" where
  "create_reference item = bnd cJSON_New_Item (\<lambda>ref. if ref = None then ret None else
     bnd (deref nodes item) (\<lambda>n.
     bnd (set_node ref (\<lambda>_. n\<lparr>cj_string := None, cj_type := cj_type n OR cJSON_IsReference, cj_next := None, cj_prev := None\<rparr>)) (\<lambda>_.
     ret ref)))"

definition cJSON_AddItemToArray :: "ptr \<Rightarrow> ptr \<Rightarrow> (json, unit) act" where
  "cJSON_AddItemToArray array item = bnd (deref nodes array) (\<lambda>n.
     if item = None then ret ()
     else (case cj_child n of
         None \<Rightarrow> set_node array (\<lambda>n. n\<lparr>cj_child := item\<rparr>)
       | Some c \<Rightarrow> bnd (\<lambda>s. lift_res (walk_last cj_next (nodes s) c) s) (\<lambda>e. suffix_object (Some e) item)))"

definition cJSON_AddItemToObject :: "ptr \<Rightarrow> string \<Rightarrow> ptr \<Rightarrow> (json, unit) act" where
  "cJSON_AddItemToObject object str item = (if item = None then ret () else
     bnd (deref nodes item) (\<lambda>n.
     bnd (free_str (cj_string n)) (\<lambda>_.
     bnd (cJSON_strdup str) (\<lambda>p.
     bnd (set_node item (\<lambda>n. n\<lparr>cj_string := p\<rparr>)) (\<lambda>_.
     cJSON_AddItemToArray object item)))))"

text \<open>Here the caller's string is linked itself: \<open>str\<close> is its address.\<close>

definition cJSON_AddItemToObjectCS :: "ptr \<Rightarrow> ptr \<Rightarrow> ptr \<Rightarrow> (json, unit) act" where
  "cJSON_AddItemToObjectCS object str item = (if item = None then ret () else
     bnd (deref nodes item) (\<lambda>n.
     bnd (if cj_type n AND cJSON_StringIsConst = 0 then free_str (cj_string n) else ret ()) (\<lambda>_.
     bnd (set_node item (\<lambda>n. n\<lparr>cj_string := str, cj_type := cj_type n OR cJSON_StringIsConst\<rparr>)) (\<lambda>_.
     cJSON_AddItemToArray object item))))"

definition cJSON_AddItemReferenceToArray :: "ptr \<Rightarrow> ptr \<Rightarrow> (json, unit) act" where
  "cJSON_AddItemReferenceToArray array item = bnd (create_reference item) (cJSON_AddItemToArray array)"

definition cJSON_AddItemReferenceToObject :: "ptr \<Rightarrow> string \<Rightarrow> ptr \<Rightarrow> (json, unit) act" where
  "cJSON_AddItemReferenceToObject object str item = bnd (create_reference item) (cJSON_AddItemToObject object str)"

definition cJSON_DetachItemFromArray :: "ptr \<Rightarrow> int \<Rightarrow> (json, ptr) act" where
  "cJSON_DetachItemFromArray array which =
     bnd (deref nodes array) (\<lambda>a.
     bnd (\<lambda>s. lift_res (walk_nth (nodes s) (cj_child a) which) s) (\<lambda>c.
     if c = None then ret None else
     bnd (deref nodes c) (\<lambda>n.
     bnd (if cj_prev n \<noteq> None then set_node (cj_prev n) (\<lambda>p. p\<lparr>cj_next := cj_next n\<rparr>) else ret ()) (\<lambda>_.
     bnd (deref nodes c) (\<lambda>n.
     bnd (if cj_next n \<noteq> None then set_node (cj_next n) (\<lambda>p. p\<lparr>cj_prev := cj_prev n\<rparr>) else ret ()) (\<lambda>_.
     bnd (deref nodes c) (\<lambda>n. bnd (deref nodes array) (\<lambda>a.
     bnd (if c = cj_child a then set_node array (\<lambda>a. a\<lparr>cj_child := cj_next n\<rparr>) else ret ()) (\<lambda>_.
     bnd (set_node c (\<lambda>n. n\<lparr>cj_next := None, cj_prev := None\<rparr>)) (\<lambda>_.
     ret c))))))))))"

definition cJSON_DeleteItemFromArray :: "ptr \<Rightarrow> int \<Rightarrow> (json, unit) act" where
  "cJSON_DeleteItemFromArray array which = bnd (cJSON_DetachItemFromArray array which) cJSON_Delete"

definition cJSON_DetachItemFromObject :: "ptr \<Rightarrow> string \<Rightarrow> (json, ptr) act" where
  "cJSON_DetachItemFromObject object str =
     bnd (deref nodes object) (\<lambda>n.
     bnd (\<lambda>s. lift_res (walk_name (nodes s) (strs s) str (cj_child n) 0) s) (\<lambda>(c, i).
     if c \<noteq> None then cJSON_DetachItemFromArray object i else ret None))"

definition cJSON_DeleteItemFromObject :: "ptr \<Rightarrow> string \<Rightarrow> (json, unit) act" where
  "cJSON_DeleteItemFromObject object str = bnd (cJSON_DetachItemFromObject object str) cJSON_Delete"

definition cJSON_InsertItemInArray :: "ptr \<Rightarrow> int \<Rightarrow> ptr \<Rightarrow> (json, unit) act" where
  "cJSON_InsertItemInArray array which newitem =
     bnd (deref nodes array) (\<lambda>a.
     bnd (\<lambda>s. lift_res (walk_nth (nodes s) (cj_child a) which) s) (\<lambda>c.
     if c = None then cJSON_AddItemToArray array newitem else
     bnd (set_node newitem (\<lambda>n. n\<lparr>cj_next := c\<rparr>)) (\<lambda>_.
     bnd (deref nodes c) (\<lambda>n.
     bnd (set_node newitem (\<lambda>m. m\<lparr>cj_prev := cj_prev n\<rparr>)) (\<lambda>_.
     bnd (set_node c (\<lambda>n. n\<lparr>cj_prev := newitem\<rparr>)) (\<lambda>_.
     bnd (deref nodes array) (\<lambda>a.
     if c = cj_child a then set_node array (\<lambda>a. a\<lparr>cj_child := newitem\<rparr>)
     else bnd (deref nodes newitem) (\<lambda>m. set_node (cj_prev m) (\<lambda>p. p\<lparr>cj_next := newitem\<rparr>)))))))))"

definition cJSON_ReplaceItemInArray :: "ptr \<Rightarrow> int \<Rightarrow> ptr \<Rightarrow> (json, unit) act" where
  "cJSON_ReplaceItemInArray array which newitem =
     bnd (deref nodes array) (\<lambda>a.
     bnd (\<lambda>s. lift_res (walk_nth (nodes s) (cj_child a) which) s) (\<lambda>c.
     if c = None then ret () else
     bnd (deref nodes c) (\<lambda>n.
     bnd (set_node newitem (\<lambda>m. m\<lparr>cj_next := cj_next n\<rparr>)) (\<lambda>_.
     bnd (deref nodes c) (\<lambda>n.
     bnd (set_node newitem (\<lambda>m. m\<lparr>cj_prev := cj_prev n\<rparr>)) (\<lambda>_.
     bnd (deref nodes newitem) (\<lambda>m.
     bnd (if cj_next m \<noteq> None then set_node (cj_next m) (\<lambda>p. p\<lparr>cj_prev := newitem\<rparr>) else ret ()) (\<lambda>_.
     bnd (deref nodes array) (\<lambda>a.
     bnd (if c = cj_child a then set_node array (\<lambda>a. a\<lparr>cj_child := newitem\<rparr>)
          else bnd (deref nodes newitem) (\<lambda>m. set_node (cj_prev m) (\<lambda>p. p\<lparr>cj_next := newitem\<rparr>))) (\<lambda>_.
     bnd (set_node c (\<lambda>n. n\<lparr>cj_next := None, cj_prev := None\<rparr>)) (\<lambda>_.
     cJSON_Delete c)))))))))))"

definition cJSON_ReplaceItemInObject :: "ptr \<Rightarrow> string \<Rightarrow> ptr \<Rightarrow> (json, unit) act" where
  "cJSON_ReplaceItemInObject object str newitem =
     bnd (deref nodes object) (\<lambda>n.
     bnd (\<lambda>s. lift_res (walk_name (nodes s) (strs s) str (cj_child n) 0) s) (\<lambda>(c, i).
     if c \<noteq> None then
       bnd (cJSON_strdup str) (\<lambda>p.
       bnd (set_node newitem (\<lambda>m. m\<lparr>cj_string := p\<rparr>)) (\<lambda>_.
       cJSON_ReplaceItemInArray object i newitem))
     else ret ()))"

section \<open>Creating\<close>

definition create_typed :: "(cJSON \<Rightarrow> cJSON) \<Rightarrow> (json, ptr) act" where
  "create_typed f = bnd cJSON_New_Item (\<lambda>item. if item = None then ret None
     else bnd (set_node item f) (\<lambda>_. ret item))"

definition cJSON_CreateNull :: "(json, ptr) act" where
  "cJSON_CreateNull = create_typed (\<lambda>n. n\<lparr>cj_type := cJSON_NULL\<rparr>)"

definition cJSON_CreateTrue :: "(json, ptr) act" where
  "cJSON_CreateTrue = create_typed (\<lambda>n. n\<lparr>cj_type := cJSON_True\<rparr>)"

definition cJSON_CreateFalse :: "(json, ptr) act" where
  "cJSON_CreateFalse = create_typed (\<lambda>n. n\<lparr>cj_type := cJSON_False\<rparr>)"

definition cJSON_CreateBool :: "int \<Rightarrow> (json, ptr) act" where
  "cJSON_CreateBool b = create_typed (\<lambda>n. n\<lparr>cj_type := (if b \<noteq> 0 then cJSON_True else cJSON_False)\<rparr>)"

definition cJSON_CreateNumber :: "fp \<Rightarrow> u64 \<Rightarrow> (json, ptr) act" where
  "cJSON_CreateNumber fp num = create_typed (\<lambda>n. n\<lparr>cj_type := cJSON_Number, valuedouble := num, valueint := fp_to_int fp num\<rparr>)"

definition cJSON_CreateString :: "string \<Rightarrow> (json, ptr) act" where
  "cJSON_CreateString str = bnd cJSON_New_Item (\<lambda>item. if item = None then ret None else
     bnd (set_node item (\<lambda>n. n\<lparr>cj_type := cJSON_String\<rparr>)) (\<lambda>_.
     bnd (cJSON_strdup str) (\<lambda>p.
     bnd (set_node item (\<lambda>n. n\<lparr>valuestring := p\<rparr>)) (\<lambda>_. ret item))))"

definition cJSON_CreateArray :: "(json, ptr) act" where
  "cJSON_CreateArray = create_typed (\<lambda>n. n\<lparr>cj_type := cJSON_Array\<rparr>)"

definition cJSON_CreateObject :: "(json, ptr) act" where
  "cJSON_CreateObject = create_typed (\<lambda>n. n\<lparr>cj_type := cJSON_Object\<rparr>)"

text \<open>The loop of the functions that create an array: \<open>mk i\<close> creates element \<open>i\<close>, \<open>p\<close> is the element before it,
  \<open>k\<close> elements are left.\<close>

primrec create_loop :: "(nat \<Rightarrow> (json, ptr) act) \<Rightarrow> ptr \<Rightarrow> nat \<Rightarrow> nat \<Rightarrow> ptr \<Rightarrow> (json, unit) act" where
  "create_loop mk a 0 i p = ret ()"
| "create_loop mk a (Suc k) i p = bnd (mk i) (\<lambda>n.
     bnd (if i = 0 then set_node a (\<lambda>m. m\<lparr>cj_child := n\<rparr>) else suffix_object p n) (\<lambda>_.
     create_loop mk a k (i + 1) n))"

definition create_array :: "(nat \<Rightarrow> (json, ptr) act) \<Rightarrow> int \<Rightarrow> (json, ptr) act" where
  "create_array mk count = bnd cJSON_CreateArray (\<lambda>a. if a = None then ret None
     else bnd (create_loop mk a (nat count) 0 None) (\<lambda>_. ret a))"

definition cJSON_CreateIntArray :: "fp \<Rightarrow> int list \<Rightarrow> int \<Rightarrow> (json, ptr) act" where
  "cJSON_CreateIntArray fp numbers = create_array (\<lambda>i. bnd (index_ck numbers i) (\<lambda>x. cJSON_CreateNumber fp (fp_of_int fp x)))"

definition cJSON_CreateFloatArray :: "fp \<Rightarrow> u32 list \<Rightarrow> int \<Rightarrow> (json, ptr) act" where
  "cJSON_CreateFloatArray fp numbers = create_array (\<lambda>i. bnd (index_ck numbers i) (\<lambda>x. cJSON_CreateNumber fp (fp_of_float fp x)))"

definition cJSON_CreateDoubleArray :: "fp \<Rightarrow> u64 list \<Rightarrow> int \<Rightarrow> (json, ptr) act" where
  "cJSON_CreateDoubleArray fp numbers = create_array (\<lambda>i. bnd (index_ck numbers i) (cJSON_CreateNumber fp))"

definition cJSON_CreateStringArray :: "string list \<Rightarrow> int \<Rightarrow> (json, ptr) act" where
  "cJSON_CreateStringArray strings = create_array (\<lambda>i. bnd (index_ck strings i) cJSON_CreateString)"

section \<open>Duplicating\<close>

text \<open>The copy of a string field; \<open>False\<close> means that the memory ran out.\<close>

definition dup_str :: "ptr \<Rightarrow> (ptr \<Rightarrow> cJSON \<Rightarrow> cJSON) \<Rightarrow> ptr \<Rightarrow> (json, bool) act" where
  "dup_str src upd newitem = (if src = None then ret True else
     bnd (deref strs src) (\<lambda>str.
     bnd (cJSON_strdup str) (\<lambda>p.
     bnd (set_node newitem (upd p)) (\<lambda>_. ret (p \<noteq> None)))))"

text \<open>A call of the function, or its loop over the children with the pointers \<open>newitem\<close>, \<open>cptr\<close> and \<open>nptr\<close>.\<close>

datatype dup_call = Dup ptr bool | Dup_kids ptr ptr ptr

partial_function (option) dup_run :: "dup_call \<Rightarrow> json \<Rightarrow> (ptr \<times> json) res" where
  "dup_run call s = (case call of
       Dup item recurse \<Rightarrow> if item = None then ret None s else
         bnd cJSON_New_Item (\<lambda>newitem. if newitem = None then ret None else
         bnd (deref nodes item) (\<lambda>n.
         bnd (set_node newitem (\<lambda>m. m\<lparr>cj_type := cj_type n AND NOT cJSON_IsReference, valueint := valueint n, valuedouble := valuedouble n\<rparr>)) (\<lambda>_.
         bnd (dup_str (valuestring n) (\<lambda>p m. m\<lparr>valuestring := p\<rparr>) newitem) (\<lambda>ok.
         if \<not> ok then bnd (cJSON_Delete newitem) (\<lambda>_. ret None) else
         bnd (dup_str (cj_string n) (\<lambda>p m. m\<lparr>cj_string := p\<rparr>) newitem) (\<lambda>ok.
         if \<not> ok then bnd (cJSON_Delete newitem) (\<lambda>_. ret None) else
         if \<not> recurse then ret newitem else
         bnd (deref nodes item) (\<lambda>n. dup_run (Dup_kids newitem (cj_child n) None))))))) s
     | Dup_kids newitem cptr nptr \<Rightarrow> if cptr = None then ret newitem s else
         bnd (dup_run (Dup cptr True)) (\<lambda>newchild.
         if newchild = None then bnd (cJSON_Delete newitem) (\<lambda>_. ret None) else
         bnd (if nptr \<noteq> None then suffix_object nptr newchild
              else set_node newitem (\<lambda>m. m\<lparr>cj_child := newchild\<rparr>)) (\<lambda>_.
         bnd (deref nodes cptr) (\<lambda>c. dup_run (Dup_kids newitem (cj_next c) newchild)))) s)"

definition cJSON_Duplicate :: "ptr \<Rightarrow> bool \<Rightarrow> (json, ptr) act" where
  "cJSON_Duplicate item recurse = dup_run (Dup item recurse)"

end
