(* ===== verification/CJsonParse.thy ===== *)
theory CJsonParse
  imports CJson
begin

text \<open>
  \<open>twister/jsonmodule/cJSON.c\<close>, second part: the parser and \<open>cJSON_Minify\<close>. The text is the block of
  memory \<open>mem\<close> it is stored in, with its terminator, and a \<open>char *\<close> into it is an offset; a read behind the
  block is a fault. A store behind the end of the block an unescaped string is written to is a
  fault as well. The functions that only read return an \<open>outcome\<close>.
\<close>

section \<open>Characters\<close>

abbreviation NUL :: char where "NUL \<equiv> CHR 0x00"
abbreviation QUOTE :: char where "QUOTE \<equiv> CHR 0x22"
abbreviation BSLASH :: char where "BSLASH \<equiv> CHR 0x5C"

definition rd :: "string \<Rightarrow> nat \<Rightarrow> char outcome" where
  "rd mem p = (if p < length mem then Ret (mem ! p) else Fault OutOfBounds)"

definition code :: "char \<Rightarrow> nat" where
  "code c = of_char c"

lemma obnd_cong [fundef_cong]: "r = r' \<Longrightarrow> (\<And>x. r' = Ret x \<Longrightarrow> f x = g x) \<Longrightarrow> obnd r f = obnd r' g"
  by (cases r') simp_all

lemma rd_Ret [simp]: "rd mem p = Ret c \<longleftrightarrow> p < length mem \<and> c = mem ! p"
  by (auto simp: rd_def)

section \<open>Numbers\<close>

text \<open>\<open>while (*num >= '0' && *num <= '9') acc = f(*num++ - '0', acc);\<close> The \<open>do\<close> loops of the source are entered
  with a digit, so they are this loop too.\<close>

function digit_loop :: "(int \<Rightarrow> 'a \<Rightarrow> 'a) \<Rightarrow> string \<Rightarrow> nat \<Rightarrow> 'a \<Rightarrow> (nat \<times> 'a) outcome" where
  "digit_loop f mem p acc = obnd (rd mem p) (\<lambda>c.
     if isdigit c then digit_loop f mem (p + 1) (f (int (digit_val c)) acc) else Ret (p, acc))"
  by pat_completeness auto
termination by (relation "measure (\<lambda>(f, mem, p, acc). length mem - p)") auto

definition i32 :: "int \<Rightarrow> int" where
  "i32 x = sint (word_of_int x :: u32)"

text \<open>
  The text of a number in its parts: the digits before the point, those behind it with the (negative) scale they
  cause, and the exponent, whose overflow wraps. Each returns the position behind what it read.
\<close>

definition push_digit :: "fp \<Rightarrow> int \<Rightarrow> u64 \<Rightarrow> u64" where
  "push_digit fp d n = fp_add fp (fp_mul fp n (fp_of_int fp 10)) (fp_of_int fp d)"

definition scan_int :: "fp \<Rightarrow> string \<Rightarrow> nat \<Rightarrow> (nat \<times> u64) outcome" where
  "scan_int fp mem num =
     obnd (rd mem num) (\<lambda>c.
     let num = (if c = CHR ''0'' then num + 1 else num) in
     obnd (rd mem num) (\<lambda>c.
     if 49 \<le> code c \<and> code c \<le> 57 then digit_loop (push_digit fp) mem num (fp_of_int fp 0) else Ret (num, fp_of_int fp 0)))"

definition scan_frac :: "fp \<Rightarrow> string \<Rightarrow> nat \<Rightarrow> u64 \<Rightarrow> (nat \<times> u64 \<times> u64) outcome" where
  "scan_frac fp mem num n =
     obnd (rd mem num) (\<lambda>c.
     obnd (if c = CHR ''.'' then obnd (rd mem (num + 1)) (\<lambda>c1. Ret (isdigit c1)) else Ret False) (\<lambda>frac.
     if frac then digit_loop (\<lambda>d (n, scale). (push_digit fp d n, fp_sub fp scale (fp_of_int fp 1))) mem (num + 1) (n, fp_of_int fp 0)
     else Ret (num, n, fp_of_int fp 0)))"

definition scan_exp :: "string \<Rightarrow> nat \<Rightarrow> (nat \<times> int) outcome" where
  "scan_exp mem num =
     obnd (rd mem num) (\<lambda>c.
     if c = CHR ''e'' \<or> c = CHR ''E'' then
       obnd (rd mem (num + 1)) (\<lambda>c1.
       let (signsubscale, num) = (if c1 = CHR ''+'' then (1, num + 2) else if c1 = CHR ''-'' then (- 1, num + 2) else (1, num + 1)) in
       obnd (digit_loop (\<lambda>d a. i32 (a * 10 + d)) mem num 0) (\<lambda>(num, subscale). Ret (num, i32 (subscale * signsubscale))))
     else Ret (num, 0))"

definition scan_number :: "fp \<Rightarrow> string \<Rightarrow> nat \<Rightarrow> (nat \<times> u64) outcome" where
  "scan_number fp mem num =
     obnd (rd mem num) (\<lambda>c.
     let (sign, num) = (if c = CHR ''-'' then (fp_of_int fp (- 1), num + 1) else (fp_of_int fp 1, num)) in
     obnd (scan_int fp mem num) (\<lambda>(num, n).
     obnd (scan_frac fp mem num n) (\<lambda>(num, n, scale).
     obnd (scan_exp mem num) (\<lambda>(num, subscale).
     Ret (num, fp_mul fp (fp_mul fp sign n) (fp_pow fp (fp_of_int fp 10) (fp_add fp scale (fp_of_int fp subscale))))))))"

definition parse_number :: "fp \<Rightarrow> string \<Rightarrow> ptr \<Rightarrow> nat \<Rightarrow> (json, ptr) act" where
  "parse_number fp mem item num = bnd (lift_out (scan_number fp mem num)) (\<lambda>(num, n).
     bnd (set_node item (\<lambda>i. i\<lparr>valuedouble := n, valueint := fp_to_int fp n, cj_type := cJSON_Number\<rparr>)) (\<lambda>_.
     ret (Some num)))"

section \<open>Strings\<close>

definition hex_val :: "char \<Rightarrow> nat option" where
  "hex_val c = (if 48 \<le> code c \<and> code c \<le> 57 then Some (code c - 48)
     else if 65 \<le> code c \<and> code c \<le> 70 then Some (10 + code c - 65)
     else if 97 \<le> code c \<and> code c \<le> 102 then Some (10 + code c - 97) else None)"

text \<open>The four unrolled steps of \<open>parse_hex4\<close>; \<open>k\<close> more follow.\<close>

primrec hex_steps :: "nat \<Rightarrow> string \<Rightarrow> nat \<Rightarrow> u32 \<Rightarrow> u32 outcome" where
  "hex_steps 0 mem p h = Ret h"
| "hex_steps (Suc k) mem p h = obnd (rd mem p) (\<lambda>c. case hex_val c of None \<Rightarrow> Ret 0
     | Some d \<Rightarrow> hex_steps k mem (p + 1) (if k = 0 then h + of_nat d else push_bit 4 (h + of_nat d)))"

definition parse_hex4 :: "string \<Rightarrow> nat \<Rightarrow> u32 outcome" where
  "parse_hex4 mem p = hex_steps 4 mem p 0"

text \<open>The switch that writes a character from its last byte to its first, whose mark is \<open>firstByteMark[len]\<close>.\<close>

primrec utf8_put :: "nat \<Rightarrow> u32 \<Rightarrow> u32 \<Rightarrow> string" where
  "utf8_put 0 mark uc = [char_of (unat (uc OR mark))]"
| "utf8_put (Suc k) mark uc = utf8_put k mark (drop_bit 6 uc) @ [char_of (unat ((uc OR 0x80) AND 0xBF))]"

definition utf8 :: "u32 \<Rightarrow> string" where
  "utf8 uc = (if uc < 0x80 then utf8_put 0 0 uc else if uc < 0x800 then utf8_put 1 0xC0 uc
     else if uc < 0x10000 then utf8_put 2 0xE0 uc else utf8_put 3 0xF0 uc)"

text \<open>What follows a backslash at \<open>p\<close>: the bytes to write, and where \<open>ptr\<close> is at the end of the switch.\<close>

definition unescape :: "string \<Rightarrow> nat \<Rightarrow> (string \<times> nat) outcome" where
  "unescape mem p = obnd (rd mem p) (\<lambda>c.
     if c = CHR ''b'' then Ret ([CHR 0x08], p)
     else if c = CHR ''f'' then Ret ([CHR 0x0C], p)
     else if c = CHR ''n'' then Ret ([CHR 0x0A], p)
     else if c = CHR ''r'' then Ret ([CHR 0x0D], p)
     else if c = CHR ''t'' then Ret ([CHR 0x09], p)
     else if c = CHR ''u'' then
       obnd (parse_hex4 mem (p + 1)) (\<lambda>uc.
       if (uc \<ge> 0xDC00 \<and> uc \<le> 0xDFFF) \<or> uc = 0 then Ret ([], p + 4)
       else if uc \<ge> 0xD800 \<and> uc \<le> 0xDBFF then
         obnd (rd mem (p + 5)) (\<lambda>c1. if c1 \<noteq> BSLASH then Ret ([], p + 4) else
         obnd (rd mem (p + 6)) (\<lambda>c2. if c2 \<noteq> CHR ''u'' then Ret ([], p + 4) else
         obnd (parse_hex4 mem (p + 7)) (\<lambda>uc2.
         if uc2 < 0xDC00 \<or> uc2 > 0xDFFF then Ret ([], p + 10)
         else Ret (utf8 (0x10000 + (push_bit 10 (uc AND 0x3FF) OR (uc2 AND 0x3FF))), p + 10))))
       else Ret (utf8 uc, p + 4))
     else Ret ([c], p))"

text \<open>The first loop, which counts how much memory to allocate.\<close>

function scan_len :: "string \<Rightarrow> nat \<Rightarrow> nat \<Rightarrow> nat outcome" where
  "scan_len mem p len = obnd (rd mem p) (\<lambda>c.
     if c = QUOTE \<or> c = NUL then Ret len
     else if c = BSLASH then scan_len mem (p + 2) (len + 1) else scan_len mem (p + 1) (len + 1))"
  by pat_completeness auto
termination by (relation "measure (\<lambda>(mem, p, len). length mem - p)") auto

lemma unescape_ge: "unescape mem p = Ret (bs, q) \<Longrightarrow> p \<le> q"
  by (auto simp: unescape_def obnd_def split: outcome.splits if_splits)

text \<open>The second loop, which writes to a block of \<open>cap\<close> bytes.\<close>

function copy_str :: "string \<Rightarrow> nat \<Rightarrow> nat \<Rightarrow> string \<Rightarrow> (nat \<times> string) outcome" where
  "copy_str mem cap p out = obnd (rd mem p) (\<lambda>c.
     if c = QUOTE \<or> c = NUL then Ret (p, out)
     else if c \<noteq> BSLASH then
       (if length out < cap then copy_str mem cap (p + 1) (out @ [c]) else Fault OutOfBounds)
     else obnd (unescape mem (p + 1)) (\<lambda>(bs, q).
       if length out + length bs \<le> cap then copy_str mem cap (q + 1) (out @ bs) else Fault OutOfBounds))"
  by pat_completeness auto
termination
  by (relation "measure (\<lambda>(mem, cap, p, out). length mem - p)") (auto dest!: unescape_ge)

definition parse_string :: "string \<Rightarrow> ptr \<Rightarrow> nat \<Rightarrow> (json, ptr) act" where
  "parse_string mem item str =
     bnd (lift_out (rd mem str)) (\<lambda>c.
     if c \<noteq> QUOTE then bnd (modify (\<lambda>s. s\<lparr>cj_ep := Some str\<rparr>)) (\<lambda>_. ret None) else
     bnd (lift_out (scan_len mem (str + 1) 0)) (\<lambda>len.
     bnd cJSON_malloc (\<lambda>out. case out of None \<Rightarrow> ret None | Some a \<Rightarrow>
     bnd (lift_out (copy_str mem (len + 1) (str + 1) [])) (\<lambda>(q, bytes).
     if length bytes < len + 1 then
       bnd (modify (\<lambda>s. s\<lparr>strs := (strs s)(a \<mapsto> takeWhile (\<lambda>c. c \<noteq> NUL) bytes)\<rparr>)) (\<lambda>_.
       bnd (set_node item (\<lambda>i. i\<lparr>valuestring := Some a, cj_type := cJSON_String\<rparr>)) (\<lambda>_.
       ret (Some (if mem ! q = QUOTE then q + 1 else q))))
     else fault OutOfBounds))))"

section \<open>Values\<close>

function skip :: "string \<Rightarrow> nat \<Rightarrow> nat outcome" where
  "skip mem p = obnd (rd mem p) (\<lambda>c. if c \<noteq> NUL \<and> code c \<le> 32 then skip mem (p + 1) else Ret p)"
  by pat_completeness auto
termination by (relation "measure (\<lambda>(mem, p). length mem - p)") auto

definition skip_ptr :: "string \<Rightarrow> ptr \<Rightarrow> (json, ptr) act" where
  "skip_ptr mem q = (case q of None \<Rightarrow> ret None | Some p \<Rightarrow> bnd (lift_out (skip mem p)) (\<lambda>r. ret (Some r)))"

text \<open>\<open>!strncmp(value, lit, strlen(lit))\<close>\<close>

primrec starts_with :: "string \<Rightarrow> nat \<Rightarrow> string \<Rightarrow> bool outcome" where
  "starts_with mem p [] = Ret True"
| "starts_with mem p (c # cs) = obnd (rd mem p) (\<lambda>d. if d = c then starts_with mem (p + 1) cs else Ret False)"

abbreviation set_ep :: "nat \<Rightarrow> (json, unit) act" where
  "set_ep p \<equiv> modify (\<lambda>s. s\<lparr>cj_ep := Some p\<rparr>)"

text \<open>
  The calls of the parser: \<open>P_value\<close> parses the value at an offset into an item; \<open>P_elem\<close> an element of an array
  and then, with \<open>P_elems\<close>, the rest of the loop from the pointer the element's call returned; \<open>P_member\<close>,
  \<open>P_mvalue\<close> and \<open>P_members\<close> are the name, the value and the rest of the loop for the members of an object;
  \<open>P_done\<close> is a return. The steps between two recursive calls come first.
\<close>

datatype parse_call = P_done ptr | P_value ptr nat | P_elem ptr nat | P_elems ptr ptr
  | P_member ptr nat | P_mvalue ptr nat | P_members ptr ptr

definition parse_array_open :: "string \<Rightarrow> ptr \<Rightarrow> nat \<Rightarrow> (json, parse_call) act" where
  "parse_array_open mem item value =
     bnd (set_node item (\<lambda>i. i\<lparr>cj_type := cJSON_Array\<rparr>)) (\<lambda>_.
     bnd (lift_out (skip mem (value + 1))) (\<lambda>value.
     bnd (lift_out (rd mem value)) (\<lambda>c. if c = CHR '']'' then ret (P_done (Some (value + 1))) else
     bnd cJSON_New_Item (\<lambda>child.
     bnd (set_node item (\<lambda>i. i\<lparr>cj_child := child\<rparr>)) (\<lambda>_. if child = None then ret (P_done None) else
     bnd (lift_out (skip mem value)) (\<lambda>v. ret (P_elem child v)))))))"

definition parse_object_open :: "string \<Rightarrow> ptr \<Rightarrow> nat \<Rightarrow> (json, parse_call) act" where
  "parse_object_open mem item value =
     bnd (set_node item (\<lambda>i. i\<lparr>cj_type := cJSON_Object\<rparr>)) (\<lambda>_.
     bnd (lift_out (skip mem (value + 1))) (\<lambda>value.
     bnd (lift_out (rd mem value)) (\<lambda>c. if c = CHR ''}'' then ret (P_done (Some (value + 1))) else
     bnd cJSON_New_Item (\<lambda>child.
     bnd (set_node item (\<lambda>i. i\<lparr>cj_child := child\<rparr>)) (\<lambda>_. if child = None then ret (P_done None) else
     ret (P_member child value))))))"

definition value_step :: "fp \<Rightarrow> string \<Rightarrow> ptr \<Rightarrow> nat \<Rightarrow> (json, parse_call) act" where
  "value_step fp mem item value =
     bnd (lift_out (starts_with mem value ''null'')) (\<lambda>b.
     if b then bnd (set_node item (\<lambda>i. i\<lparr>cj_type := cJSON_NULL\<rparr>)) (\<lambda>_. ret (P_done (Some (value + 4)))) else
     bnd (lift_out (starts_with mem value ''false'')) (\<lambda>b.
     if b then bnd (set_node item (\<lambda>i. i\<lparr>cj_type := cJSON_False\<rparr>)) (\<lambda>_. ret (P_done (Some (value + 5)))) else
     bnd (lift_out (starts_with mem value ''true'')) (\<lambda>b.
     if b then bnd (set_node item (\<lambda>i. i\<lparr>cj_type := cJSON_True, valueint := 1\<rparr>)) (\<lambda>_. ret (P_done (Some (value + 4)))) else
     bnd (lift_out (rd mem value)) (\<lambda>c.
     if c = QUOTE then bnd (parse_string mem item value) (\<lambda>q. ret (P_done q)) else
     if c = CHR ''-'' \<or> isdigit c then bnd (parse_number fp mem item value) (\<lambda>q. ret (P_done q)) else
     if c = CHR ''['' then parse_array_open mem item value else
     if c = CHR ''{'' then parse_object_open mem item value else
     bnd (set_ep value) (\<lambda>_. ret (P_done None))))))"

text \<open>The head of both loops; \<open>cont\<close> is what follows a comma, \<open>close\<close> the closing bracket.\<close>

definition loop_step :: "string \<Rightarrow> char \<Rightarrow> (ptr \<Rightarrow> nat \<Rightarrow> (json, parse_call) act) \<Rightarrow> ptr \<Rightarrow> ptr \<Rightarrow> (json, parse_call) act" where
  "loop_step mem close cont child q =
     bnd (skip_ptr mem q) (\<lambda>q. if q = None then ret (P_done None) else
     bnd (lift_out (rd mem (the q))) (\<lambda>c.
     if c = CHR '','' then
       bnd cJSON_New_Item (\<lambda>new_item. if new_item = None then ret (P_done None) else
       bnd (set_node child (\<lambda>n. n\<lparr>cj_next := new_item\<rparr>)) (\<lambda>_.
       bnd (set_node new_item (\<lambda>n. n\<lparr>cj_prev := child\<rparr>)) (\<lambda>_.
       cont new_item (the q + 1))))
     else if c = close then ret (P_done (Some (the q + 1)))
     else bnd (set_ep (the q)) (\<lambda>_. ret (P_done None))))"

definition elems_step :: "string \<Rightarrow> ptr \<Rightarrow> ptr \<Rightarrow> (json, parse_call) act" where
  "elems_step mem = loop_step mem (CHR '']'') (\<lambda>c v. bnd (lift_out (skip mem v)) (\<lambda>v. ret (P_elem c v)))"

definition members_step :: "string \<Rightarrow> ptr \<Rightarrow> ptr \<Rightarrow> (json, parse_call) act" where
  "members_step mem = loop_step mem (CHR ''}'') (\<lambda>c v. ret (P_member c v))"

definition member_step :: "string \<Rightarrow> ptr \<Rightarrow> nat \<Rightarrow> (json, parse_call) act" where
  "member_step mem child value =
     bnd (lift_out (skip mem value)) (\<lambda>v.
     bnd (parse_string mem child v) (\<lambda>q.
     bnd (skip_ptr mem q) (\<lambda>q. if q = None then ret (P_done None) else
     bnd (set_node child (\<lambda>n. n\<lparr>cj_string := valuestring n, valuestring := None\<rparr>)) (\<lambda>_.
     bnd (lift_out (rd mem (the q))) (\<lambda>c. if c \<noteq> CHR '':'' then bnd (set_ep (the q)) (\<lambda>_. ret (P_done None)) else
     bnd (lift_out (skip mem (the q + 1))) (\<lambda>v. ret (P_mvalue child v)))))))"

partial_function (option) parse_run :: "fp \<Rightarrow> string \<Rightarrow> parse_call \<Rightarrow> json \<Rightarrow> (ptr \<times> json) res" where
  "parse_run fp mem call s = (case call of
       P_done q \<Rightarrow> ret q s
     | P_value item v \<Rightarrow> bnd (value_step fp mem item v) (\<lambda>c. parse_run fp mem c) s
     | P_elem item v \<Rightarrow> bnd (parse_run fp mem (P_value item v)) (\<lambda>q. parse_run fp mem (P_elems item q)) s
     | P_elems child q \<Rightarrow> bnd (elems_step mem child q) (\<lambda>c. parse_run fp mem c) s
     | P_member child v \<Rightarrow> bnd (member_step mem child v) (\<lambda>c. parse_run fp mem c) s
     | P_mvalue child v \<Rightarrow> bnd (parse_run fp mem (P_value child v)) (\<lambda>q. parse_run fp mem (P_members child q)) s
     | P_members child q \<Rightarrow> bnd (members_step mem child q) (\<lambda>c. parse_run fp mem c) s)"

definition parse_value :: "fp \<Rightarrow> string \<Rightarrow> ptr \<Rightarrow> ptr \<Rightarrow> (json, ptr) act" where
  "parse_value fp mem item value = (case value of None \<Rightarrow> ret None | Some v \<Rightarrow> parse_run fp mem (P_value item v))"

text \<open>
  What follows the call of \<open>parse_value\<close>. The second result is what is stored through \<open>return_parse_end\<close>, if the caller gave it.
\<close>

definition parse_end :: "string \<Rightarrow> bool \<Rightarrow> bool \<Rightarrow> ptr \<Rightarrow> ptr \<Rightarrow> (json, ptr \<times> ptr) act" where
  "parse_end mem return_parse_end require_null_terminated c e =
     (if e = None then bnd (cJSON_Delete c) (\<lambda>_. ret (None, None)) else
     bnd (if require_null_terminated then skip_ptr mem e else ret e) (\<lambda>e.
     bnd (if require_null_terminated then bnd (lift_out (rd mem (the e))) (\<lambda>ch. ret (ch \<noteq> NUL)) else ret False) (\<lambda>junk.
     if junk then bnd (cJSON_Delete c) (\<lambda>_. bnd (modify (\<lambda>s. s\<lparr>cj_ep := e\<rparr>)) (\<lambda>_. ret (None, None)))
     else ret (c, if return_parse_end then e else None))))"

definition cJSON_ParseWithOpts :: "fp \<Rightarrow> string \<Rightarrow> ptr \<Rightarrow> bool \<Rightarrow> bool \<Rightarrow> (json, ptr \<times> ptr) act" where
  "cJSON_ParseWithOpts fp mem value return_parse_end require_null_terminated =
     bnd cJSON_New_Item (\<lambda>c.
     bnd (modify (\<lambda>s. s\<lparr>cj_ep := None\<rparr>)) (\<lambda>_. if c = None then ret (None, None) else
     bnd (skip_ptr mem value) (\<lambda>v.
     bnd (parse_value fp mem c v) (\<lambda>e. parse_end mem return_parse_end require_null_terminated c e))))"

definition cJSON_Parse :: "fp \<Rightarrow> string \<Rightarrow> ptr \<Rightarrow> (json, ptr) act" where
  "cJSON_Parse fp mem value = bnd (cJSON_ParseWithOpts fp mem value False False) (\<lambda>(c, e). ret c)"

section \<open>Minifying\<close>

text \<open>
  \<open>cJSON_Minify\<close> works in place: it reads at \<open>json\<close> and writes at \<open>into\<close>. The loops that skip a comment, and the one that copies
  a string behind its opening quote, come first; each gives the pointers (and the memory) at its end.
\<close>

definition wr :: "string \<Rightarrow> nat \<Rightarrow> char \<Rightarrow> string outcome" where
  "wr mem p c = (if p < length mem then Ret (mem[p := c]) else Fault OutOfBounds)"

function skip_line :: "string \<Rightarrow> nat \<Rightarrow> nat outcome" where
  "skip_line mem json = obnd (rd mem json) (\<lambda>c. if c \<noteq> NUL \<and> c \<noteq> CHR 0x0A then skip_line mem (json + 1) else Ret json)"
  by pat_completeness auto
termination by (relation "measure (\<lambda>(mem, p). length mem - p)") auto

function skip_comment :: "string \<Rightarrow> nat \<Rightarrow> nat outcome" where
  "skip_comment mem json = obnd (rd mem json) (\<lambda>c. if c = NUL then Ret json else
     obnd (if c = CHR ''*'' then obnd (rd mem (json + 1)) (\<lambda>d. Ret (d = CHR ''/'')) else Ret False) (\<lambda>end.
     if end then Ret json else skip_comment mem (json + 1)))"
  by pat_completeness auto
termination by (relation "measure (\<lambda>(mem, p). length mem - p)") auto

declare skip_line.simps [simp del] skip_comment.simps [simp del]

definition copy_char :: "string \<Rightarrow> nat \<Rightarrow> nat \<Rightarrow> string outcome" where
  "copy_char mem json into = obnd (rd mem json) (\<lambda>c. wr mem into c)"

lemma copy_char_length: "copy_char mem json into = Ret mem' \<Longrightarrow> length mem' = length mem"
  by (auto simp: copy_char_def wr_def obnd_def split: outcome.splits if_splits)

function copy_literal :: "string \<Rightarrow> nat \<Rightarrow> nat \<Rightarrow> (string \<times> nat \<times> nat) outcome" where
  "copy_literal mem json into = obnd (rd mem json) (\<lambda>c.
     if c = NUL \<or> c = QUOTE then Ret (mem, json, into)
     else if c = BSLASH then obnd (copy_char mem json into) (\<lambda>mem.
       obnd (copy_char mem (json + 1) (into + 1)) (\<lambda>mem. copy_literal mem (json + 2) (into + 2)))
     else obnd (copy_char mem json into) (\<lambda>mem. copy_literal mem (json + 1) (into + 1)))"
  by pat_completeness auto
termination by (relation "measure (\<lambda>(mem, p, q). length mem - p)") (auto dest!: copy_char_length)

declare copy_literal.simps [simp del]

lemma copy_literal_props: "copy_literal mem json into = Ret (mem', json', into') \<Longrightarrow> length mem' = length mem \<and> json \<le> json'"
proof (induction mem json into rule: copy_literal.induct)
  case (1 mem json into)
  have r: "json < length mem" using 1(3) by (auto simp: copy_literal.simps[of mem json] rd_def split: if_splits)
  consider (stop) "mem ! json = NUL \<or> mem ! json = QUOTE" | (esc) "mem ! json = BSLASH" | (raw) "mem ! json \<noteq> NUL" "mem ! json \<noteq> QUOTE" "mem ! json \<noteq> BSLASH" by blast
  then show ?case
  proof cases
    case stop
    then show ?thesis using 1(3) r by (auto simp: copy_literal.simps[of mem json] rd_def)
  next
    case esc
    then obtain m1 m2 where m: "copy_char mem json into = Ret m1" "copy_char m1 (json + 1) (into + 1) = Ret m2" "copy_literal m2 (json + 2) (into + 2) = Ret (mem', json', into')"
      using 1(3) r by (auto simp: copy_literal.simps[of mem json] rd_def obnd_def split: outcome.splits)
    then show ?thesis using 1(1)[of BSLASH m1 m2] r esc copy_char_length[OF m(1)] copy_char_length[OF m(2)] by (simp add: rd_def)
  next
    case raw
    then obtain m1 where m: "copy_char mem json into = Ret m1" "copy_literal m1 (json + 1) (into + 1) = Ret (mem', json', into')"
      using 1(3) r by (auto simp: copy_literal.simps[of mem json] rd_def obnd_def split: outcome.splits)
    then show ?thesis using 1(2)[of "mem ! json" m1] r raw copy_char_length[OF m(1)] by (simp add: rd_def)
  qed
qed

lemma skip_line_ge: "skip_line mem p = Ret q \<Longrightarrow> p \<le> q"
proof (induction mem p rule: skip_line.induct)
  case (1 mem p)
  show ?case
  proof (cases "p < length mem \<and> mem ! p \<noteq> NUL \<and> mem ! p \<noteq> CHR 0x0A")
    case True
    then show ?thesis using 1(2) 1(1)[of "mem ! p"] by (simp add: skip_line.simps[of mem p] rd_def)
  qed (use 1(2) in \<open>auto simp: skip_line.simps[of mem p] rd_def split: if_splits\<close>)
qed

lemma skip_line_gt: "skip_line mem p = Ret q \<Longrightarrow> rd mem p = Ret c \<Longrightarrow> c \<noteq> NUL \<Longrightarrow> c \<noteq> CHR 0x0A \<Longrightarrow> p < q"
  using skip_line_ge[of mem "p + 1" q] by (simp add: skip_line.simps[of mem p] rd_def split: if_splits)

lemma skip_comment_ge: "skip_comment mem p = Ret q \<Longrightarrow> p \<le> q"
proof (induction mem p rule: skip_comment.induct)
  case (1 mem p)
  then show ?case by (fastforce simp: skip_comment.simps[of mem p] obnd_def split: outcome.splits if_splits)
qed

function minify :: "string \<Rightarrow> nat \<Rightarrow> nat \<Rightarrow> string outcome" where
  "minify mem json into = obnd (rd mem json) (\<lambda>c.
     if c = NUL then wr mem into NUL
     else if c = CHR '' '' \<or> c = CHR 0x09 \<or> c = CHR 0x0D \<or> c = CHR 0x0A then minify mem (json + 1) into
     else obnd (if c = CHR ''/'' then rd mem (json + 1) else Ret NUL) (\<lambda>d.
     if c = CHR ''/'' \<and> d = CHR ''/'' then obnd (skip_line mem json) (\<lambda>json. minify mem json into)
     else if c = CHR ''/'' \<and> d = CHR ''*'' then obnd (skip_comment mem json) (\<lambda>json. minify mem (json + 2) into)
     else if c = QUOTE then obnd (copy_char mem json into) (\<lambda>mem.
       obnd (copy_literal mem (json + 1) (into + 1)) (\<lambda>(mem, json, into).
       obnd (copy_char mem json into) (\<lambda>mem. minify mem (json + 1) (into + 1))))
     else obnd (copy_char mem json into) (\<lambda>mem. minify mem (json + 1) (into + 1))))"
  by pat_completeness auto
termination
proof (relation "measure (\<lambda>(mem, p, q). length mem - p)", goal_cases)
  case 1
  then show ?case by simp
next
  case (3 mem json into c d json')
  then show ?case using skip_line_gt[of mem json json' c] by auto
next
  case (4 mem json into c d json')
  then show ?case using skip_comment_ge[of mem json json'] by auto
next
  case (5 mem json into c d m1 r m2 r' p q m3)
  then show ?case using copy_literal_props[of m1 "json + 1" "into + 1" m2 p q] by (auto dest!: copy_char_length)
qed (auto dest!: copy_char_length)

declare minify.simps [simp del]

definition cJSON_Minify :: "string \<Rightarrow> nat \<Rightarrow> string outcome" where
  "cJSON_Minify mem json = minify mem json json"

end
