(* ===== verification/CJsonPrint.thy ===== *)
theory CJsonPrint
  imports CJsonParse
begin

text \<open>
  \<open>twister/jsonmodule/cJSON.c\<close>, third part: rendering a tree to text. A string a function returns to its
  caller is a value, or \<open>None\<close> for NULL; each allocation still asks the allocator, and a text that does not fit the
  block the code asked for is a fault. \<open>cJSON_PrintBuffered\<close>, which nothing in the repository calls, is left out.
\<close>

section \<open>Scalars\<close>

text \<open>Text of length \<open>n\<close> with its terminator, written to a fresh block of \<open>sz\<close> bytes.\<close>

definition fresh_text :: "int \<Rightarrow> string \<Rightarrow> (json, string option) act" where
  "fresh_text sz txt = bnd cJSON_malloc (\<lambda>out. if out = None then ret None
     else if int (length txt) < sz then ret (Some txt) else fault OutOfBounds)"

definition int_str :: "int \<Rightarrow> string" where
  "int_str i = (if i < 0 then CHR ''-'' # dec_str (nat (- i)) else dec_str (nat i))"

text \<open>What \<open>print_number\<close> writes, and the size of the block it asks for.\<close>

definition number_text :: "fp \<Rightarrow> int \<Rightarrow> u64 \<Rightarrow> int \<times> string" where
  "number_text fp i d =
     (if fp_eq fp d (fp_of_int fp 0) then (2, ''0'')
      else if fp_le fp (fp_abs fp (fp_sub fp (fp_of_int fp i) d)) (fp_const fp ''DBL_EPSILON'') \<and>
              fp_le fp d (fp_of_int fp 2147483647) \<and> fp_le fp (fp_of_int fp (- 2147483648)) d then (21, int_str i)
      else (64, if fp_le fp (fp_abs fp (fp_sub fp (fp_floor fp d) d)) (fp_const fp ''DBL_EPSILON'') \<and>
                   fp_lt fp (fp_abs fp d) (fp_const fp ''1.0e60'') then fp_fmt fp ''%.0f'' d
                else if fp_lt fp (fp_abs fp d) (fp_const fp ''1.0e-6'') \<or> fp_lt fp (fp_const fp ''1.0e9'') (fp_abs fp d)
                then fp_fmt fp ''%e'' d else fp_fmt fp ''%f'' d))"

definition print_number :: "fp \<Rightarrow> cJSON \<Rightarrow> (json, string option) act" where
  "print_number fp n = (case number_text fp (valueint n) (valuedouble n) of (sz, txt) \<Rightarrow> fresh_text sz txt)"

text \<open>The characters that need an escape, and the escape.\<close>

definition needs_escape :: "char \<Rightarrow> bool" where
  "needs_escape c \<longleftrightarrow> code c < 32 \<or> c = QUOTE \<or> c = BSLASH"

definition short_escape :: "char \<Rightarrow> char option" where
  "short_escape c = (if c = BSLASH then Some BSLASH else if c = QUOTE then Some QUOTE
     else if c = CHR 0x08 then Some (CHR ''b'') else if c = CHR 0x0C then Some (CHR ''f'')
     else if c = CHR 0x0A then Some (CHR ''n'') else if c = CHR 0x0D then Some (CHR ''r'')
     else if c = CHR 0x09 then Some (CHR ''t'') else None)"

definition hex_char :: "nat \<Rightarrow> char" where
  "hex_char d = (if d < 10 then char_of (48 + d) else char_of (87 + d))"

text \<open>\<open>sprintf(ptr2, "u%04x", token)\<close>\<close>

definition escape :: "char \<Rightarrow> string" where
  "escape c = (if \<not> needs_escape c then [c] else BSLASH # (case short_escape c of Some e \<Rightarrow> [e]
     | None \<Rightarrow> [CHR ''u'', CHR ''0'', CHR ''0'', hex_char (code c div 16), hex_char (code c mod 16)]))"

definition escape_len :: "char \<Rightarrow> int" where
  "escape_len c = 1 + (if short_escape c \<noteq> None then 1 else if code c < 32 then 5 else 0)"

text \<open>The text of a string and the size of its block. The first loop reads the string before the test for NULL.\<close>

definition string_text :: "string \<Rightarrow> int \<times> string" where
  "string_text str = (if \<not> list_ex needs_escape str then (int (length str) + 3, QUOTE # str @ [QUOTE])
     else (sum_list (map escape_len str) + 3, QUOTE # concat (map escape str) @ [QUOTE]))"

definition print_string_ptr :: "ptr \<Rightarrow> (json, string option) act" where
  "print_string_ptr p = bnd (deref strs p) (\<lambda>str. case string_text str of (sz, txt) \<Rightarrow> fresh_text sz txt)"

section \<open>Arrays and objects\<close>

definition array_text :: "bool \<Rightarrow> string list \<Rightarrow> string" where
  "array_text fmt es = CHR ''['' # (case es of [] \<Rightarrow> '']''
     | e # es \<Rightarrow> e @ concat (map (\<lambda>e. (if fmt then '', '' else '','') @ e) es) @ '']'')"

text \<open>The end of \<open>print_array\<close>: if no entry is NULL, the block is allocated and the text composed.\<close>

definition array_close :: "bool \<Rightarrow> string option list \<Rightarrow> (json, string option) act" where
  "array_close fmt entries = (if None \<in> set entries then ret None else
     let es = map the entries; len = 5 + sum_list (map (\<lambda>e. int (length e) + 2 + (if fmt then 1 else 0)) es)
     in fresh_text len (array_text fmt es))"

definition tabs :: "int \<Rightarrow> string" where
  "tabs k = replicate (nat k) (CHR 0x09)"

text \<open>One member of an object, and the whole text; \<open>depth\<close> has been increased.\<close>

definition member_text :: "bool \<Rightarrow> int \<Rightarrow> bool \<Rightarrow> string \<times> string \<Rightarrow> string" where
  "member_text fmt depth comma = (\<lambda>(name, e). (if fmt then tabs depth else []) @ name @ [CHR '':''] @ (if fmt then [CHR 0x09] else []) @ e @
     (if comma then '','' else []) @ (if fmt then [CHR 0x0A] else []))"

fun members_text :: "bool \<Rightarrow> int \<Rightarrow> (string \<times> string) list \<Rightarrow> string" where
  "members_text fmt depth [] = []"
| "members_text fmt depth [m] = member_text fmt depth False m"
| "members_text fmt depth (m # ms) = member_text fmt depth True m @ members_text fmt depth ms"

definition object_text :: "bool \<Rightarrow> int \<Rightarrow> (string \<times> string) list \<Rightarrow> string" where
  "object_text fmt depth ms = CHR ''{'' # (if fmt then [CHR 0x0A] else []) @ members_text fmt depth ms @
     (if fmt then tabs (depth - 1) else []) @ ''}''"

definition object_close :: "bool \<Rightarrow> int \<Rightarrow> (string option \<times> string option) list \<Rightarrow> (json, string option) act" where
  "object_close fmt depth entries = (if \<exists>(m, e)\<in>set entries. m = None \<or> e = None then ret None else
     let ms = map (\<lambda>(m, e). (the m, the e)) entries;
         len = 7 + (if fmt then depth else 0) +
           sum_list (map (\<lambda>(m, e). int (length e) + int (length m) + 2 + (if fmt then 2 + depth else 0)) ms)
     in fresh_text len (object_text fmt depth ms))"

text \<open>
  The calls of the printer and what they return: the text of a value, the entries an array's loop collects, or
  the names and entries an object's loop collects. The loop over an array stops at an entry that is NULL, the loop over an object does not.
\<close>

datatype print_call = Pr_value ptr int | Pr_elems ptr int | Pr_members ptr int

datatype printed = Text "string option" | Entries "string option list" | Members "(string option \<times> string option) list"

fun text_of :: "printed \<Rightarrow> string option" where
  "text_of (Text t) = t"
| "text_of _ = None"

fun entries_of :: "printed \<Rightarrow> string option list" where
  "entries_of (Entries es) = es"
| "entries_of _ = []"

fun members_of :: "printed \<Rightarrow> (string option \<times> string option) list" where
  "members_of (Members ms) = ms"
| "members_of _ = []"

definition num_entries :: "cJSON \<Rightarrow> (json, int) act" where
  "num_entries n = (\<lambda>s. lift_res (count_nodes (nodes s) (cj_child n) 0) s)"

text \<open>The values without children; an empty array or object is one of them.\<close>

definition print_scalar :: "fp \<Rightarrow> bool \<Rightarrow> int \<Rightarrow> cJSON \<Rightarrow> (json, string option) act" where
  "print_scalar fp fmt depth n = (let t = cj_type n AND 255 in
     if t = cJSON_NULL then fresh_text 5 ''null''
     else if t = cJSON_False then fresh_text 6 ''false''
     else if t = cJSON_True then fresh_text 5 ''true''
     else if t = cJSON_Number then print_number fp n
     else if t = cJSON_String then print_string_ptr (valuestring n)
     else if t = cJSON_Array then fresh_text 3 ''[]''
     else if t = cJSON_Object then fresh_text (if fmt then depth + 4 else 3)
       (CHR ''{'' # (if fmt then CHR 0x0A # tabs (depth - 1) else []) @ ''}'')
     else ret None)"

text \<open>Which loop a value needs: none, that of \<open>print_array\<close> or that of \<open>print_object\<close>, after the
  blocks for the entries were allocated. \<open>Inl\<close> is the final answer.\<close>

definition print_open :: "fp \<Rightarrow> bool \<Rightarrow> ptr \<Rightarrow> int \<Rightarrow> (json, string option + print_call) act" where
  "print_open fp fmt item depth = (if item = None then ret (Inl None) else
     bnd (deref nodes item) (\<lambda>n. let t = cj_type n AND 255 in
     if t = cJSON_Array then bnd (num_entries n) (\<lambda>k. if k = 0 then bnd (print_scalar fp fmt depth n) (\<lambda>r. ret (Inl r)) else
       bnd cJSON_malloc (\<lambda>entries. ret (if entries = None then Inl None else Inr (Pr_elems (cj_child n) depth))))
     else if t = cJSON_Object then bnd (num_entries n) (\<lambda>k. if k = 0 then bnd (print_scalar fp fmt depth n) (\<lambda>r. ret (Inl r)) else
       bnd cJSON_malloc (\<lambda>entries. if entries = None then ret (Inl None) else
       bnd cJSON_malloc (\<lambda>names. ret (if names = None then Inl None else Inr (Pr_members (cj_child n) (depth + 1))))))
     else bnd (print_scalar fp fmt depth n) (\<lambda>r. ret (Inl r))))"

definition print_close :: "bool \<Rightarrow> print_call \<Rightarrow> printed \<Rightarrow> (json, printed) act" where
  "print_close fmt call r = (case call of
       Pr_elems _ _ \<Rightarrow> bnd (array_close fmt (entries_of r)) (\<lambda>t. ret (Text t))
     | Pr_members _ depth \<Rightarrow> bnd (object_close fmt depth (members_of r)) (\<lambda>t. ret (Text t))
     | Pr_value _ _ \<Rightarrow> ret r)"

definition next_of :: "ptr \<Rightarrow> (json, ptr) act" where
  "next_of c = bnd (deref nodes c) (\<lambda>n. ret (cj_next n))"

definition name_text :: "ptr \<Rightarrow> (json, string option) act" where
  "name_text c = bnd (deref nodes c) (\<lambda>n. print_string_ptr (cj_string n))"

partial_function (option) print_run :: "fp \<Rightarrow> bool \<Rightarrow> print_call \<Rightarrow> json \<Rightarrow> (printed \<times> json) res" where
  "print_run fp fmt call s = (case call of
       Pr_value item depth \<Rightarrow>
         bnd (print_open fp fmt item depth) (\<lambda>r. if isl r then ret (Text (projl r)) else
         bnd (print_run fp fmt (projr r)) (\<lambda>es. print_close fmt (projr r) es)) s
     | Pr_elems child depth \<Rightarrow> if child = None then ret (Entries []) s else
         bnd (print_run fp fmt (Pr_value child (depth + 1))) (\<lambda>r.
         if text_of r = None then ret (Entries [None]) else
         bnd (next_of child) (\<lambda>next.
         bnd (print_run fp fmt (Pr_elems next depth)) (\<lambda>es. ret (Entries (text_of r # entries_of es))))) s
     | Pr_members child depth \<Rightarrow> if child = None then ret (Members []) s else
         bnd (name_text child) (\<lambda>m.
         bnd (print_run fp fmt (Pr_value child depth)) (\<lambda>r.
         bnd (next_of child) (\<lambda>next.
         bnd (print_run fp fmt (Pr_members next depth)) (\<lambda>es. ret (Members ((m, text_of r) # members_of es)))))) s)"

definition print_value :: "fp \<Rightarrow> ptr \<Rightarrow> int \<Rightarrow> bool \<Rightarrow> (json, string option) act" where
  "print_value fp item depth fmt = bnd (print_run fp fmt (Pr_value item depth)) (\<lambda>r. ret (text_of r))"

definition cJSON_Print :: "fp \<Rightarrow> ptr \<Rightarrow> (json, string option) act" where
  "cJSON_Print fp item = print_value fp item 0 True"

definition cJSON_PrintUnformatted :: "fp \<Rightarrow> ptr \<Rightarrow> (json, string option) act" where
  "cJSON_PrintUnformatted fp item = print_value fp item 0 False"
end
