(* ===== verification/CJsonText.thy ===== *)
theory CJsonText
  imports CJsonPrint
begin

text \<open>
  What the scanners of the JSON parser return on the texts the printer writes: white space, strings and
  integers. \<open>holds mem p txt\<close> says that the text \<open>txt\<close> is in memory at offset \<open>p\<close>.
\<close>

section \<open>Text in memory\<close>

primrec holds :: "string \<Rightarrow> nat \<Rightarrow> string \<Rightarrow> bool" where
  "holds mem p [] \<longleftrightarrow> p \<le> length mem"
| "holds mem p (c # cs) \<longleftrightarrow> p < length mem \<and> mem ! p = c \<and> holds mem (p + 1) cs"

lemma holds_append [simp]: "holds mem p (xs @ ys) \<longleftrightarrow> holds mem p xs \<and> holds mem (p + length xs) ys"
proof (induction xs arbitrary: p)
  case Nil
  then show ?case by (cases ys) auto
qed auto

lemma holds_le: "holds mem p xs \<Longrightarrow> p + length xs \<le> length mem"
  by (induction xs arbitrary: p) fastforce+

lemma holds_text: "holds (pre @ xs @ post) (length pre) xs"
  by (induction xs arbitrary: pre) (auto, metis append.assoc append_Cons append_Nil length_append_singleton)

declare digit_loop.simps [simp del] scan_len.simps [simp del] copy_str.simps [simp del] skip.simps [simp del]

lemma rd_in: "p < length mem \<Longrightarrow> rd mem p = Ret (mem ! p)"
  by simp

section \<open>White space\<close>

definition blank :: "char \<Rightarrow> bool" where
  "blank c \<longleftrightarrow> c \<noteq> NUL \<and> code c \<le> 32"

lemma skip_blanks:
  "holds mem p (ws @ [c]) \<Longrightarrow> list_all blank ws \<Longrightarrow> \<not> blank c \<Longrightarrow> skip mem p = Ret (p + length ws)"
proof (induction ws arbitrary: p)
  case Nil
  then show ?case by (subst skip.simps) (auto simp: rd_in blank_def)
next
  case (Cons w ws)
  then have "skip mem (p + 1) = Ret (p + 1 + length ws)" by (intro Cons.IH) auto
  then show ?case using Cons.prems by (subst skip.simps) (auto simp: rd_in blank_def)
qed

lemma skip_none: "p < length mem \<Longrightarrow> \<not> blank (mem ! p) \<Longrightarrow> skip mem p = Ret p"
  using skip_blanks[of mem p "[]" "mem ! p"] by simp

section \<open>Strings\<close>

lemma code_inj: "code c = code d \<longleftrightarrow> c = d"
  by (simp add: code_def)

lemma code_less: "code c < 256"
  unfolding code_def by (rule nat_of_char_less_256)

lemma string_text_snd: "snd (string_text str) = QUOTE # concat (map escape str) @ [QUOTE]"
proof (cases "list_ex needs_escape str")
  case False
  then have "concat (map escape str) = str"
    by (induction str) (auto simp: escape_def)
  then show ?thesis using False by (simp add: string_text_def)
qed (simp add: string_text_def)

lemma code_NUL [simp]: "code c = 0 \<longleftrightarrow> c = NUL" "0 < code c \<longleftrightarrow> c \<noteq> NUL"
  using code_inj[of c NUL] by (auto simp: code_def)

lemma short_escape_needs: "short_escape c = Some e \<Longrightarrow> needs_escape c"
  by (auto simp: short_escape_def needs_escape_def code_def split: if_splits)

lemma needs_escape_None: "short_escape c = None \<Longrightarrow> needs_escape c \<longleftrightarrow> code c < 32"
  by (auto simp: short_escape_def needs_escape_def split: if_splits)

lemma escape_len: "int (length (escape c)) = escape_len c"
  by (cases "short_escape c") (simp_all add: escape_def escape_len_def short_escape_needs needs_escape_None)

lemma string_text_fits: "int (length (snd (string_text str))) < fst (string_text str)"
proof -
  have "int (length (concat (map escape str))) = sum_list (map escape_len str)"
    by (induction str) (simp_all add: escape_len)
  then show ?thesis by (auto simp: string_text_def)
qed

text \<open>The two hexadecimal digits of a control character.\<close>

lemma hex_val_char: "d < 16 \<Longrightarrow> hex_val (hex_char d) = Some d"
  by (auto simp: hex_val_def hex_char_def code_def)

lemma hex_text:
  assumes "holds mem p [CHR ''0'', CHR ''0'', hex_char (n div 16), hex_char (n mod 16)]" "n < 256"
  shows "parse_hex4 mem p = Ret (of_nat n)"
proof -
  have z: "hex_val (CHR ''0'') = Some 0" by (simp add: hex_val_def code_def)
  have d: "n div 16 < 16" using assms(2) by simp
  have "push_bit 4 (of_nat a :: u32) + of_nat b = of_nat (a * 16 + b)" for a b by (simp add: push_bit_eq_mult)
  from this[of "n div 16" "n mod 16"]
  have "push_bit 4 (of_nat (n div 16) :: u32) + of_nat (n mod 16) = of_nat n" by (simp only: div_mult_mod_eq)
  moreover have "parse_hex4 mem p = hex_steps (Suc (Suc (Suc (Suc 0)))) mem p 0"
    unfolding parse_hex4_def by (simp only: numeral_nat)
  moreover have "mem ! p = CHR ''0''" "mem ! (p + 1) = CHR ''0''" "mem ! (p + 2) = hex_char (n div 16)" "mem ! (p + 3) = hex_char (n mod 16)"
    "p + 3 < length mem" using assms(1) by (simp_all add: numeral_2_eq_2 numeral_3_eq_3)
  ultimately show ?thesis using hex_val_char[OF d] hex_val_char[of "n mod 16"] z
    by (simp add: rd_in numeral_2_eq_2 numeral_3_eq_3)
qed

lemma utf8_ascii: "n < 128 \<Longrightarrow> utf8 (of_nat n) = [char_of n]"
  by (simp add: utf8_def word_less_nat_alt unat_of_nat)

lemma unescape_escape:
  assumes "holds mem p (escape c)" "needs_escape c" "c \<noteq> NUL"
  shows "\<exists>q. mem ! p = BSLASH \<and> unescape mem (p + 1) = Ret ([c], q) \<and> q + 1 = p + length (escape c)"
proof (cases "short_escape c")
  case None
  then have h: "holds mem p [BSLASH, CHR ''u'', CHR ''0'', CHR ''0'', hex_char (code c div 16), hex_char (code c mod 16)]"
    and len: "length (escape c) = 6" and lt: "code c < 32"
    using assms by (auto simp: escape_def needs_escape_def short_escape_def split: if_splits)
  have "parse_hex4 mem (p + 2) = Ret (of_nat (code c))"
    using h by (intro hex_text) (auto simp: code_less)
  moreover have "(of_nat (code c) :: u32) \<noteq> 0"
  proof -
    have "unat (of_nat (code c) :: u32) = code c" using lt by (simp add: unat_of_nat)
    then show ?thesis using assms(3) by (metis code_NUL(1) unat_0)
  qed
  moreover have "char_of (code c) = c" by (simp add: code_def)
  ultimately show ?thesis using h lt len
    by (auto simp: unescape_def rd_in utf8_ascii word_le_nat_alt unat_of_nat unsigned_of_nat)
next
  case (Some e)
  then show ?thesis using assms
    by (auto simp: escape_def short_escape_def unescape_def rd_in split: if_splits)
qed

definition plain :: "char \<Rightarrow> bool" where
  "plain c \<longleftrightarrow> c \<noteq> QUOTE \<and> c \<noteq> BSLASH \<and> c \<noteq> NUL"

lemma scan_len_plain:
  "holds mem p xs \<Longrightarrow> list_all plain xs \<Longrightarrow> scan_len mem p len = scan_len mem (p + length xs) (len + length xs)"
proof (induction xs arbitrary: p len)
  case (Cons x xs)
  then show ?case by (subst scan_len.simps) (auto simp: rd_in plain_def)
qed simp

lemma hex_char_plain: "d < 16 \<Longrightarrow> plain (hex_char d)"
proof -
  assume d: "d < 16"
  then have "code (hex_char d) = (if d < 10 then 48 + d else 87 + d)" by (auto simp: hex_char_def code_def)
  then have "code (hex_char d) \<noteq> code QUOTE" "code (hex_char d) \<noteq> code BSLASH" "code (hex_char d) \<noteq> code NUL"
    using d by (auto simp: code_def)
  then show ?thesis by (auto simp: plain_def)
qed

lemma scan_len_escape:
  assumes "holds mem p (escape c)" "c \<noteq> NUL"
  shows "\<exists>k>len. scan_len mem p len = scan_len mem (p + length (escape c)) k"
proof -
  consider (raw) "\<not> needs_escape c" | (short) e where "short_escape c = Some e" | (hex) "short_escape c = None" "needs_escape c"
    by (cases "short_escape c") auto
  then show ?thesis
  proof cases
    case raw
    then have "plain c" using assms(2) by (auto simp: plain_def needs_escape_def)
    then have "scan_len mem p len = scan_len mem (p + length [c]) (len + length [c])"
      using assms(1) raw by (intro scan_len_plain) (simp_all add: escape_def)
    then show ?thesis using raw by (intro exI[of _ "len + 1"]) (simp add: escape_def)
  next
    case short
    then have "mem ! p = BSLASH" "p < length mem" "length (escape c) = 2" using assms(1) by (auto simp: escape_def short_escape_needs)
    then have "scan_len mem p len = scan_len mem (p + 2) (len + 1)" by (simp add: scan_len.simps[of mem p] rd_in)
    then show ?thesis using \<open>length (escape c) = 2\<close> by (intro exI[of _ "len + 1"]) simp
  next
    case hex
    let ?d = "[CHR ''0'', CHR ''0'', hex_char (code c div 16), hex_char (code c mod 16)]"
    have h: "mem ! p = BSLASH" "p < length mem" "holds mem (p + 2) ?d" "length (escape c) = 6"
      using assms(1) hex by (auto simp: escape_def)
    have "list_all plain ?d" using hex_char_plain[of "code c div 16"] hex_char_plain[of "code c mod 16"] code_less[of c] by (simp add: plain_def)
    then have "scan_len mem (p + 2) (len + 1) = scan_len mem (p + 2 + length ?d) (len + 1 + length ?d)" by (rule scan_len_plain[OF h(3)])
    moreover have "p + 2 + length ?d = p + 6" "len + 1 + length ?d = len + 5" by simp_all
    ultimately have "scan_len mem (p + 2) (len + 1) = scan_len mem (p + 6) (len + 5)" by (simp only:)
    moreover have "scan_len mem p len = scan_len mem (p + 2) (len + 1)" using h by (simp add: scan_len.simps[of mem p] rd_in)
    ultimately show ?thesis using h(4) by (intro exI[of _ "len + 5"]) simp
  qed
qed

lemma scan_len_text:
  "holds mem p (concat (map escape str) @ [QUOTE]) \<Longrightarrow> NUL \<notin> set str \<Longrightarrow>
     \<exists>k. scan_len mem p len = Ret k \<and> len + length str \<le> k"
proof (induction str arbitrary: p len)
  case Nil
  then show ?case by (subst scan_len.simps) (simp add: rd_in)
next
  case (Cons c str)
  obtain l where l: "l > len" "scan_len mem p len = scan_len mem (p + length (escape c)) l"
    using scan_len_escape[of mem p c len] Cons.prems by auto
  obtain k where "scan_len mem (p + length (escape c)) l = Ret k" "l + length str \<le> k"
    using Cons.IH[of "p + length (escape c)" l] Cons.prems by auto
  then show ?case using l by (intro exI[of _ k]) simp
qed

lemma copy_str_text:
  "holds mem p (concat (map escape str) @ [QUOTE]) \<Longrightarrow> NUL \<notin> set str \<Longrightarrow> length out + length str \<le> cap \<Longrightarrow>
     copy_str mem cap p out = Ret (p + length (concat (map escape str)), out @ str)"
proof (induction str arbitrary: p out)
  case Nil
  then show ?case by (subst copy_str.simps) (simp add: rd_in)
next
  case (Cons c str)
  let ?p = "p + length (escape c)"
  have ih: "copy_str mem cap ?p (out @ [c]) = Ret (?p + length (concat (map escape str)), (out @ [c]) @ str)"
    using Cons.prems by (intro Cons.IH) auto
  have "copy_str mem cap p out = copy_str mem cap ?p (out @ [c])"
  proof (cases "needs_escape c")
    case False
    then have "mem ! p = c" "p < length mem" "c \<noteq> QUOTE" "c \<noteq> BSLASH" "escape c = [c]"
      using Cons.prems by (auto simp: escape_def needs_escape_def)
    then show ?thesis using Cons.prems by (subst copy_str.simps) (auto simp: rd_in)
  next
    case True
    have "holds mem p (escape c)" using Cons.prems(1) by simp
    then obtain q where q: "mem ! p = BSLASH" "unescape mem (p + 1) = Ret ([c], q)" "q + 1 = ?p"
      using unescape_escape[OF _ True] Cons.prems(2) by auto
    moreover have "p < length mem" using \<open>holds mem p (escape c)\<close> True by (auto simp: escape_def)
    ultimately show ?thesis using Cons.prems(3) by (subst copy_str.simps) (auto simp: rd_in)
  qed
  then show ?case using ih by simp
qed

section \<open>Integers\<close>

text \<open>
  What the development relies on of the machine's arithmetic: integers of absolute value up to \<open>2 ^ 53\<close> are
  represented exactly, and sums, products and comparisons of them are exact (a zero product of factors that are not
  both nonnegative is left open: it may be minus zero).
\<close>

definition int_exact :: "fp \<Rightarrow> bool" where
  "int_exact fp \<longleftrightarrow>
     (\<forall>i j. \<bar>i\<bar> \<le> 2 ^ 53 \<longrightarrow> \<bar>j\<bar> \<le> 2 ^ 53 \<longrightarrow>
        (\<bar>i + j\<bar> \<le> 2 ^ 53 \<longrightarrow> fp_add fp (fp_of_int fp i) (fp_of_int fp j) = fp_of_int fp (i + j)) \<and>
        (\<bar>i * j\<bar> \<le> 2 ^ 53 \<longrightarrow> i * j \<noteq> 0 \<or> 0 \<le> i \<and> 0 \<le> j \<longrightarrow> fp_mul fp (fp_of_int fp i) (fp_of_int fp j) = fp_of_int fp (i * j)) \<and>
        (fp_le fp (fp_of_int fp i) (fp_of_int fp j) \<longleftrightarrow> i \<le> j) \<and>
        (fp_eq fp (fp_of_int fp i) (fp_of_int fp j) \<longleftrightarrow> i = j)) \<and>
     (\<forall>i. \<bar>i\<bar> \<le> 2 ^ 53 \<longrightarrow> fp_le fp (fp_abs fp (fp_sub fp (fp_of_int fp i) (fp_of_int fp i))) (fp_const fp ''DBL_EPSILON'')) \<and>
     (\<forall>i. - (2 ^ 31) \<le> i \<and> i < 2 ^ 31 \<longrightarrow> fp_to_int fp (fp_of_int fp i) = i) \<and>
     fp_pow fp (fp_of_int fp 10) (fp_of_int fp 0) = fp_of_int fp 1"

lemma int_exactD:
  assumes "int_exact fp" "\<bar>i\<bar> \<le> 2 ^ 53" "\<bar>j\<bar> \<le> 2 ^ 53"
  shows "\<bar>i + j\<bar> \<le> 2 ^ 53 \<Longrightarrow> fp_add fp (fp_of_int fp i) (fp_of_int fp j) = fp_of_int fp (i + j)"
    "\<bar>i * j\<bar> \<le> 2 ^ 53 \<Longrightarrow> i * j \<noteq> 0 \<or> 0 \<le> i \<and> 0 \<le> j \<Longrightarrow> fp_mul fp (fp_of_int fp i) (fp_of_int fp j) = fp_of_int fp (i * j)"
    "fp_le fp (fp_of_int fp i) (fp_of_int fp j) \<longleftrightarrow> i \<le> j" "fp_eq fp (fp_of_int fp i) (fp_of_int fp j) \<longleftrightarrow> i = j"
    "fp_le fp (fp_abs fp (fp_sub fp (fp_of_int fp i) (fp_of_int fp i))) (fp_const fp ''DBL_EPSILON'')"
    "- (2 ^ 31) \<le> i \<and> i < 2 ^ 31 \<Longrightarrow> fp_to_int fp (fp_of_int fp i) = i"
    "fp_pow fp (fp_of_int fp 10) (fp_of_int fp 0) = fp_of_int fp 1"
  using assms unfolding int_exact_def by blast+

lemma digit_loop_digits:
  "holds mem p (ds @ [c]) \<Longrightarrow> list_all isdigit ds \<Longrightarrow> \<not> isdigit c \<Longrightarrow>
     digit_loop f mem p acc = Ret (p + length ds, fold (\<lambda>d. f (int (digit_val d))) ds acc)"
proof (induction ds arbitrary: p acc)
  case Nil
  then show ?case by (subst digit_loop.simps) (simp add: rd_in)
next
  case (Cons d ds)
  have "digit_loop f mem (p + 1) (f (int (digit_val d)) acc) = Ret (p + 1 + length ds, fold (\<lambda>d. f (int (digit_val d))) ds (f (int (digit_val d)) acc))"
    using Cons.prems by (intro Cons.IH) auto
  then show ?case using Cons.prems by (subst digit_loop.simps) (simp add: rd_in)
qed

lemma push_digits:
  assumes ex: "int_exact fp"
  shows "list_all isdigit ds \<Longrightarrow> 0 \<le> v \<Longrightarrow> v * 10 ^ length ds + int (dec_val ds) \<le> 2 ^ 53 \<Longrightarrow>
    fold (\<lambda>d. push_digit fp (int (digit_val d))) ds (fp_of_int fp v) = fp_of_int fp (v * 10 ^ length ds + int (dec_val ds))"
proof (induction ds arbitrary: v)
  case Nil
  then show ?case by (simp add: dec_val_def)
next
  case (Cons d ds)
  let ?w = "v * 10 + int (digit_val d)"
  have d: "digit_val d \<le> 9" using Cons.prems(1) by (auto dest: digit_val_le)
  have eq: "v * 10 ^ length (d # ds) + int (dec_val (d # ds)) = ?w * 10 ^ length ds + int (dec_val ds)"
    by (simp add: dec_val_Cons algebra_simps)
  have "?w * 1 \<le> ?w * 10 ^ length ds" using Cons.prems(2) by (intro mult_left_mono) auto
  also have "\<dots> \<le> ?w * 10 ^ length ds + int (dec_val ds)" by simp
  also have "\<dots> \<le> 2 ^ 53" using Cons.prems(3) unfolding eq .
  finally have w: "?w \<le> 2 ^ 53" by simp
  have "push_digit fp (int (digit_val d)) (fp_of_int fp v) = fp_of_int fp ?w"
    using int_exactD(2)[OF ex, of v 10] int_exactD(1)[OF ex, of "v * 10" "int (digit_val d)"] w d Cons.prems(2) by (simp add: push_digit_def)
  moreover have "fold (\<lambda>d. push_digit fp (int (digit_val d))) ds (fp_of_int fp ?w) = fp_of_int fp (?w * 10 ^ length ds + int (dec_val ds))"
    using Cons.prems unfolding eq by (intro Cons.IH) auto
  ultimately show ?case unfolding eq by simp
qed

lemma dec_str_head: "0 < n \<Longrightarrow> \<exists>d ds. dec_str n = d # ds \<and> isdigit d \<and> d \<noteq> CHR ''0''"
proof (induction n rule: dec_str.induct)
  case (1 n)
  show ?case
  proof (cases "n < 10")
    case True
    have "digit_char n \<noteq> digit_char 0" using True 1(2) by (metis digit_char_val(1) neq0_conv zero_less_numeral)
    moreover have "code (digit_char 0) = code (CHR ''0'')" by (simp add: digit_char_def code_def)
    then have "digit_char 0 = CHR ''0''" by (simp only: code_inj)
    ultimately show ?thesis using True by (subst dec_str.simps) simp
  next
    case False
    then have "0 < n div 10" by (simp add: div_greater_zero_iff)
    then obtain d ds where "dec_str (n div 10) = d # ds" "isdigit d" "d \<noteq> CHR ''0''" using 1(1)[OF False] by blast
    then show ?thesis using False by (subst dec_str.simps) simp
  qed
qed

definition num_stop :: "char \<Rightarrow> bool" where
  "num_stop c \<longleftrightarrow> \<not> isdigit c \<and> c \<noteq> CHR ''.'' \<and> c \<noteq> CHR ''e'' \<and> c \<noteq> CHR ''E''"

text \<open>What the printer writes for an integer.\<close>

lemma number_text_int:
  assumes "int_exact fp" "- (2 ^ 31) \<le> i" "i < 2 ^ 31"
  shows "number_text fp i (fp_of_int fp i) = (if i = 0 then (2, ''0'') else (21, int_str i))"
  using assms int_exactD(4)[OF assms(1), of i 0] int_exactD(3)[OF assms(1), of i 2147483647]
    int_exactD(3)[OF assms(1), of "- 2147483648" i] int_exactD(5)[OF assms(1), of i 0]
  by (auto simp: number_text_def)

lemma obnd_Ret_iff: "obnd r f = Ret x \<longleftrightarrow> (\<exists>y. r = Ret y \<and> f y = Ret x)"
  by (cases r) simp_all

text \<open>Digits, and then neither a fraction nor an exponent.\<close>

lemma scan_number_rest:
  assumes p: "p < length mem" and sg: "sg = (if mem ! p = CHR ''-'' then - 1 else 1)"
    and n: "scan_int fp mem (if mem ! p = CHR ''-'' then p + 1 else p) = Ret (q, n)" and q: "q < length mem" "num_stop (mem ! q)"
  shows "scan_number fp mem p = Ret (q, fp_mul fp (fp_mul fp (fp_of_int fp sg) n) (fp_pow fp (fp_of_int fp 10) (fp_add fp (fp_of_int fp 0) (fp_of_int fp 0))))"
proof -
  have f: "scan_frac fp mem q n = Ret (q, n, fp_of_int fp 0)" and e: "scan_exp mem q = Ret (q, 0)"
    using q by (auto simp: scan_frac_def scan_exp_def rd_in num_stop_def)
  show ?thesis using p n sg f e by (cases "mem ! p = CHR ''-''") (simp_all add: scan_number_def rd_in)
qed

lemma digit_code: "isdigit d \<Longrightarrow> d \<noteq> CHR ''0'' \<Longrightarrow> 49 \<le> code d \<and> code d \<le> 57"
proof -
  assume d: "isdigit d" "d \<noteq> CHR ''0''"
  then have "code d \<noteq> code (CHR ''0'')" by (simp add: code_inj)
  then have "code d \<noteq> 48" by (simp add: code_def)
  then show ?thesis using d(1) by (auto simp: isdigit_def code_def)
qed

lemma scan_int_nat:
  assumes ex: "int_exact fp" and n: "0 < n" "int n \<le> 2 ^ 31" and h: "holds mem p (dec_str n @ [c])" and c: "num_stop c"
  shows "scan_int fp mem p = Ret (p + length (dec_str n), fp_of_int fp (int n))"
proof -
  obtain d ds where d: "dec_str n = d # ds" "isdigit d" "d \<noteq> CHR ''0''" using dec_str_head[OF n(1)] by blast
  have m: "mem ! p = d" "p < length mem" using h d by auto
  have ds: "list_all isdigit (dec_str n)" using dec_str_digits by (simp add: list_all_iff)
  have "digit_loop (push_digit fp) mem p (fp_of_int fp 0) = Ret (p + length (dec_str n), fp_of_int fp (int n))"
    using digit_loop_digits[where f = "push_digit fp" and acc = "fp_of_int fp 0", OF h ds] c push_digits[OF ex ds, of 0] n(2)
    by (simp add: dec_val_dec_str num_stop_def)
  then show ?thesis using m d(2,3) digit_code[OF d(2,3)] by (simp add: scan_int_def rd_in)
qed

lemma sign_exact:
  assumes "int_exact fp" "sg = 1 \<or> sg = - 1" "0 < n \<or> sg = 1 \<and> n = 0" "n \<le> 2 ^ 31"
  shows "fp_mul fp (fp_mul fp (fp_of_int fp sg) (fp_of_int fp n)) (fp_pow fp (fp_of_int fp 10) (fp_add fp (fp_of_int fp 0) (fp_of_int fp 0))) = fp_of_int fp (sg * n)"
  using int_exactD(1)[OF assms(1), of 0 0] int_exactD(7)[OF assms(1), of 0 0] int_exactD(2)[OF assms(1), of sg n] int_exactD(2)[OF assms(1), of "sg * n" 1] assms(2-4) by auto

lemma scan_number_int:
  assumes ex: "int_exact fp" and i: "- (2 ^ 31) \<le> i" "i < 2 ^ 31"
    and h: "holds mem p (snd (number_text fp i (fp_of_int fp i)) @ [c])" and c: "num_stop c"
  shows "scan_number fp mem p = Ret (p + length (snd (number_text fp i (fp_of_int fp i))), fp_of_int fp i)"
proof -
  consider (zero) "i = 0" | (pos) "0 < i" | (neg) "i < 0" by linarith
  then show ?thesis
  proof cases
    case zero
    then have m: "mem ! p = CHR ''0''" "Suc p < length mem" "mem ! Suc p = c" using h number_text_int[OF ex i] by auto
    have "\<not> (49 \<le> code c \<and> code c \<le> 57)" using c by (auto simp: num_stop_def isdigit_def code_def)
    then have "scan_int fp mem p = Ret (Suc p, fp_of_int fp 0)" using m by (auto simp: scan_int_def rd_in)
    then show ?thesis using scan_number_rest[of p mem 1 fp "Suc p" "fp_of_int fp 0"] sign_exact[OF ex, of 1 0] m c zero number_text_int[OF ex i] by simp
  next
    case pos
    then have t: "snd (number_text fp i (fp_of_int fp i)) = dec_str (nat i)" using number_text_int[OF ex i] by (simp add: int_str_def)
    obtain d ds where d: "dec_str (nat i) = d # ds" "isdigit d" using dec_str_head[of "nat i"] pos by auto
    have m: "mem ! p \<noteq> CHR ''-''" "p < length mem" "p + length (dec_str (nat i)) < length mem" "mem ! (p + length (dec_str (nat i))) = c"
      using h t d by (auto simp: isdigit_def)
    have "scan_int fp mem p = Ret (p + length (dec_str (nat i)), fp_of_int fp i)" using scan_int_nat[OF ex _ _ h[unfolded t] c] pos i by simp
    then show ?thesis using scan_number_rest[of p mem 1 fp "p + length (dec_str (nat i))" "fp_of_int fp i"] sign_exact[OF ex, of 1 i] m c pos i t by simp
  next
    case neg
    then have t: "snd (number_text fp i (fp_of_int fp i)) = CHR ''-'' # dec_str (nat (- i))" using number_text_int[OF ex i] by (simp add: int_str_def)
    then have m: "mem ! p = CHR ''-''" "p < length mem" "holds mem (p + 1) (dec_str (nat (- i)) @ [c])" using h by auto
    then have m': "p + 1 + length (dec_str (nat (- i))) < length mem" "mem ! (p + 1 + length (dec_str (nat (- i)))) = c" by auto
    have "scan_int fp mem (p + 1) = Ret (p + 1 + length (dec_str (nat (- i))), fp_of_int fp (- i))" using scan_int_nat[OF ex _ _ m(3) c] neg i by simp
    then show ?thesis
      using scan_number_rest[of p mem "- 1" fp "p + 1 + length (dec_str (nat (- i)))" "fp_of_int fp (- i)"] sign_exact[OF ex, of "- 1" "- i"] m m' c neg i t by simp
  qed
qed

end
