(* ===== verification/CJsonTree.thy ===== *)
theory CJsonTree
  imports CJsonText
begin

text \<open>
  JSON values as trees, what a heap of cJSON nodes means, and that the printer writes the text of the
  tree into blocks that are large enough.
\<close>

section \<open>Trees\<close>

datatype jtree = JNull | JFalse | JTrue | JNum int u64 | JStr string | JArr "jtree list" | JObj "(string \<times> jtree) list"

text \<open>
  \<open>val_at h st n t N S\<close>: the node with content \<open>n\<close> is the tree \<open>t\<close> in the heaps \<open>h\<close> and \<open>st\<close>; \<open>N\<close> are the addresses of
  its descendants and \<open>S\<close> those of the strings it owns. \<open>elems_at\<close> and \<open>members_at\<close> are the same for the chain of
  items of an array and of an object. Nothing is shared.
\<close>

inductive val_at :: "cJSON heap \<Rightarrow> string heap \<Rightarrow> cJSON \<Rightarrow> jtree \<Rightarrow> nat set \<Rightarrow> nat set \<Rightarrow> bool"
  and elems_at :: "cJSON heap \<Rightarrow> string heap \<Rightarrow> ptr \<Rightarrow> jtree list \<Rightarrow> nat set \<Rightarrow> nat set \<Rightarrow> bool"
  and members_at :: "cJSON heap \<Rightarrow> string heap \<Rightarrow> ptr \<Rightarrow> (string \<times> jtree) list \<Rightarrow> nat set \<Rightarrow> nat set \<Rightarrow> bool"
  for h st where
  v_null: "cj_type n = cJSON_NULL \<Longrightarrow> valuestring n = None \<Longrightarrow> cj_child n = None \<Longrightarrow> val_at h st n JNull {} {}"
| v_false: "cj_type n = cJSON_False \<Longrightarrow> valuestring n = None \<Longrightarrow> cj_child n = None \<Longrightarrow> val_at h st n JFalse {} {}"
| v_true: "cj_type n = cJSON_True \<Longrightarrow> valuestring n = None \<Longrightarrow> cj_child n = None \<Longrightarrow> val_at h st n JTrue {} {}"
| v_num: "cj_type n = cJSON_Number \<Longrightarrow> valuestring n = None \<Longrightarrow> cj_child n = None \<Longrightarrow>
    val_at h st n (JNum (valueint n) (valuedouble n)) {} {}"
| v_str: "cj_type n = cJSON_String \<Longrightarrow> valuestring n = Some b \<Longrightarrow> st b = Some str \<Longrightarrow> cj_child n = None \<Longrightarrow>
    val_at h st n (JStr str) {} {b}"
| v_arr: "cj_type n = cJSON_Array \<Longrightarrow> valuestring n = None \<Longrightarrow> elems_at h st (cj_child n) ts N S \<Longrightarrow> val_at h st n (JArr ts) N S"
| v_obj: "cj_type n = cJSON_Object \<Longrightarrow> valuestring n = None \<Longrightarrow> members_at h st (cj_child n) ms N S \<Longrightarrow> val_at h st n (JObj ms) N S"
| e_nil: "elems_at h st None [] {} {}"
| e_cons: "h a = Some n \<Longrightarrow> cj_string n = None \<Longrightarrow> val_at h st n t N S \<Longrightarrow> elems_at h st (cj_next n) ts N' S' \<Longrightarrow>
    a \<notin> N \<union> N' \<Longrightarrow> N \<inter> N' = {} \<Longrightarrow> S \<inter> S' = {} \<Longrightarrow> elems_at h st (Some a) (t # ts) (insert a (N \<union> N')) (S \<union> S')"
| m_nil: "members_at h st None [] {} {}"
| m_cons: "h a = Some n \<Longrightarrow> cj_string n = Some b \<Longrightarrow> st b = Some k \<Longrightarrow> val_at h st n t N S \<Longrightarrow> members_at h st (cj_next n) ms N' S' \<Longrightarrow>
    a \<notin> N \<union> N' \<Longrightarrow> N \<inter> N' = {} \<Longrightarrow> S \<inter> S' = {} \<Longrightarrow> b \<notin> S \<union> S' \<Longrightarrow>
    members_at h st (Some a) ((k, t) # ms) (insert a (N \<union> N')) (insert b (S \<union> S'))"

text \<open>The text of a tree.\<close>

function render :: "fp \<Rightarrow> bool \<Rightarrow> int \<Rightarrow> jtree \<Rightarrow> string" where
  "render fp fmt depth JNull = ''null''"
| "render fp fmt depth JFalse = ''false''"
| "render fp fmt depth JTrue = ''true''"
| "render fp fmt depth (JNum i d) = snd (number_text fp i d)"
| "render fp fmt depth (JStr str) = snd (string_text str)"
| "render fp fmt depth (JArr ts) = array_text fmt (map (render fp fmt (depth + 1)) ts)"
| "render fp fmt depth (JObj ms) = (if ms = [] then CHR ''{'' # (if fmt then CHR 0x0A # tabs (depth - 1) else []) @ ''}''
     else object_text fmt (depth + 1) (map (\<lambda>m. (snd (string_text (fst m)), render fp fmt (depth + 1) (snd m))) ms))"
  by pat_completeness auto
termination
proof (relation "measure (\<lambda>(fp, fmt, depth, t). size t)", goal_cases)
  case (2 fp fmt depth ts t)
  then show ?case by (induction ts) auto
next
  case (3 fp fmt depth ms m)
  have "size (snd m) < Suc (size_list (size_prod (\<lambda>x. 0) size) ms)" using 3(2) by (induction ms) auto
  then show ?case by simp
qed simp

text \<open>The trees the round trip is about: numbers are integers of C's \<open>int\<close>, strings have no NUL.\<close>

fun plain_tree :: "fp \<Rightarrow> jtree \<Rightarrow> bool" where
  "plain_tree fp (JNum i d) \<longleftrightarrow> - (2 ^ 31) \<le> i \<and> i < 2 ^ 31 \<and> d = fp_of_int fp i"
| "plain_tree fp (JStr str) \<longleftrightarrow> NUL \<notin> set str"
| "plain_tree fp (JArr ts) \<longleftrightarrow> (\<forall>t\<in>set ts. plain_tree fp t)"
| "plain_tree fp (JObj ms) \<longleftrightarrow> (\<forall>m\<in>set ms. NUL \<notin> set (fst m) \<and> plain_tree fp (snd m))"
| "plain_tree fp _ \<longleftrightarrow> True"

section \<open>The printer\<close>

text \<open>The allocator does not fail from now on.\<close>

definition mem_ok :: "json \<Rightarrow> bool" where
  "mem_ok s \<longleftrightarrow> (\<forall>k\<ge>mem_cnt s. mem_src s (malloc_hook s) k \<noteq> None)"

lemma mem_ok_later [simp]: "mem_ok s \<Longrightarrow> mem_cnt s \<le> k \<Longrightarrow> mem_ok (s\<lparr>mem_cnt := k\<rparr>)"
  by (simp add: mem_ok_def)

lemma fresh_text_run:
  assumes "mem_ok s" "int (length txt) < sz"
  shows "fresh_text sz txt s = Some (Ret (Some txt, s\<lparr>mem_cnt := mem_cnt s + 1\<rparr>))"
  using assms by (simp add: fresh_text_def cJSON_malloc_def run_simps mem_ok_def)

lemma length_dec_str_le: "n < 10 ^ k \<Longrightarrow> 0 < k \<Longrightarrow> length (dec_str n) \<le> k"
proof (induction n arbitrary: k rule: dec_str.induct)
  case (1 n)
  show ?case
  proof (cases "n < 10")
    case True
    then show ?thesis using 1(3) by (subst dec_str.simps) simp
  next
    case False
    then have "k \<noteq> 1" using 1(2) by auto
    then obtain j where j: "k = Suc j" "0 < j" using 1(3) by (cases k) auto
    then have "length (dec_str (n div 10)) \<le> j" using 1(1)[OF False, of j] 1(2) by (simp add: less_mult_imp_div_less mult.commute)
    then show ?thesis using False j by (subst dec_str.simps) simp
  qed
qed

lemma number_fits:
  assumes "int_exact fp" "- (2 ^ 31) \<le> i" "i < 2 ^ 31"
  shows "int (length (snd (number_text fp i (fp_of_int fp i)))) < fst (number_text fp i (fp_of_int fp i))"
proof -
  have "length (dec_str (nat i)) \<le> 10" "length (dec_str (nat (- i))) \<le> 10" using assms by (intro length_dec_str_le; simp)+
  then show ?thesis using number_text_int[OF assms] by (auto simp: int_str_def)
qed

lemma length_sep: "int (length (concat (map ((@) sep) es))) = sum_list (map (\<lambda>e. int (length sep) + int (length e)) es)"
  by (induction es) auto

lemma array_fits:
  "int (length (array_text fmt es)) < 5 + sum_list (map (\<lambda>e. int (length e) + 2 + (if fmt then 1 else 0)) es)"
proof (cases es)
  case (Cons e fs)
  have "(\<Sum>e\<leftarrow>fs. 2 + int (length e)) \<le> (\<Sum>e\<leftarrow>fs. 3 + int (length e))" "(\<Sum>e\<leftarrow>fs. 1 + int (length e)) \<le> (\<Sum>e\<leftarrow>fs. int (length e) + 2)"
    by (intro sum_list_mono; simp)+
  then show ?thesis unfolding array_text_def Cons by (cases fmt) (simp_all add: length_sep)
qed (simp add: array_text_def)

lemma members_fit:
  "0 \<le> depth \<Longrightarrow> int (length (members_text fmt depth ms)) \<le>
     sum_list (map (\<lambda>(m, e). int (length e) + int (length m) + 2 + (if fmt then 2 + depth else 0)) ms)"
  by (induction fmt depth ms rule: members_text.induct) (auto simp: member_text_def tabs_def split: prod.splits)

lemma object_fits:
  assumes "0 \<le> depth"
  shows "int (length (object_text fmt depth ms)) < 7 + (if fmt then depth else 0) +
    sum_list (map (\<lambda>(m, e). int (length e) + int (length m) + 2 + (if fmt then 2 + depth else 0)) ms)"
  using members_fit[OF assms, of fmt ms] assms by (auto simp: object_text_def tabs_def)

lemma array_close_run:
  "mem_ok s \<Longrightarrow> array_close fmt (map Some es) s = Some (Ret (Some (array_text fmt es), s\<lparr>mem_cnt := mem_cnt s + 1\<rparr>))"
  using array_fits[of fmt es] by (simp add: array_close_def Let_def comp_def fresh_text_run)

lemma object_close_run:
  assumes "mem_ok s" "0 \<le> depth"
  shows "object_close fmt depth (map (\<lambda>m. (Some (fst m), Some (snd m))) ms) s = Some (Ret (Some (object_text fmt depth ms), s\<lparr>mem_cnt := mem_cnt s + 1\<rparr>))"
proof -
  have "map (\<lambda>(m, e). (the m, the e)) (map (\<lambda>m. (Some (fst m), Some (snd m))) ms) = ms" by (induction ms) auto
  moreover have "\<not> (\<exists>(m, e)\<in>set (map (\<lambda>m. (Some (fst m), Some (snd m))) ms). m = None \<or> e = None)" by auto
  ultimately show ?thesis using fresh_text_run[OF assms(1) object_fits[OF assms(2)]] by (simp add: object_close_def Let_def del: map_map)
qed

definition printed_as :: "fp \<Rightarrow> bool \<Rightarrow> print_call \<Rightarrow> json \<Rightarrow> printed \<Rightarrow> bool" where
  "printed_as fp fmt call s r \<longleftrightarrow> (\<exists>k\<ge>mem_cnt s. print_run fp fmt call s = Some (Ret (r, s\<lparr>mem_cnt := k\<rparr>)))"

lemma printed_scalar:
  assumes "nodes s item = Some n" "cj_type n AND 255 \<noteq> cJSON_Array" "cj_type n AND 255 \<noteq> cJSON_Object"
    "print_scalar fp fmt depth n s = Some (Ret (Some txt, s\<lparr>mem_cnt := mem_cnt s + 1\<rparr>))"
  shows "printed_as fp fmt (Pr_value (Some item) depth) s (Text (Some txt))"
proof -
  have "print_open fp fmt (Some item) depth s = Some (Ret (Inl (Some txt), s\<lparr>mem_cnt := mem_cnt s + 1\<rparr>))"
    using assms by (simp add: print_open_def run_simps Let_def)
  then show ?thesis unfolding printed_as_def
    by (intro exI[of _ "mem_cnt s + 1"]) (simp add: print_run.simps[of _ _ "Pr_value (Some item) depth"] run_simps)
qed

lemma printed_empty:
  assumes "nodes s item = Some n" "cj_type n = cJSON_Array \<or> cj_type n = cJSON_Object" "cj_child n = None" "mem_ok s" "0 \<le> depth"
  shows "printed_as fp fmt (Pr_value (Some item) depth) s (Text (Some (render fp fmt depth (if cj_type n = cJSON_Array then JArr [] else JObj []))))"
proof -
  let ?t = "render fp fmt depth (if cj_type n = cJSON_Array then JArr [] else JObj [])"
  have "print_scalar fp fmt depth n s = Some (Ret (Some ?t, s\<lparr>mem_cnt := mem_cnt s + 1\<rparr>))"
    using assms(2,4,5) by (auto simp: print_scalar_def Let_def fresh_text_run array_text_def tabs_def)
  then have "print_open fp fmt (Some item) depth s = Some (Ret (Inl (Some ?t), s\<lparr>mem_cnt := mem_cnt s + 1\<rparr>))"
    using assms by (auto simp: print_open_def run_simps Let_def num_entries_def count_nodes.simps)
  then show ?thesis unfolding printed_as_def
    by (intro exI[of _ "mem_cnt s + 1"]) (simp add: print_run.simps[of _ _ "Pr_value (Some item) depth"] run_simps)
qed

lemma count_elems:
  "elems_at h st p ts N S \<Longrightarrow> count_nodes h p i = Some (Ret (i + int (length ts)))"
proof (induction ts arbitrary: p i N S)
  case Nil
  then show ?case by (auto elim: elems_at.cases simp: count_nodes.simps)
next
  case (Cons t ts)
  from Cons.prems show ?case by (cases rule: elems_at.cases) (auto simp: count_nodes.simps[of h "Some _"] Cons.IH)
qed

lemma count_members:
  "members_at h st p ms N S \<Longrightarrow> count_nodes h p i = Some (Ret (i + int (length ms)))"
proof (induction ms arbitrary: p i N S)
  case Nil
  then show ?case by (auto elim: members_at.cases simp: count_nodes.simps)
next
  case (Cons t ts)
  from Cons.prems show ?case by (cases rule: members_at.cases) (auto simp: count_nodes.simps[of h "Some _"] Cons.IH)
qed

lemma printed_array:
  assumes n: "nodes s item = Some n" "cj_type n = cJSON_Array" and e: "elems_at (nodes s) (strs s) (cj_child n) ts N S"
    and ok: "mem_ok s" "0 \<le> depth"
    and ih: "printed_as fp fmt (Pr_elems (cj_child n) depth) (s\<lparr>mem_cnt := mem_cnt s + 1\<rparr>) (Entries (map (\<lambda>t. Some (render fp fmt (depth + 1) t)) ts))"
  shows "printed_as fp fmt (Pr_value (Some item) depth) s (Text (Some (render fp fmt depth (JArr ts))))"
proof (cases ts)
  case Nil
  then have "cj_child n = None" using e by (auto elim: elems_at.cases)
  then show ?thesis using printed_empty[OF n(1) _ _ ok] n(2) Nil by simp
next
  case (Cons t us)
  obtain k where k: "mem_cnt s + 1 \<le> k" "print_run fp fmt (Pr_elems (cj_child n) depth) (s\<lparr>mem_cnt := mem_cnt s + 1\<rparr>) =
      Some (Ret (Entries (map (\<lambda>t. Some (render fp fmt (depth + 1) t)) ts), s\<lparr>mem_cnt := k\<rparr>))"
    using ih by (auto simp: printed_as_def)
  obtain a where a: "mem_src s (malloc_hook s) (mem_cnt s) = Some a" using ok(1) by (auto simp: mem_ok_def)
  have "print_open fp fmt (Some item) depth s = Some (Ret (Inr (Pr_elems (cj_child n) depth), s\<lparr>mem_cnt := mem_cnt s + 1\<rparr>))"
    using n a count_elems[OF e, of 0] Cons by (simp add: print_open_def run_simps Let_def num_entries_def cJSON_malloc_def)
  moreover have "print_close fmt (Pr_elems (cj_child n) depth) (Entries (map (\<lambda>t. Some (render fp fmt (depth + 1) t)) ts)) (s\<lparr>mem_cnt := k\<rparr>) =
      Some (Ret (Text (Some (render fp fmt depth (JArr ts))), s\<lparr>mem_cnt := k + 1\<rparr>))"
    using ok k(1) array_close_run[of "s\<lparr>mem_cnt := k\<rparr>" fmt "map (render fp fmt (depth + 1)) ts"]
    by (simp add: print_close_def run_simps comp_def)
  ultimately show ?thesis using k unfolding printed_as_def
    by (intro exI[of _ "k + 1"]) (simp add: print_run.simps[of _ _ "Pr_value (Some item) depth"] run_simps)
qed

lemma printed_object:
  assumes n: "nodes s item = Some n" "cj_type n = cJSON_Object" and e: "members_at (nodes s) (strs s) (cj_child n) ms N S"
    and ok: "mem_ok s" "0 \<le> depth"
    and ih: "printed_as fp fmt (Pr_members (cj_child n) (depth + 1)) (s\<lparr>mem_cnt := mem_cnt s + 2\<rparr>)
      (Members (map (\<lambda>m. (Some (snd (string_text (fst m))), Some (render fp fmt (depth + 1) (snd m)))) ms))"
  shows "printed_as fp fmt (Pr_value (Some item) depth) s (Text (Some (render fp fmt depth (JObj ms))))"
proof (cases ms)
  case Nil
  then have "cj_child n = None" using e by (auto elim: members_at.cases)
  then show ?thesis using printed_empty[OF n(1) _ _ ok] n(2) Nil by simp
next
  case (Cons t us)
  let ?r = "Members (map (\<lambda>m. (Some (snd (string_text (fst m))), Some (render fp fmt (depth + 1) (snd m)))) ms)"
  obtain k where k: "mem_cnt s + 2 \<le> k" "print_run fp fmt (Pr_members (cj_child n) (depth + 1)) (s\<lparr>mem_cnt := mem_cnt s + 2\<rparr>) = Some (Ret (?r, s\<lparr>mem_cnt := k\<rparr>))"
    using ih by (auto simp: printed_as_def)
  obtain a b where a: "mem_src s (malloc_hook s) (mem_cnt s) = Some a" "mem_src s (malloc_hook s) (Suc (mem_cnt s)) = Some b"
    using ok(1) unfolding mem_ok_def by (meson le_Suc_eq not_None_eq order_refl)
  have "print_open fp fmt (Some item) depth s = Some (Ret (Inr (Pr_members (cj_child n) (depth + 1)), s\<lparr>mem_cnt := mem_cnt s + 2\<rparr>))"
    using n a count_members[OF e, of 0] Cons by (simp add: print_open_def run_simps Let_def num_entries_def cJSON_malloc_def)
  moreover have "print_close fmt (Pr_members (cj_child n) (depth + 1)) ?r (s\<lparr>mem_cnt := k\<rparr>) =
      Some (Ret (Text (Some (render fp fmt depth (JObj ms))), s\<lparr>mem_cnt := k + 1\<rparr>))"
    using ok k(1) Cons object_close_run[of "s\<lparr>mem_cnt := k\<rparr>" "depth + 1" fmt "map (\<lambda>m. (snd (string_text (fst m)), render fp fmt (depth + 1) (snd m))) ms"]
    by (simp add: print_close_def run_simps comp_def)
  ultimately show ?thesis using k unfolding printed_as_def
    by (intro exI[of _ "k + 1"]) (simp add: print_run.simps[of _ _ "Pr_value (Some item) depth"] run_simps)
qed

lemma print_at:
  assumes ex: "int_exact fp"
  shows "val_at h st n t N S \<Longrightarrow> plain_tree fp t \<Longrightarrow> nodes s = h \<Longrightarrow> strs s = st \<Longrightarrow> h item = Some n \<Longrightarrow> mem_ok s \<Longrightarrow> 0 \<le> depth \<Longrightarrow>
      printed_as fp fmt (Pr_value (Some item) depth) s (Text (Some (render fp fmt depth t)))"
    and "elems_at h st p ts N S \<Longrightarrow> \<forall>t\<in>set ts. plain_tree fp t \<Longrightarrow> nodes s = h \<Longrightarrow> strs s = st \<Longrightarrow> mem_ok s \<Longrightarrow> 0 \<le> depth \<Longrightarrow>
      printed_as fp fmt (Pr_elems p depth) s (Entries (map (\<lambda>t. Some (render fp fmt (depth + 1) t)) ts))"
    and "members_at h st p ms N S \<Longrightarrow> \<forall>m\<in>set ms. NUL \<notin> set (fst m) \<and> plain_tree fp (snd m) \<Longrightarrow> nodes s = h \<Longrightarrow> strs s = st \<Longrightarrow> mem_ok s \<Longrightarrow> 0 \<le> depth \<Longrightarrow>
      printed_as fp fmt (Pr_members p depth) s (Members (map (\<lambda>m. (Some (snd (string_text (fst m))), Some (render fp fmt depth (snd m)))) ms))"
proof (induction arbitrary: s item depth and s depth and s depth rule: val_at_elems_at_members_at.inducts)
  case (v_null n)
  then show ?case by (intro printed_scalar[where n = n]) (simp_all add: print_scalar_def Let_def fresh_text_run)
next
  case (v_false n)
  then show ?case by (intro printed_scalar[where n = n]) (simp_all add: print_scalar_def Let_def fresh_text_run)
next
  case (v_true n)
  then show ?case by (intro printed_scalar[where n = n]) (simp_all add: print_scalar_def Let_def fresh_text_run)
next
  case (v_num n)
  have "int (length (snd (number_text fp (valueint n) (valuedouble n)))) < fst (number_text fp (valueint n) (valuedouble n))"
    using number_fits[OF ex, of "valueint n"] v_num.prems(1) by simp
  then show ?case using v_num by (intro printed_scalar[where n = n])
      (simp_all add: print_scalar_def Let_def print_number_def fresh_text_run case_prod_unfold)
next
  case (v_str n b str)
  then show ?case using string_text_fits[of str] by (intro printed_scalar[where n = n])
      (simp_all add: print_scalar_def Let_def print_string_ptr_def run_simps fresh_text_run case_prod_unfold)
next
  case (v_arr n ts N S)
  then show ?case by (intro printed_array[where n = n]) auto
next
  case (v_obj n ms N S)
  then show ?case by (intro printed_object[where n = n]) auto
next
  case e_nil
  then show ?case by (auto simp: printed_as_def print_run.simps[of _ _ "Pr_elems None _"] run_simps intro!: exI[of _ "mem_cnt s"])
next
  case (e_cons a n t N S ts N' S')
  obtain k where k: "mem_cnt s \<le> k" "print_run fp fmt (Pr_value (Some a) (depth + 1)) s = Some (Ret (Text (Some (render fp fmt (depth + 1) t)), s\<lparr>mem_cnt := k\<rparr>))"
    using e_cons.IH(3)[where s = s and item = a and depth = "depth + 1"] e_cons.prems e_cons.hyps e_cons.IH(1) by (auto simp: printed_as_def)
  obtain l where l: "k \<le> l" "print_run fp fmt (Pr_elems (cj_next n) depth) (s\<lparr>mem_cnt := k\<rparr>) =
      Some (Ret (Entries (map (\<lambda>t. Some (render fp fmt (depth + 1) t)) ts), s\<lparr>mem_cnt := l\<rparr>))"
    using e_cons.IH(5)[where s = "s\<lparr>mem_cnt := k\<rparr>" and depth = depth] e_cons.prems k(1) by (auto simp: printed_as_def)
  show ?case using k l e_cons.IH(1) e_cons.prems unfolding printed_as_def
    by (intro exI[of _ l]) (simp add: print_run.simps[of _ _ "Pr_elems (Some a) depth"] run_simps next_of_def)
next
  case m_nil
  then show ?case by (auto simp: printed_as_def print_run.simps[of _ _ "Pr_members None _"] run_simps intro!: exI[of _ "mem_cnt s"])
next
  case (m_cons a n b k t N S ms N' S')
  have nt: "name_text (Some a) s = Some (Ret (Some (snd (string_text k)), s\<lparr>mem_cnt := mem_cnt s + 1\<rparr>))"
    using m_cons.hyps m_cons.IH(1,2) m_cons.prems string_text_fits[of k] by (simp add: name_text_def print_string_ptr_def run_simps fresh_text_run case_prod_unfold)
  obtain j where j: "mem_cnt s + 1 \<le> j" "print_run fp fmt (Pr_value (Some a) depth) (s\<lparr>mem_cnt := mem_cnt s + 1\<rparr>) = Some (Ret (Text (Some (render fp fmt depth t)), s\<lparr>mem_cnt := j\<rparr>))"
    using m_cons.IH(4)[where s = "s\<lparr>mem_cnt := mem_cnt s + 1\<rparr>" and item = a and depth = depth] m_cons.prems m_cons.hyps m_cons.IH(1) by (auto simp: printed_as_def)
  obtain l where l: "j \<le> l" "print_run fp fmt (Pr_members (cj_next n) depth) (s\<lparr>mem_cnt := j\<rparr>) =
      Some (Ret (Members (map (\<lambda>m. (Some (snd (string_text (fst m))), Some (render fp fmt depth (snd m)))) ms), s\<lparr>mem_cnt := l\<rparr>))"
    using m_cons.IH(6)[where s = "s\<lparr>mem_cnt := j\<rparr>" and depth = depth] m_cons.prems j(1) by (auto simp: printed_as_def)
  show ?case using nt j l m_cons.IH(1) m_cons.prems unfolding printed_as_def
    by (intro exI[of _ l]) (simp add: print_run.simps[of _ _ "Pr_members (Some a) depth"] run_simps next_of_def)
qed

end
