(* ===== verification/CJsonBuild.thy ===== *)
theory CJsonBuild
  imports CJsonTree
begin

text \<open>
  The parser builds the tree whose text it reads: how the heaps grow, the recursion over arrays and
  objects, and the release of a tree.
\<close>

section \<open>Growing heaps\<close>

lemma tree_dom:
  "val_at h st n t N S \<Longrightarrow> N \<subseteq> dom h \<and> S \<subseteq> dom st"
  "elems_at h st p ts N S \<Longrightarrow> N \<subseteq> dom h \<and> S \<subseteq> dom st"
  "members_at h st p ms N S \<Longrightarrow> N \<subseteq> dom h \<and> S \<subseteq> dom st"
  by (induction rule: val_at_elems_at_members_at.inducts) auto

text \<open>The meaning of a node depends on the heaps in its footprint only, and not on the links to its neighbours.\<close>

lemma tree_cong:
  "val_at h st n t N S \<Longrightarrow> (\<forall>a\<in>N. h' a = h a) \<Longrightarrow> (\<forall>b\<in>S. st' b = st b) \<Longrightarrow> val_at h' st' n t N S"
  "elems_at h st p ts N S \<Longrightarrow> (\<forall>a\<in>N. h' a = h a) \<Longrightarrow> (\<forall>b\<in>S. st' b = st b) \<Longrightarrow> elems_at h' st' p ts N S"
  "members_at h st p ms N S \<Longrightarrow> (\<forall>a\<in>N. h' a = h a) \<Longrightarrow> (\<forall>b\<in>S. st' b = st b) \<Longrightarrow> members_at h' st' p ms N S"
  by (induction rule: val_at_elems_at_members_at.inducts)
    (auto intro: val_at_elems_at_members_at.intros)

lemma val_at_num:
  "cj_type n = cJSON_Number \<Longrightarrow> valuestring n = None \<Longrightarrow> cj_child n = None \<Longrightarrow> valueint n = i \<Longrightarrow> valuedouble n = d \<Longrightarrow>
    val_at h st n (JNum i d) {} {}"
  using v_num by blast

lemma val_at_links:
  assumes "val_at h st n t N S" "cj_type n' = cj_type n" "valuestring n' = valuestring n" "cj_child n' = cj_child n"
    "valueint n' = valueint n" "valuedouble n' = valuedouble n"
  shows "val_at h st n' t N S"
  using assms by (cases rule: val_at.cases) (auto intro: v_null v_false v_true val_at_num v_str v_arr v_obj)

text \<open>The allocator never fails and hands out addresses that are in neither heap.\<close>

definition mem_fresh :: "json \<Rightarrow> bool" where
  "mem_fresh s \<longleftrightarrow> inj_on (mem_src s (malloc_hook s)) {mem_cnt s..} \<and>
     (\<forall>k\<ge>mem_cnt s. \<exists>a. mem_src s (malloc_hook s) k = Some a \<and> a \<notin> dom (nodes s) \<union> dom (strs s))"

text \<open>
  From \<open>s\<close> to \<open>s'\<close>, only the node \<open>x\<close> was changed, and the nodes \<open>N\<close> and strings \<open>S\<close> are new.
\<close>

definition kept :: "nat \<Rightarrow> json \<Rightarrow> json \<Rightarrow> nat set \<Rightarrow> nat set \<Rightarrow> bool" where
  "kept x s s' N S \<longleftrightarrow> (\<forall>a. a \<notin> insert x N \<longrightarrow> nodes s' a = nodes s a) \<and> (\<forall>b. b \<notin> S \<longrightarrow> strs s' b = strs s b) \<and>
     N \<inter> dom (nodes s) = {} \<and> S \<inter> dom (strs s) = {} \<and> x \<in> dom (nodes s) \<and> insert x N \<subseteq> dom (nodes s') \<and> S \<subseteq> dom (strs s')"

lemma keptD:
  assumes "kept x s s' N S"
  shows "a \<notin> insert x N \<Longrightarrow> nodes s' a = nodes s a" "b \<notin> S \<Longrightarrow> strs s' b = strs s b" "N \<inter> dom (nodes s) = {}" "S \<inter> dom (strs s) = {}"
    "x \<in> dom (nodes s)" "insert x N \<subseteq> dom (nodes s')" "S \<subseteq> dom (strs s')"
  using assms unfolding kept_def by blast+

lemma kept_dom:
  assumes "kept x s s' N S"
  shows "dom (nodes s) \<subseteq> dom (nodes s')" "dom (strs s) \<subseteq> dom (strs s')"
proof -
  show "dom (nodes s) \<subseteq> dom (nodes s')"
  proof
    fix a assume "a \<in> dom (nodes s)"
    then show "a \<in> dom (nodes s')" using assms by (cases "a \<in> insert x N") (auto simp: kept_def domIff)
  qed
  show "dom (strs s) \<subseteq> dom (strs s')"
  proof
    fix b assume "b \<in> dom (strs s)"
    then show "b \<in> dom (strs s')" using assms by (cases "b \<in> S") (auto simp: kept_def domIff)
  qed
qed

lemma kept_trans:
  assumes a: "kept x s s1 N1 S1" and b: "kept y s1 s2 N2 S2" and y: "y \<in> insert x N1"
  shows "kept x s s2 (N1 \<union> N2) (S1 \<union> S2)"
  unfolding kept_def
proof (intro conjI allI impI)
  fix z assume z: "z \<notin> insert x (N1 \<union> N2)"
  then have "nodes s1 z = nodes s z" by (intro keptD(1)[OF a]) simp
  moreover have "nodes s2 z = nodes s1 z" using z y by (intro keptD(1)[OF b]) auto
  ultimately show "nodes s2 z = nodes s z" by simp
next
  fix z assume z: "z \<notin> S1 \<union> S2"
  then show "strs s2 z = strs s z" using keptD(2)[OF a, of z] keptD(2)[OF b, of z] by simp
next
  show "(N1 \<union> N2) \<inter> dom (nodes s) = {}" using keptD(3)[OF a] keptD(3)[OF b] kept_dom(1)[OF a] by blast
  show "(S1 \<union> S2) \<inter> dom (strs s) = {}" using keptD(4)[OF a] keptD(4)[OF b] kept_dom(2)[OF a] by blast
  show "x \<in> dom (nodes s)" by (rule keptD(5)[OF a])
  show "insert x (N1 \<union> N2) \<subseteq> dom (nodes s2)" using keptD(6)[OF a] keptD(6)[OF b] kept_dom(1)[OF b] by blast
  show "S1 \<union> S2 \<subseteq> dom (strs s2)" using keptD(7)[OF a] keptD(7)[OF b] kept_dom(2)[OF b] by blast
qed

text \<open>The same, with an allocator that still does not fail.\<close>

definition grown :: "nat \<Rightarrow> json \<Rightarrow> json \<Rightarrow> nat set \<Rightarrow> nat set \<Rightarrow> bool" where
  "grown x s s' N S \<longleftrightarrow> kept x s s' N S \<and> mem_fresh s'"

lemma grownD:
  assumes "grown x s s' N S"
  shows "a \<notin> insert x N \<Longrightarrow> nodes s' a = nodes s a" "b \<notin> S \<Longrightarrow> strs s' b = strs s b" "N \<inter> dom (nodes s) = {}" "S \<inter> dom (strs s) = {}"
    "x \<in> dom (nodes s)" "insert x N \<subseteq> dom (nodes s')" "S \<subseteq> dom (strs s')" "mem_fresh s'"
  using assms keptD[of x s s' N S] unfolding grown_def by blast+

lemma grown_dom: "grown x s s' N S \<Longrightarrow> dom (nodes s) \<subseteq> dom (nodes s')" "grown x s s' N S \<Longrightarrow> dom (strs s) \<subseteq> dom (strs s')"
  using kept_dom[of x s s' N S] unfolding grown_def by blast+

lemma grown_trans: "grown x s s1 N1 S1 \<Longrightarrow> grown y s1 s2 N2 S2 \<Longrightarrow> y \<in> insert x N1 \<Longrightarrow> grown x s s2 (N1 \<union> N2) (S1 \<union> S2)"
  unfolding grown_def using kept_trans by blast

lemma grown_refl: "x \<in> dom (nodes s) \<Longrightarrow> mem_fresh s \<Longrightarrow> grown x s s {} {}"
  by (auto simp: grown_def kept_def)

lemma grown_set:
  assumes "x \<in> dom (nodes s)" "mem_fresh s"
  shows "grown x s (s\<lparr>nodes := (nodes s)(x \<mapsto> n)\<rparr>) {} {}"
  using assms by (auto simp: grown_def kept_def mem_fresh_def insert_absorb)

text \<open>A fresh block: its address, and that the next ones are different.\<close>

lemma mem_fresh_next:
  assumes "mem_fresh s"
  obtains a where "mem_src s (malloc_hook s) (mem_cnt s) = Some a" "a \<notin> dom (nodes s)" "a \<notin> dom (strs s)"
    "\<And>n. mem_fresh (s\<lparr>mem_cnt := mem_cnt s + 1, nodes := (nodes s)(a \<mapsto> n)\<rparr>)"
    "\<And>b. mem_fresh (s\<lparr>mem_cnt := mem_cnt s + 1, strs := (strs s)(a \<mapsto> b)\<rparr>)"
proof -
  obtain a where a: "mem_src s (malloc_hook s) (mem_cnt s) = Some a" "a \<notin> dom (nodes s) \<union> dom (strs s)"
    using assms unfolding mem_fresh_def by blast
  have ne: "mem_src s (malloc_hook s) k \<noteq> Some a" if "k \<ge> Suc (mem_cnt s)" for k
    using assms a(1) that inj_onD[of "mem_src s (malloc_hook s)" "{mem_cnt s..}" k "mem_cnt s"] by (auto simp: mem_fresh_def)
  have inj: "inj_on (mem_src s (malloc_hook s)) {Suc (mem_cnt s)..}"
    using assms unfolding mem_fresh_def by (auto intro: inj_on_subset)
  have "\<exists>c. mem_src s (malloc_hook s) k = Some c \<and> c \<notin> insert a (dom (nodes s) \<union> dom (strs s))" if k: "k \<ge> Suc (mem_cnt s)" for k
  proof -
    obtain c where "mem_src s (malloc_hook s) k = Some c" "c \<notin> dom (nodes s) \<union> dom (strs s)"
      using assms Suc_leD[OF k] unfolding mem_fresh_def by blast
    then show ?thesis using ne[OF k] by auto
  qed
  then show thesis using a inj by (intro that[of a]) (auto simp: mem_fresh_def)
qed

section \<open>The parser\<close>

lemma new_item_run:
  assumes "mem_fresh s" "x \<in> dom (nodes s)"
  obtains y s1 where "cJSON_New_Item s = Some (Ret (Some y, s1))" "s1 = s\<lparr>mem_cnt := mem_cnt s + 1, nodes := (nodes s)(y \<mapsto> zero_node)\<rparr>"
    "y \<notin> dom (nodes s)" "grown x s s1 {y} {}"
proof -
  obtain a where a: "mem_src s (malloc_hook s) (mem_cnt s) = Some a" "a \<notin> dom (nodes s)"
    "\<And>n. mem_fresh (s\<lparr>mem_cnt := mem_cnt s + 1, nodes := (nodes s)(a \<mapsto> n)\<rparr>)" using mem_fresh_next[OF assms(1)] by metis
  let ?s = "s\<lparr>mem_cnt := mem_cnt s + 1, nodes := (nodes s)(a \<mapsto> zero_node)\<rparr>"
  have "grown x s ?s {a} {}" unfolding grown_def kept_def using a(2) assms(2) a(3)[of zero_node] by (auto simp: domIff)
  then show thesis using a by (intro that[of a ?s]) (simp_all add: cJSON_New_Item_def cJSON_malloc_def run_simps)
qed

lemma parse_string_run:
  assumes h: "holds mem p (snd (string_text str))" "NUL \<notin> set str" and x: "nodes s x = Some n" and fr: "mem_fresh s"
  obtains b s1 where "parse_string mem (Some x) p s = Some (Ret (Some (p + length (snd (string_text str))), s1))"
    "s1 = s\<lparr>mem_cnt := mem_cnt s + 1, strs := (strs s)(b \<mapsto> str), nodes := (nodes s)(x \<mapsto> n\<lparr>valuestring := Some b, cj_type := cJSON_String\<rparr>)\<rparr>"
    "b \<notin> dom (strs s)" "grown x s s1 {} {b}"
proof -
  obtain b where b: "mem_src s (malloc_hook s) (mem_cnt s) = Some b" "b \<notin> dom (strs s)"
    "mem_fresh (s\<lparr>mem_cnt := mem_cnt s + 1, strs := (strs s)(b \<mapsto> str)\<rparr>)" using mem_fresh_next[OF fr] by metis
  let ?s = "s\<lparr>mem_cnt := mem_cnt s + 1, strs := (strs s)(b \<mapsto> str), nodes := (nodes s)(x \<mapsto> n\<lparr>valuestring := Some b, cj_type := cJSON_String\<rparr>)\<rparr>"
  let ?e = "concat (map escape str)"
  have t: "snd (string_text str) = QUOTE # ?e @ [QUOTE]" by (rule string_text_snd)
  then have m: "mem ! p = QUOTE" "p < length mem" "holds mem (p + 1) (?e @ [QUOTE])" using h(1) by auto
  then have q: "mem ! (p + 1 + length ?e) = QUOTE" by auto
  obtain k where k: "scan_len mem (p + 1) 0 = Ret k" "length str \<le> k" using scan_len_text[OF m(3) h(2), of 0] by auto
  have c: "copy_str mem (k + 1) (p + 1) [] = Ret (p + 1 + length ?e, str)" using copy_str_text[OF m(3) h(2), of "[]" "k + 1"] k(2) by simp
  have tw: "takeWhile (\<lambda>c. c \<noteq> NUL) str = str" using h(2) by (auto simp: takeWhile_eq_all_conv)
  have "parse_string mem (Some x) p s = Some (Ret (Some (p + 1 + length ?e + 1), ?s))"
    using m(1,2) k c b(1) x q by (simp add: parse_string_def run_simps rd_in cJSON_malloc_def tw)
  moreover have "grown x s ?s {} {b}"
    unfolding grown_def kept_def using b(2,3) x by (auto simp: domIff mem_fresh_def insert_absorb)
  ultimately show thesis using b(2) by (intro that[of ?s b]) (simp_all add: t)
qed

text \<open>What \<open>parse_run\<close> does to an item when the text of the tree \<open>t\<close> is at \<open>p\<close>.\<close>

definition blank_item :: "cJSON \<Rightarrow> bool" where
  "blank_item n \<longleftrightarrow> valuestring n = None \<and> cj_child n = None"

definition built :: "fp \<Rightarrow> string \<Rightarrow> nat \<Rightarrow> nat \<Rightarrow> nat \<Rightarrow> cJSON \<Rightarrow> jtree \<Rightarrow> json \<Rightarrow> bool" where
  "built fp mem p e x n t s \<longleftrightarrow> (\<exists>s' n' N S. parse_run fp mem (P_value (Some x) p) s = Some (Ret (Some e, s')) \<and>
     grown x s s' N S \<and> nodes s' x = Some n' \<and> val_at (nodes s') (strs s') n' t N S \<and>
     cj_next n' = cj_next n \<and> cj_prev n' = cj_prev n \<and> cj_string n' = cj_string n)"

definition parses :: "fp \<Rightarrow> jtree \<Rightarrow> bool" where
  "parses fp t \<longleftrightarrow> (\<forall>fmt depth mem p c x n s.
     holds mem p (render fp fmt depth t @ [c]) \<longrightarrow> num_stop c \<longrightarrow> nodes s x = Some n \<longrightarrow> blank_item n \<longrightarrow> mem_fresh s \<longrightarrow>
     built fp mem p (p + length (render fp fmt depth t)) x n t s)"

lemma builtI:
  assumes "parse_run fp mem (P_value (Some x) p) s = Some (Ret (Some e, s'))" "grown x s s' N S" "nodes s' x = Some n'"
    "val_at (nodes s') (strs s') n' t N S" "cj_next n' = cj_next n" "cj_prev n' = cj_prev n" "cj_string n' = cj_string n"
  shows "built fp mem p e x n t s"
  using assms unfolding built_def by blast

lemma starts_with_no: "p < length mem \<Longrightarrow> mem ! p \<noteq> c \<Longrightarrow> starts_with mem p (c # cs) = Ret False"
  by (simp add: rd_in)

lemma starts_with_yes: "holds mem p cs \<Longrightarrow> starts_with mem p cs = Ret True"
  by (induction cs arbitrary: p) (simp_all add: rd_in)

lemma parse_value_done:
  assumes "value_step fp mem (Some x) p s = Some (Ret (P_done q, s'))"
  shows "parse_run fp mem (P_value (Some x) p) s = Some (Ret (q, s'))"
  using assms by (simp add: parse_run.simps[of _ _ "P_value (Some x) p"] parse_run.simps[of _ _ "P_done q"] run_simps)

lemma parses_literal:
  assumes t: "t = JNull \<or> t = JFalse \<or> t = JTrue"
  shows "parses fp t"
  unfolding parses_def
proof (intro allI impI)
  fix fmt depth mem p c x n s
  assume h: "holds mem p (render fp fmt depth t @ [c])" "nodes s x = Some n" "blank_item n" "mem_fresh s"
  have h0: "p < length mem" using h(1) t by auto
  let ?n = "if t = JNull then n\<lparr>cj_type := cJSON_NULL\<rparr> else if t = JFalse then n\<lparr>cj_type := cJSON_False\<rparr> else n\<lparr>cj_type := cJSON_True, valueint := 1\<rparr>"
  let ?s = "s\<lparr>nodes := (nodes s)(x \<mapsto> ?n)\<rparr>"
  have "value_step fp mem (Some x) p s = Some (Ret (P_done (Some (p + length (render fp fmt depth t))), ?s))"
    using t h starts_with_yes[of mem p "render fp fmt depth t"] starts_with_no[OF h0]
    by (auto simp: value_step_def run_simps simp del: starts_with.simps)
  moreover have "grown x s ?s {} {}" using h(2,4) by (intro grown_set) auto
  moreover have "val_at (nodes ?s) (strs ?s) ?n t {} {}" using t h(3) by (auto simp: blank_item_def intro: v_null v_false v_true)
  ultimately show "built fp mem p (p + length (render fp fmt depth t)) x n t s"
    by (intro builtI[where s' = ?s and n' = ?n and N = "{}" and S = "{}"] parse_value_done) auto
qed

lemma value_step_other:
  assumes "p < length mem" "mem ! p \<noteq> CHR ''n''" "mem ! p \<noteq> CHR ''f''" "mem ! p \<noteq> CHR ''t''"
  shows "value_step fp mem (Some x) p s = (let c = mem ! p in
     if c = QUOTE then bnd (parse_string mem (Some x) p) (\<lambda>q. ret (P_done q)) else
     if c = CHR ''-'' \<or> isdigit c then bnd (parse_number fp mem (Some x) p) (\<lambda>q. ret (P_done q)) else
     if c = CHR ''['' then parse_array_open mem (Some x) p else
     if c = CHR ''{'' then parse_object_open mem (Some x) p else
     bnd (set_ep p) (\<lambda>_. ret (P_done None))) s"
  using assms starts_with_no[OF assms(1)] by (simp add: value_step_def run_simps rd_in Let_def del: starts_with.simps)

lemma parses_str:
  assumes "NUL \<notin> set str"
  shows "parses fp (JStr str)"
  unfolding parses_def
proof (intro allI impI)
  fix fmt depth mem p c x n s
  assume h: "holds mem p (render fp fmt depth (JStr str) @ [c])" "nodes s x = Some n" "blank_item n" "mem_fresh s"
  have t: "holds mem p (snd (string_text str))" "mem ! p = QUOTE" "p < length mem" using h(1) by (auto simp: string_text_snd)
  obtain b s1 where b: "parse_string mem (Some x) p s = Some (Ret (Some (p + length (snd (string_text str))), s1))"
    "s1 = s\<lparr>mem_cnt := mem_cnt s + 1, strs := (strs s)(b \<mapsto> str), nodes := (nodes s)(x \<mapsto> n\<lparr>valuestring := Some b, cj_type := cJSON_String\<rparr>)\<rparr>"
    "grown x s s1 {} {b}" using parse_string_run[OF t(1) assms h(2,4)] by metis
  show "built fp mem p (p + length (render fp fmt depth (JStr str))) x n (JStr str) s"
  proof (intro builtI[where s' = s1] parse_value_done)
    show "value_step fp mem (Some x) p s = Some (Ret (P_done (Some (p + length (render fp fmt depth (JStr str)))), s1))"
      using t b(1) by (simp add: value_step_other run_simps)
    show "val_at (nodes s1) (strs s1) (n\<lparr>valuestring := Some b, cj_type := cJSON_String\<rparr>) (JStr str) {} {b}"
      using h(3) b(2) by (intro v_str) (simp_all add: blank_item_def)
  qed (use b in simp_all)
qed

lemma parses_num:
  assumes ex: "int_exact fp" and i: "- (2 ^ 31) \<le> i" "i < 2 ^ 31"
  shows "parses fp (JNum i (fp_of_int fp i))"
  unfolding parses_def
proof (intro allI impI)
  fix fmt depth mem p c x n s
  let ?t = "snd (number_text fp i (fp_of_int fp i))"
  assume h: "holds mem p (render fp fmt depth (JNum i (fp_of_int fp i)) @ [c])" "num_stop c" "nodes s x = Some n" "blank_item n" "mem_fresh s"
  obtain d ds where d: "?t = d # ds" "d = CHR ''-'' \<or> isdigit d"
    using number_text_int[OF ex i] dec_str_head[of "nat i"] by (auto simp: int_str_def isdigit_def split: if_splits)
  have m: "p < length mem" "mem ! p = d" using h(1) d by auto
  have ne: "d \<noteq> CHR ''n''" "d \<noteq> CHR ''f''" "d \<noteq> CHR ''t''" "d \<noteq> QUOTE" using d(2) by (auto simp: isdigit_def)
  let ?n = "n\<lparr>valuedouble := fp_of_int fp i, valueint := i, cj_type := cJSON_Number\<rparr>"
  let ?s = "s\<lparr>nodes := (nodes s)(x \<mapsto> ?n)\<rparr>"
  have "scan_number fp mem p = Ret (p + length ?t, fp_of_int fp i)" using scan_number_int[OF ex i _ h(2)] h(1) by simp
  then have "value_step fp mem (Some x) p s = Some (Ret (P_done (Some (p + length ?t)), ?s))"
    using m ne d(2) h(3) i int_exactD(6)[OF ex, of i 0] by (auto simp: value_step_other Let_def parse_number_def run_simps)
  moreover have "grown x s ?s {} {}" using h(3,5) by (intro grown_set) auto
  moreover have "val_at (nodes ?s) (strs ?s) ?n (JNum i (fp_of_int fp i)) {} {}" using h(4) by (intro val_at_num) (simp_all add: blank_item_def)
  ultimately show "built fp mem p (p + length (render fp fmt depth (JNum i (fp_of_int fp i)))) x n (JNum i (fp_of_int fp i)) s"
    by (intro builtI[where s' = ?s and n' = ?n and N = "{}" and S = "{}"] parse_value_done) auto
qed

text \<open>The step of both loops at a comma, and at the closing bracket.\<close>

lemma not_blank [simp]: "\<not> blank (CHR '','')" "\<not> blank (CHR '']'')" "\<not> blank (CHR ''}'')" "\<not> blank (CHR '':'')" "\<not> blank QUOTE"
  "\<not> blank (CHR ''['')" "\<not> blank (CHR ''{'')" "blank (CHR '' '')" "blank (CHR 0x0A)" "blank (CHR 0x09)"
  by (simp_all add: blank_def code_def)

lemma loop_comma:
  assumes q: "skip mem q0 = Ret q" "q < length mem" "mem ! q = CHR '',''" and x: "nodes s x = Some n" and fr: "mem_fresh s"
  shows "\<exists>y s2. loop_step mem close cont (Some x) (Some q0) s = cont (Some y) (q + 1) s2 \<and> grown x s s2 {y} {} \<and>
    nodes s2 x = Some (n\<lparr>cj_next := Some y\<rparr>) \<and> nodes s2 y = Some (zero_node\<lparr>cj_prev := Some x\<rparr>) \<and> strs s2 = strs s"
proof -
  have xd: "x \<in> dom (nodes s)" using x by blast
  obtain y s1 where y: "cJSON_New_Item s = Some (Ret (Some y, s1))" "s1 = s\<lparr>mem_cnt := mem_cnt s + 1, nodes := (nodes s)(y \<mapsto> zero_node)\<rparr>"
    "y \<notin> dom (nodes s)" "grown x s s1 {y} {}" using new_item_run[OF fr xd] by metis
  have xy: "x \<noteq> y" using y(3) xd by blast
  let ?s2 = "s1\<lparr>nodes := (nodes s1)(x \<mapsto> n\<lparr>cj_next := Some y\<rparr>)\<rparr>"
  let ?s3 = "?s2\<lparr>nodes := (nodes ?s2)(y \<mapsto> zero_node\<lparr>cj_prev := Some x\<rparr>)\<rparr>"
  have g1: "grown x s1 ?s2 {} {}" using y(4) x xy y(2) by (intro grown_set) (auto simp: grownD(8))
  have g2: "grown y ?s2 ?s3 {} {}" using grownD(8)[OF g1] y(2) by (intro grown_set) auto
  have "grown x s ?s2 {y} {}" using grown_trans[OF y(4) g1] by simp
  then have "grown x s ?s3 {y} {}" using grown_trans[OF _ g2, of x s "{y}" "{}"] by simp
  moreover have "loop_step mem close cont (Some x) (Some q0) s = cont (Some y) (q + 1) ?s3"
    using q x xy y(1,2) by (simp add: loop_step_def skip_ptr_def run_simps rd_in comp_def)
  ultimately show ?thesis using y(2,3) xy by (intro exI[of _ y] exI[of _ ?s3]) auto
qed

lemma loop_close:
  assumes "skip mem q0 = Ret q" "q < length mem" "mem ! q = close" "close \<noteq> CHR '',''"
  shows "loop_step mem close cont (Some x) (Some q0) s = Some (Ret (P_done (Some (q + 1)), s))"
  using assms by (simp add: loop_step_def skip_ptr_def run_simps rd_in)

lemma render_head:
  assumes "int_exact fp" "plain_tree fp t"
  shows "\<exists>d r. render fp fmt depth t = d # r \<and> \<not> blank d \<and> d \<noteq> CHR '']''"
proof (cases t)
  case (JNum i d)
  then have i: "- (2 ^ 31) \<le> i" "i < 2 ^ 31" "d = fp_of_int fp i" using assms(2) by auto
  have "\<exists>e es. snd (number_text fp i d) = e # es \<and> (e = CHR ''-'' \<or> isdigit e)"
    using number_text_int[OF assms(1) i(1,2)] i(3) dec_str_head[of "nat i"] by (auto simp: int_str_def isdigit_def split: if_splits)
  then show ?thesis using JNum by (auto simp: blank_def code_def isdigit_def)
next
  case (JArr ts)
  then show ?thesis by (simp add: array_text_def)
qed (auto simp: string_text_snd object_text_def blank_def code_def)

text \<open>Joining what was built for an item with what was built for the items after it.\<close>

lemma join_items:
  assumes v: "nodes s1 x = Some n1" "val_at (nodes s1) (strs s1) n1 t N1 S1" and S0: "S1 \<subseteq> S0"
    and g1: "grown x s s1 N1 S0" and l: "grown x s1 s2 {y} {}" "nodes s2 x = Some (n1\<lparr>cj_next := Some y\<rparr>)" "strs s2 = strs s1"
    and g2: "grown y s2 s3 N2 S2"
  shows "nodes s3 x = Some (n1\<lparr>cj_next := Some y\<rparr>)" "val_at (nodes s3) (strs s3) (n1\<lparr>cj_next := Some y\<rparr>) t N1 S1"
    "grown x s s3 (N1 \<union> insert y N2) (S0 \<union> S2)" "x \<notin> N1 \<union> insert y N2" "N1 \<inter> insert y N2 = {}" "S0 \<inter> S2 = {}"
    "b \<in> S0 \<Longrightarrow> strs s3 b = strs s1 b"
proof -
  have d: "N1 \<subseteq> dom (nodes s1)" "S0 \<subseteq> dom (strs s1)" "x \<in> dom (nodes s1)" using tree_dom(1)[OF v(2)] grownD(7)[OF g1] v(1) by auto
  have y: "y \<notin> dom (nodes s1)" using grownD(3)[OF l(1)] by simp
  have n2: "N2 \<inter> dom (nodes s2) = {}" "S2 \<inter> dom (strs s2) = {}" using grownD(3,4)[OF g2] by auto
  have n1: "N1 \<inter> insert y N2 = {}" "x \<notin> insert y N2" using d y n2(1) grown_dom(1)[OF l(1)] by blast+
  then show "N1 \<inter> insert y N2 = {}" by simp
  show s12: "S0 \<inter> S2 = {}" using d(2) n2(2) l(3) by auto
  show "nodes s3 x = Some (n1\<lparr>cj_next := Some y\<rparr>)" using grownD(1)[OF g2, of x] n1(2) l(2) by simp
  have xN: "x \<notin> N1" using grownD(3)[OF g1] grownD(5)[OF g1] by blast
  then show "x \<notin> N1 \<union> insert y N2" using n1(2) by blast
  have "\<forall>a\<in>N1. nodes s3 a = nodes s1 a"
  proof
    fix a assume a: "a \<in> N1"
    then have "nodes s3 a = nodes s2 a" using grownD(1)[OF g2, of a] n1(1) by auto
    moreover have "nodes s2 a = nodes s1 a" using grownD(1)[OF l(1), of a] a xN n1(1) by auto
    ultimately show "nodes s3 a = nodes s1 a" by simp
  qed
  moreover show "b \<in> S0 \<Longrightarrow> strs s3 b = strs s1 b" for b using grownD(2)[OF g2, of b] s12 l(3) by auto
  ultimately have "val_at (nodes s3) (strs s3) n1 t N1 S1" using tree_cong(1)[OF v(2)] S0 by blast
  then show "val_at (nodes s3) (strs s3) (n1\<lparr>cj_next := Some y\<rparr>) t N1 S1" by (rule val_at_links) simp_all
  have "grown x s s2 (N1 \<union> {y}) S0" using grown_trans[OF g1 l(1)] by simp
  then show "grown x s s3 (N1 \<union> insert y N2) (S0 \<union> S2)" using grown_trans[OF _ g2, of x s "N1 \<union> {y}" S0] by (simp add: Un_assoc)
qed

definition sep :: "bool \<Rightarrow> string" where
  "sep fmt = (if fmt then '', '' else '','')"

lemma skip_sep:
  assumes "int_exact fp" "plain_tree fp u" "holds mem q (sep fmt @ render fp fmt d u)"
  shows "skip mem (q + 1) = Ret (q + length (sep fmt))" "mem ! q = CHR '',''" "q < length mem"
proof -
  obtain c r where c: "render fp fmt d u = c # r" "\<not> blank c" using render_head[OF assms(1,2)] by blast
  then have "holds mem (q + 1) ((if fmt then '' '' else []) @ [c])" using assms(3) by (auto simp: sep_def)
  then have "skip mem (q + 1) = Ret (q + 1 + length (if fmt then '' '' else []))" using c(2) by (intro skip_blanks) auto
  then show "skip mem (q + 1) = Ret (q + length (sep fmt))" by (simp add: sep_def split: if_splits)
  show "mem ! q = CHR '',''" "q < length mem" using assms(3) by (auto simp: sep_def split: if_splits)
qed

lemma elem_first:
  assumes "parses fp t" "holds mem v (render fp fmt d t @ [c])" "num_stop c" "nodes s x = Some m" "blank_item m" "mem_fresh s"
  shows "\<exists>s1 n1 N1 S1. grown x s s1 N1 S1 \<and> nodes s1 x = Some n1 \<and> val_at (nodes s1) (strs s1) n1 t N1 S1 \<and> cj_next n1 = cj_next m \<and>
    cj_string n1 = cj_string m \<and> parse_run fp mem (P_value (Some x) v) s = Some (Ret (Some (v + length (render fp fmt d t)), s1))"
proof -
  have "built fp mem v (v + length (render fp fmt d t)) x m t s" using assms unfolding parses_def by blast
  then show ?thesis unfolding built_def by blast
qed

lemma num_stop_simps [simp]: "num_stop (CHR '','')" "num_stop (CHR '']'')" "num_stop (CHR ''}'')" "num_stop (CHR 0x0A)" "num_stop NUL"
  by (simp_all add: num_stop_def isdigit_def)

text \<open>The elements of an array from the first one on.\<close>

lemma parse_elem_list:
  assumes ex: "int_exact fp"
  shows "\<forall>u\<in>set (t # ts). parses fp u \<and> plain_tree fp u \<Longrightarrow>
    holds mem v (render fp fmt d t @ concat (map (\<lambda>u. sep fmt @ render fp fmt d u) ts) @ '']'') \<Longrightarrow>
    nodes s x = Some m \<Longrightarrow> blank_item m \<Longrightarrow> cj_next m = None \<Longrightarrow> cj_string m = None \<Longrightarrow> mem_fresh s \<Longrightarrow>
    \<exists>s' N S. parse_run fp mem (P_elem (Some x) v) s =
        Some (Ret (Some (v + length (render fp fmt d t @ concat (map (\<lambda>u. sep fmt @ render fp fmt d u) ts) @ '']'')), s')) \<and>
      grown x s s' N S \<and> elems_at (nodes s') (strs s') (Some x) (t # ts) (insert x N) S"
proof (induction ts arbitrary: t v x s m)
  case Nil
  have h: "holds mem v (render fp fmt d t @ '']'')" using Nil.prems(2) by simp
  obtain s1 n1 N1 S1 where s1: "grown x s s1 N1 S1" "nodes s1 x = Some n1" "val_at (nodes s1) (strs s1) n1 t N1 S1" "cj_next n1 = None"
    "cj_string n1 = None" "parse_run fp mem (P_value (Some x) v) s = Some (Ret (Some (v + length (render fp fmt d t)), s1))"
    using elem_first[OF _ h _ Nil.prems(3,4,7)] Nil.prems(1,5,6) by auto
  let ?q = "v + length (render fp fmt d t)"
  have q: "?q < length mem" "mem ! ?q = CHR '']''" using h by auto
  have "elems_step mem (Some x) (Some ?q) s1 = Some (Ret (P_done (Some (?q + 1)), s1))"
    unfolding elems_step_def using q by (intro loop_close skip_none) simp_all
  then have "parse_run fp mem (P_elem (Some x) v) s = Some (Ret (Some (?q + 1), s1))"
    using s1(6) by (simp add: parse_run.simps[of _ _ "P_elem (Some x) v"] parse_run.simps[of _ _ "P_elems _ _"] parse_run.simps[of _ _ "P_done _"] run_simps)
  moreover have "x \<notin> N1" using grownD(3,5)[OF s1(1)] by blast
  then have "elems_at (nodes s1) (strs s1) (Some x) [t] (insert x (N1 \<union> {})) (S1 \<union> {})"
    using s1 by (intro e_cons[where n = n1]) (auto intro: e_nil)
  ultimately show ?case using s1(1) by (intro exI[of _ s1] exI[of _ N1] exI[of _ S1]) simp
next
  case (Cons u us)
  let ?r = "render fp fmt d"
  let ?rest = "concat (map (\<lambda>u. sep fmt @ ?r u) us) @ '']''"
  let ?q = "v + length (?r t)"
  have h: "holds mem v (?r t @ '','')" "holds mem ?q (sep fmt @ ?r u)" "holds mem (?q + length (sep fmt)) (?r u @ ?rest)"
    using Cons.prems(2) by (auto simp: sep_def split: if_splits)
  obtain s1 n1 N1 S1 where s1: "grown x s s1 N1 S1" "nodes s1 x = Some n1" "val_at (nodes s1) (strs s1) n1 t N1 S1" "cj_next n1 = None"
    "cj_string n1 = None" "parse_run fp mem (P_value (Some x) v) s = Some (Ret (Some ?q, s1))"
    using elem_first[OF _ h(1) _ Cons.prems(3,4,7)] Cons.prems(1,5,6) by auto
  have sk: "skip mem (?q + 1) = Ret (?q + length (sep fmt))" "mem ! ?q = CHR '',''" "?q < length mem"
    using skip_sep[OF ex _ h(2)] Cons.prems(1) by auto
  have q: "skip mem ?q = Ret ?q" using sk(2,3) by (intro skip_none) simp_all
  obtain y s2 where y: "elems_step mem (Some x) (Some ?q) s1 = Some (Ret (P_elem (Some y) (?q + length (sep fmt)), s2))" "grown x s1 s2 {y} {}"
    "nodes s2 x = Some (n1\<lparr>cj_next := Some y\<rparr>)" "nodes s2 y = Some (zero_node\<lparr>cj_prev := Some x\<rparr>)" "strs s2 = strs s1"
    using loop_comma[OF q sk(3,2) s1(2) grownD(8)[OF s1(1)], where close = "CHR '']''" and cont = "\<lambda>c v. bnd (lift_out (skip mem v)) (\<lambda>v. ret (P_elem c v))"] sk(1)
    unfolding elems_step_def by (auto simp: run_simps)
  obtain s3 N2 S2 where s3: "parse_run fp mem (P_elem (Some y) (?q + length (sep fmt))) s2 =
      Some (Ret (Some (?q + length (sep fmt) + length (?r u @ ?rest)), s3))" "grown y s2 s3 N2 S2"
    "elems_at (nodes s3) (strs s3) (Some y) (u # us) (insert y N2) S2"
    using Cons.IH[OF _ h(3) y(4) _ _ _ grownD(8)[OF y(2)]] Cons.prems(1) by (auto simp: blank_item_def zero_node_def)
  note j = join_items[OF s1(2,3) order_refl s1(1) y(2,3,5) s3(2)]
  have "parse_run fp mem (P_elem (Some x) v) s = Some (Ret (Some (?q + length (sep fmt) + length (?r u @ ?rest)), s3))"
    using s1(6) y(1) s3(1) by (simp add: parse_run.simps[of _ _ "P_elem (Some x) v"] parse_run.simps[of _ _ "P_elems _ _"] run_simps)
  moreover have "elems_at (nodes s3) (strs s3) (Some x) (t # u # us) (insert x (N1 \<union> insert y N2)) (S1 \<union> S2)"
    using j s3(3) s1(5) by (intro e_cons[where n = "n1\<lparr>cj_next := Some y\<rparr>"]) auto
  ultimately show ?case using j(3) by (intro exI[of _ s3] exI[of _ "N1 \<union> insert y N2"] exI[of _ "S1 \<union> S2"]) (simp add: add.assoc)
qed

text \<open>Opening an array or an object: the item gets its type and a first child.\<close>

lemma open_item:
  assumes x: "nodes s x = Some n" and fr: "mem_fresh s"
  shows "\<exists>y s3. bnd (set_node (Some x) (\<lambda>i. i\<lparr>cj_type := ty\<rparr>)) (\<lambda>_. bnd cJSON_New_Item (\<lambda>child. bnd (set_node (Some x) (\<lambda>i. i\<lparr>cj_child := child\<rparr>)) (\<lambda>_. ret child))) s =
      Some (Ret (Some y, s3)) \<and> grown x s s3 {y} {} \<and> nodes s3 x = Some (n\<lparr>cj_type := ty, cj_child := Some y\<rparr>) \<and> nodes s3 y = Some zero_node \<and> strs s3 = strs s"
proof -
  let ?s1 = "s\<lparr>nodes := (nodes s)(x \<mapsto> n\<lparr>cj_type := ty\<rparr>)\<rparr>"
  have g1: "grown x s ?s1 {} {}" using x fr by (intro grown_set) auto
  obtain y s2 where y: "cJSON_New_Item ?s1 = Some (Ret (Some y, s2))" "s2 = ?s1\<lparr>mem_cnt := mem_cnt ?s1 + 1, nodes := (nodes ?s1)(y \<mapsto> zero_node)\<rparr>"
    "y \<notin> dom (nodes ?s1)" "grown x ?s1 s2 {y} {}" using new_item_run[OF grownD(8)[OF g1], of x] by auto
  have xy: "x \<noteq> y" using y(3) by auto
  let ?s3 = "s2\<lparr>nodes := (nodes s2)(x \<mapsto> n\<lparr>cj_type := ty, cj_child := Some y\<rparr>)\<rparr>"
  have g3: "grown x s2 ?s3 {} {}" using grownD(8)[OF y(4)] xy y(2) by (intro grown_set) auto
  have "grown x s ?s3 {y} {}" using grown_trans[OF grown_trans[OF g1 y(4)] g3] by simp
  moreover have "set_node (Some x) (\<lambda>i. i\<lparr>cj_type := ty\<rparr>) s = Some (Ret ((), ?s1))" using x by (simp add: run_simps)
  moreover have "set_node (Some x) (\<lambda>i. i\<lparr>cj_child := Some y\<rparr>) s2 = Some (Ret ((), ?s3))" using xy y(2) by (simp add: run_simps comp_def)
  ultimately show ?thesis using xy y(1,2) by (intro exI[of _ y] exI[of _ ?s3]) (simp add: bnd_def ret_def)
qed

lemma parse_array_open_first:
  assumes x: "nodes s x = Some n" and fr: "mem_fresh s" and v: "Suc p < length mem" "\<not> blank (mem ! Suc p)" "mem ! Suc p \<noteq> CHR '']''"
  shows "\<exists>y s3. parse_array_open mem (Some x) p s = Some (Ret (P_elem (Some y) (p + 1), s3)) \<and>
     grown x s s3 {y} {} \<and> nodes s3 x = Some (n\<lparr>cj_type := cJSON_Array, cj_child := Some y\<rparr>) \<and> nodes s3 y = Some zero_node \<and> strs s3 = strs s"
proof -
  have sk: "skip mem (Suc p) = Ret (Suc p)" using v(1,2) by (rule skip_none)
  from open_item[OF x fr, of cJSON_Array] obtain y s3 where y: "bnd (set_node (Some x) (\<lambda>i. i\<lparr>cj_type := cJSON_Array\<rparr>)) (\<lambda>_. bnd cJSON_New_Item (\<lambda>child.
       bnd (set_node (Some x) (\<lambda>i. i\<lparr>cj_child := child\<rparr>)) (\<lambda>_. ret child))) s = Some (Ret (Some y, s3))"
    "grown x s s3 {y} {}" "nodes s3 x = Some (n\<lparr>cj_type := cJSON_Array, cj_child := Some y\<rparr>)" "nodes s3 y = Some zero_node" "strs s3 = strs s" by blast
  have "parse_array_open mem (Some x) p s = Some (Ret (P_elem (Some y) (p + 1), s3))"
    using y(1) sk v(1,3) unfolding parse_array_open_def bnd_Ret_iff
    by (fastforce simp: bnd_Ret_iff run_simps rd_in)
  then show ?thesis using y by blast
qed

lemma parses_arr:
  assumes ex: "int_exact fp" and ts: "\<forall>u\<in>set ts. parses fp u \<and> plain_tree fp u"
  shows "parses fp (JArr ts)"
  unfolding parses_def
proof (intro allI impI)
  fix fmt depth mem p c x n s
  let ?r = "render fp fmt (depth + 1)"
  assume h: "holds mem p (render fp fmt depth (JArr ts) @ [c])" "nodes s x = Some n" "blank_item n" "mem_fresh s"
  have p: "p < length mem" "mem ! p = CHR ''[''" using h(1) by (auto simp: array_text_def)
  have vs: "value_step fp mem (Some x) p s = parse_array_open mem (Some x) p s"
    using p by (simp add: value_step_other Let_def isdigit_def)
  show "built fp mem p (p + length (render fp fmt depth (JArr ts))) x n (JArr ts) s"
  proof (cases ts)
    case Nil
    let ?n = "n\<lparr>cj_type := cJSON_Array\<rparr>"
    let ?s = "s\<lparr>nodes := (nodes s)(x \<mapsto> ?n)\<rparr>"
    have m: "Suc p < length mem" "mem ! Suc p = CHR '']''" using h(1) Nil by (auto simp: array_text_def)
    then have "parse_array_open mem (Some x) p s = Some (Ret (P_done (Some (p + 2)), ?s))"
      using h(2) skip_none[of "Suc p" mem] by (simp add: parse_array_open_def run_simps rd_in)
    moreover have "grown x s ?s {} {}" using h(2,4) by (intro grown_set) auto
    moreover have "val_at (nodes ?s) (strs ?s) ?n (JArr []) {} {}" using h(3) by (intro v_arr) (auto simp: blank_item_def intro: e_nil)
    ultimately show ?thesis using vs Nil
      by (intro builtI[where s' = ?s and n' = ?n and N = "{}" and S = "{}"] parse_value_done) (auto simp: array_text_def)
  next
    case (Cons t us)
    let ?txt = "?r t @ concat (map (\<lambda>u. sep fmt @ ?r u) us) @ '']''"
    have r: "render fp fmt depth (JArr ts) = CHR ''['' # ?txt" using Cons by (simp add: array_text_def sep_def comp_def)
    have hv: "holds mem (p + 1) ?txt" using h(1) unfolding r by simp
    obtain d ds where d: "?r t = d # ds" "\<not> blank d" "d \<noteq> CHR '']''" using render_head[OF ex, of t fmt "depth + 1"] ts Cons by auto
    have pd: "Suc p < length mem" "mem ! Suc p = d" using hv d(1) by auto
    obtain y s3 where y: "parse_array_open mem (Some x) p s = Some (Ret (P_elem (Some y) (p + 1), s3))" "grown x s s3 {y} {}"
      "nodes s3 x = Some (n\<lparr>cj_type := cJSON_Array, cj_child := Some y\<rparr>)" "nodes s3 y = Some zero_node"
      using parse_array_open_first[OF h(2,4) pd(1)] pd(2) d by auto
    obtain s4 N S where s4: "parse_run fp mem (P_elem (Some y) (p + 1)) s3 = Some (Ret (Some (p + 1 + length ?txt), s4))"
      "grown y s3 s4 N S" "elems_at (nodes s4) (strs s4) (Some y) (t # us) (insert y N) S"
      using parse_elem_list[OF ex _ hv y(4) _ _ _ grownD(8)[OF y(2)]] ts Cons by (auto simp: blank_item_def zero_node_def)
    have "parse_run fp mem (P_value (Some x) p) s = Some (Ret (Some (p + length (render fp fmt depth (JArr ts))), s4))"
      using vs y(1) s4(1) unfolding r by (simp add: parse_run.simps[of _ _ "P_value _ _"] run_simps)
    moreover have "x \<notin> insert y N" using y(3) grownD(3)[OF s4(2)] grownD(3,5)[OF y(2)] by blast
    then have x4: "nodes s4 x = Some (n\<lparr>cj_type := cJSON_Array, cj_child := Some y\<rparr>)" using grownD(1)[OF s4(2), of x] y(3) by auto
    moreover have "grown x s s4 (insert y N) S" using grown_trans[OF y(2) s4(2)] by simp
    moreover have "val_at (nodes s4) (strs s4) (n\<lparr>cj_type := cJSON_Array, cj_child := Some y\<rparr>) (JArr ts) (insert y N) S"
      using s4(3) h(3) Cons by (intro v_arr) (simp_all add: blank_item_def)
    ultimately show ?thesis by (intro builtI[where s' = s4 and n' = "n\<lparr>cj_type := cJSON_Array, cj_child := Some y\<rparr>" and N = "insert y N" and S = S]) auto
  qed
qed

section \<open>Objects\<close>

lemma members_text_Cons:
  "members_text fmt dp (m # ms) = (if fmt then tabs dp else []) @ fst m @ [CHR '':''] @ (if fmt then [CHR 0x09] else []) @ snd m @
     (if ms = [] then [] else '','') @ (if fmt then [CHR 0x0A] else []) @ members_text fmt dp ms"
  by (cases ms) (simp_all add: member_text_def split: prod.split)

lemma blank_tabs [simp]: "list_all blank (tabs k)"
  by (simp add: tabs_def list_all_iff)

lemma member_step_run:
  assumes h: "holds mem v (ws @ snd (string_text k) @ [CHR '':''] @ wt @ [c])" and ws: "list_all blank ws" "list_all blank wt" "\<not> blank c"
    and k: "NUL \<notin> set k" and x: "nodes s x = Some m" "blank_item m" and fr: "mem_fresh s"
  shows "\<exists>b s1. member_step mem (Some x) v s = Some (Ret (P_mvalue (Some x) (v + length (ws @ snd (string_text k) @ [CHR '':''] @ wt)), s1)) \<and>
    grown x s s1 {} {b} \<and> nodes s1 x = Some (m\<lparr>cj_type := cJSON_String, cj_string := Some b, valuestring := None\<rparr>) \<and> strs s1 b = Some k"
proof -
  let ?K = "snd (string_text k)" and ?w = "v + length ws"
  have hk: "holds mem ?w ?K" and hc: "holds mem (?w + length ?K) [CHR '':'']" and hw: "holds mem (?w + length ?K + 1) (wt @ [c])" using h by auto
  have "mem ! ?w = QUOTE" "?w < length mem" using hk by (auto simp: string_text_snd)
  then have sk: "skip mem v = Ret ?w" using h ws(1) by (intro skip_blanks[where c = QUOTE]) auto
  obtain b s0 where b: "parse_string mem (Some x) ?w s = Some (Ret (Some (?w + length ?K), s0))"
    "s0 = s\<lparr>mem_cnt := mem_cnt s + 1, strs := (strs s)(b \<mapsto> k), nodes := (nodes s)(x \<mapsto> m\<lparr>valuestring := Some b, cj_type := cJSON_String\<rparr>)\<rparr>"
    "b \<notin> dom (strs s)" "grown x s s0 {} {b}" using parse_string_run[OF hk k x(1) fr] by metis
  let ?s1 = "s0\<lparr>nodes := (nodes s0)(x \<mapsto> m\<lparr>cj_type := cJSON_String, cj_string := Some b, valuestring := None\<rparr>)\<rparr>"
  have q: "skip mem (?w + length ?K) = Ret (?w + length ?K)" "mem ! (?w + length ?K) = CHR '':''" "?w + length ?K < length mem"
    using hc by (auto intro!: skip_none)
  have sk2: "skip mem (?w + length ?K + 1) = Ret (?w + length ?K + 1 + length wt)" using skip_blanks[OF hw ws(2,3)] .
  have "member_step mem (Some x) v s = Some (Ret (P_mvalue (Some x) (?w + length ?K + 1 + length wt), ?s1))"
    using sk b(1,2) q sk2 by (simp add: member_step_def skip_ptr_def run_simps rd_in comp_def)
  moreover have "grown x s0 ?s1 {} {}" using grownD(8)[OF b(4)] b(2) by (intro grown_set) auto
  then have "grown x s ?s1 {} {b}" using grown_trans[OF b(4), of x ?s1 "{}" "{}"] by simp
  ultimately show ?thesis using b(2) by (intro exI[of _ b] exI[of _ ?s1]) (simp add: add.assoc)
qed

text \<open>A member up to the loop that follows it.\<close>

lemma member_first:
  assumes ex: "int_exact fp" and t: "parses fp t" "plain_tree fp t" and k: "NUL \<notin> set k"
    and h: "holds mem v (ws @ snd (string_text k) @ [CHR '':''] @ wt @ render fp fmt d t @ [c])" and ws: "list_all blank ws" "list_all blank wt" "num_stop c"
    and x: "nodes s x = Some m" "blank_item m" and fr: "mem_fresh s"
  defines "e \<equiv> v + length (ws @ snd (string_text k) @ [CHR '':''] @ wt @ render fp fmt d t)"
  shows "\<exists>s1 n1 b N1 S1. parse_run fp mem (P_member (Some x) v) s = parse_run fp mem (P_members (Some x) (Some e)) s1 \<and>
    grown x s s1 N1 (insert b S1) \<and> nodes s1 x = Some n1 \<and> val_at (nodes s1) (strs s1) n1 t N1 S1 \<and>
    cj_string n1 = Some b \<and> strs s1 b = Some k \<and> b \<notin> S1 \<and> cj_next n1 = cj_next m"
proof -
  let ?w = "v + length (ws @ snd (string_text k) @ [CHR '':''] @ wt)"
  obtain d0 ds where d0: "render fp fmt d t = d0 # ds" "\<not> blank d0" using render_head[OF ex t(2)] by blast
  have hw: "holds mem ?w (render fp fmt d t @ [c])" using h by (auto simp: add.assoc)
  have hk: "holds mem v (ws @ snd (string_text k) @ [CHR '':''] @ wt @ [d0])" using h d0(1) by (auto simp: add.assoc)
  obtain b s0 where b: "member_step mem (Some x) v s = Some (Ret (P_mvalue (Some x) ?w, s0))" "grown x s s0 {} {b}"
    "nodes s0 x = Some (m\<lparr>cj_type := cJSON_String, cj_string := Some b, valuestring := None\<rparr>)" "strs s0 b = Some k"
    using member_step_run[OF hk ws(1,2) d0(2) k x fr] by blast
  have "blank_item (m\<lparr>cj_type := cJSON_String, cj_string := Some b, valuestring := None\<rparr>)" using x(2) by (simp add: blank_item_def)
  from elem_first[OF t(1) hw ws(3) b(3) this grownD(8)[OF b(2)]]
  obtain s1 n1 N1 S1 where s1: "grown x s0 s1 N1 S1" "nodes s1 x = Some n1" "val_at (nodes s1) (strs s1) n1 t N1 S1" "cj_next n1 = cj_next m"
    "cj_string n1 = Some b" "parse_run fp mem (P_value (Some x) ?w) s0 = Some (Ret (Some (?w + length (render fp fmt d t)), s1))" by auto
  have bS: "b \<notin> S1" using grownD(4)[OF s1(1)] b(4) by blast
  then have "strs s1 b = Some k" using grownD(2)[OF s1(1), of b] b(4) by simp
  moreover have "grown x s s1 N1 (insert b S1)" using grown_trans[OF b(2) s1(1)] by simp
  moreover have "?w + length (render fp fmt d t) = e" by (simp add: e_def)
  then have "parse_run fp mem (P_member (Some x) v) s = parse_run fp mem (P_members (Some x) (Some e)) s1"
    using b(1) s1(6) by (simp add: parse_run.simps[of _ _ "P_member _ _"] parse_run.simps[of _ _ "P_mvalue _ _"] run_simps)
  ultimately show ?thesis using s1 bS by blast
qed

text \<open>What follows the value of a member, with the closing part \<open>C\<close>.\<close>

definition mem_txt :: "fp \<Rightarrow> bool \<Rightarrow> int \<Rightarrow> string \<times> jtree \<Rightarrow> string \<times> string" where
  "mem_txt fp fmt d m = (snd (string_text (fst m)), render fp fmt d (snd m))"

definition nl :: "bool \<Rightarrow> string" where
  "nl fmt = (if fmt then [CHR 0x0A] else [])"

definition close_txt :: "bool \<Rightarrow> int \<Rightarrow> string" where
  "close_txt fmt d = (if fmt then tabs (d - 1) else [])"

definition after_member :: "fp \<Rightarrow> bool \<Rightarrow> int \<Rightarrow> (string \<times> jtree) list \<Rightarrow> string" where
  "after_member fp fmt d ms = (if ms = [] then [] else '','') @ nl fmt @ members_text fmt d (map (mem_txt fp fmt d) ms) @ close_txt fmt d @ ''}''"

definition tab1 :: "bool \<Rightarrow> string" where
  "tab1 fmt = (if fmt then [CHR 0x09] else [])"

definition indent :: "bool \<Rightarrow> int \<Rightarrow> string" where
  "indent fmt d = (if fmt then tabs d else [])"

lemma blanks [simp]: "list_all blank (nl fmt)" "list_all blank (close_txt fmt d)" "list_all blank (tab1 fmt)" "list_all blank (indent fmt d)"
  by (simp_all add: nl_def close_txt_def tab1_def indent_def)

lemma after_member_Cons:
  "after_member fp fmt d ((k, t) # ms) = '','' @ nl fmt @ indent fmt d @ snd (string_text k) @ [CHR '':''] @ tab1 fmt @ render fp fmt d t @ after_member fp fmt d ms"
  by (simp add: after_member_def members_text_Cons mem_txt_def nl_def indent_def tab1_def)

lemma after_member_stop: "\<exists>c r. after_member fp fmt d ms = c # r \<and> num_stop c"
  by (cases ms) (auto simp: after_member_def nl_def close_txt_def)

lemma parse_member_list:
  assumes ex: "int_exact fp"
  shows "\<forall>u\<in>set ((k, t) # ms). NUL \<notin> set (fst u) \<and> parses fp (snd u) \<and> plain_tree fp (snd u) \<Longrightarrow>
    holds mem v (ws @ snd (string_text k) @ [CHR '':''] @ tab1 fmt @ render fp fmt d t @ after_member fp fmt d ms) \<Longrightarrow> list_all blank ws \<Longrightarrow>
    nodes s x = Some m \<Longrightarrow> blank_item m \<Longrightarrow> cj_next m = None \<Longrightarrow> mem_fresh s \<Longrightarrow>
    \<exists>s' N S. parse_run fp mem (P_member (Some x) v) s =
        Some (Ret (Some (v + length (ws @ snd (string_text k) @ [CHR '':''] @ tab1 fmt @ render fp fmt d t @ after_member fp fmt d ms)), s')) \<and>
      grown x s s' N S \<and> members_at (nodes s') (strs s') (Some x) ((k, t) # ms) (insert x N) S"
proof (induction ms arbitrary: k t v ws x s m)
  case Nil
  let ?pre = "ws @ snd (string_text k) @ [CHR '':''] @ tab1 fmt @ render fp fmt d t"
  let ?q = "v + length ?pre"
  obtain c r where c: "after_member fp fmt d [] = c # r" "num_stop c" using after_member_stop by blast
  have h1: "holds mem v (ws @ snd (string_text k) @ [CHR '':''] @ tab1 fmt @ render fp fmt d t @ [c])" using Nil.prems(2) c(1) by auto
  obtain s1 n1 b N1 S1 where s1: "parse_run fp mem (P_member (Some x) v) s = parse_run fp mem (P_members (Some x) (Some ?q)) s1"
    "grown x s s1 N1 (insert b S1)" "nodes s1 x = Some n1" "val_at (nodes s1) (strs s1) n1 t N1 S1"
    "cj_string n1 = Some b" "strs s1 b = Some k" "b \<notin> S1" "cj_next n1 = None"
    using member_first[OF ex _ _ _ h1 Nil.prems(3) _ c(2) Nil.prems(4,5,7)] Nil.prems(1,6) by auto
  have hq: "holds mem ?q ((nl fmt @ close_txt fmt d) @ ''}'')" using Nil.prems(2) by (simp add: after_member_def add.assoc)
  then have "skip mem ?q = Ret (?q + length (nl fmt @ close_txt fmt d))" by (intro skip_blanks[where c = "CHR ''}''"]) simp_all
  then have "members_step mem (Some x) (Some ?q) s1 = Some (Ret (P_done (Some (?q + length (nl fmt @ close_txt fmt d) + 1)), s1))"
    unfolding members_step_def using hq by (intro loop_close) (auto simp: add.assoc)
  then have "parse_run fp mem (P_member (Some x) v) s = Some (Ret (Some (?q + length (nl fmt @ close_txt fmt d) + 1), s1))"
    using s1(1) by (simp add: parse_run.simps[of _ _ "P_members _ _"] parse_run.simps[of _ _ "P_done _"] run_simps)
  moreover have "x \<notin> N1" using grownD(3,5)[OF s1(2)] by blast
  then have "members_at (nodes s1) (strs s1) (Some x) [(k, t)] (insert x (N1 \<union> {})) (insert b (S1 \<union> {}))"
    using s1 by (intro m_cons[where n = n1]) (auto intro: m_nil)
  ultimately show ?case using s1(2) by (intro exI[of _ s1] exI[of _ N1] exI[of _ "insert b S1"]) (simp add: after_member_def)
next
  case (Cons u us)
  obtain k' t' where u: "u = (k', t')" by (cases u)
  let ?pre = "ws @ snd (string_text k) @ [CHR '':''] @ tab1 fmt @ render fp fmt d t"
  let ?post = "(nl fmt @ indent fmt d) @ snd (string_text k') @ [CHR '':''] @ tab1 fmt @ render fp fmt d t' @ after_member fp fmt d us"
  let ?q = "v + length ?pre"
  have h: "holds mem v (ws @ snd (string_text k) @ [CHR '':''] @ tab1 fmt @ render fp fmt d t @ '','')" "holds mem (?q + 1) ?post"
    using Cons.prems(2) unfolding u after_member_Cons by (auto simp: add.assoc)
  obtain s1 n1 b N1 S1 where s1: "parse_run fp mem (P_member (Some x) v) s = parse_run fp mem (P_members (Some x) (Some ?q)) s1"
    "grown x s s1 N1 (insert b S1)" "nodes s1 x = Some n1" "val_at (nodes s1) (strs s1) n1 t N1 S1"
    "cj_string n1 = Some b" "strs s1 b = Some k" "b \<notin> S1" "cj_next n1 = None"
    using member_first[OF ex _ _ _ h(1) Cons.prems(3) _ _ Cons.prems(4,5,7)] Cons.prems(1,6) by auto
  have q: "?q < length mem" "mem ! ?q = CHR '',''" using h(1) by (auto simp: add.assoc)
  then have sk: "skip mem ?q = Ret ?q" by (intro skip_none) simp_all
  obtain y s2 where y: "members_step mem (Some x) (Some ?q) s1 = Some (Ret (P_member (Some y) (?q + 1), s2))" "grown x s1 s2 {y} {}"
    "nodes s2 x = Some (n1\<lparr>cj_next := Some y\<rparr>)" "nodes s2 y = Some (zero_node\<lparr>cj_prev := Some x\<rparr>)" "strs s2 = strs s1"
    using loop_comma[OF sk q s1(3) grownD(8)[OF s1(2)], where close = "CHR ''}''" and cont = "\<lambda>c v. ret (P_member c v)"]
    unfolding members_step_def by (auto simp: run_simps)
  have us: "\<forall>w\<in>set ((k', t') # us). NUL \<notin> set (fst w) \<and> parses fp (snd w) \<and> plain_tree fp (snd w)" using Cons.prems(1) u by simp
  have yb: "blank_item (zero_node\<lparr>cj_prev := Some x\<rparr>)" "cj_next (zero_node\<lparr>cj_prev := Some x\<rparr>) = None" by (simp_all add: blank_item_def zero_node_def)
  obtain s3 N2 S2 where s3: "parse_run fp mem (P_member (Some y) (?q + 1)) s2 = Some (Ret (Some (?q + 1 + length ?post), s3))"
    "grown y s2 s3 N2 S2" "members_at (nodes s3) (strs s3) (Some y) ((k', t') # us) (insert y N2) S2"
    using Cons.IH[OF us h(2) _ y(4) yb grownD(8)[OF y(2)]] by auto
  note j = join_items[OF s1(3,4) subset_insertI s1(2) y(2,3,5) s3(2)]
  have bk: "strs s3 b = Some k" using j(7)[of b] s1(6) by simp
  have "parse_run fp mem (P_member (Some x) v) s = Some (Ret (Some (?q + 1 + length ?post), s3))"
    using s1(1) y(1) s3(1) by (simp add: parse_run.simps[of _ _ "P_members _ _"] run_simps)
  moreover have "members_at (nodes s3) (strs s3) (Some x) ((k, t) # (k', t') # us) (insert x (N1 \<union> insert y N2)) (insert b (S1 \<union> S2))"
    using j(1,2,4,5,6) bk s3(3) s1(5,7) by (intro m_cons[where n = "n1\<lparr>cj_next := Some y\<rparr>"]) auto
  moreover have "grown x s s3 (N1 \<union> insert y N2) (insert b (S1 \<union> S2))" using j(3) by auto
  ultimately show ?case unfolding u after_member_Cons
    by (intro exI[of _ s3] exI[of _ "N1 \<union> insert y N2"] exI[of _ "insert b (S1 \<union> S2)"]) (simp add: add.assoc)
qed

lemma parse_object_open_first:
  assumes x: "nodes s x = Some n" and fr: "mem_fresh s" and v: "skip mem (Suc p) = Ret v" "v < length mem" "mem ! v \<noteq> CHR ''}''"
  shows "\<exists>y s3. parse_object_open mem (Some x) p s = Some (Ret (P_member (Some y) v, s3)) \<and>
     grown x s s3 {y} {} \<and> nodes s3 x = Some (n\<lparr>cj_type := cJSON_Object, cj_child := Some y\<rparr>) \<and> nodes s3 y = Some zero_node \<and> strs s3 = strs s"
proof -
  from open_item[OF x fr, of cJSON_Object] obtain y s3 where y: "bnd (set_node (Some x) (\<lambda>i. i\<lparr>cj_type := cJSON_Object\<rparr>)) (\<lambda>_. bnd cJSON_New_Item (\<lambda>child.
       bnd (set_node (Some x) (\<lambda>i. i\<lparr>cj_child := child\<rparr>)) (\<lambda>_. ret child))) s = Some (Ret (Some y, s3))"
    "grown x s s3 {y} {}" "nodes s3 x = Some (n\<lparr>cj_type := cJSON_Object, cj_child := Some y\<rparr>)" "nodes s3 y = Some zero_node" "strs s3 = strs s" by blast
  have "parse_object_open mem (Some x) p s = Some (Ret (P_member (Some y) v, s3))"
    using y(1) v unfolding parse_object_open_def bnd_Ret_iff by (fastforce simp: bnd_Ret_iff run_simps rd_in)
  then show ?thesis using y by blast
qed

lemma render_obj:
  "render fp fmt depth (JObj ((k, t) # ms)) = CHR ''{'' # (nl fmt @ indent fmt (depth + 1)) @ snd (string_text k) @ [CHR '':''] @
     tab1 fmt @ render fp fmt (depth + 1) t @ after_member fp fmt (depth + 1) ms"
  by (simp add: object_text_def members_text_Cons after_member_def mem_txt_def[abs_def] nl_def indent_def tab1_def close_txt_def)

lemma parses_obj:
  assumes ex: "int_exact fp" and ms: "\<forall>u\<in>set ms. NUL \<notin> set (fst u) \<and> parses fp (snd u) \<and> plain_tree fp (snd u)"
  shows "parses fp (JObj ms)"
  unfolding parses_def
proof (intro allI impI)
  fix fmt depth mem p c x n s
  assume h: "holds mem p (render fp fmt depth (JObj ms) @ [c])" "nodes s x = Some n" "blank_item n" "mem_fresh s"
  have p: "p < length mem" "mem ! p = CHR ''{''" using h(1) by (auto simp: object_text_def split: if_splits)
  have vs: "value_step fp mem (Some x) p s = parse_object_open mem (Some x) p s"
    using p by (simp add: value_step_other Let_def isdigit_def)
  show "built fp mem p (p + length (render fp fmt depth (JObj ms))) x n (JObj ms) s"
  proof (cases ms)
    case Nil
    let ?n = "n\<lparr>cj_type := cJSON_Object\<rparr>"
    let ?s = "s\<lparr>nodes := (nodes s)(x \<mapsto> ?n)\<rparr>"
    let ?w = "nl fmt @ close_txt fmt depth"
    have hw: "holds mem (p + 1) (?w @ ''}'')" and r: "render fp fmt depth (JObj ms) = CHR ''{'' # ?w @ ''}''"
      using h(1) Nil by (auto simp: nl_def close_txt_def)
    have "skip mem (p + 1) = Ret (p + 1 + length ?w)" using hw by (intro skip_blanks[where c = "CHR ''}''"]) simp_all
    then have "parse_object_open mem (Some x) p s = Some (Ret (P_done (Some (p + 1 + length ?w + 1)), ?s))"
      using h(2) hw by (simp add: parse_object_open_def run_simps rd_in add.assoc)
    moreover have "grown x s ?s {} {}" using h(2,4) by (intro grown_set) auto
    moreover have "val_at (nodes ?s) (strs ?s) ?n (JObj []) {} {}" using h(3) by (intro v_obj) (auto simp: blank_item_def intro: m_nil)
    ultimately show ?thesis using vs Nil unfolding r
      by (intro builtI[where s' = ?s and n' = ?n and N = "{}" and S = "{}"] parse_value_done) auto
  next
    case (Cons u us)
    obtain k t where u: "u = (k, t)" by (cases u)
    let ?w = "nl fmt @ indent fmt (depth + 1)"
    let ?txt = "snd (string_text k) @ [CHR '':''] @ tab1 fmt @ render fp fmt (depth + 1) t @ after_member fp fmt (depth + 1) us"
    have r: "render fp fmt depth (JObj ms) = CHR ''{'' # ?w @ ?txt" unfolding Cons u by (rule render_obj)
    have hw: "holds mem (p + 1) (?w @ [QUOTE])" and hv: "holds mem (p + 1 + length ?w) ([] @ ?txt)"
      using h(1) unfolding r by (auto simp: string_text_snd add.assoc)
    have sk: "skip mem (Suc p) = Ret (p + 1 + length ?w)" using skip_blanks[OF hw] by simp
    have m: "p + 1 + length ?w < length mem" "mem ! (p + 1 + length ?w) \<noteq> CHR ''}''" using hw by (auto simp: add.assoc)
    obtain y s3 where y: "parse_object_open mem (Some x) p s = Some (Ret (P_member (Some y) (p + 1 + length ?w), s3))" "grown x s s3 {y} {}"
      "nodes s3 x = Some (n\<lparr>cj_type := cJSON_Object, cj_child := Some y\<rparr>)" "nodes s3 y = Some zero_node"
      using parse_object_open_first[OF h(2,4) sk m] by blast
    have yb: "blank_item zero_node" "cj_next zero_node = None" by (simp_all add: blank_item_def zero_node_def)
    obtain s4 N S where s4: "parse_run fp mem (P_member (Some y) (p + 1 + length ?w)) s3 = Some (Ret (Some (p + 1 + length ?w + length ([] @ ?txt)), s4))"
      "grown y s3 s4 N S" "members_at (nodes s4) (strs s4) (Some y) ((k, t) # us) (insert y N) S"
      using parse_member_list[OF ex _ hv _ y(4) yb grownD(8)[OF y(2)]] ms unfolding Cons u by (auto simp del: append_Nil)
    have "parse_run fp mem (P_value (Some x) p) s = Some (Ret (Some (p + length (render fp fmt depth (JObj ms))), s4))"
      using vs y(1) s4(1) unfolding r by (simp add: parse_run.simps[of _ _ "P_value _ _"] run_simps add.assoc)
    moreover have "x \<notin> insert y N" using y(3) grownD(3)[OF s4(2)] grownD(3,5)[OF y(2)] by blast
    then have "nodes s4 x = Some (n\<lparr>cj_type := cJSON_Object, cj_child := Some y\<rparr>)" using grownD(1)[OF s4(2), of x] y(3) by auto
    moreover have "grown x s s4 (insert y N) S" using grown_trans[OF y(2) s4(2)] by simp
    moreover have "val_at (nodes s4) (strs s4) (n\<lparr>cj_type := cJSON_Object, cj_child := Some y\<rparr>) (JObj ms) (insert y N) S"
      using s4(3) h(3) unfolding Cons u by (intro v_obj) (simp_all add: blank_item_def)
    ultimately show ?thesis by (intro builtI[where s' = s4 and n' = "n\<lparr>cj_type := cJSON_Object, cj_child := Some y\<rparr>" and N = "insert y N" and S = S]) auto
  qed
qed

lemma parses_plain:
  assumes ex: "int_exact fp"
  shows "plain_tree fp t \<Longrightarrow> parses fp t"
proof (induction t)
  case (JNum i d)
  then show ?case using parses_num[OF ex, of i] by auto
next
  case (JArr ts)
  then show ?case using parses_arr[OF ex] by simp
next
  case (JObj ms)
  then show ?case using parses_obj[OF ex, of ms] by (metis plain_tree.simps(4) prod_set_simps(2) singletonI surjective_pairing)
qed (auto intro: parses_literal parses_str)

end
