(* ===== verification/CJsonTerm.thy ===== *)
theory CJsonTerm
  imports CJsonBuild
begin

text \<open>
  The parser comes back on every text: each of its steps either returns or leads to a call further on in the text, whose end
  no step passes without a fault.
\<close>

section \<open>The parser returns\<close>

lemma ends_more [ends_intros]:
  "ends (lift_out r)" "ends (set_cell get upd p f)" "ends (free_cell get upd p)" "ends cJSON_malloc" "ends cJSON_New_Item"
proof -
  show "ends (lift_out r)" by (simp add: ends_def lift_out_def)
  show "ends (set_cell get upd p f)" unfolding set_cell_def by (intro ends_intros)
  show "ends (free_cell get upd p)" unfolding free_cell_def by (auto intro!: ends_intros split: option.split)
  show m: "ends cJSON_malloc" by (simp add: ends_def cJSON_malloc_def)
  show "ends cJSON_New_Item" unfolding cJSON_New_Item_def using m by (auto intro!: ends_intros split: option.split)
qed

lemma lift_out_Ret_iff: "lift_out r s = Some (Ret (a, s')) \<longleftrightarrow> r = Ret a \<and> s' = s"
  by (cases r) (auto simp: lift_out_def)

lemma ret_Ret_iff: "ret x s = Some (Ret (a, s')) \<longleftrightarrow> a = x \<and> s' = s"
  by (auto simp: ret_def)

lemma ends_scan [ends_intros]: "ends (skip_ptr mem q)" "ends (parse_string mem item p)" "ends (parse_number fp mem item p)"
  unfolding skip_ptr_def parse_string_def parse_number_def by (auto intro!: ends_intros split: option.split prod.split)

lemma ends_steps [ends_intros]:
  "ends (value_step fp mem item v)" "ends (elems_step mem c q)" "ends (members_step mem c q)" "ends (member_step mem c v)"
  unfolding value_step_def parse_array_open_def parse_object_open_def elems_step_def members_step_def loop_step_def member_step_def
  by (intro ends_intros)+

text \<open>The scanners advance.\<close>

lemma skip_ge: "skip mem p = Ret q \<Longrightarrow> p \<le> q \<and> q < length mem"
proof (induction mem p rule: skip.induct)
  case (1 mem p)
  show ?case
  proof (cases "p < length mem \<and> mem ! p \<noteq> NUL \<and> code (mem ! p) \<le> 32")
    case True
    then have "skip mem (p + 1) = Ret q" using 1(2) by (simp add: skip.simps[of mem p] rd_in)
    then show ?thesis using 1(1)[of "mem ! p"] True by simp
  next
    case False
    then show ?thesis using 1(2) by (auto simp: skip.simps[of mem p] rd_def split: if_splits)
  qed
qed

lemma digit_loop_ge: "digit_loop f mem p acc = Ret (q, r) \<Longrightarrow> p \<le> q"
proof (induction f mem p acc rule: digit_loop.induct)
  case (1 f mem p acc)
  show ?case
  proof (cases "p < length mem \<and> isdigit (mem ! p)")
    case True
    then have "digit_loop f mem (p + 1) (f (int (digit_val (mem ! p))) acc) = Ret (q, r)" using 1(2) by (simp add: digit_loop.simps[of f mem p] rd_in)
    then show ?thesis using 1(1)[of "mem ! p"] True by simp
  next
    case False
    then show ?thesis using 1(2) by (auto simp: digit_loop.simps[of f mem p] rd_def split: if_splits)
  qed
qed

lemma copy_str_ge: "copy_str mem cap p out = Ret (q, r) \<Longrightarrow> p \<le> q"
proof (induction mem cap p out rule: copy_str.induct)
  case (1 mem cap p out)
  have p: "p < length mem" using 1(3) by (auto simp: copy_str.simps[of mem cap p] rd_def split: if_splits)
  consider (stop) "mem ! p = QUOTE \<or> mem ! p = NUL" | (esc) "mem ! p = BSLASH" | (raw) "mem ! p \<noteq> QUOTE" "mem ! p \<noteq> NUL" "mem ! p \<noteq> BSLASH" by blast
  then show ?case
  proof cases
    case stop
    then show ?thesis using 1(3) p by (auto simp: copy_str.simps[of mem cap p] rd_in)
  next
    case esc
    then obtain bs e where e: "unescape mem (p + 1) = Ret (bs, e)" "length out + length bs \<le> cap" "copy_str mem cap (e + 1) (out @ bs) = Ret (q, r)"
      using 1(3) p by (auto simp: copy_str.simps[of mem cap p] rd_in obnd_Ret_iff split: if_splits)
    have "e + 1 \<le> q" using 1(2)[of BSLASH "(bs, e)" bs e] e p esc by simp
    then show ?thesis using unescape_ge[OF e(1)] by simp
  next
    case raw
    then have "length out < cap" "copy_str mem cap (p + 1) (out @ [mem ! p]) = Ret (q, r)" using 1(3) p by (auto simp: copy_str.simps[of mem cap p] rd_in split: if_splits)
    then show ?thesis using 1(1)[of "mem ! p"] p raw by simp
  qed
qed

lemma parse_string_gt:
  assumes "parse_string mem item p s = Some (Ret (Some e, s'))"
  shows "p < e \<and> p < length mem"
proof -
  have "\<exists>c. rd mem p = Ret c" using assms by (auto simp: parse_string_def bnd_Ret_iff lift_out_def obnd_Ret_iff)
  moreover obtain cap q r where "copy_str mem cap (p + 1) [] = Ret (q, r)" "e = (if mem ! q = QUOTE then q + 1 else q)"
    using assms by (auto simp: parse_string_def bnd_Ret_iff lift_out_Ret_iff ret_Ret_iff modify_def fault_def split: if_splits option.splits prod.splits)
  ultimately show ?thesis using copy_str_ge by (fastforce split: if_splits)
qed


lemma digit_loop_gt: "digit_loop f mem p acc = Ret (q, r) \<Longrightarrow> rd mem p = Ret c \<Longrightarrow> isdigit c \<Longrightarrow> p < q"
  by (subst (asm) digit_loop.simps) (auto simp: dest: digit_loop_ge)

lemma isdigit_code: "isdigit c \<longleftrightarrow> 48 \<le> code c \<and> code c \<le> 57"
  by (simp add: isdigit_def code_def)

lemma scan_parts_ge:
  "scan_int fp mem p = Ret (q, n) \<Longrightarrow> p \<le> q" "scan_frac fp mem p n = Ret (q, x) \<Longrightarrow> p \<le> q" "scan_exp mem p = Ret (q, ex) \<Longrightarrow> p \<le> q"
  unfolding scan_int_def scan_frac_def scan_exp_def Let_def
  by (auto simp: obnd_Ret_iff dest!: digit_loop_ge split: if_splits)

lemma scan_int_gt:
  assumes "scan_int fp mem p = Ret (q, n)" "rd mem p = Ret c" "isdigit c"
  shows "p < q"
proof (cases "c = CHR ''0''")
  case True
  then show ?thesis using assms by (auto simp: scan_int_def obnd_Ret_iff dest!: digit_loop_ge split: if_splits)
next
  case False
  then show ?thesis using assms digit_code[OF assms(3) False] digit_loop_gt[OF _ assms(2,3)] by (auto simp: scan_int_def)
qed

lemma scan_number_gt:
  assumes "scan_number fp mem p = Ret (q, d)" "rd mem p = Ret c" "c = CHR ''-'' \<or> isdigit c"
  shows "p < q"
proof -
  obtain q1 n where n: "scan_int fp mem (if c = CHR ''-'' then p + 1 else p) = Ret (q1, n)" "q1 \<le> q"
    using assms(1,2) unfolding scan_number_def
    by (fastforce simp: obnd_Ret_iff dest!: scan_parts_ge(2,3) split: if_splits prod.splits)
  have "p < q1" using n(1) scan_parts_ge(1) scan_int_gt[OF _ assms(2)] assms(3) by (fastforce split: if_splits)
  then show ?thesis using n(2) by simp
qed

text \<open>Where a call of the parser stands. A step that does not fail leads to a call further on in the text.\<close>

primrec call_pos :: "parse_call \<Rightarrow> nat option" where
  "call_pos (P_done q) = q"
| "call_pos (P_value i p) = Some p"
| "call_pos (P_elem i p) = Some p"
| "call_pos (P_elems i q) = q"
| "call_pos (P_member i p) = Some p"
| "call_pos (P_mvalue i p) = Some p"
| "call_pos (P_members i q) = q"

definition moved :: "string \<Rightarrow> nat \<Rightarrow> parse_call \<Rightarrow> bool" where
  "moved mem v c \<longleftrightarrow> c = P_done None \<or> v < length mem \<and> (\<exists>q. call_pos c = Some q \<and> v < q)"

lemma starts_with_in: "starts_with mem p w = Ret True \<Longrightarrow> w \<noteq> [] \<Longrightarrow> p < length mem"
  by (cases w) (auto simp: obnd_Ret_iff rd_def split: if_splits)

lemmas step_iffs = bnd_Ret_iff lift_out_Ret_iff ret_Ret_iff

lemma skip_ptr_Ret_iff: "skip_ptr mem q s = Some (Ret (r, s')) \<longleftrightarrow> s' = s \<and> (case q of None \<Rightarrow> r = None | Some p \<Rightarrow> \<exists>p'. skip mem p = Ret p' \<and> r = Some p')"
  by (auto simp: skip_ptr_def step_iffs split: option.splits)

lemma open_moves:
  "parse_array_open mem item v s = Some (Ret (c, s')) \<Longrightarrow> v < length mem \<Longrightarrow> moved mem v c"
  "parse_object_open mem item v s = Some (Ret (c, s')) \<Longrightarrow> v < length mem \<Longrightarrow> moved mem v c"
  unfolding parse_array_open_def parse_object_open_def moved_def
  by (auto simp: step_iffs dest!: skip_ge split: if_splits)

lemma text_moves:
  "parse_string mem item v s = Some (Ret (q, s')) \<Longrightarrow> moved mem v (P_done q)"
  "parse_number fp mem item v s = Some (Ret (q, s')) \<Longrightarrow> rd mem v = Ret c \<Longrightarrow> c = CHR ''-'' \<or> isdigit c \<Longrightarrow> moved mem v (P_done q)"
proof -
  show "moved mem v (P_done q)" if "parse_string mem item v s = Some (Ret (q, s'))"
    using that parse_string_gt by (cases q) (auto simp: moved_def)
  show "moved mem v (P_done q)" if r: "parse_number fp mem item v s = Some (Ret (q, s'))" "rd mem v = Ret c" "c = CHR ''-'' \<or> isdigit c"
  proof -
    obtain e d where "scan_number fp mem v = Ret (e, d)" "q = Some e" using r(1) unfolding parse_number_def by (auto simp: step_iffs split: prod.splits)
    then show ?thesis using scan_number_gt[OF _ r(2,3)] r(2) by (auto simp: moved_def rd_def split: if_splits)
  qed
qed

lemma value_step_cases:
  assumes r: "value_step fp mem item v s = Some (Ret (c, s'))"
  obtains (null) "starts_with mem v ''null'' = Ret True" "set_node item (\<lambda>i. i\<lparr>cj_type := cJSON_NULL\<rparr>) s = Some (Ret ((), s'))" "c = P_done (Some (v + 4))"
    | (false) "starts_with mem v ''false'' = Ret True" "set_node item (\<lambda>i. i\<lparr>cj_type := cJSON_False\<rparr>) s = Some (Ret ((), s'))" "c = P_done (Some (v + 5))"
    | (true) "starts_with mem v ''true'' = Ret True" "set_node item (\<lambda>i. i\<lparr>cj_type := cJSON_True, valueint := 1\<rparr>) s = Some (Ret ((), s'))" "c = P_done (Some (v + 4))"
    | (other) ch where "rd mem v = Ret ch"
        "(if ch = QUOTE then bnd (parse_string mem item v) (\<lambda>q. ret (P_done q)) else
          if ch = CHR ''-'' \<or> isdigit ch then bnd (parse_number fp mem item v) (\<lambda>q. ret (P_done q)) else
          if ch = CHR ''['' then parse_array_open mem item v else
          if ch = CHR ''{'' then parse_object_open mem item v else
          bnd (set_ep v) (\<lambda>_. ret (P_done None))) s = Some (Ret (c, s'))"
  using r unfolding value_step_def
  by (auto simp: step_iffs simp del: starts_with.simps split: if_split_asm)

lemma value_step_moves:
  assumes r: "value_step fp mem item v s = Some (Ret (c, s'))"
  shows "moved mem v c"
proof -
  have lit: "moved mem v (P_done (Some (v + n)))" if "starts_with mem v w = Ret True" "w \<noteq> []" "0 < n" for w n
    using starts_with_in[OF that(1,2)] that(3) by (simp add: moved_def)
  from r show ?thesis
  proof (cases rule: value_step_cases)
    case (other ch)
    have v: "v < length mem" using other(1) by (simp add: rd_def split: if_splits)
    show ?thesis using other(2) open_moves[OF _ v] text_moves(1) text_moves(2)[OF _ other(1)]
      by (auto simp: step_iffs moved_def[of mem v "P_done None"] split: if_splits)
  qed (use lit in \<open>auto simp del: starts_with.simps\<close>)
qed

lemma loop_step_moves:
  assumes "loop_step mem close cont child q s = Some (Ret (c, s'))"
    "\<And>x v t c s'. cont x v t = Some (Ret (c, s')) \<Longrightarrow> \<exists>p. call_pos c = Some p \<and> v \<le> p"
  shows "case q of None \<Rightarrow> c = P_done None | Some v \<Rightarrow> moved mem v c"
proof (cases q)
  case (Some v)
  obtain r where r: "skip mem v = Ret r" using assms(1) Some unfolding loop_step_def by (auto simp: step_iffs skip_ptr_Ret_iff)
  have "v \<le> r" "r < length mem" using skip_ge[OF r] by auto
  moreover have "c = P_done None \<or> (\<exists>p. call_pos c = Some p \<and> r + 1 \<le> p)"
    using assms Some r unfolding loop_step_def by (auto simp: step_iffs skip_ptr_Ret_iff split: if_splits)
  ultimately show ?thesis using Some by (auto simp: moved_def)
next
  case None
  then show ?thesis using assms(1) unfolding loop_step_def by (auto simp: step_iffs skip_ptr_Ret_iff)
qed

lemma list_step_moves:
  "elems_step mem child q s = Some (Ret (c, s')) \<Longrightarrow> case q of None \<Rightarrow> c = P_done None | Some v \<Rightarrow> moved mem v c"
  "members_step mem child q s = Some (Ret (c, s')) \<Longrightarrow> case q of None \<Rightarrow> c = P_done None | Some v \<Rightarrow> moved mem v c"
  unfolding elems_step_def members_step_def by (erule loop_step_moves; auto simp: step_iffs dest: skip_ge)+

lemma member_step_moves:
  assumes "member_step mem child v s = Some (Ret (c, s'))"
  shows "moved mem v c"
proof -
  obtain v1 q s1 where q: "skip mem v = Ret v1" "parse_string mem child v1 s = Some (Ret (q, s1))"
    "c = P_done None \<or> (\<exists>e e1 e2. q = Some e \<and> skip mem e = Ret e1 \<and> skip mem (e1 + 1) = Ret e2 \<and> c = P_mvalue child e2)"
    using assms unfolding member_step_def by (auto simp: step_iffs skip_ptr_Ret_iff split: if_splits option.splits)
  show ?thesis using q(3)
  proof (elim disjE exE conjE)
    fix e e1 e2 assume e: "q = Some e" "skip mem e = Ret e1" "skip mem (e1 + 1) = Ret e2" "c = P_mvalue child e2"
    have "v1 < e" using parse_string_gt q(2) e(1) by blast
    then show ?thesis using skip_ge[OF q(1)] skip_ge[OF e(2)] skip_ge[OF e(3)] e(4) by (auto simp: moved_def)
  qed (simp add: moved_def)
qed


primrec call_rank :: "string \<Rightarrow> parse_call \<Rightarrow> nat" where
  "call_rank mem (P_done q) = 0"
| "call_rank mem (P_value i p) = 2 * (length mem + 1 - p) + 1"
| "call_rank mem (P_elem i p) = 2 * (length mem + 1 - p) + 2"
| "call_rank mem (P_elems i q) = (case q of None \<Rightarrow> 1 | Some p \<Rightarrow> 2 * (length mem + 1 - p) + 1)"
| "call_rank mem (P_member i p) = 2 * (length mem + 1 - p) + 1"
| "call_rank mem (P_mvalue i p) = 2 * (length mem + 1 - p) + 2"
| "call_rank mem (P_members i q) = (case q of None \<Rightarrow> 1 | Some p \<Rightarrow> 2 * (length mem + 1 - p) + 1)"

text \<open>A call that came back did so further on in the text.\<close>

definition ahead :: "string \<Rightarrow> parse_call \<Rightarrow> parse_call \<Rightarrow> bool" where
  "ahead mem c d \<longleftrightarrow> (case call_pos c of None \<Rightarrow> call_pos d = None | Some p \<Rightarrow> call_pos d = None \<or> moved mem p d)"

definition comes_back :: "fp \<Rightarrow> string \<Rightarrow> parse_call \<Rightarrow> bool" where
  "comes_back fp mem c \<longleftrightarrow> (\<forall>s. parse_run fp mem c s \<noteq> None \<and>
     (\<forall>q s'. parse_run fp mem c s = Some (Ret (q, s')) \<longrightarrow> c = P_done q \<or> ahead mem c (P_done q)))"

lemma ahead_trans: "ahead mem c d \<Longrightarrow> d = P_done q \<or> ahead mem d (P_done q) \<Longrightarrow> ahead mem c (P_done q)"
  by (auto simp: ahead_def moved_def split: option.splits)

lemma moved_rank: "moved mem v c \<Longrightarrow> call_rank mem c < 2 * (length mem + 1 - v) + 1"
  by (cases c) (auto simp: moved_def)

lemma bnd_ret_run: "bnd m (\<lambda>q. parse_run fp mem (k q)) = bnd (bnd m (\<lambda>q. ret (k q))) (parse_run fp mem)"
  by (simp add: fun_eq_iff bnd_def ret_def split: option.splits outcome.splits)

lemma parse_run_calls:
  "parse_run fp mem (P_done q) = ret q"
  "parse_run fp mem (P_value i v) = bnd (value_step fp mem i v) (parse_run fp mem)"
  "parse_run fp mem (P_elem i v) = bnd (bnd (parse_run fp mem (P_value i v)) (\<lambda>q. ret (P_elems i q))) (parse_run fp mem)"
  "parse_run fp mem (P_elems i q) = bnd (elems_step mem i q) (parse_run fp mem)"
  "parse_run fp mem (P_member i v) = bnd (member_step mem i v) (parse_run fp mem)"
  "parse_run fp mem (P_mvalue i v) = bnd (bnd (parse_run fp mem (P_value i v)) (\<lambda>q. ret (P_members i q))) (parse_run fp mem)"
  "parse_run fp mem (P_members i q) = bnd (members_step mem i q) (parse_run fp mem)"
  unfolding bnd_ret_run[symmetric] by (rule ext, subst parse_run.simps, simp)+

lemma step_comes_back:
  assumes run: "parse_run fp mem c = bnd step (parse_run fp mem)" and "ends step"
    and moves: "\<And>s d s'. step s = Some (Ret (d, s')) \<Longrightarrow> comes_back fp mem d \<and> ahead mem c d"
  shows "comes_back fp mem c"
  unfolding comes_back_def
proof (intro allI conjI impI)
  fix s
  obtain r where r: "step s = Some r" using assms(2) by (auto simp: ends_def)
  show "parse_run fp mem c s \<noteq> None" using r moves unfolding run by (cases r) (auto simp: bnd_def comes_back_def)
  fix q s' assume e: "parse_run fp mem c s = Some (Ret (q, s'))"
  then obtain d s1 where d: "step s = Some (Ret (d, s1))" "parse_run fp mem d s1 = Some (Ret (q, s'))" unfolding run step_iffs by blast
  have "d = P_done q \<or> ahead mem d (P_done q)" using moves[OF d(1)] d(2) unfolding comes_back_def by blast
  then show "c = P_done q \<or> ahead mem c (P_done q)" using moves[OF d(1)] ahead_trans by blast
qed

text \<open>A value and then the rest of the loop around it.\<close>

lemma value_then_comes_back:
  assumes run: "parse_run fp mem c = bnd (bnd (parse_run fp mem (P_value i v)) (\<lambda>q. ret (k q))) (parse_run fp mem)"
    and pos: "call_pos c = Some v" "\<And>q. call_pos (k q) = q"
    and pv: "comes_back fp mem (P_value i v)" and rest: "\<And>q. moved mem v (P_done q) \<Longrightarrow> comes_back fp mem (k q)"
  shows "comes_back fp mem c"
proof (rule step_comes_back[OF run])
  show "ends (bnd (parse_run fp mem (P_value i v)) (\<lambda>q. ret (k q)))" using pv by (intro ends_intros) (auto simp: ends_def comes_back_def)
next
  fix s d s' assume "bnd (parse_run fp mem (P_value i v)) (\<lambda>q. ret (k q)) s = Some (Ret (d, s'))"
  then obtain q where q: "d = k q" "parse_run fp mem (P_value i v) s = Some (Ret (q, s'))" by (auto simp: step_iffs)
  have "ahead mem (P_value i v) (P_done q)" using pv q(2) unfolding comes_back_def by blast
  then have "moved mem v (P_done q)" by (auto simp: ahead_def moved_def)
  then show "comes_back fp mem d \<and> ahead mem c d" using pos rest q(1) by (auto simp: ahead_def moved_def split: option.splits)
qed

lemma run_comes_back: "comes_back fp mem c"
proof (induction "call_rank mem c" arbitrary: c rule: less_induct)
  case less
  have sub: "comes_back fp mem d \<and> ahead mem c d" if "moved mem v d" "call_pos c = Some v" "c \<noteq> P_done (Some v)" for v d
    using that less moved_rank[OF that(1)] by (cases c) (auto simp: ahead_def)
  have nil: "comes_back fp mem (P_done None) \<and> ahead mem c (P_done None)"
    by (simp add: comes_back_def parse_run_calls ret_def ahead_def split: option.splits)
  have after: "comes_back fp mem (k q)" if "moved mem v (P_done q)" "c = P_elem i v \<and> k = P_elems i \<or> c = P_mvalue i v \<and> k = P_members i" for i v k q
    using that less by (auto simp: moved_def split: option.splits)
  show ?case
  proof (cases c)
    case (P_done q)
    then show ?thesis by (simp add: comes_back_def parse_run_calls ret_def)
  next
    case (P_value i v)
    show ?thesis by (rule step_comes_back[OF parse_run_calls(2)[of fp mem i v, folded P_value]]) (intro ends_intros, rule sub, erule value_step_moves, simp_all add: P_value)
  next
    case (P_elem i v)
    show ?thesis by (rule value_then_comes_back[OF parse_run_calls(3)[of fp mem i v, folded P_elem]]) (use P_elem less after in auto)
  next
    case (P_elems i q)
    show ?thesis by (rule step_comes_back[OF parse_run_calls(4)[of fp mem i q, folded P_elems]])
        (intro ends_intros, use list_step_moves(1) sub nil P_elems in \<open>cases q; fastforce\<close>)
  next
    case (P_member i v)
    show ?thesis by (rule step_comes_back[OF parse_run_calls(5)[of fp mem i v, folded P_member]]) (intro ends_intros, rule sub, erule member_step_moves, simp_all add: P_member)
  next
    case (P_mvalue i v)
    show ?thesis by (rule value_then_comes_back[OF parse_run_calls(6)[of fp mem i v, folded P_mvalue]]) (use P_mvalue less after in auto)
  next
    case (P_members i q)
    show ?thesis by (rule step_comes_back[OF parse_run_calls(7)[of fp mem i q, folded P_members]])
        (intro ends_intros, use list_step_moves(2) sub nil P_members in \<open>cases q; fastforce\<close>)
  qed
qed

end
