(* ===== verification/CJsonSafe.thy ===== *)
theory CJsonSafe
  imports CJsonTerm
begin

text \<open>
  What the parser leaves in the heaps on any text, whether it succeeds or fails: the items it allocated form a forest that
  is disjoint from everything else, so that deleting it gives every block back, and on success the
  forest is the tree of a JSON value.
\<close>

section \<open>Forests\<close>

text \<open>
  \<open>forest h st p N S\<close>: from \<open>p\<close>, the links to children and next items reach the nodes \<open>N\<close>, each of them once, which own
  the strings \<open>S\<close>. No type is claimed, and no name is needed.
\<close>

definition own_type :: "cJSON \<Rightarrow> bool" where
  "own_type n \<longleftrightarrow> cj_type n AND cJSON_IsReference = 0 \<and> cj_type n AND cJSON_StringIsConst = 0"

inductive forest :: "cJSON heap \<Rightarrow> string heap \<Rightarrow> ptr \<Rightarrow> nat set \<Rightarrow> nat set \<Rightarrow> bool" for h st where
  f_nil: "forest h st None {} {}"
| f_cons: "h a = Some n \<Longrightarrow> own_type n \<Longrightarrow> forest h st (cj_child n) N S \<Longrightarrow> forest h st (cj_next n) N' S' \<Longrightarrow>
    a \<notin> N \<union> N' \<Longrightarrow> N \<inter> N' = {} \<Longrightarrow> S \<inter> S' = {} \<Longrightarrow> set_option (valuestring n) \<union> set_option (cj_string n) \<subseteq> dom st \<Longrightarrow>
    set_option (valuestring n) \<inter> (S \<union> S' \<union> set_option (cj_string n)) = {} \<Longrightarrow> set_option (cj_string n) \<inter> (S \<union> S') = {} \<Longrightarrow>
    forest h st (Some a) (insert a (N \<union> N')) (set_option (cj_string n) \<union> (set_option (valuestring n) \<union> S) \<union> S')"

text \<open>The same for the value of one item: its children and its text.\<close>

definition owns :: "cJSON heap \<Rightarrow> string heap \<Rightarrow> cJSON \<Rightarrow> nat set \<Rightarrow> nat set \<Rightarrow> bool" where
  "owns h st n N S \<longleftrightarrow> own_type n \<and> set_option (valuestring n) \<subseteq> dom st \<and>
     (\<exists>S1. forest h st (cj_child n) N S1 \<and> S = set_option (valuestring n) \<union> S1 \<and> set_option (valuestring n) \<inter> S1 = {})"

lemma forest_item:
  assumes "h a = Some n" "owns h st n N S" "forest h st (cj_next n) N' S'" "a \<notin> N \<union> N'" "N \<inter> N' = {}" "S \<inter> S' = {}"
    "set_option (cj_string n) \<subseteq> dom st" "set_option (cj_string n) \<inter> (S \<union> S') = {}"
  shows "forest h st (Some a) (insert a (N \<union> N')) (set_option (cj_string n) \<union> S \<union> S')"
proof -
  obtain S1 where S1: "own_type n" "set_option (valuestring n) \<subseteq> dom st" "forest h st (cj_child n) N S1"
    "S = set_option (valuestring n) \<union> S1" "set_option (valuestring n) \<inter> S1 = {}" using assms(2) unfolding owns_def by blast
  have "forest h st (Some a) (insert a (N \<union> N')) (set_option (cj_string n) \<union> (set_option (valuestring n) \<union> S1) \<union> S')"
    using assms S1 by (intro f_cons) auto
  then show ?thesis by (simp add: S1(4))
qed

lemma forest_dom: "forest h st p N S \<Longrightarrow> N \<subseteq> dom h \<and> S \<subseteq> dom st"
  by (induction rule: forest.induct) auto

lemma owns_dom: "owns h st n N S \<Longrightarrow> N \<subseteq> dom h \<and> S \<subseteq> dom st"
  unfolding owns_def by (auto dest!: forest_dom)

lemma forest_cong: "forest h st p N S \<Longrightarrow> (\<forall>a\<in>N. h' a = h a) \<Longrightarrow> (\<forall>b\<in>S. st' b = st b) \<Longrightarrow> forest h' st' p N S"
proof (induction rule: forest.induct)
  case (f_cons a n N S N' S')
  then show ?case by (intro forest.f_cons) (auto simp: subset_iff domIff)
qed (rule f_nil)

lemma owns_cong:
  assumes "owns h st n N S" "\<forall>a\<in>N. h' a = h a" "\<forall>b\<in>S. st' b = st b" "cj_type n' = cj_type n" "valuestring n' = valuestring n" "cj_child n' = cj_child n"
  shows "owns h' st' n' N S"
proof -
  obtain S1 where S1: "own_type n" "set_option (valuestring n) \<subseteq> dom st" "forest h st (cj_child n) N S1"
    "S = set_option (valuestring n) \<union> S1" "set_option (valuestring n) \<inter> S1 = {}" using assms(1) unfolding owns_def by blast
  have "forest h' st' (cj_child n) N S1" using forest_cong[OF S1(3)] assms(2,3) S1(4) by blast
  moreover have "set_option (valuestring n) \<subseteq> dom st'" using S1(2,4) assms(3) by (auto simp: subset_iff domIff)
  ultimately show ?thesis using S1 assms(4-6) unfolding owns_def own_type_def by auto
qed

text \<open>Trees are forests.\<close>

lemma tree_forest:
  "val_at h st n t N S \<Longrightarrow> owns h st n N S"
  "elems_at h st p ts N S \<Longrightarrow> forest h st p N S"
  "members_at h st p ms N S \<Longrightarrow> forest h st p N S"
proof (induction rule: val_at_elems_at_members_at.inducts)
  case (e_cons a n t N S ts N' S')
  then show ?case using forest_item[of h a n st N S N' S'] by auto
next
  case (m_cons a n b k t N S ms N' S')
  then show ?case using forest_item[of h a n st N S N' S'] by auto
qed (auto simp: owns_def own_type_def intro: f_nil)

section \<open>Deleting\<close>

definition dropped :: "json \<Rightarrow> nat set \<Rightarrow> nat set \<Rightarrow> json" where
  "dropped s N S = s\<lparr>nodes := nodes s |` (- N), strs := strs s |` (- S)\<rparr>"

lemma dropped_dropped: "dropped (dropped s N S) N' S' = dropped s (N \<union> N') (S \<union> S')"
  by (simp add: dropped_def)

lemma restrict_UNIV [simp]: "m |` UNIV = m"
  by (simp add: restrict_map_def)

lemma dropped_none [simp]: "dropped s {} {} = s"
  by (simp add: dropped_def)

lemma dropped_views: "nodes (dropped s N S) = nodes s |` (- N)" "strs (dropped s N S) = strs s |` (- S)"
  by (simp_all add: dropped_def)

lemma free_str_dropped: "strs s b = Some x \<Longrightarrow> free_str (Some b) s = Some (Ret ((), dropped s {} {b}))"
  by (auto simp: run_simps dropped_def restrict_map_def fun_eq_iff intro!: json.equality)

lemma free_node_dropped: "nodes s a = Some x \<Longrightarrow> free_node (Some a) s = Some (Ret ((), dropped s {a} {}))"
  by (auto simp: run_simps dropped_def restrict_map_def fun_eq_iff intro!: json.equality)

text \<open>What the loop does to one item: children, value, name and the item itself.\<close>

lemma delete_item:
  assumes a: "nodes s a = Some n" "a \<notin> N" and ty: "cj_type n AND cJSON_IsReference = 0" "cj_type n AND cJSON_StringIsConst = 0"
    and kids: "(if cj_child n \<noteq> None then cJSON_Delete (cj_child n) else ret ()) s = Some (Ret ((), dropped s N (S - set_option (valuestring n))))"
    and vs: "set_option (valuestring n) \<subseteq> S" "S \<subseteq> dom (strs s)" "set_option (cj_string n) \<subseteq> dom (strs s)" "set_option (cj_string n) \<inter> S = {}"
  shows "cJSON_Delete (Some a) s = cJSON_Delete (cj_next n) (dropped s (insert a N) (S \<union> set_option (cj_string n)))"
proof -
  let ?s1 = "dropped s N (S - set_option (valuestring n))"
  have a1: "nodes ?s1 a = Some n" using a by (simp add: dropped_views)
  have f1: "free_str (valuestring n) ?s1 = Some (Ret ((), dropped s N S))"
  proof (cases "valuestring n")
    case (Some b)
    then obtain x where "strs ?s1 b = Some x" using vs(1,2) by (auto simp: dropped_views restrict_map_def)
    then show ?thesis using Some vs(1) free_str_dropped[of ?s1 b x] by (auto simp: dropped_dropped Un_absorb2 insert_absorb)
  qed (simp add: run_simps)
  have f2: "free_str (cj_string n) (dropped s N S) = Some (Ret ((), dropped s N (S \<union> set_option (cj_string n))))"
  proof (cases "cj_string n")
    case (Some b)
    then obtain x where "strs (dropped s N S) b = Some x" using vs(3,4) by (auto simp: dropped_views restrict_map_def)
    then show ?thesis using Some free_str_dropped[of "dropped s N S" b x] by (auto simp: dropped_dropped)
  qed (simp add: run_simps)
  have "nodes (dropped s N (S \<union> set_option (cj_string n))) a = Some n" using a by (simp add: dropped_views)
  from free_node_dropped[OF this] have f3: "free_node (Some a) (dropped s N (S \<union> set_option (cj_string n))) =
      Some (Ret ((), dropped s (insert a N) (S \<union> set_option (cj_string n))))" by (simp add: dropped_dropped)
  show ?thesis using a(1) a1 ty kids f1 f2 f3
    by (subst cJSON_Delete.simps) (auto simp: bnd_def deref_def ret_def split: if_splits)
qed

lemma delete_forest:
  "forest h st p N S \<Longrightarrow> (\<forall>a\<in>N. nodes s a = h a) \<Longrightarrow> (\<forall>b\<in>S. strs s b = st b) \<Longrightarrow> cJSON_Delete p s = Some (Ret ((), dropped s N S))"
proof (induction arbitrary: s rule: forest.induct)
  case (f_cons a n N S N' S')
  let ?V = "set_option (valuestring n)" and ?K = "set_option (cj_string n)"
  let ?s1 = "dropped s (insert a N) (?V \<union> S \<union> ?K)"
  have "?V \<union> ?K \<subseteq> dom (strs s)" using f_cons.hyps(8) f_cons.prems(2) by (auto simp: subset_iff domIff)
  moreover have "S \<subseteq> dom (strs s)" using forest_dom[OF f_cons.hyps(3)] f_cons.prems(2) by (auto simp: subset_iff domIff)
  moreover have "(?V \<union> S) - ?V = S" using f_cons.hyps(9) by blast
  moreover have "(if cj_child n \<noteq> None then cJSON_Delete (cj_child n) else ret ()) s = Some (Ret ((), dropped s N S))"
  proof (cases "cj_child n")
    case None
    then show ?thesis using f_cons.hyps(3) by (auto simp: ret_def elim: forest.cases)
  qed (use f_cons.IH(1) f_cons.prems in simp)
  ultimately have "cJSON_Delete (Some a) s = cJSON_Delete (cj_next n) ?s1"
    using f_cons.hyps f_cons.prems by (intro delete_item) (auto simp: own_type_def)
  moreover have "cJSON_Delete (cj_next n) ?s1 = Some (Ret ((), dropped ?s1 N' S'))"
    using f_cons.hyps f_cons.prems by (intro f_cons.IH(2)) (auto simp: dropped_views restrict_map_def)
  ultimately show ?case by (simp add: dropped_dropped Un_ac)
qed (simp add: cJSON_Delete.simps[of None] ret_def)

lemma delete_root:
  assumes "nodes s a = Some n" "cj_next n = None" "owns (nodes s) (strs s) n N S" "a \<notin> N" "set_option (cj_string n) \<subseteq> dom (strs s) - S"
  shows "cJSON_Delete (Some a) s = Some (Ret ((), dropped s (insert a N) (set_option (cj_string n) \<union> S)))"
proof -
  have "forest (nodes s) (strs s) (Some a) (insert a (N \<union> {})) (set_option (cj_string n) \<union> S \<union> {})"
    using assms by (intro forest_item) (auto intro: f_nil)
  from delete_forest[OF this] show ?thesis by simp
qed


section \<open>What the parser leaves\<close>

text \<open>An allocator may fail; what it hands out is in neither heap, and it hands nothing out twice.\<close>

definition mem_sane :: "json \<Rightarrow> bool" where
  "mem_sane s \<longleftrightarrow> (\<forall>k\<ge>mem_cnt s. \<forall>a. mem_src s (malloc_hook s) k = Some a \<longrightarrow> a \<notin> dom (nodes s) \<union> dom (strs s) \<and>
     (\<forall>j\<ge>mem_cnt s. mem_src s (malloc_hook s) j = Some a \<longrightarrow> j = k))"

lemma mem_saneD:
  "mem_sane s \<Longrightarrow> mem_cnt s \<le> k \<Longrightarrow> mem_src s (malloc_hook s) k = Some a \<Longrightarrow> a \<notin> dom (nodes s) \<and> a \<notin> dom (strs s)"
  "mem_sane s \<Longrightarrow> mem_cnt s \<le> k \<Longrightarrow> mem_src s (malloc_hook s) k = Some a \<Longrightarrow> mem_cnt s \<le> j \<Longrightarrow> mem_src s (malloc_hook s) j = Some a \<Longrightarrow> j = k"
  unfolding mem_sane_def by blast+

lemma mem_sane_later:
  assumes "mem_sane s" "mem_src s' = mem_src s" "malloc_hook s' = malloc_hook s" "mem_cnt s \<le> mem_cnt s'"
    "dom (nodes s') \<union> dom (strs s') \<subseteq> dom (nodes s) \<union> dom (strs s) \<union> {a. \<exists>k. mem_cnt s \<le> k \<and> k < mem_cnt s' \<and> mem_src s (malloc_hook s) k = Some a}"
  shows "mem_sane s'"
  unfolding mem_sane_def
proof (intro allI impI conjI)
  fix k a assume "mem_cnt s' \<le> k" "mem_src s' (malloc_hook s') k = Some a"
  then have k: "mem_cnt s \<le> k" "mem_src s (malloc_hook s) k = Some a" "mem_cnt s' \<le> k" using assms(2-4) by auto
  show "j = k" if "mem_cnt s' \<le> j" "mem_src s' (malloc_hook s') j = Some a" for j
    using mem_saneD(2)[OF assms(1) k(1,2), of j] that assms(2-4) by simp
  show "a \<notin> dom (nodes s') \<union> dom (strs s')"
  proof
    assume "a \<in> dom (nodes s') \<union> dom (strs s')"
    then obtain j where j: "mem_cnt s \<le> j" "j < mem_cnt s'" "mem_src s (malloc_hook s) j = Some a"
      using assms(5) mem_saneD(1)[OF assms(1) k(1,2)] by blast
    then show False using mem_saneD(2)[OF assms(1) k(1,2) j(1,3)] k(3) by simp
  qed
qed

definition ext :: "nat \<Rightarrow> json \<Rightarrow> json \<Rightarrow> nat set \<Rightarrow> nat set \<Rightarrow> bool" where
  "ext x s s' N S \<longleftrightarrow> kept x s s' N S \<and> mem_sane s'"

lemma extD: "ext x s s' N S \<Longrightarrow> kept x s s' N S" "ext x s s' N S \<Longrightarrow> mem_sane s'"
  by (simp_all add: ext_def)

lemma ext_trans: "ext x s s1 N1 S1 \<Longrightarrow> ext y s1 s2 N2 S2 \<Longrightarrow> y \<in> insert x N1 \<Longrightarrow> ext x s s2 (N1 \<union> N2) (S1 \<union> S2)"
  unfolding ext_def using kept_trans by blast

lemma ext_node:
  assumes "mem_sane s" "x \<in> dom (nodes s)"
  shows "ext x s (s\<lparr>nodes := (nodes s)(x \<mapsto> n)\<rparr>) {} {}"
  unfolding ext_def using assms(2) by (auto simp: kept_def intro!: mem_sane_later[OF assms(1)] split: if_splits)

lemma ext_same:
  assumes "mem_sane s" "x \<in> dom (nodes s)" "nodes s' = nodes s" "strs s' = strs s" "mem_src s' = mem_src s" "malloc_hook s' = malloc_hook s" "mem_cnt s \<le> mem_cnt s'"
  shows "ext x s s' {} {}"
  unfolding ext_def using assms by (auto simp: kept_def intro!: mem_sane_later[OF assms(1)])

lemma new_item_ext:
  assumes "cJSON_New_Item s = Some (Ret (c, s1))" "mem_sane s" "x \<in> dom (nodes s)"
  shows "c = None \<and> nodes s1 = nodes s \<and> strs s1 = strs s \<and> ext x s s1 {} {} \<or>
    (\<exists>y. c = Some y \<and> nodes s1 = (nodes s)(y \<mapsto> zero_node) \<and> strs s1 = strs s \<and> y \<noteq> x \<and> ext x s s1 {y} {})"
proof (cases "mem_src s (malloc_hook s) (mem_cnt s)")
  case None
  then have "s1 = s\<lparr>mem_cnt := mem_cnt s + 1\<rparr>" "c = None" using assms(1) by (auto simp: cJSON_New_Item_def cJSON_malloc_def run_simps)
  then show ?thesis using assms by (auto intro: ext_same)
next
  case (Some y)
  let ?s1 = "s\<lparr>mem_cnt := mem_cnt s + 1, nodes := (nodes s)(y \<mapsto> zero_node)\<rparr>"
  have eq: "s1 = ?s1" "c = Some y" using assms(1) Some by (auto simp: cJSON_New_Item_def cJSON_malloc_def run_simps)
  have y: "y \<notin> dom (nodes s)" using mem_saneD(1)[OF assms(2) _ Some] by simp
  have "mem_sane ?s1" using Some by (intro mem_sane_later[OF assms(2)]) auto
  moreover have "kept x s ?s1 {y} {}" using y assms(3) by (auto simp: kept_def domIff)
  ultimately show ?thesis using eq y assms(3) by (auto simp: ext_def)
qed

lemma parse_string_ext:
  assumes r: "parse_string mem (Some x) v s = Some (Ret (q, s1))" and "mem_sane s" "nodes s x = Some n"
  shows "q = None \<and> nodes s1 = nodes s \<and> strs s1 = strs s \<and> ext x s s1 {} {} \<or>
    (\<exists>b str. nodes s1 = (nodes s)(x \<mapsto> n\<lparr>valuestring := Some b, cj_type := cJSON_String\<rparr>) \<and> strs s1 = (strs s)(b \<mapsto> str) \<and> b \<notin> dom (strs s) \<and> q \<noteq> None \<and> ext x s s1 {} {b})"
proof -
  have x: "x \<in> dom (nodes s)" using assms(3) by (simp add: domIff)
  show ?thesis
  proof (cases q)
    case None
    then have "nodes s1 = nodes s \<and> strs s1 = strs s \<and> mem_src s1 = mem_src s \<and> malloc_hook s1 = malloc_hook s \<and> mem_cnt s \<le> mem_cnt s1"
      using r unfolding parse_string_def
      by (auto simp: step_iffs cJSON_malloc_def modify_def fault_def split: if_splits option.splits)
    then show ?thesis using None assms(2) x by (auto intro: ext_same)
  next
    case (Some e)
    then obtain b str where b: "mem_src s (malloc_hook s) (mem_cnt s) = Some b"
      "nodes s1 = (nodes s)(x \<mapsto> n\<lparr>valuestring := Some b, cj_type := cJSON_String\<rparr>)" "strs s1 = (strs s)(b \<mapsto> str)"
      "mem_src s1 = mem_src s" "malloc_hook s1 = malloc_hook s" "mem_cnt s1 = mem_cnt s + 1"
      using r assms(3) unfolding parse_string_def
      by (auto simp: step_iffs cJSON_malloc_def modify_def fault_def set_cell_def deref_def split: if_splits option.splits)
    have f: "b \<notin> dom (strs s)" using mem_saneD(1)[OF assms(2) _ b(1)] by simp
    have "mem_sane s1" using b x by (intro mem_sane_later[OF assms(2)]) auto
    moreover have "kept x s s1 {} {b}" using f x b by (auto simp: kept_def domIff)
    ultimately show ?thesis using Some b(2,3) f by (auto simp: ext_def)
  qed
qed


text \<open>
  The three kinds of postcondition: of a call that parses the value of an item; of one that parses an item and the items after
  it, where \<open>K\<close> are the names the item had before; and of one that parses the items after an item only. \<open>at\<close> says what a
  chain of items means.
\<close>

type_synonym chain = "cJSON heap \<Rightarrow> string heap \<Rightarrow> ptr \<Rightarrow> nat set \<Rightarrow> nat set \<Rightarrow> bool"

definition elems :: chain where
  "elems h st p N S \<longleftrightarrow> (\<exists>ts. elems_at h st p ts N S)"

definition members :: chain where
  "members h st p N S \<longleftrightarrow> (\<exists>ms. members_at h st p ms N S)"

definition value_post :: "nat \<Rightarrow> cJSON \<Rightarrow> json \<Rightarrow> ptr \<Rightarrow> json \<Rightarrow> bool" where
  "value_post x n s r s' \<longleftrightarrow> (\<exists>n' N S. ext x s s' N S \<and> nodes s' x = Some n' \<and> cj_next n' = cj_next n \<and> cj_string n' = cj_string n \<and>
     owns (nodes s') (strs s') n' N S \<and> (r \<noteq> None \<longrightarrow> (\<exists>t. val_at (nodes s') (strs s') n' t N S)))"

definition chain_post :: "chain \<Rightarrow> nat set \<Rightarrow> nat \<Rightarrow> json \<Rightarrow> ptr \<Rightarrow> json \<Rightarrow> bool" where
  "chain_post at K x s r s' \<longleftrightarrow> (\<exists>N S. ext x s s' N S \<and> forest (nodes s') (strs s') (Some x) (insert x N) (K \<union> S) \<and>
     (r \<noteq> None \<longrightarrow> at (nodes s') (strs s') (Some x) (insert x N) (K \<union> S)))"

definition rest_post :: "chain \<Rightarrow> nat \<Rightarrow> cJSON \<Rightarrow> json \<Rightarrow> ptr \<Rightarrow> json \<Rightarrow> bool" where
  "rest_post at x n s r s' \<longleftrightarrow> (\<exists>p N S. ext x s s' N S \<and> nodes s' x = Some (n\<lparr>cj_next := p\<rparr>) \<and> forest (nodes s') (strs s') p N S \<and>
     (r \<noteq> None \<longrightarrow> at (nodes s') (strs s') p N S))"

text \<open>The state in which an item is filled in.\<close>

definition ready :: "ptr \<Rightarrow> json \<Rightarrow> nat \<Rightarrow> cJSON \<Rightarrow> bool" where
  "ready i s x n \<longleftrightarrow> i = Some x \<and> mem_sane s \<and> nodes s x = Some n \<and> blank_item n \<and> own_type n"

primrec sound :: "parse_call \<Rightarrow> json \<Rightarrow> ptr \<Rightarrow> json \<Rightarrow> bool" where
  "sound (P_done q) s r s' \<longleftrightarrow> r = q \<and> s' = s"
| "sound (P_value i v) s r s' \<longleftrightarrow> (\<forall>x n. ready i s x n \<longrightarrow> value_post x n s r s')"
| "sound (P_elem i v) s r s' \<longleftrightarrow> (\<forall>x n. ready i s x n \<longrightarrow> cj_next n = None \<longrightarrow> cj_string n = None \<longrightarrow> chain_post elems {} x s r s')"
| "sound (P_elems i q) s r s' \<longleftrightarrow> (q = None \<longrightarrow> r = None) \<and>
     (\<forall>x n. i = Some x \<longrightarrow> mem_sane s \<longrightarrow> nodes s x = Some n \<longrightarrow> cj_next n = None \<longrightarrow> rest_post elems x n s r s')"
| "sound (P_member i v) s r s' \<longleftrightarrow> (\<forall>x n. ready i s x n \<longrightarrow> cj_next n = None \<longrightarrow> cj_string n = None \<longrightarrow> chain_post members {} x s r s')"
| "sound (P_mvalue i v) s r s' \<longleftrightarrow> (\<forall>x n b. ready i s x n \<longrightarrow> cj_next n = None \<longrightarrow> cj_string n = Some b \<longrightarrow> b \<in> dom (strs s) \<longrightarrow>
     chain_post members {b} x s r s')"
| "sound (P_members i q) s r s' \<longleftrightarrow> (q = None \<longrightarrow> r = None) \<and>
     (\<forall>x n. i = Some x \<longrightarrow> mem_sane s \<longrightarrow> nodes s x = Some n \<longrightarrow> cj_next n = None \<longrightarrow> rest_post members x n s r s')"

text \<open>A value and then the items after it.\<close>

lemma join_rest:
  assumes g1: "ext x s s1 N1 S1" and n1: "nodes s1 x = Some n1" and o1: "owns (nodes s1) (strs s1) n1 N1 S1"
    and g2: "ext x s1 s2 N2 S2" and n2: "nodes s2 x = Some (n1\<lparr>cj_next := p\<rparr>)"
  shows "ext x s s2 (N1 \<union> N2) (S1 \<union> S2)" "x \<notin> N1 \<union> N2" "N1 \<inter> N2 = {}" "S1 \<inter> S2 = {}"
    "owns (nodes s2) (strs s2) (n1\<lparr>cj_next := p\<rparr>) N1 S1"
    "val_at (nodes s1) (strs s1) n1 t N1 S1 \<Longrightarrow> val_at (nodes s2) (strs s2) (n1\<lparr>cj_next := p\<rparr>) t N1 S1"
    "K \<subseteq> dom (strs s) \<Longrightarrow> K \<inter> (S1 \<union> S2) = {} \<and> (\<forall>b\<in>K. strs s2 b = strs s b)"
proof -
  note k1 = extD(1)[OF g1] and k2 = extD(1)[OF g2]
  have d: "N1 \<subseteq> dom (nodes s1)" "S1 \<subseteq> dom (strs s1)" using owns_dom[OF o1] by auto
  show "ext x s s2 (N1 \<union> N2) (S1 \<union> S2)" using ext_trans[OF g1 g2] by simp
  have x: "x \<notin> N1" "x \<notin> N2" using keptD(3,5)[OF k1] keptD(3,5)[OF k2] by blast+
  then show "x \<notin> N1 \<union> N2" by simp
  show N: "N1 \<inter> N2 = {}" and S: "S1 \<inter> S2 = {}" using d keptD(3,4)[OF k2] by blast+
  have N2: "\<forall>a\<in>N1. nodes s2 a = nodes s1 a" using x(1) N by (auto intro!: keptD(1)[OF k2])
  have S2: "\<forall>b\<in>S1. strs s2 b = strs s1 b" using S by (auto intro!: keptD(2)[OF k2])
  show "owns (nodes s2) (strs s2) (n1\<lparr>cj_next := p\<rparr>) N1 S1" by (rule owns_cong[OF o1 N2 S2]) simp_all
  show "val_at (nodes s2) (strs s2) (n1\<lparr>cj_next := p\<rparr>) t N1 S1" if v: "val_at (nodes s1) (strs s1) n1 t N1 S1"
    by (rule val_at_links[OF tree_cong(1)[OF v N2 S2]]) simp_all
  assume K: "K \<subseteq> dom (strs s)"
  have K12: "K \<inter> S1 = {}" "K \<inter> S2 = {}" using K keptD(4)[OF k1] keptD(4)[OF k2] kept_dom(2)[OF k1] by blast+
  have "strs s2 b = strs s b" if "b \<in> K" for b
  proof -
    have "b \<notin> S1" "b \<notin> S2" using K12 that by blast+
    then show ?thesis using keptD(2)[OF k1, of b] keptD(2)[OF k2, of b] by simp
  qed
  then show "K \<inter> (S1 \<union> S2) = {} \<and> (\<forall>b\<in>K. strs s2 b = strs s b)" using K12 by blast
qed

lemma value_then_elems:
  assumes v: "value_post x n s q s1" and r: "sound (P_elems (Some x) q) s1 r s2" and n: "cj_next n = None" "cj_string n = None"
  shows "chain_post elems {} x s r s2"
proof -
  obtain n1 N1 S1 where 1: "ext x s s1 N1 S1" "nodes s1 x = Some n1" "cj_next n1 = cj_next n" "cj_string n1 = cj_string n"
    "owns (nodes s1) (strs s1) n1 N1 S1" "q \<noteq> None \<longrightarrow> (\<exists>t. val_at (nodes s1) (strs s1) n1 t N1 S1)" using v unfolding value_post_def by (elim exE conjE) (rule that)
  obtain p N2 S2 where 2: "ext x s1 s2 N2 S2" "nodes s2 x = Some (n1\<lparr>cj_next := p\<rparr>)" "forest (nodes s2) (strs s2) p N2 S2"
    "r \<noteq> None \<longrightarrow> elems (nodes s2) (strs s2) p N2 S2"
    using r extD(2)[OF 1(1)] 1(2,3) n(1) unfolding sound.simps rest_post_def by auto
  have q: "q = None \<longrightarrow> r = None" using r by simp
  note j = join_rest[OF 1(1,2,5) 2(1,2)]
  have "forest (nodes s2) (strs s2) (Some x) (insert x (N1 \<union> N2)) ({} \<union> (S1 \<union> S2))"
    using forest_item[OF 2(2) j(5) _ j(2,3,4)] 2(3) 1(4) n by simp
  moreover have "elems (nodes s2) (strs s2) (Some x) (insert x (N1 \<union> N2)) ({} \<union> (S1 \<union> S2))" if some: "r \<noteq> None"
  proof -
    obtain t where t: "val_at (nodes s1) (strs s1) n1 t N1 S1" using some q 1(6) by blast
    obtain ts where "elems_at (nodes s2) (strs s2) p ts N2 S2" using some 2(4) by (auto simp: elems_def)
    then have "elems_at (nodes s2) (strs s2) (Some x) (t # ts) (insert x (N1 \<union> N2)) (S1 \<union> S2)"
      using e_cons[OF 2(2) _ j(6)[OF t] _ j(2,3,4)] 1(4) n by simp
    then show ?thesis by (auto simp: elems_def)
  qed
  ultimately show ?thesis unfolding chain_post_def using j(1) by blast
qed

lemma value_then_members:
  assumes v: "value_post x n s q s1" and r: "sound (P_members (Some x) q) s1 r s2" and n: "cj_next n = None" "cj_string n = Some b" "b \<in> dom (strs s)"
  shows "chain_post members {b} x s r s2"
proof -
  obtain n1 N1 S1 where 1: "ext x s s1 N1 S1" "nodes s1 x = Some n1" "cj_next n1 = cj_next n" "cj_string n1 = cj_string n"
    "owns (nodes s1) (strs s1) n1 N1 S1" "q \<noteq> None \<longrightarrow> (\<exists>t. val_at (nodes s1) (strs s1) n1 t N1 S1)" using v unfolding value_post_def by (elim exE conjE) (rule that)
  obtain p N2 S2 where 2: "ext x s1 s2 N2 S2" "nodes s2 x = Some (n1\<lparr>cj_next := p\<rparr>)" "forest (nodes s2) (strs s2) p N2 S2"
    "r \<noteq> None \<longrightarrow> members (nodes s2) (strs s2) p N2 S2"
    using r extD(2)[OF 1(1)] 1(2,3) n(1) unfolding sound.simps rest_post_def by auto
  have q: "q = None \<longrightarrow> r = None" using r by simp
  note j = join_rest[OF 1(1,2,5) 2(1,2)]
  have b: "b \<notin> S1 \<union> S2" "strs s2 b = strs s b" using j(7)[of "{b}"] n(3) by auto
  obtain k where k: "strs s2 b = Some k" using b(2) n(3) by auto
  have "forest (nodes s2) (strs s2) (Some x) (insert x (N1 \<union> N2)) ({b} \<union> (S1 \<union> S2))"
    using forest_item[OF 2(2) j(5) _ j(2,3,4)] 2(3) 1(4) n b k by (auto simp: domIff)
  moreover have "members (nodes s2) (strs s2) (Some x) (insert x (N1 \<union> N2)) ({b} \<union> (S1 \<union> S2))" if some: "r \<noteq> None"
  proof -
    obtain t where t: "val_at (nodes s1) (strs s1) n1 t N1 S1" using some q 1(6) by blast
    obtain ms where "members_at (nodes s2) (strs s2) p ms N2 S2" using some 2(4) by (auto simp: members_def)
    then have "members_at (nodes s2) (strs s2) (Some x) ((k, t) # ms) (insert x (N1 \<union> N2)) (insert b (S1 \<union> S2))"
      using m_cons[OF 2(2) _ k j(6)[OF t] _ j(2,3,4)] 1(4) n b(1) by simp
    then show ?thesis by (auto simp: members_def)
  qed
  ultimately show ?thesis unfolding chain_post_def using j(1) by blast
qed

text \<open>The steps: what they leave when they return at once, and the state in which they lead to the next call.\<close>

lemma value_postI:
  assumes "ext x s s' N S" "nodes s' x = Some n'" "val_at (nodes s') (strs s') n' t N S" "cj_next n' = cj_next n" "cj_string n' = cj_string n"
  shows "value_post x n s r s'"
  unfolding value_post_def using assms tree_forest(1)[OF assms(3)] by (intro exI[of _ n'] exI[of _ N] exI[of _ S]) auto

lemma value_post_leaf:
  assumes "ext x s s' {} {}" "nodes s' x = Some n'" "cj_next n' = cj_next n" "cj_string n' = cj_string n" "blank_item n'" "own_type n'"
    "r \<noteq> None \<longrightarrow> (\<exists>t. val_at (nodes s') (strs s') n' t {} {})"
  shows "value_post x n s r s'"
  unfolding value_post_def
proof (intro exI conjI)
  show "owns (nodes s') (strs s') n' {} {}" using assms(5,6) by (auto simp: owns_def blank_item_def intro: f_nil)
qed (use assms in auto)

definition opened :: "u32 \<Rightarrow> nat \<Rightarrow> nat \<Rightarrow> cJSON \<Rightarrow> json \<Rightarrow> json \<Rightarrow> bool" where
  "opened ty x y n s s1 \<longleftrightarrow> ext x s s1 {y} {} \<and> nodes s1 x = Some (n\<lparr>cj_type := ty, cj_child := Some y\<rparr>) \<and> nodes s1 y = Some zero_node"

text \<open>The part the two functions share: the type is set, a child is allocated and linked.\<close>

definition open_part :: "u32 \<Rightarrow> ptr \<Rightarrow> (json, ptr) act" where
  "open_part ty item = bnd (set_node item (\<lambda>i. i\<lparr>cj_type := ty\<rparr>)) (\<lambda>_. bnd cJSON_New_Item (\<lambda>child.
     bnd (set_node item (\<lambda>i. i\<lparr>cj_child := child\<rparr>)) (\<lambda>_. ret child)))"

lemma set_node_Ret_iff: "set_node i f s = Some (Ret (u, s1)) \<longleftrightarrow> (\<exists>x n. i = Some x \<and> nodes s x = Some n \<and> s1 = s\<lparr>nodes := (nodes s)(x \<mapsto> f n)\<rparr>)"
  by (auto simp: set_cell_def deref_def bnd_def modify_def fault_def ret_def split: option.splits)

lemma open_part_ext:
  assumes r: "open_part ty (Some x) s = Some (Ret (c, s1))" and rd: "ready (Some x) s x n"
  shows "c = None \<and> ext x s s1 {} {} \<and> nodes s1 x = Some (n\<lparr>cj_type := ty\<rparr>) \<or> (\<exists>y. c = Some y \<and> opened ty x y n s s1)"
proof -
  let ?s0 = "s\<lparr>nodes := (nodes s)(x \<mapsto> n\<lparr>cj_type := ty\<rparr>)\<rparr>"
  have n: "nodes s x = Some n" "mem_sane s" "cj_child n = None" using rd by (auto simp: ready_def blank_item_def)
  have g0: "ext x s ?s0 {} {}" using n by (intro ext_node) (auto simp: domIff)
  obtain s2 m where s2: "cJSON_New_Item ?s0 = Some (Ret (c, s2))" "nodes s2 x = Some m" "s1 = s2\<lparr>nodes := (nodes s2)(x \<mapsto> m\<lparr>cj_child := c\<rparr>)\<rparr>"
    using r n(1) unfolding open_part_def by (auto simp: step_iffs set_node_Ret_iff)
  have g2: "ext x s2 s1 {} {}" if "mem_sane s2" using that s2(2) unfolding s2(3) by (intro ext_node) (auto simp: domIff)
  from new_item_ext[OF s2(1) extD(2)[OF g0], of x] consider
      "c = None" "nodes s2 = nodes ?s0" "ext x ?s0 s2 {} {}"
    | y where "c = Some y" "nodes s2 = (nodes ?s0)(y \<mapsto> zero_node)" "y \<noteq> x" "ext x ?s0 s2 {y} {}" by auto
  then show ?thesis
  proof cases
    case 1
    have "ext x s s2 {} {}" using ext_trans[OF g0 1(3)] by simp
    then have "ext x s s1 {} {}" using ext_trans[OF _ g2[OF extD(2)[OF 1(3)]], of x s "{}" "{}"] by simp
    moreover have "m = n\<lparr>cj_type := ty\<rparr>" using 1(2) s2(2) by simp
    ultimately show ?thesis using 1(1) s2(3) n(3) by simp
  next
    case 2
    have "ext x s s2 {y} {}" using ext_trans[OF g0 2(4)] by simp
    then have "ext x s s1 {y} {}" using ext_trans[OF _ g2[OF extD(2)[OF 2(4)]], of x s "{y}" "{}"] by simp
    moreover have "m = n\<lparr>cj_type := ty\<rparr>" using 2(2,3) s2(2) by simp
    ultimately show ?thesis using 2 s2(3) unfolding opened_def by simp
  qed
qed

lemma open_cases:
  "parse_array_open mem (Some x) v s = Some (Ret (d, s1)) \<Longrightarrow> nodes s x = Some n \<Longrightarrow>
     (\<exists>e. d = P_done (Some e) \<and> s1 = s\<lparr>nodes := (nodes s)(x \<mapsto> n\<lparr>cj_type := cJSON_Array\<rparr>)\<rparr>) \<or>
     (\<exists>c. open_part cJSON_Array (Some x) s = Some (Ret (c, s1)) \<and> (c = None \<and> d = P_done None \<or> (\<exists>y w. c = Some y \<and> d = P_elem (Some y) w)))"
  "parse_object_open mem (Some x) v s = Some (Ret (d, s1)) \<Longrightarrow> nodes s x = Some n \<Longrightarrow>
     (\<exists>e. d = P_done (Some e) \<and> s1 = s\<lparr>nodes := (nodes s)(x \<mapsto> n\<lparr>cj_type := cJSON_Object\<rparr>)\<rparr>) \<or>
     (\<exists>c. open_part cJSON_Object (Some x) s = Some (Ret (c, s1)) \<and> (c = None \<and> d = P_done None \<or> (\<exists>y w. c = Some y \<and> d = P_member (Some y) w)))"
  unfolding parse_array_open_def parse_object_open_def open_part_def
  by (auto simp: step_iffs set_node_Ret_iff split: if_splits)

lemma val_empty: "blank_item n \<Longrightarrow> cj_type n = cJSON_Array \<or> cj_type n = cJSON_Object \<Longrightarrow> \<exists>t. val_at h st n t {} {}"
  using v_arr[of n h st "[]" "{}" "{}"] v_obj[of n h st "[]" "{}" "{}"] e_nil m_nil by (auto simp: blank_item_def)

lemma open_sound:
  assumes rd: "ready (Some x) s x n"
  shows "parse_array_open mem (Some x) v s = Some (Ret (d, s1)) \<Longrightarrow>
      (\<exists>r. d = P_done r \<and> value_post x n s r s1) \<or> (\<exists>y w. d = P_elem (Some y) w \<and> opened cJSON_Array x y n s s1)"
    "parse_object_open mem (Some x) v s = Some (Ret (d, s1)) \<Longrightarrow>
      (\<exists>r. d = P_done r \<and> value_post x n s r s1) \<or> (\<exists>y w. d = P_member (Some y) w \<and> opened cJSON_Object x y n s s1)"
proof -
  have n: "nodes s x = Some n" "mem_sane s" "blank_item n" using rd by (auto simp: ready_def)
  have g: "ext x s (s\<lparr>nodes := (nodes s)(x \<mapsto> m)\<rparr>) {} {}" for m using n by (intro ext_node) (auto simp: domIff)
  have empty: "value_post x n s r (s\<lparr>nodes := (nodes s)(x \<mapsto> n\<lparr>cj_type := ty\<rparr>)\<rparr>)" if "ty = cJSON_Array \<or> ty = cJSON_Object" for r ty
    using that n(3) val_empty[of "n\<lparr>cj_type := ty\<rparr>"]
    by (intro value_post_leaf[OF g, where n' = "n\<lparr>cj_type := ty\<rparr>"]) (auto simp: blank_item_def own_type_def)
  have nomem: "value_post x n s None s1" if "open_part ty (Some x) s = Some (Ret (None, s1))" "ty = cJSON_Array \<or> ty = cJSON_Object" for s1 ty
    using open_part_ext[OF that(1) rd] that(2) n(3) by (auto simp: blank_item_def own_type_def intro!: value_post_leaf)
  show "(\<exists>r. d = P_done r \<and> value_post x n s r s1) \<or> (\<exists>y w. d = P_elem (Some y) w \<and> opened cJSON_Array x y n s s1)"
    if "parse_array_open mem (Some x) v s = Some (Ret (d, s1))"
    using open_cases(1)[OF that n(1)] empty nomem open_part_ext[OF _ rd, of cJSON_Array] by fastforce
  show "(\<exists>r. d = P_done r \<and> value_post x n s r s1) \<or> (\<exists>y w. d = P_member (Some y) w \<and> opened cJSON_Object x y n s s1)"
    if "parse_object_open mem (Some x) v s = Some (Ret (d, s1))"
    using open_cases(2)[OF that n(1)] empty nomem open_part_ext[OF _ rd, of cJSON_Object] by fastforce
qed

lemma value_step_sound:
  assumes r: "value_step fp mem (Some x) v s = Some (Ret (d, s1))" and rd: "ready (Some x) s x n"
  shows "(\<exists>r. d = P_done r \<and> value_post x n s r s1) \<or> (\<exists>y w. d = P_elem (Some y) w \<and> opened cJSON_Array x y n s s1) \<or>
    (\<exists>y w. d = P_member (Some y) w \<and> opened cJSON_Object x y n s s1)"
proof -
  have n: "nodes s x = Some n" "mem_sane s" "blank_item n" "own_type n" using rd by (auto simp: ready_def)
  have lit: "value_post x n s (Some e) s1" if "set_node (Some x) f s = Some (Ret ((), s1))" "cj_next (f n) = cj_next n" "cj_string (f n) = cj_string n"
    "valuestring (f n) = None" "cj_child (f n) = None" "cj_type (f n) \<in> {cJSON_NULL, cJSON_False, cJSON_True, cJSON_Number}" for f e
  proof -
    have s1: "s1 = s\<lparr>nodes := (nodes s)(x \<mapsto> f n)\<rparr>" using that(1) n(1) by (simp add: set_node_Ret_iff)
    have "ext x s s1 {} {}" using n unfolding s1 by (intro ext_node) (auto simp: domIff)
    moreover have "\<exists>t. val_at (nodes s1) (strs s1) (f n) t {} {}" using that(4-6) by (auto intro: v_null v_false v_true v_num)
    ultimately show ?thesis using that s1 by (intro value_post_leaf[where n' = "f n"]) (auto simp: blank_item_def own_type_def)
  qed
  from r show ?thesis
  proof (cases rule: value_step_cases)
    case null
    then show ?thesis using lit[OF null(2)] n(3) by (auto simp: blank_item_def)
  next
    case false
    then show ?thesis using lit[OF false(2)] n(3) by (auto simp: blank_item_def)
  next
    case true
    then show ?thesis using lit[OF true(2)] n(3) by (auto simp: blank_item_def)
  next
    case (other ch)
    consider (str) q where "parse_string mem (Some x) v s = Some (Ret (q, s1))" "d = P_done q"
      | (num) q where "parse_number fp mem (Some x) v s = Some (Ret (q, s1))" "d = P_done q"
      | (arr) "parse_array_open mem (Some x) v s = Some (Ret (d, s1))" | (obj) "parse_object_open mem (Some x) v s = Some (Ret (d, s1))"
      | (bad) "s1 = s\<lparr>cj_ep := Some v\<rparr>" "d = P_done None"
      using other(2) by (auto simp: step_iffs modify_def split: if_splits)
    then show ?thesis
    proof cases
      case str
      have "value_post x n s q s1" using parse_string_ext[OF str(1) n(2,1)]
      proof (elim disjE exE conjE)
        assume "q = None" "nodes s1 = nodes s" "strs s1 = strs s" "ext x s s1 {} {}"
        then show ?thesis using n by (intro value_post_leaf[where n' = n]) auto
      next
        fix b str assume b: "nodes s1 = (nodes s)(x \<mapsto> n\<lparr>valuestring := Some b, cj_type := cJSON_String\<rparr>)" "strs s1 = (strs s)(b \<mapsto> str)" "ext x s s1 {} {b}"
        have v: "val_at (nodes s1) (strs s1) (n\<lparr>valuestring := Some b, cj_type := cJSON_String\<rparr>) (JStr str) {} {b}"
          using b n(3) by (intro v_str) (auto simp: blank_item_def)
        show ?thesis using b(1) by (intro value_postI[OF b(3) _ v]) auto
      qed
      then show ?thesis using str(2) by blast
    next
      case num
      then show ?thesis unfolding parse_number_def using lit n(3) by (fastforce simp: step_iffs blank_item_def split: prod.splits)
    next
      case bad
      have "ext x s s1 {} {}" unfolding bad using n by (intro ext_same) (auto simp: domIff)
      then show ?thesis using bad n by (auto intro!: value_post_leaf[where n' = n])
    qed (use open_sound[OF rd] in blast)+
  qed
qed

definition linked :: "nat \<Rightarrow> nat \<Rightarrow> cJSON \<Rightarrow> json \<Rightarrow> json \<Rightarrow> bool" where
  "linked x y n s s1 \<longleftrightarrow> ext x s s1 {y} {} \<and> nodes s1 x = Some (n\<lparr>cj_next := Some y\<rparr>) \<and> nodes s1 y = Some (zero_node\<lparr>cj_prev := Some x\<rparr>)"

text \<open>The part of the loop that allocates and links the next item.\<close>

lemma link_ext:
  assumes r: "cJSON_New_Item s = Some (Ret (Some y, s2))" and l: "set_node (Some x) (\<lambda>n. n\<lparr>cj_next := Some y\<rparr>) s2 = Some (Ret ((), s3))"
    "set_node (Some y) (\<lambda>n. n\<lparr>cj_prev := Some x\<rparr>) s3 = Some (Ret ((), s4))" and n: "nodes s x = Some n" "mem_sane s"
  shows "linked x y n s s4"
proof -
  have y: "nodes s2 = (nodes s)(y \<mapsto> zero_node)" "y \<noteq> x" "ext x s s2 {y} {}" using new_item_ext[OF r n(2), of x] n(1) by (auto simp: domIff)
  have s3: "s3 = s2\<lparr>nodes := (nodes s2)(x \<mapsto> n\<lparr>cj_next := Some y\<rparr>)\<rparr>" using l(1) y n(1) by (auto simp: set_node_Ret_iff)
  have s4: "s4 = s3\<lparr>nodes := (nodes s3)(y \<mapsto> zero_node\<lparr>cj_prev := Some x\<rparr>)\<rparr>" using l(2) y by (auto simp: set_node_Ret_iff s3)
  have 3: "ext x s2 s3 {} {}" using extD(2)[OF y(3)] y n(1) unfolding s3 by (intro ext_node) (auto simp: domIff)
  have 4: "ext y s3 s4 {} {}" using extD(2)[OF 3] y unfolding s4 by (intro ext_node) (auto simp: domIff s3)
  have "ext x s s3 {y} {}" using ext_trans[OF y(3) 3] by simp
  then have "ext x s s4 {y} {}" using ext_trans[OF _ 4, of x s "{y}" "{}"] by simp
  then show ?thesis using s3 s4 y(2) by (auto simp: linked_def)
qed

lemma loop_step_sound:
  assumes r: "loop_step mem close cont (Some x) q s = Some (Ret (d, s1))" and n: "nodes s x = Some n" "mem_sane s"
    and k: "\<And>y v t d t'. cont y v t = Some (Ret (d, t')) \<Longrightarrow> \<exists>w. d = k y w \<and> t' = t" "\<And>y w. k y w \<noteq> P_done None"
  shows "(\<exists>r. d = P_done r \<and> (q = None \<longrightarrow> r = None) \<and> ext x s s1 {} {} \<and> nodes s1 x = Some n) \<or>
    (\<exists>y w. q \<noteq> None \<and> d = k (Some y) w \<and> linked x y n s s1)"
proof -
  have x: "x \<in> dom (nodes s)" using n(1) by (simp add: domIff)
  consider (stop) r where "d = P_done r" "q = None \<longrightarrow> r = None" "s1 = s \<or> (\<exists>e. s1 = s\<lparr>cj_ep := Some e\<rparr>)"
    | (nomem) "d = P_done None" "cJSON_New_Item s = Some (Ret (None, s1))"
    | (more) y w s2 s3 where "q \<noteq> None" "cJSON_New_Item s = Some (Ret (Some y, s2))" "set_node (Some x) (\<lambda>n. n\<lparr>cj_next := Some y\<rparr>) s2 = Some (Ret ((), s3))"
        "set_node (Some y) (\<lambda>n. n\<lparr>cj_prev := Some x\<rparr>) s3 = Some (Ret ((), s1))" "d = k (Some y) w"
    using r unfolding loop_step_def
    by (auto simp: step_iffs skip_ptr_Ret_iff modify_def k(2)[symmetric] dest!: k(1) split: if_splits option.splits)
  then show ?thesis
  proof cases
    case stop
    then have "ext x s s1 {} {}" using n(2) x by (auto intro: ext_same)
    then show ?thesis using stop n by auto
  next
    case nomem
    then show ?thesis using new_item_ext[OF nomem(2) n(2) x] n(1) by auto
  next
    case (more y w s2 s3)
    then show ?thesis using link_ext[OF more(2-4) n] by blast
  qed
qed

definition named :: "nat \<Rightarrow> nat \<Rightarrow> cJSON \<Rightarrow> json \<Rightarrow> json \<Rightarrow> bool" where
  "named x b n s s1 \<longleftrightarrow> ext x s s1 {} {b} \<and> nodes s1 x = Some (n\<lparr>valuestring := None, cj_type := cJSON_String, cj_string := Some b\<rparr>)"

lemma parse_string_some:
  assumes "parse_string mem (Some x) v s = Some (Ret (Some e, s2))" "nodes s2 x = Some m" "mem_sane s" "nodes s x = Some n"
  shows "\<exists>b. m = n\<lparr>valuestring := Some b, cj_type := cJSON_String\<rparr> \<and> ext x s s2 {} {b}"
  using parse_string_ext[OF assms(1,3,4)]
proof (elim disjE exE conjE)
  fix b str assume "nodes s2 = (nodes s)(x \<mapsto> n\<lparr>valuestring := Some b, cj_type := cJSON_String\<rparr>)" "ext x s s2 {} {b}"
  then show ?thesis using assms(2) by (intro exI[of _ b]) simp
qed simp

lemma member_step_sound:
  assumes r: "member_step mem (Some x) v s = Some (Ret (d, s1))" and n: "nodes s x = Some n" "mem_sane s"
  shows "d = P_done None \<and> ext x s s1 {} {} \<and> nodes s1 x = Some n \<or> (\<exists>b. named x b n s s1 \<and> (d = P_done None \<or> (\<exists>w. d = P_mvalue (Some x) w)))"
proof -
  have x: "x \<in> dom (nodes s)" using n(1) by (simp add: domIff)
  consider (fail) v1 where "parse_string mem (Some x) v1 s = Some (Ret (None, s1))" "d = P_done None"
    | (name) v1 e s2 m where "parse_string mem (Some x) v1 s = Some (Ret (Some e, s2))" "nodes s2 x = Some m"
        "s1 = s2\<lparr>nodes := (nodes s2)(x \<mapsto> m\<lparr>cj_string := valuestring m, valuestring := None\<rparr>)\<rparr>" "\<exists>w. d = P_mvalue (Some x) w"
    | (junk) v1 e s2 m p where "parse_string mem (Some x) v1 s = Some (Ret (Some e, s2))" "nodes s2 x = Some m"
        "s1 = s2\<lparr>nodes := (nodes s2)(x \<mapsto> m\<lparr>cj_string := valuestring m, valuestring := None\<rparr>), cj_ep := Some p\<rparr>" "d = P_done None"
    using r unfolding member_step_def
    by (auto simp: step_iffs skip_ptr_Ret_iff set_node_Ret_iff modify_def split: if_splits option.splits)
  then show ?thesis
  proof cases
    case fail
    then show ?thesis using parse_string_ext[OF fail(1) n(2,1)] n(1) by auto
  next
    case (name v1 e s2 m)
    then obtain b where b: "m = n\<lparr>valuestring := Some b, cj_type := cJSON_String\<rparr>" "ext x s s2 {} {b}" using parse_string_some[OF name(1,2) n(2,1)] by blast
    have "ext x s2 s1 {} {}" unfolding name(3) using extD(2)[OF b(2)] name(2) by (intro ext_node) (auto simp: domIff)
    then have "named x b n s s1" using ext_trans[OF b(2)] name(3) b(1) by (fastforce simp: named_def)
    then show ?thesis using name(4) by blast
  next
    case (junk v1 e s2 m p)
    then obtain b where b: "m = n\<lparr>valuestring := Some b, cj_type := cJSON_String\<rparr>" "ext x s s2 {} {b}" using parse_string_some[OF junk(1,2) n(2,1)] by blast
    let ?s3 = "s2\<lparr>nodes := (nodes s2)(x \<mapsto> m\<lparr>cj_string := valuestring m, valuestring := None\<rparr>)\<rparr>"
    have 3: "ext x s2 ?s3 {} {}" using extD(2)[OF b(2)] junk(2) by (intro ext_node) (auto simp: domIff)
    have "ext x ?s3 s1 {} {}" unfolding junk(3) using extD(2)[OF 3] by (intro ext_same) auto
    then have "ext x s2 s1 {} {}" using ext_trans[OF 3] by fastforce
    then have "named x b n s s1" using ext_trans[OF b(2)] junk(3) b(1) by (fastforce simp: named_def)
    then show ?thesis using junk(4) by blast
  qed
qed

text \<open>The items after an item, from those that begin at the next one; and a value from its items.\<close>

lemma chain_rest:
  assumes l: "linked x y n s s1" and c: "chain_post at {} y s1 r s2"
  shows "rest_post at x n s r s2"
proof -
  obtain N S where 2: "ext y s1 s2 N S" "forest (nodes s2) (strs s2) (Some y) (insert y N) S" "r \<noteq> None \<longrightarrow> at (nodes s2) (strs s2) (Some y) (insert y N) S"
    using c by (auto simp: chain_post_def)
  have 1: "ext x s s1 {y} {}" "nodes s1 x = Some (n\<lparr>cj_next := Some y\<rparr>)" "nodes s1 y = Some (zero_node\<lparr>cj_prev := Some x\<rparr>)" using l by (auto simp: linked_def)
  have x: "x \<noteq> y" "x \<notin> N" using keptD(3,5)[OF extD(1)[OF 1(1)]] keptD(3)[OF extD(1)[OF 2(1)]] 1(2) by auto
  have "nodes s2 x = nodes s1 x" using x by (intro keptD(1)[OF extD(1)[OF 2(1)]]) simp
  moreover have "ext x s s2 (insert y N) S" using ext_trans[OF 1(1) 2(1)] by simp
  ultimately show ?thesis unfolding rest_post_def using 1(2) 2(2,3) by (intro exI[of _ "Some y"] exI[of _ "insert y N"] exI[of _ S]) simp
qed

lemma rest_stop: "ext x s s1 {} {} \<Longrightarrow> nodes s1 x = Some n \<Longrightarrow> cj_next n = None \<Longrightarrow> (\<And>h st. at h st None {} {}) \<Longrightarrow> rest_post at x n s r s1"
  unfolding rest_post_def by (intro exI[of _ None] exI[of _ "{}"]) (auto intro: f_nil)

lemma chain_value:
  assumes o: "opened ty x y n s s1" and rd: "ready (Some x) s x n" and c: "chain_post at {} y s1 r s2"
    and ty: "ty AND cJSON_IsReference = 0" "ty AND cJSON_StringIsConst = 0"
    and at: "\<And>h st p N S m. at h st p N S \<Longrightarrow> cj_type m = ty \<Longrightarrow> valuestring m = None \<Longrightarrow> cj_child m = p \<Longrightarrow> \<exists>t. val_at h st m t N S"
  shows "value_post x n s r s2"
proof -
  obtain N S where 2: "ext y s1 s2 N S" "forest (nodes s2) (strs s2) (Some y) (insert y N) S" "r \<noteq> None \<longrightarrow> at (nodes s2) (strs s2) (Some y) (insert y N) S"
    using c by (auto simp: chain_post_def)
  let ?n = "n\<lparr>cj_type := ty, cj_child := Some y\<rparr>"
  have vs: "valuestring ?n = None" using rd by (simp add: ready_def blank_item_def)
  have 1: "ext x s s1 {y} {}" "nodes s1 x = Some ?n" "nodes s1 y = Some zero_node" using o by (auto simp: opened_def)
  have x: "x \<noteq> y" "x \<notin> N" using keptD(3,5)[OF extD(1)[OF 1(1)]] keptD(3)[OF extD(1)[OF 2(1)]] 1(2) by auto
  have "nodes s2 x = nodes s1 x" using x by (intro keptD(1)[OF extD(1)[OF 2(1)]]) simp
  moreover have "ext x s s2 (insert y N) S" using ext_trans[OF 1(1) 2(1)] by simp
  moreover have "owns (nodes s2) (strs s2) ?n (insert y N) S" using 2(2) vs ty by (simp add: owns_def own_type_def)
  moreover have "r \<noteq> None \<longrightarrow> (\<exists>t. val_at (nodes s2) (strs s2) ?n t (insert y N) S)" using 2(3) at[of _ _ _ _ _ ?n] vs by auto
  ultimately show ?thesis unfolding value_post_def using 1(2) by (intro exI[of _ ?n] exI[of _ "insert y N"] exI[of _ S]) simp
qed

text \<open>A member from its name.\<close>

lemma chain_named:
  assumes nm: "named x b n s s1" and c: "chain_post members {b} x s1 r s2"
  shows "chain_post members {} x s r s2"
proof -
  obtain N S where 2: "ext x s1 s2 N S" "forest (nodes s2) (strs s2) (Some x) (insert x N) ({b} \<union> S)"
    "r \<noteq> None \<longrightarrow> members (nodes s2) (strs s2) (Some x) (insert x N) ({b} \<union> S)" using c by (auto simp: chain_post_def)
  have "ext x s s1 {} {b}" using nm by (simp add: named_def)
  from ext_trans[OF this 2(1)] show ?thesis unfolding chain_post_def using 2(2,3) by (intro exI[of _ N] exI[of _ "{b} \<union> S"]) simp
qed

lemma chain_fail:
  assumes "ext x s s1 {} S" "nodes s1 x = Some m" "blank_item m" "own_type m" "cj_next m = None" "set_option (cj_string m) = S"
  shows "chain_post at {} x s None s1"
proof -
  have S: "S \<subseteq> dom (strs s1)" using keptD(7)[OF extD(1)[OF assms(1)]] .
  have "forest (nodes s1) (strs s1) (Some x) (insert x ({} \<union> {})) (set_option (cj_string m) \<union> {} \<union> {})"
    using assms S by (intro forest_item) (auto simp: owns_def blank_item_def intro: f_nil)
  then show ?thesis unfolding chain_post_def using assms(1,6) by (intro exI[of _ "{}"] exI[of _ S]) simp
qed

text \<open>Each call is sound when the calls it makes are.\<close>

lemma ready_later: "ext x s s1 N S \<Longrightarrow> nodes s1 y = Some m \<Longrightarrow> blank_item m \<Longrightarrow> own_type m \<Longrightarrow> ready (Some y) s1 y m"
  using extD(2) by (simp add: ready_def)

lemma zero_ready: "blank_item (zero_node\<lparr>cj_prev := p\<rparr>)" "own_type (zero_node\<lparr>cj_prev := p\<rparr>)" "blank_item zero_node" "own_type zero_node"
  "cj_next zero_node = None" "cj_string zero_node = None"
  by (simp_all add: blank_item_def own_type_def zero_node_def)

lemma sound_value:
  assumes "value_step fp mem i v s = Some (Ret (d, s1))" "sound d s1 r s2"
  shows "sound (P_value i v) s r s2"
  unfolding sound.simps
proof (intro allI impI)
  fix x n assume rd: "ready i s x n"
  then have i: "i = Some x" by (simp add: ready_def)
  from value_step_sound[OF assms(1)[unfolded i] rd[unfolded i]] show "value_post x n s r s2"
  proof (elim disjE exE conjE)
    fix y w assume o: "d = P_elem (Some y) w" "opened cJSON_Array x y n s s1"
    have "ready (Some y) s1 y zero_node" using o(2) zero_ready by (auto simp: opened_def intro: ready_later)
    then have "chain_post elems {} y s1 r s2" using assms(2) o(1) zero_ready by auto
    then show ?thesis by (rule chain_value[OF o(2) rd[unfolded i]]) (auto simp: elems_def intro: v_arr)
  next
    fix y w assume o: "d = P_member (Some y) w" "opened cJSON_Object x y n s s1"
    have "ready (Some y) s1 y zero_node" using o(2) zero_ready by (auto simp: opened_def intro: ready_later)
    then have "chain_post members {} y s1 r s2" using assms(2) o(1) zero_ready by auto
    then show ?thesis by (rule chain_value[OF o(2) rd[unfolded i]]) (auto simp: members_def intro: v_obj)
  qed (use assms(2) in auto)
qed

lemma loop_rest:
  assumes st: "loop_step mem close cont (Some x) q s = Some (Ret (d, s1))" and k: "\<And>y v t d t'. cont y v t = Some (Ret (d, t')) \<Longrightarrow> \<exists>w. d = k y w \<and> t' = t"
    "\<And>y w. k y w \<noteq> P_done None" and n: "nodes s x = Some n" "mem_sane s" "cj_next n = None" and d: "sound d s1 r s2" and at: "\<And>h st. at h st None {} {}"
    and ch: "\<And>y w. ready (Some y) s1 y (zero_node\<lparr>cj_prev := Some x\<rparr>) \<Longrightarrow> sound (k (Some y) w) s1 r s2 \<Longrightarrow> chain_post at {} y s1 r s2"
  shows "rest_post at x n s r s2"
proof -
  have "(\<exists>r. d = P_done r \<and> (q = None \<longrightarrow> r = None) \<and> ext x s s1 {} {} \<and> nodes s1 x = Some n) \<or> (\<exists>y w. q \<noteq> None \<and> d = k (Some y) w \<and> linked x y n s s1)"
    by (rule loop_step_sound[OF st n(1,2)]) (rule k, assumption, rule k)
  then show ?thesis
  proof (elim disjE exE conjE)
    fix y w assume y: "d = k (Some y) w" "linked x y n s s1"
    then have "ready (Some y) s1 y (zero_node\<lparr>cj_prev := Some x\<rparr>)" using zero_ready by (auto simp: linked_def intro: ready_later)
    then have "chain_post at {} y s1 r s2" using ch d y(1) by blast
    then show ?thesis using chain_rest[OF y(2)] by blast
  qed (use d n(3) at in \<open>auto intro: rest_stop\<close>)
qed

lemma sound_elems:
  assumes st: "elems_step mem i q s = Some (Ret (d, s1))" and d: "sound d s1 r s2"
  shows "sound (P_elems i q) s r s2"
  unfolding sound.simps
proof (intro conjI allI impI)
  show "r = None" if "q = None" using that list_step_moves(1)[OF st] d by simp
  fix x n assume x: "i = Some x" "mem_sane s" "nodes s x = Some n" "cj_next n = None"
  show "rest_post elems x n s r s2"
    by (rule loop_rest[where k = P_elem, OF st[unfolded elems_step_def x(1)] _ _ x(3,2,4) d]) (auto simp: step_iffs elems_def zero_node_def intro: e_nil)
qed

lemma sound_members:
  assumes st: "members_step mem i q s = Some (Ret (d, s1))" and d: "sound d s1 r s2"
  shows "sound (P_members i q) s r s2"
  unfolding sound.simps
proof (intro conjI allI impI)
  show "r = None" if "q = None" using that list_step_moves(2)[OF st] d by simp
  fix x n assume x: "i = Some x" "mem_sane s" "nodes s x = Some n" "cj_next n = None"
  show "rest_post members x n s r s2"
    by (rule loop_rest[where k = P_member, OF st[unfolded members_step_def x(1)] _ _ x(3,2,4) d]) (auto simp: step_iffs members_def zero_node_def intro: m_nil)
qed

lemma sound_member:
  assumes st: "member_step mem i v s = Some (Ret (d, s1))" and d: "sound d s1 r s2"
  shows "sound (P_member i v) s r s2"
  unfolding sound.simps
proof (intro allI impI)
  fix x n assume rd: "ready i s x n" and n: "cj_next n = None" "cj_string n = None"
  then have i: "i = Some x" "nodes s x = Some n" "mem_sane s" "blank_item n" "own_type n" by (simp_all add: ready_def)
  from member_step_sound[OF st[unfolded i(1)] i(2,3)] show "chain_post members {} x s r s2"
  proof (elim disjE exE conjE)
    assume "d = P_done None" "ext x s s1 {} {}" "nodes s1 x = Some n"
    then show ?thesis using d chain_fail[of x s s1 "{}" n] i n by simp
  next
    fix b assume nm: "named x b n s s1"
    let ?m = "n\<lparr>valuestring := None, cj_type := cJSON_String, cj_string := Some b\<rparr>"
    have m: "nodes s1 x = Some ?m" "blank_item ?m" "own_type ?m" "ext x s s1 {} {b}" using nm i(4) by (auto simp: named_def blank_item_def own_type_def)
    {
      assume "d = P_done None"
      then show ?thesis using d chain_fail[OF m(4,1,2,3)] n by simp
    next
      fix w assume w: "d = P_mvalue (Some x) w"
      have "b \<in> dom (strs s1)" using keptD(7)[OF extD(1)[OF m(4)]] by blast
      then have "chain_post members {b} x s1 r s2" using d w ready_later[OF m(4,1,2,3)] n by auto
      then show ?thesis using chain_named[OF nm] by blast
    }
  qed
qed

theorem run_sound: "parse_run fp mem c s = Some (Ret (r, s')) \<Longrightarrow> sound c s r s'"
proof -
  have "case y of Ret (r, s') \<Rightarrow> sound c s r s' | _ \<Rightarrow> True" if "parse_run fp mem c s = Some y" for y
  proof (rule parse_run.raw_induct[where P = "\<lambda>fp mem c s y. case y of Ret (r, s') \<Rightarrow> sound c s r s' | _ \<Rightarrow> True", OF _ that], goal_cases)
    case (1 run fp mem c s y)
    have IH: "sound c s r s'" if "run fp mem c s = Some (Ret (r, s'))" for c s r s' using 1(1)[OF that] by simp
    show ?case
    proof (cases "\<exists>r s'. y = Ret (r, s')")
      case False
      then show ?thesis by (auto split: outcome.split)
    next
      case True
      then obtain r s' where y: "y = Ret (r, s')" by blast
      note body = 1(2)[unfolded y]
      have "sound c s r s'"
      proof (cases c)
        case (P_elem i v)
        obtain q s1 where q: "run fp mem (P_value i v) s = Some (Ret (q, s1))" "run fp mem (P_elems i q) s1 = Some (Ret (r, s'))"
          using body P_elem by (auto simp: step_iffs)
        show ?thesis using IH[OF q(1)] IH[OF q(2)] P_elem by (auto simp: ready_def simp del: sound.simps(4) intro!: value_then_elems)
      next
        case (P_mvalue i v)
        obtain q s1 where q: "run fp mem (P_value i v) s = Some (Ret (q, s1))" "run fp mem (P_members i q) s1 = Some (Ret (r, s'))"
          using body P_mvalue by (auto simp: step_iffs)
        show ?thesis using IH[OF q(1)] IH[OF q(2)] P_mvalue by (auto simp: ready_def simp del: sound.simps(7) intro!: value_then_members)
      qed (use body IH sound_value sound_elems sound_members sound_member in \<open>auto simp: step_iffs simp del: sound.simps(2-)\<close>)
      then show ?thesis using y by simp
    qed
  qed
  then show "parse_run fp mem c s = Some (Ret (r, s')) \<Longrightarrow> sound c s r s'" by fastforce
qed

text \<open>The entry point: the root is allocated, filled in, and given back if anything fails.\<close>

definition fresh_value :: "json \<Rightarrow> nat \<Rightarrow> json \<Rightarrow> jtree \<Rightarrow> nat set \<Rightarrow> nat set \<Rightarrow> bool" where
  "fresh_value s a s' t N S \<longleftrightarrow> (\<exists>n. nodes s' a = Some n \<and> cj_next n = None \<and> cj_string n = None \<and> val_at (nodes s') (strs s') n t N S) \<and>
     a \<notin> N \<and> nodes s' |` (- insert a N) = nodes s \<and> strs s' |` (- S) = strs s \<and> a \<notin> dom (nodes s) \<and> N \<inter> dom (nodes s) = {} \<and> S \<inter> dom (strs s) = {}"

lemma restrict_kept: "(\<forall>a. a \<notin> X \<longrightarrow> h' a = h a) \<Longrightarrow> X \<inter> dom h = {} \<Longrightarrow> h' |` (- X) = h"
  by (rule ext) (auto simp: restrict_map_def disjoint_iff domIff)

lemma root_item:
  assumes "cJSON_New_Item s = Some (Ret (Some a, s1))" "mem_sane s"
  shows "nodes s1 = (nodes s)(a \<mapsto> zero_node)" "strs s1 = strs s" "a \<notin> dom (nodes s)" "mem_sane s1"
proof -
  have a: "mem_src s (malloc_hook s) (mem_cnt s) = Some a" "s1 = s\<lparr>mem_cnt := mem_cnt s + 1, nodes := (nodes s)(a \<mapsto> zero_node)\<rparr>"
    using assms(1) by (auto simp: cJSON_New_Item_def cJSON_malloc_def run_simps split: option.splits)
  show "nodes s1 = (nodes s)(a \<mapsto> zero_node)" "strs s1 = strs s" using a(2) by simp_all
  show "a \<notin> dom (nodes s)" using mem_saneD(1)[OF assms(2) _ a(1)] by simp
  show "mem_sane s1" using a by (intro mem_sane_later[OF assms(2)]) auto
qed

text \<open>The state in which \<open>parse_value\<close> has run on the root.\<close>

lemma root_value:
  assumes r: "cJSON_New_Item s = Some (Ret (Some a, s1))" "mem_sane s" and p: "parse_value fp mem (Some a) v (s1\<lparr>cj_ep := None\<rparr>) = Some (Ret (e, s2))"
  shows "(\<exists>N S. cJSON_Delete (Some a) s2 = Some (Ret ((), dropped s2 (insert a N) S)) \<and> nodes (dropped s2 (insert a N) S) = nodes s \<and> strs (dropped s2 (insert a N) S) = strs s \<and>
      (e \<noteq> None \<longrightarrow> (\<exists>t. fresh_value s a s2 t N S)))"
proof -
  let ?s1 = "s1\<lparr>cj_ep := None\<rparr>"
  note i = root_item[OF r]
  have sane: "mem_sane ?s1" by (rule mem_sane_later[OF i(4)]) auto
  have rd: "ready (Some a) ?s1 a zero_node" using sane i(1) zero_ready by (simp add: ready_def)
  have "value_post a zero_node ?s1 e s2"
  proof (cases v)
    case None
    then show ?thesis using p rd by (auto simp: parse_value_def ret_def ready_def domIff intro!: value_post_leaf[where n' = zero_node] ext_same)
  next
    case (Some w)
    then show ?thesis using run_sound[of fp mem "P_value (Some a) w" ?s1 e s2] p rd by (simp add: parse_value_def)
  qed
  then obtain n N S where n: "ext a ?s1 s2 N S" "nodes s2 a = Some n" "cj_next n = cj_next zero_node" "cj_string n = cj_string zero_node"
    "owns (nodes s2) (strs s2) n N S" "e \<noteq> None \<longrightarrow> (\<exists>t. val_at (nodes s2) (strs s2) n t N S)" unfolding value_post_def by (elim exE conjE) (rule that)
  note n = n(1,2) n(3,4)[unfolded zero_ready] n(5,6)
  note k = keptD[OF extD(1)[OF n(1)]]
  have N: "a \<notin> N" "N \<inter> dom (nodes s) = {}" "S \<inter> dom (strs s) = {}" using k(3,4) i(1,2) by auto
  have d: "cJSON_Delete (Some a) s2 = Some (Ret ((), dropped s2 (insert a N) S))" using delete_root[OF n(2,3,5) N(1)] n(4) by simp
  have h: "nodes s2 |` (- insert a N) = nodes s" using k(1) i(1,3) N(2) by (intro restrict_kept) auto
  have st: "strs s2 |` (- S) = strs s" using k(2) i(2) N(3) by (intro restrict_kept) auto
  have "e \<noteq> None \<longrightarrow> (\<exists>t. fresh_value s a s2 t N S)" using n h st i(3) N by (auto simp: fresh_value_def)
  then show ?thesis using d h st by (intro exI[of _ N] exI[of _ S]) (simp add: dropped_views)
qed

lemma ends_value: "ends (parse_value fp mem i v)"
  unfolding parse_value_def using run_comes_back[of fp mem] by (auto simp: ends_def ret_def comes_back_def split: option.split)

text \<open>\<open>returns Q m s\<close>: the call comes back, and if it does so normally the result and the state have the property.\<close>

definition returns :: "('a \<Rightarrow> 's \<Rightarrow> bool) \<Rightarrow> ('s, 'a) act \<Rightarrow> 's \<Rightarrow> bool" where
  "returns Q m s \<longleftrightarrow> m s \<noteq> None \<and> (\<forall>x s'. m s = Some (Ret (x, s')) \<longrightarrow> Q x s')"

lemma returns_bnd: "returns (\<lambda>x s'. returns Q (f x) s') m s \<Longrightarrow> returns Q (bnd m f) s"
  by (auto simp: returns_def bnd_def split: outcome.splits option.splits)

lemma returns_ends: "ends m \<Longrightarrow> (\<And>x s'. m s = Some (Ret (x, s')) \<Longrightarrow> Q x s') \<Longrightarrow> returns Q m s"
  by (simp add: returns_def ends_def)

lemma returns_ret: "returns Q (ret x) s \<longleftrightarrow> Q x s"
  by (simp add: returns_def ret_def)

lemma returns_Ret: "m s = Some (Ret (x, s')) \<Longrightarrow> Q x s' \<Longrightarrow> returns Q m s"
  by (simp add: returns_def)

text \<open>What the caller gets: nothing changed, or a new tree that shares nothing with the rest of the heap.\<close>

definition parsed :: "json \<Rightarrow> ptr \<Rightarrow> json \<Rightarrow> bool" where
  "parsed s c s' \<longleftrightarrow> (case c of None \<Rightarrow> nodes s' = nodes s \<and> strs s' = strs s | Some a \<Rightarrow> \<exists>t N S. fresh_value s a s' t N S)"

lemma parse_end_returns:
  assumes r: "cJSON_New_Item s = Some (Ret (Some a, s1))" "mem_sane s" and p: "parse_value fp mem (Some a) v (s1\<lparr>cj_ep := None\<rparr>) = Some (Ret (e, s2))"
  shows "returns (\<lambda>(c, e) s'. parsed s c s') (parse_end mem re rnt (Some a) e) s2"
proof -
  obtain N S where N: "cJSON_Delete (Some a) s2 = Some (Ret ((), dropped s2 (insert a N) S))" "nodes (dropped s2 (insert a N) S) = nodes s"
    "strs (dropped s2 (insert a N) S) = strs s" "e \<noteq> None \<longrightarrow> (\<exists>t. fresh_value s a s2 t N S)"
    using root_value[OF assms] by (elim exE conjE) (rule that)
  have del: "returns (\<lambda>(c, e) s'. parsed s c s') (bnd (cJSON_Delete (Some a)) (\<lambda>_. ret (None, None))) s2"
    "returns (\<lambda>(c, e) s'. parsed s c s') (bnd (cJSON_Delete (Some a)) (\<lambda>_. bnd (modify (\<lambda>s. s\<lparr>cj_ep := e1\<rparr>)) (\<lambda>_. ret (None, None)))) s2" for e1
    using N(1-3) by (simp_all add: returns_def bnd_def modify_def ret_def parsed_def)
  show ?thesis
  proof (cases e)
    case None
    then show ?thesis using del(1) by (simp add: parse_end_def)
  next
    case e: (Some w)
    have fv: "parsed s (Some a) s2" using N(4) e by (auto simp: parsed_def)
    have last: "returns (\<lambda>(c, e) s'. parsed s c s') (if junk then bnd (cJSON_Delete (Some a)) (\<lambda>_. bnd (modify (\<lambda>s. s\<lparr>cj_ep := e\<rparr>)) (\<lambda>_. ret (None, None)))
       else ret (Some a, if re then e else None)) s2" for junk e
      using fv del(2) by (cases junk) (simp_all add: returns_ret)
    have e2: "ends (if rnt then skip_ptr mem (Some w) else ret (Some w))" "ends (if rnt then bnd (lift_out (rd mem (the x))) (\<lambda>ch. ret (ch \<noteq> NUL)) else ret False)" for x
      by (intro ends_intros)+
    have "returns (\<lambda>(c, e) s'. parsed s c s') (bnd (if rnt then skip_ptr mem (Some w) else ret (Some w)) (\<lambda>e. bnd (if rnt then bnd (lift_out (rd mem (the e))) (\<lambda>ch. ret (ch \<noteq> NUL)) else ret False) (\<lambda>junk.
       if junk then bnd (cJSON_Delete (Some a)) (\<lambda>_. bnd (modify (\<lambda>s. s\<lparr>cj_ep := e\<rparr>)) (\<lambda>_. ret (None, None))) else ret (Some a, if re then e else None)))) s2"
    proof (rule returns_bnd, rule returns_ends[OF e2(1)], rule returns_bnd, rule returns_ends[OF e2(2)])
      fix e1 s3 junk s4 assume 3: "(if rnt then skip_ptr mem (Some w) else ret (Some w)) s2 = Some (Ret (e1, s3))"
        "(if rnt then bnd (lift_out (rd mem (the e1))) (\<lambda>ch. ret (ch \<noteq> NUL)) else ret False) s3 = Some (Ret (junk, s4))"
      then have "s4 = s2" by (auto simp: step_iffs skip_ptr_Ret_iff split: if_splits)
      then show "returns (\<lambda>(c, e) s'. parsed s c s') (if junk then bnd (cJSON_Delete (Some a)) (\<lambda>_. bnd (modify (\<lambda>s. s\<lparr>cj_ep := e1\<rparr>)) (\<lambda>_. ret (None, None)))
         else ret (Some a, if re then e1 else None)) s4" using last by simp
    qed
    then show ?thesis by (simp add: parse_end_def e)
  qed
qed

lemma parse_opts_returns:
  assumes "mem_sane s"
  shows "returns (\<lambda>(c, e) s'. parsed s c s') (cJSON_ParseWithOpts fp mem value re rnt) s"
  unfolding cJSON_ParseWithOpts_def
proof (rule returns_bnd, rule returns_ends[OF ends_more(5)])
  fix c s1 assume c: "cJSON_New_Item s = Some (Ret (c, s1))"
  let ?s1 = "s1\<lparr>cj_ep := None\<rparr>"
  have "returns (\<lambda>(c, e) s'. parsed s c s') (if c = None then ret (None, None) else
     bnd (skip_ptr mem value) (\<lambda>v. bnd (parse_value fp mem c v) (parse_end mem re rnt c))) ?s1"
  proof (cases c)
    case None
    then have "nodes s1 = nodes s \<and> strs s1 = strs s" using c by (auto simp: cJSON_New_Item_def cJSON_malloc_def run_simps split: option.splits)
    then show ?thesis using None by (simp add: returns_ret parsed_def)
  next
    case (Some a)
    have "returns (\<lambda>(c, e) s'. parsed s c s') (bnd (skip_ptr mem value) (\<lambda>v. bnd (parse_value fp mem (Some a) v) (parse_end mem re rnt (Some a)))) ?s1"
    proof (rule returns_bnd, rule returns_ends[OF ends_scan(1)], rule returns_bnd, rule returns_ends[OF ends_value])
      fix v s2 e s3 assume "skip_ptr mem value ?s1 = Some (Ret (v, s2))" "parse_value fp mem (Some a) v s2 = Some (Ret (e, s3))"
      then show "returns (\<lambda>(c, e) s'. parsed s c s') (parse_end mem re rnt (Some a) e) s3"
        using parse_end_returns[OF c[unfolded Some] assms, of fp mem v e s3] by (simp add: skip_ptr_Ret_iff)
    qed
    then show ?thesis using Some by simp
  qed
  then show "returns (\<lambda>(c, e) s'. parsed s c s') (bnd (modify (\<lambda>s. s\<lparr>cj_ep := None\<rparr>)) (\<lambda>_. if c = None then ret (None, None) else
     bnd (skip_ptr mem value) (\<lambda>v. bnd (parse_value fp mem c v) (parse_end mem re rnt c)))) s1"
    by (simp add: returns_def modify_def bnd_def)
qed

end
