(* ===== verification/CJsonMem.thy ===== *)
theory CJsonMem
  imports CJsonSafe
begin

text \<open>
  The parser stays inside the text: on a text that ends with a NUL and whose escapes are complete, no call of the parser
  reads past the end, writes past a block it allocated or follows a dangling pointer.
\<close>

section \<open>Terminated texts\<close>

definition terminated :: "string \<Rightarrow> nat \<Rightarrow> bool" where
  "terminated mem p \<longleftrightarrow> NUL \<in> set (drop p mem)"

text \<open>Behind every backslash is a character, and behind every \<open>\u\<close> are four hexadecimal digits.\<close>

definition esc_at :: "string \<Rightarrow> nat \<Rightarrow> bool" where
  "esc_at mem i \<longleftrightarrow> i + 1 < length mem \<and> mem ! (i + 1) \<noteq> NUL \<and>
     (mem ! (i + 1) = CHR ''u'' \<longrightarrow> i + 5 < length mem \<and> list_all (\<lambda>j. hex_val (mem ! (i + j)) \<noteq> None) [2, 3, 4, 5])"

definition esc_ok :: "string \<Rightarrow> bool" where
  "esc_ok mem \<longleftrightarrow> list_all (\<lambda>i. mem ! i = BSLASH \<longrightarrow> esc_at mem i) [0..<length mem]"

lemma terminated_iff: "terminated mem p \<longleftrightarrow> (\<exists>e\<ge>p. e < length mem \<and> mem ! e = NUL)"
proof
  assume "terminated mem p"
  then obtain i where "i < length mem - p" "mem ! (p + i) = NUL" unfolding terminated_def in_set_conv_nth by auto
  then show "\<exists>e\<ge>p. e < length mem \<and> mem ! e = NUL" by (intro exI[of _ "p + i"]) auto
next
  assume "\<exists>e\<ge>p. e < length mem \<and> mem ! e = NUL"
  then obtain e where "p \<le> e" "e < length mem" "mem ! e = NUL" by blast
  then show "terminated mem p" unfolding terminated_def in_set_conv_nth by (intro exI[of _ "e - p"]) auto
qed

lemma terminated_in [simp]: "terminated mem p \<Longrightarrow> p < length mem"
  by (auto simp: terminated_iff)

lemma terminated_rd [simp]: "terminated mem p \<Longrightarrow> rd mem p = Ret (mem ! p)"
  by (simp add: rd_in)

lemma terminated_Suc: "terminated mem p \<Longrightarrow> mem ! p \<noteq> NUL \<Longrightarrow> terminated mem (Suc p)"
  unfolding terminated_iff by (metis Suc_leI le_neq_implies_less)

lemma terminated_add: "terminated mem p \<Longrightarrow> (\<And>i. i < n \<Longrightarrow> mem ! (p + i) \<noteq> NUL) \<Longrightarrow> terminated mem (p + n)"
  by (induction n) (auto intro: terminated_Suc)

lemma skip_ok: "terminated mem p \<Longrightarrow> \<exists>q. skip mem p = Ret q \<and> terminated mem q"
proof (induction mem p rule: skip.induct)
  case (1 mem p)
  show ?case
  proof (cases "mem ! p \<noteq> NUL \<and> code (mem ! p) \<le> 32")
    case True
    then show ?thesis using 1(1)[of "mem ! p"] terminated_Suc[OF 1(2)] 1(2) by (simp add: skip.simps[of mem p])
  qed (use 1(2) in \<open>auto simp: skip.simps[of mem p]\<close>)
qed

lemma digit_not_NUL: "isdigit c \<Longrightarrow> c \<noteq> NUL"
  by (auto simp: isdigit_def)

lemma digit_loop_ok: "terminated mem p \<Longrightarrow> \<exists>q r. digit_loop f mem p acc = Ret (q, r) \<and> terminated mem q"
proof (induction f mem p acc rule: digit_loop.induct)
  case (1 f mem p acc)
  show ?case
  proof (cases "isdigit (mem ! p)")
    case True
    then show ?thesis using 1(1)[of "mem ! p"] terminated_Suc[OF 1(2) digit_not_NUL] 1(2) by (simp add: digit_loop.simps[of f mem p])
  qed (use 1(2) in \<open>auto simp: digit_loop.simps[of f mem p]\<close>)
qed

lemma starts_with_ok: "terminated mem p \<Longrightarrow> NUL \<notin> set w \<Longrightarrow> \<exists>b. starts_with mem p w = Ret b \<and> (b \<longrightarrow> terminated mem (p + length w))"
proof (induction w arbitrary: p)
  case (Cons c w)
  show ?case
  proof (cases "mem ! p = c")
    case True
    then have "terminated mem (Suc p)" using Cons.prems by (intro terminated_Suc) auto
    then obtain b where "starts_with mem (Suc p) w = Ret b \<and> (b \<longrightarrow> terminated mem (Suc p + length w))" using Cons by fastforce
    then show ?thesis using Cons.prems True by simp
  qed (use Cons.prems in auto)
qed (auto intro: exI[of _ True])

text \<open>Numbers and strings.\<close>

definition okp :: "string \<Rightarrow> (nat \<times> 'a) outcome \<Rightarrow> bool" where
  "okp mem r \<longleftrightarrow> (\<exists>q x. r = Ret (q, x) \<and> terminated mem q)"

lemma okp_obnd: "okp mem r \<Longrightarrow> (\<And>q x. terminated mem q \<Longrightarrow> okp mem (f (q, x))) \<Longrightarrow> okp mem (obnd r f)"
  by (auto simp: okp_def)

lemma okp_Ret: "terminated mem q \<Longrightarrow> okp mem (Ret (q, x))"
  by (simp add: okp_def)

lemma okp_digits: "terminated mem p \<Longrightarrow> okp mem (digit_loop f mem p acc)"
  using digit_loop_ok by (auto simp: okp_def)

lemma okp_Suc: "terminated mem p \<Longrightarrow> mem ! p = c \<Longrightarrow> c \<noteq> NUL \<Longrightarrow> terminated mem (p + 1)"
  using terminated_Suc by simp

lemma scan_number_ok:
  assumes p: "terminated mem p"
  shows "okp mem (scan_number fp mem p)"
proof -
  have int: "okp mem (scan_int fp mem p)" if "terminated mem p" for p
  proof -
    have "terminated mem (if mem ! p = CHR ''0'' then p + 1 else p)" using that okp_Suc[OF that] by simp
    then show ?thesis using that by (auto simp: scan_int_def Let_def intro!: okp_digits okp_Ret)
  qed
  have frac: "okp mem (scan_frac fp mem p n)" if "terminated mem p" for p n
    using that okp_Suc[OF that] by (auto simp: scan_frac_def intro!: okp_digits okp_Ret)
  have exp: "okp mem (scan_exp mem p)" if "terminated mem p" for p
  proof (cases "mem ! p = CHR ''e'' \<or> mem ! p = CHR ''E''")
    case True
    then have s: "terminated mem (p + 1)" using okp_Suc[OF that] by auto
    then have "terminated mem (p + 2)" if "mem ! (p + 1) = CHR ''+'' \<or> mem ! (p + 1) = CHR ''-''" using that okp_Suc[OF s] by auto
    then show ?thesis using that True s by (auto simp: scan_exp_def intro!: okp_obnd okp_digits okp_Ret)
  qed (use that in \<open>auto simp: scan_exp_def intro: okp_Ret\<close>)
  have "terminated mem (if mem ! p = CHR ''-'' then p + 1 else p)" using p okp_Suc[OF p] by simp
  then show ?thesis using p int frac exp by (auto simp: scan_number_def intro!: okp_obnd okp_Ret)
qed

text \<open>The two loops over a string stay in step, and the second does not write more than the first counted.\<close>

lemma esc_okD: "esc_ok mem \<Longrightarrow> i < length mem \<Longrightarrow> mem ! i = BSLASH \<Longrightarrow> esc_at mem i"
  by (simp add: esc_ok_def list_all_iff)

lemma hex_not: "hex_val c \<noteq> None \<Longrightarrow> c \<noteq> NUL \<and> c \<noteq> QUOTE \<and> c \<noteq> BSLASH"
  by (auto simp: hex_val_def code_def split: if_splits)

lemma parse_hex4_ok: "p + 3 < length mem \<Longrightarrow> \<exists>h. parse_hex4 mem p = Ret h"
  unfolding parse_hex4_def by (simp add: eval_nat_numeral rd_in split: option.split)


lemma length_utf8: "length (utf8 uc) \<le> 4"
proof -
  have "length (utf8_put n m u) = n + 1" for n m u by (induction n arbitrary: u) simp_all
  then show ?thesis by (simp add: utf8_def)
qed

lemma scan_plain: "terminated mem p \<Longrightarrow> mem ! p \<noteq> QUOTE \<Longrightarrow> mem ! p \<noteq> NUL \<Longrightarrow> mem ! p \<noteq> BSLASH \<Longrightarrow> scan_len mem p len = scan_len mem (p + 1) (len + 1)"
  by (simp add: scan_len.simps[of mem p])

text \<open>A backslash, \<open>u\<close> and four digits count for five.\<close>

lemma scan_hex4:
  assumes "terminated mem i" "mem ! i = BSLASH" "mem ! (i + 1) = CHR ''u''" "esc_at mem i"
  shows "scan_len mem i len = scan_len mem (i + 6) (len + 5)" "terminated mem (i + 6)" "\<exists>h. parse_hex4 mem (i + 2) = Ret h"
proof -
  have h: "hex_val (mem ! (i + j)) \<noteq> None" if "j \<in> {2, 3, 4, 5}" for j using assms(3,4) that by (auto simp: esc_at_def)
  have nn: "mem ! (i + j) \<noteq> NUL" if j: "j < 6" for j
  proof -
    consider "j = 0" | "j = 1" | "j \<in> {2, 3, 4, 5}" using j by fastforce
    then show ?thesis
    proof cases
      case 3
      then show ?thesis using hex_not[OF h[OF 3]] by simp
    qed (use assms(2,3) in simp_all)
  qed
  have t: "terminated mem (i + k)" if "k \<le> 6" for k using that nn by (intro terminated_add[OF assms(1)]) simp
  then show "terminated mem (i + 6)" by simp
  have step: "scan_len mem (i + j) l = scan_len mem (i + j') l'" if "j \<in> {2, 3, 4, 5}" "j' = j + 1" "l' = l + 1" for j l j' l'
  proof -
    have "j \<le> 6" using that(1) by auto
    then show ?thesis using scan_plain[of mem "i + j" l] t[of j] hex_not[OF h[OF that(1)]] that(2,3) by simp
  qed
  have "scan_len mem i len = scan_len mem (i + 2) (len + 1)" using assms(1,2) by (simp add: scan_len.simps[of mem i])
  also have "\<dots> = scan_len mem (i + 3) (len + 2)" by (rule step) simp_all
  also have "\<dots> = scan_len mem (i + 4) (len + 3)" by (rule step) simp_all
  also have "\<dots> = scan_len mem (i + 5) (len + 4)" by (rule step) simp_all
  also have "\<dots> = scan_len mem (i + 6) (len + 5)" by (rule step) simp_all
  finally show "scan_len mem i len = scan_len mem (i + 6) (len + 5)" .
  show "\<exists>h. parse_hex4 mem (i + 2) = Ret h" using terminated_in[OF t[of 5]] by (intro parse_hex4_ok) simp
qed

definition esc_step :: "string \<Rightarrow> nat \<Rightarrow> string \<Rightarrow> nat \<Rightarrow> nat \<Rightarrow> bool" where
  "esc_step mem i out e k \<longleftrightarrow> unescape mem (i + 1) = Ret (out, e) \<and> terminated mem (e + 1) \<and> i < e \<and>
     (\<forall>len. scan_len mem i len = scan_len mem (e + 1) (len + k)) \<and> length out \<le> k"

lemma esc_stepI: "unescape mem (i + 1) = Ret (out, e) \<Longrightarrow> e + 1 = e' \<Longrightarrow> terminated mem e' \<Longrightarrow>
    (\<And>len. scan_len mem i len = scan_len mem e' (len + k)) \<Longrightarrow> i < e \<Longrightarrow> length out \<le> k \<Longrightarrow> esc_step mem i out e k"
  unfolding esc_step_def by auto

lemma unescape_u:
  assumes "rd mem p = Ret (CHR ''u'')" "parse_hex4 mem (p + 1) = Ret uc"
  shows "unescape mem p = (if (uc \<ge> 0xDC00 \<and> uc \<le> 0xDFFF) \<or> uc = 0 then Ret ([], p + 4)
       else if uc \<ge> 0xD800 \<and> uc \<le> 0xDBFF then
         obnd (rd mem (p + 5)) (\<lambda>c1. if c1 \<noteq> BSLASH then Ret ([], p + 4) else
         obnd (rd mem (p + 6)) (\<lambda>c2. if c2 \<noteq> CHR ''u'' then Ret ([], p + 4) else
         obnd (parse_hex4 mem (p + 7)) (\<lambda>uc2.
         if uc2 < 0xDC00 \<or> uc2 > 0xDFFF then Ret ([], p + 10)
         else Ret (utf8 (0x10000 + (push_bit 10 (uc AND 0x3FF) OR (uc2 AND 0x3FF))), p + 10))))
       else Ret (utf8 uc, p + 4))"
  unfolding unescape_def assms(1) obnd_simps using assms(2) by simp

lemma unescape_ok:
  assumes t: "terminated mem i" and bs: "mem ! i = BSLASH" and ok: "esc_ok mem"
  shows "\<exists>out e k. esc_step mem i out e k"
proof -
  have e: "esc_at mem i" using esc_okD[OF ok _ bs] t by simp
  have 1: "terminated mem (i + 1)" using terminated_Suc[OF t] bs by simp
  show ?thesis
  proof (cases "mem ! (i + 1) = CHR ''u''")
    case False
    have "terminated mem (i + 2)" using terminated_Suc[OF 1] e by (simp add: esc_at_def)
    moreover have "\<exists>c. unescape mem (i + 1) = Ret ([c], i + 1)" unfolding unescape_def terminated_rd[OF 1] obnd_simps using False by auto
    then obtain c where "unescape mem (i + 1) = Ret ([c], i + 1)" ..
    ultimately have "esc_step mem i [c] (i + 1) 1" using t bs by (simp add: esc_step_def scan_len.simps[of mem i])
    then show ?thesis by blast
  next
    case True
    note s = scan_hex4[OF t bs True e]
    obtain uc where uc: "parse_hex4 mem (i + 2) = Ret uc" using s(3) by blast
    have ar: "i + 1 + 1 = i + 2" "i + 1 + 4 = i + 5" "i + 1 + 5 = i + 6" "i + 1 + 6 = i + 7" "i + 1 + 7 = i + 8" "i + 1 + 10 = i + 11" by simp_all
    have u: "unescape mem (i + 1) = (if (uc \<ge> 0xDC00 \<and> uc \<le> 0xDFFF) \<or> uc = 0 then Ret ([], i + 5)
       else if uc \<ge> 0xD800 \<and> uc \<le> 0xDBFF then
         if mem ! (i + 6) \<noteq> BSLASH then Ret ([], i + 5) else
         obnd (rd mem (i + 7)) (\<lambda>c2. if c2 \<noteq> CHR ''u'' then Ret ([], i + 5) else
         obnd (parse_hex4 mem (i + 8)) (\<lambda>uc2.
         if uc2 < 0xDC00 \<or> uc2 > 0xDFFF then Ret ([], i + 11)
         else Ret (utf8 (0x10000 + (push_bit 10 (uc AND 0x3FF) OR (uc2 AND 0x3FF))), i + 11)))
       else Ret (utf8 uc, i + 5))"
      using unescape_u[of mem "i + 1" uc, unfolded ar terminated_rd[OF s(2)] obnd_simps, OF _ uc] terminated_rd[OF 1] True by simp
    have short: ?thesis if "unescape mem (i + 1) = Ret (out, i + 5)" "length out \<le> 4" for out
    proof -
      have "esc_step mem i out (i + 5) 5" by (rule esc_stepI[OF that(1) _ s(2,1)]) (use that(2) in simp_all)
      then show ?thesis by blast
    qed
    show ?thesis
    proof (cases "(uc \<ge> 0xDC00 \<and> uc \<le> 0xDFFF) \<or> uc = 0 \<or> \<not> (uc \<ge> 0xD800 \<and> uc \<le> 0xDBFF) \<or> mem ! (i + 6) \<noteq> BSLASH")
      case True
      have "unescape mem (i + 1) = Ret ([], i + 5) \<or> unescape mem (i + 1) = Ret (utf8 uc, i + 5)" using True unfolding u by auto
      then show ?thesis using short[of "[]"] short[of "utf8 uc"] length_utf8[of uc] by auto
    next
      case False
      then have u': "unescape mem (i + 1) = obnd (rd mem (i + 7)) (\<lambda>c2. if c2 \<noteq> CHR ''u'' then Ret ([], i + 5) else
         obnd (parse_hex4 mem (i + 8)) (\<lambda>uc2.
         if uc2 < 0xDC00 \<or> uc2 > 0xDFFF then Ret ([], i + 11)
         else Ret (utf8 (0x10000 + (push_bit 10 (uc AND 0x3FF) OR (uc2 AND 0x3FF))), i + 11)))" unfolding u by auto
      have b6: "mem ! (i + 6) = BSLASH" using False by simp
      have ar6: "i + 6 + 1 = i + 7" "i + 6 + 2 = i + 8" by simp_all
      have 7: "terminated mem (i + 7)" using okp_Suc[OF s(2) b6, unfolded ar6] by simp
      show ?thesis
      proof (cases "mem ! (i + 7) = CHR ''u''")
        case True
        then have "mem ! (i + 6 + 1) = CHR ''u''" unfolding ar6 .
        note s6 = scan_hex4[OF s(2) b6 this esc_okD[OF ok _ b6]]
        obtain uc2 where uc2: "parse_hex4 mem (i + 8) = Ret uc2" using s6(3)[unfolded ar6] s(2) by auto
        have "\<exists>out. unescape mem (i + 1) = Ret (out, i + 11) \<and> length out \<le> 4" unfolding u' using 7 True uc2 length_utf8 by simp
        then obtain out where out: "unescape mem (i + 1) = Ret (out, i + 11)" "length out \<le> 4" by blast
        have "esc_step mem i out (i + 11) 10"
        proof (rule esc_stepI[OF out(1)])
          show "terminated mem (i + 6 + 6)" using s6(2) s(2) by simp
          show "scan_len mem i len = scan_len mem (i + 6 + 6) (len + 10)" for len using s(1)[of len] s6(1)[of "len + 5"] s(2) by (simp add: add.commute)
        qed (use out(2) in simp_all)
        then show ?thesis by blast
      next
        case False
        then have "unescape mem (i + 1) = Ret ([], i + 5)" unfolding u' using 7 by simp
        then show ?thesis using short[of "[]"] by simp
      qed
    qed
  qed
qed

lemma string_loops:
  assumes ok: "esc_ok mem"
  shows "terminated mem p \<Longrightarrow> \<exists>k q bs. (\<forall>len. scan_len mem p len = Ret (len + k)) \<and> length bs \<le> k \<and> terminated mem q \<and> (mem ! q = QUOTE \<or> mem ! q = NUL) \<and>
    (\<forall>cap out. length out + k \<le> cap \<longrightarrow> copy_str mem cap p out = Ret (q, out @ bs))"
proof (induction "length mem - p" arbitrary: p rule: less_induct)
  case less
  note t = less(2)
  show ?case
  proof (cases "mem ! p = QUOTE \<or> mem ! p = NUL")
    case True
    then show ?thesis using t
      by (intro exI[of _ 0] exI[of _ p] exI[of _ "[]"]) (auto simp: scan_len.simps[of mem p] copy_str.simps[of mem _ p])
  next
    case ns: False
    obtain p' k0 b0 where p': "terminated mem p'" "p < p'" "\<And>len. scan_len mem p len = scan_len mem p' (len + k0)" "length b0 \<le> k0"
      "\<And>cap out. length out + k0 \<le> cap \<Longrightarrow> copy_str mem cap p out = copy_str mem cap p' (out @ b0)"
    proof (cases "mem ! p = BSLASH")
      case True
      obtain out e k where e: "esc_step mem p out e k" using unescape_ok[OF t True ok] by blast
      then show ?thesis using t True ns by (intro that[of "e + 1" k out]) (auto simp: esc_step_def copy_str.simps[of mem _ p])
    next
      case False
      then show ?thesis using t ns terminated_Suc[OF t] by (intro that[of "p + 1" 1 "[mem ! p]"]) (auto simp: scan_len.simps[of mem p] copy_str.simps[of mem _ p])
    qed
    have "length mem - p' < length mem - p" using p'(2) t by (simp add: diff_less_mono2)
    from less(1)[OF this p'(1)] obtain k q bs where ih: "\<forall>len. scan_len mem p' len = Ret (len + k)" "length bs \<le> k" "terminated mem q" "mem ! q = QUOTE \<or> mem ! q = NUL"
      "\<forall>cap out. length out + k \<le> cap \<longrightarrow> copy_str mem cap p' out = Ret (q, out @ bs)" by (elim exE conjE) (rule that)
    show ?thesis using p' ih by (intro exI[of _ "k0 + k"] exI[of _ q] exI[of _ "b0 @ bs"]) auto
  qed
qed

lemma parse_string_ok:
  assumes ok: "esc_ok mem" and t: "terminated mem p" and x: "nodes s x \<noteq> None"
  shows "\<exists>q s'. parse_string mem (Some x) p s = Some (Ret (q, s')) \<and> (\<forall>e. q = Some e \<longrightarrow> terminated mem e) \<and> dom (nodes s') = dom (nodes s)"
proof (cases "mem ! p = QUOTE")
  case False
  then show ?thesis using t by (auto simp: parse_string_def run_simps)
next
  case True
  obtain n where n: "nodes s x = Some n" using x by blast
  have "terminated mem (p + 1)" using okp_Suc[OF t True] by simp
  from string_loops[OF ok this] obtain k q bs where l: "\<forall>len. scan_len mem (p + 1) len = Ret (len + k)" "length bs \<le> k" "terminated mem q" "mem ! q = QUOTE \<or> mem ! q = NUL"
    "\<forall>cap out. length out + k \<le> cap \<longrightarrow> copy_str mem cap (p + 1) out = Ret (q, out @ bs)" by (elim exE conjE) (rule that)
  have c: "copy_str mem (k + 1) (p + 1) [] = Ret (q, bs)" "scan_len mem (p + 1) 0 = Ret k" using l(1,5) by auto
  have q: "terminated mem (if mem ! q = QUOTE then q + 1 else q)" using l(3) okp_Suc[OF l(3)] by simp
  show ?thesis
  proof (cases "mem_src s (malloc_hook s) (mem_cnt s)")
    case None
    then show ?thesis using t True c by (simp add: parse_string_def run_simps cJSON_malloc_def)
  next
    case (Some b)
    then show ?thesis using t True c l(2) n q by (simp add: parse_string_def run_simps cJSON_malloc_def insert_absorb domI)
  qed
qed


section \<open>Every call returns\<close>

text \<open>\<open>runs Q m s\<close>: the call returns normally, and the result and the state have the property.\<close>

definition runs :: "('a \<Rightarrow> 's \<Rightarrow> bool) \<Rightarrow> ('s, 'a) act \<Rightarrow> 's \<Rightarrow> bool" where
  "runs Q m s \<longleftrightarrow> (\<exists>x s'. m s = Some (Ret (x, s')) \<and> Q x s')"

lemma runs_bnd: "runs P m s \<Longrightarrow> (\<And>x s'. P x s' \<Longrightarrow> runs Q (f x) s') \<Longrightarrow> runs Q (bnd m f) s"
  by (auto simp: runs_def bnd_def)

lemma runs_ret: "runs Q (ret x) s \<longleftrightarrow> Q x s"
  by (simp add: runs_def ret_def)

lemma runs_lift: "r = Ret x \<Longrightarrow> Q x s \<Longrightarrow> runs Q (lift_out r) s"
  by (simp add: runs_def lift_out_def)

lemma runs_conseq: "runs P m s \<Longrightarrow> (\<And>x s'. P x s' \<Longrightarrow> Q x s') \<Longrightarrow> runs Q m s"
  by (auto simp: runs_def)

definition alive :: "json \<Rightarrow> ptr \<Rightarrow> bool" where
  "alive s i \<longleftrightarrow> (\<exists>x. i = Some x \<and> x \<in> dom (nodes s))"

definition ok_ptr :: "string \<Rightarrow> ptr \<Rightarrow> bool" where
  "ok_ptr mem q \<longleftrightarrow> (\<forall>e. q = Some e \<longrightarrow> terminated mem e)"

primrec call_ok :: "string \<Rightarrow> parse_call \<Rightarrow> json \<Rightarrow> bool" where
  "call_ok mem (P_done q) s \<longleftrightarrow> ok_ptr mem q"
| "call_ok mem (P_value i v) s \<longleftrightarrow> terminated mem v \<and> alive s i"
| "call_ok mem (P_elem i v) s \<longleftrightarrow> terminated mem v \<and> alive s i"
| "call_ok mem (P_elems i q) s \<longleftrightarrow> ok_ptr mem q \<and> alive s i"
| "call_ok mem (P_member i v) s \<longleftrightarrow> terminated mem v \<and> alive s i"
| "call_ok mem (P_mvalue i v) s \<longleftrightarrow> terminated mem v \<and> alive s i"
| "call_ok mem (P_members i q) s \<longleftrightarrow> ok_ptr mem q \<and> alive s i"

text \<open>No node goes away.\<close>

definition more_nodes :: "json \<Rightarrow> json \<Rightarrow> bool" where
  "more_nodes s s' \<longleftrightarrow> dom (nodes s) \<subseteq> dom (nodes s')"

lemma more_refl: "more_nodes s s"
  by (simp add: more_nodes_def)

lemma more_trans: "more_nodes s s1 \<Longrightarrow> more_nodes s1 s2 \<Longrightarrow> more_nodes s s2"
  by (auto simp: more_nodes_def)

lemma alive_more: "alive s i \<Longrightarrow> more_nodes s s' \<Longrightarrow> alive s' i"
  unfolding alive_def more_nodes_def by blast

lemma runs_set: "alive s i \<Longrightarrow> runs (\<lambda>_. more_nodes s) (set_node i f) s"
  by (auto simp: alive_def runs_def more_nodes_def run_simps)

lemma runs_new: "runs (\<lambda>c s'. more_nodes s s' \<and> (c = None \<or> alive s' c)) cJSON_New_Item s"
  by (cases "mem_src s (malloc_hook s) (mem_cnt s)") (auto simp: runs_def cJSON_New_Item_def cJSON_malloc_def run_simps more_nodes_def alive_def)

lemma runs_ep: "runs (\<lambda>_. more_nodes s) (set_ep v) s"
  by (simp add: runs_def modify_def more_nodes_def)

lemma runs_skip: "terminated mem p \<Longrightarrow> runs (\<lambda>q s'. s' = s \<and> terminated mem q) (lift_out (skip mem p)) s"
  using skip_ok[of mem p] by (auto simp: runs_def lift_out_def)

lemma runs_skip_ptr: "ok_ptr mem q \<Longrightarrow> runs (\<lambda>q s'. s' = s \<and> ok_ptr mem q) (skip_ptr mem q) s"
  using skip_ok[of mem "the q"] by (cases q) (auto simp: runs_def skip_ptr_Ret_iff ok_ptr_def)

lemma runs_string: "esc_ok mem \<Longrightarrow> terminated mem p \<Longrightarrow> alive s i \<Longrightarrow> runs (\<lambda>q s'. more_nodes s s' \<and> ok_ptr mem q) (parse_string mem i p) s"
  using parse_string_ok[of mem p s] by (fastforce simp: runs_def alive_def more_nodes_def ok_ptr_def)

lemma runs_number: "terminated mem p \<Longrightarrow> alive s i \<Longrightarrow> runs (\<lambda>q s'. more_nodes s s' \<and> ok_ptr mem q) (parse_number fp mem i p) s"
  using scan_number_ok[of mem p fp] by (auto simp: okp_def runs_def alive_def more_nodes_def ok_ptr_def parse_number_def run_simps)

text \<open>The same in front of a continuation.\<close>

lemma then_set: "alive s i \<Longrightarrow> (\<And>s'. more_nodes s s' \<Longrightarrow> runs Q (f ()) s') \<Longrightarrow> runs Q (bnd (set_node i g) f) s"
  by (rule runs_bnd[OF runs_set]) auto

lemma then_new: "(\<And>c s'. more_nodes s s' \<Longrightarrow> c = None \<or> alive s' c \<Longrightarrow> runs Q (f c) s') \<Longrightarrow> runs Q (bnd cJSON_New_Item f) s"
  by (rule runs_bnd[OF runs_new]) auto

lemma then_skip: "terminated mem p \<Longrightarrow> (\<And>q. terminated mem q \<Longrightarrow> runs Q (f q) s) \<Longrightarrow> runs Q (bnd (lift_out (skip mem p)) f) s"
  by (rule runs_bnd[OF runs_skip]) auto

lemma then_skip_ptr: "ok_ptr mem p \<Longrightarrow> (\<And>q. ok_ptr mem q \<Longrightarrow> runs Q (f q) s) \<Longrightarrow> runs Q (bnd (skip_ptr mem p) f) s"
  by (rule runs_bnd[OF runs_skip_ptr]) auto

lemma then_rd: "terminated mem p \<Longrightarrow> runs Q (f (mem ! p)) s \<Longrightarrow> runs Q (bnd (lift_out (rd mem p)) f) s"
  by (simp add: runs_def lift_out_def bnd_def)

lemma then_ep: "(\<And>s'. more_nodes s s' \<Longrightarrow> runs Q (f ()) s') \<Longrightarrow> runs Q (bnd (set_ep v) f) s"
  by (rule runs_bnd[OF runs_ep]) auto

lemma runs_if: "(c \<Longrightarrow> runs Q m s) \<Longrightarrow> (\<not> c \<Longrightarrow> runs Q n s) \<Longrightarrow> runs Q (if c then m else n) s"
  by simp

lemmas then_rules = then_set then_new then_skip then_skip_ptr then_rd then_ep runs_if

definition next_ok :: "string \<Rightarrow> json \<Rightarrow> parse_call \<Rightarrow> json \<Rightarrow> bool" where
  "next_ok mem s d s' \<longleftrightarrow> call_ok mem d s' \<and> more_nodes s s'"

lemma next_okI: "call_ok mem d s' \<Longrightarrow> more_nodes s s' \<Longrightarrow> runs (next_ok mem s) (ret d) s'"
  by (simp add: next_ok_def runs_ret)

lemma ok_ptr_simps [simp]: "ok_ptr mem None" "ok_ptr mem (Some e) \<longleftrightarrow> terminated mem e"
  by (simp_all add: ok_ptr_def)

lemma terminated_at: "terminated mem q \<Longrightarrow> mem ! q = c \<Longrightarrow> c \<noteq> NUL \<Longrightarrow> terminated mem (Suc q)"
  using terminated_Suc by blast

lemma runs_open:
  assumes t: "terminated mem v" "mem ! v \<noteq> NUL" and a: "alive s i"
  shows "runs (next_ok mem s) (parse_array_open mem i v) s" "runs (next_ok mem s) (parse_object_open mem i v) s"
proof -
  have t1: "terminated mem (v + 1)" using terminated_Suc[OF t] by simp
  show "runs (next_ok mem s) (parse_array_open mem i v) s" unfolding parse_array_open_def
    by (intro then_rules next_okI a t1) (auto intro: alive_more more_trans a terminated_at)
  show "runs (next_ok mem s) (parse_object_open mem i v) s" unfolding parse_object_open_def
    by (intro then_rules next_okI a t1) (auto intro: alive_more more_trans a terminated_at)
qed

lemma then_starts: "terminated mem p \<Longrightarrow> NUL \<notin> set w \<Longrightarrow> (\<And>b. (b \<Longrightarrow> terminated mem (p + length w)) \<Longrightarrow> runs Q (f b) s) \<Longrightarrow> runs Q (bnd (lift_out (starts_with mem p w)) f) s"
  using starts_with_ok[of mem p w] by (auto simp: runs_def lift_out_def bnd_def)

lemma runs_value_step:
  assumes ok: "esc_ok mem" and t: "terminated mem v" and a: "alive s i"
  shows "runs (next_ok mem s) (value_step fp mem i v) s"
proof -
  have str: "runs (next_ok mem s) (bnd (parse_string mem i v) (\<lambda>q. ret (P_done q))) s"
    by (rule runs_bnd[OF runs_string[OF ok t a]]) (auto simp: next_ok_def runs_ret)
  have num: "runs (next_ok mem s) (bnd (parse_number fp mem i v) (\<lambda>q. ret (P_done q))) s"
    by (rule runs_bnd[OF runs_number[OF t a]]) (auto simp: next_ok_def runs_ret)
  show ?thesis unfolding value_step_def
    by (intro then_starts[OF t] then_rules next_okI a t str num runs_open) (auto simp: eval_nat_numeral intro: more_refl)
qed

lemma runs_loop_step:
  assumes q: "ok_ptr mem q" and a: "alive s i" and c: "close \<noteq> NUL"
    and k: "\<And>y v s'. terminated mem v \<Longrightarrow> alive s' y \<Longrightarrow> more_nodes s s' \<Longrightarrow> runs (next_ok mem s) (cont y v) s'"
  shows "runs (next_ok mem s) (loop_step mem close cont i q) s"
  unfolding loop_step_def
  by (intro then_rules next_okI q k) (use q a c in \<open>auto intro: alive_more more_trans more_refl terminated_at\<close>)

lemma runs_list_steps:
  assumes q: "ok_ptr mem q" and a: "alive s i"
  shows "runs (next_ok mem s) (elems_step mem i q) s" "runs (next_ok mem s) (members_step mem i q) s"
  unfolding elems_step_def members_step_def
  by (intro runs_loop_step[OF q a] then_rules next_okI; simp)+

lemma runs_member_step:
  assumes ok: "esc_ok mem" and t: "terminated mem v" and a: "alive s i"
  shows "runs (next_ok mem s) (member_step mem i v) s"
  unfolding member_step_def
proof (rule then_skip[OF t], rule runs_bnd[OF runs_string[OF ok _ a]])
  fix q r s1 assume "more_nodes s s1 \<and> ok_ptr mem r"
  then show "runs (next_ok mem s) (bnd (skip_ptr mem r) (\<lambda>q. if q = None then ret (P_done None) else
     bnd (set_node i (\<lambda>n. n\<lparr>cj_string := valuestring n, valuestring := None\<rparr>)) (\<lambda>_.
     bnd (lift_out (rd mem (the q))) (\<lambda>c. if c \<noteq> CHR '':'' then bnd (set_ep (the q)) (\<lambda>_. ret (P_done None)) else
     bnd (lift_out (skip mem (the q + 1))) (\<lambda>v. ret (P_mvalue i v)))))) s1"
    by (intro then_rules next_okI) (use a in \<open>auto intro: alive_more more_trans terminated_at\<close>)
qed


theorem run_runs:
  assumes ok: "esc_ok mem"
  shows "call_ok mem c s \<Longrightarrow> runs (\<lambda>q s'. ok_ptr mem q \<and> more_nodes s s') (parse_run fp mem c) s"
proof (induction "call_rank mem c" arbitrary: c s rule: less_induct)
  case less
  have step: "runs (\<lambda>q s'. ok_ptr mem q \<and> more_nodes s s') (bnd st (parse_run fp mem)) s"
    if st: "runs (next_ok mem s) st s" and rk: "\<And>d s'. st s = Some (Ret (d, s')) \<Longrightarrow> call_rank mem d < call_rank mem c" for st
  proof -
    obtain d s1 where d: "st s = Some (Ret (d, s1))" "next_ok mem s d s1" using st by (auto simp: runs_def)
    have "runs (\<lambda>q s'. ok_ptr mem q \<and> more_nodes s1 s') (parse_run fp mem d) s1" using less(1) rk[OF d(1)] d(2) by (auto simp: next_ok_def)
    then show ?thesis using d by (auto simp: runs_def bnd_def next_ok_def intro: more_trans)
  qed
  have rank: "call_rank mem d < 2 * (length mem + 1 - v) + 1" if "moved mem v d" for v d using moved_rank[OF that] .
  have list_rank: "call_rank mem d < (case q of None \<Rightarrow> 1 | Some p \<Rightarrow> 2 * (length mem + 1 - p) + 1)"
    if "case q of None \<Rightarrow> d = P_done None | Some v \<Rightarrow> moved mem v d" for q d
    using that rank by (auto split: option.splits)
  have seq: "runs (\<lambda>q s'. ok_ptr mem q \<and> more_nodes s s') (bnd (bnd (parse_run fp mem (P_value i v)) (\<lambda>q. ret (k q))) (parse_run fp mem)) s"
    if "c = P_elem i v \<and> k = P_elems i \<or> c = P_mvalue i v \<and> k = P_members i" for i v k
  proof (rule step)
    have c: "call_ok mem (P_value i v) s" "alive s i" using that less(2) by auto
    have "runs (\<lambda>q s'. ok_ptr mem q \<and> more_nodes s s') (parse_run fp mem (P_value i v)) s" using c(1) that by (intro less(1)) auto
    then show "runs (next_ok mem s) (bnd (parse_run fp mem (P_value i v)) (\<lambda>q. ret (k q))) s"
      by (rule runs_bnd) (use that c(2) in \<open>auto simp: runs_ret next_ok_def intro: alive_more\<close>)
    fix d s' assume "bnd (parse_run fp mem (P_value i v)) (\<lambda>q. ret (k q)) s = Some (Ret (d, s'))"
    then obtain q where q: "d = k q" "parse_run fp mem (P_value i v) s = Some (Ret (q, s'))" by (auto simp: step_iffs)
    then have "moved mem v (P_done q)" using run_comes_back[of fp mem "P_value i v"] by (auto simp: comes_back_def ahead_def moved_def)
    then show "call_rank mem d < call_rank mem c" using that q(1) by (auto simp: moved_def split: option.splits)
  qed
  show ?case
  proof (cases c)
    case (P_done q)
    then show ?thesis using less(2) by (simp add: parse_run_calls runs_ret more_refl)
  next
    case (P_value i v)
    show ?thesis unfolding P_value parse_run_calls(2) using less(2) P_value
      by (intro step runs_value_step[OF ok]) (auto dest!: value_step_moves rank)
  next
    case (P_elems i q)
    show ?thesis unfolding P_elems parse_run_calls(4) using less(2) P_elems
      by (intro step runs_list_steps(1)) (auto dest!: list_step_moves(1) list_rank)
  next
    case (P_member i v)
    show ?thesis unfolding P_member parse_run_calls(5) using less(2) P_member
      by (intro step runs_member_step[OF ok]) (auto dest!: member_step_moves rank)
  next
    case (P_members i q)
    show ?thesis unfolding P_members parse_run_calls(7) using less(2) P_members
      by (intro step runs_list_steps(2)) (auto dest!: list_step_moves(2) list_rank)
  next
    case (P_elem i v)
    show ?thesis unfolding P_elem parse_run_calls(3) by (rule seq) (simp add: P_elem)
  next
    case (P_mvalue i v)
    show ?thesis unfolding P_mvalue parse_run_calls(6) by (rule seq) (simp add: P_mvalue)
  qed
qed

text \<open>The entry point.\<close>

lemma parse_end_runs:
  assumes r: "cJSON_New_Item s = Some (Ret (Some a, s1))" "mem_sane s" and p: "parse_value fp mem (Some a) v (s1\<lparr>cj_ep := None\<rparr>) = Some (Ret (e, s2))"
    and e: "ok_ptr mem e"
  shows "runs (\<lambda>_ _. True) (parse_end mem re rnt (Some a) e) s2"
proof -
  obtain s3 where del: "cJSON_Delete (Some a) s2 = Some (Ret ((), s3))" using root_value[OF r p] by blast
  have del: "runs (\<lambda>_ _. True) (bnd (cJSON_Delete (Some a)) (\<lambda>_. ret (None, None))) s2"
    "runs (\<lambda>_ _. True) (bnd (cJSON_Delete (Some a)) (\<lambda>_. bnd (modify (\<lambda>s. s\<lparr>cj_ep := e1\<rparr>)) (\<lambda>_. ret (None, None)))) s2" for e1
    using del by (simp_all add: runs_def bnd_def modify_def ret_def)
  show ?thesis
  proof (cases e)
    case None
    then show ?thesis using del(1) by (simp add: parse_end_def)
  next
    case (Some w)
    have t: "terminated mem w" using e Some by simp
    obtain w' where w': "skip mem w = Ret w'" "terminated mem w'" using skip_ok[OF t] by blast
    have "(if rnt then skip_ptr mem (Some w) else ret (Some w)) s2 = Some (Ret (Some (if rnt then w' else w), s2))"
      using w'(1) by (simp add: skip_ptr_def run_simps)
    moreover have "(if rnt then bnd (lift_out (rd mem w')) (\<lambda>ch. ret (ch \<noteq> NUL)) else ret False) s2 = Some (Ret (rnt \<and> mem ! w' \<noteq> NUL, s2))"
      using w'(2) by (simp add: run_simps)
    ultimately have "parse_end mem re rnt (Some a) e s2 = (if rnt \<and> mem ! w' \<noteq> NUL then
        bnd (cJSON_Delete (Some a)) (\<lambda>_. bnd (modify (\<lambda>s. s\<lparr>cj_ep := Some (if rnt then w' else w)\<rparr>)) (\<lambda>_. ret (None, None)))
        else ret (Some a, if re then Some (if rnt then w' else w) else None)) s2"
      unfolding parse_end_def Some by (cases rnt) (simp_all add: bnd_def)
    then show ?thesis using del(2)[of "Some w'"] by (cases "rnt \<and> mem ! w' \<noteq> NUL") (auto simp: runs_def ret_def)
  qed
qed

lemma parse_opts_runs:
  assumes s: "mem_sane s" and ok: "esc_ok mem" and v: "ok_ptr mem v0"
  shows "runs (\<lambda>(c, e) s'. parsed s c s') (cJSON_ParseWithOpts fp mem v0 re rnt) s"
proof -
  obtain c s1 where c: "cJSON_New_Item s = Some (Ret (c, s1))" "c = None \<or> alive s1 c" using runs_new[of s] by (auto simp: runs_def)
  let ?s1 = "s1\<lparr>cj_ep := None\<rparr>"
  obtain v' where v': "skip_ptr mem v0 ?s1 = Some (Ret (v', ?s1))" "ok_ptr mem v'" using runs_skip_ptr[OF v, of ?s1] by (auto simp: runs_def)
  have "runs (\<lambda>_ _. True) (cJSON_ParseWithOpts fp mem v0 re rnt) s"
  proof (cases c)
    case None
    then show ?thesis using c(1) by (simp add: cJSON_ParseWithOpts_def runs_def bnd_def modify_def ret_def)
  next
    case (Some a)
    have "runs (\<lambda>e _. ok_ptr mem e) (parse_value fp mem c v') ?s1"
    proof (cases v')
      case (Some w)
      have "call_ok mem (P_value c w) ?s1" using v'(2) c(2) Some \<open>c = Some a\<close> by (auto simp: alive_def)
      with run_runs[OF ok, of "P_value c w" ?s1 fp] show ?thesis using Some by (auto simp: parse_value_def runs_def)
    qed (simp add: parse_value_def runs_ret)
    then obtain e s2 where e: "parse_value fp mem (Some a) v' ?s1 = Some (Ret (e, s2))" "ok_ptr mem e" using Some by (auto simp: runs_def)
    have "cJSON_ParseWithOpts fp mem v0 re rnt s = parse_end mem re rnt (Some a) e s2"
      using c(1) v'(1) e(1) Some by (simp add: cJSON_ParseWithOpts_def bnd_def modify_def)
    then show ?thesis using parse_end_runs[OF c(1)[unfolded Some] s e, of re rnt] by (simp add: runs_def)
  qed
  then show ?thesis using parse_opts_returns[OF s, of fp mem v0 re rnt] by (auto simp: runs_def returns_def)
qed

end
