(* ===== verification/CJsonProps.thy ===== *)
theory CJsonProps
  imports CJsonMem
begin

text \<open>
  The properties of the JSON library: printing and parsing are inverse, the parser always returns, what it
  returns is a tree, a failed parse and a deleted tree leave nothing behind, and one malformed escape reads outside of its text.
\<close>

section \<open>Printing, then parsing\<close>

lemma mem_fresh_ok: "mem_fresh s \<Longrightarrow> mem_ok s"
  by (auto simp: mem_fresh_def mem_ok_def)

lemma mem_fresh_later: "mem_fresh s \<Longrightarrow> mem_cnt s \<le> k \<Longrightarrow> mem_fresh (s\<lparr>mem_cnt := k\<rparr>)"
  unfolding mem_fresh_def by (auto intro: inj_on_subset)

lemma holds_whole: "holds (txt @ [c]) 0 (txt @ [c])"
  using holds_text[of "[]" "txt @ [c]" "[]"] by simp

lemma parse_text:
  assumes ex: "int_exact fp" and t: "plain_tree fp t" and fr: "mem_fresh s"
  shows "\<exists>r s' n N S. cJSON_Parse fp (render fp fmt depth t @ [NUL]) (Some 0) s = Some (Ret (Some r, s')) \<and> nodes s' r = Some n \<and>
    val_at (nodes s') (strs s') n t N S \<and> cj_next n = None \<and> cj_string n = None \<and> r \<notin> N \<and> insert r N \<inter> dom (nodes s) = {} \<and> S \<inter> dom (strs s) = {} \<and>
    (\<forall>a\<in>dom (nodes s). nodes s' a = nodes s a) \<and> (\<forall>b\<in>dom (strs s). strs s' b = strs s b) \<and> mem_fresh s'"
proof -
  let ?mem = "render fp fmt depth t @ [NUL]"
  obtain r where r: "mem_src s (malloc_hook s) (mem_cnt s) = Some r" "r \<notin> dom (nodes s)"
    "mem_fresh (s\<lparr>mem_cnt := mem_cnt s + 1, nodes := (nodes s)(r \<mapsto> zero_node)\<rparr>)" using mem_fresh_next[OF fr] by metis
  let ?s1 = "s\<lparr>mem_cnt := mem_cnt s + 1, nodes := (nodes s)(r \<mapsto> zero_node), cj_ep := None\<rparr>"
  have fr1: "mem_fresh ?s1" using r(3) by (simp add: mem_fresh_def)
  have "nodes ?s1 r = Some zero_node" "blank_item zero_node" by (simp_all add: blank_item_def zero_node_def)
  from elem_first[where fmt = fmt and d = depth and c = NUL and v = 0, OF parses_plain[OF ex t] holds_whole _ this fr1]
  obtain s' n N S where s': "grown r ?s1 s' N S" "nodes s' r = Some n" "val_at (nodes s') (strs s') n t N S" "cj_next n = None" "cj_string n = None"
    "parse_run fp ?mem (P_value (Some r) 0) ?s1 = Some (Ret (Some (length (render fp fmt depth t)), s'))"
    by auto (simp add: zero_node_def)
  obtain d ds where d: "render fp fmt depth t = d # ds" "\<not> blank d" using render_head[OF ex t] by blast
  have "skip ?mem 0 = Ret 0" using d by (intro skip_none) simp_all
  then have "cJSON_Parse fp ?mem (Some 0) s = Some (Ret (Some r, s'))"
    using r(1) s'(6) by (simp add: cJSON_Parse_def cJSON_ParseWithOpts_def parse_end_def cJSON_New_Item_def cJSON_malloc_def run_simps skip_ptr_def parse_value_def)
  moreover have "r \<notin> N" using grownD(3,5)[OF s'(1)] by blast
  moreover have "insert r N \<inter> dom (nodes s) = {}" using r(2) grownD(3)[OF s'(1)] by auto
  moreover have "S \<inter> dom (strs s) = {}" using grownD(4)[OF s'(1)] by simp
  moreover have "\<forall>a\<in>dom (nodes s). nodes s' a = nodes s a"
  proof
    fix a assume a: "a \<in> dom (nodes s)"
    then have "a \<noteq> r" "a \<notin> N" using r(2) grownD(3)[OF s'(1)] by auto
    then show "nodes s' a = nodes s a" using grownD(1)[OF s'(1), of a] by auto
  qed
  moreover have "\<forall>b\<in>dom (strs s). strs s' b = strs s b" using grownD(2,4)[OF s'(1)] by auto
  ultimately show ?thesis using s' grownD(8)[OF s'(1)] by blast
qed

lemma print_text:
  assumes "int_exact fp" "plain_tree fp t" "nodes s a = Some n" "val_at (nodes s) (strs s) n t N S" "mem_fresh s"
  shows "\<exists>k\<ge>mem_cnt s. print_value fp (Some a) 0 fmt s = Some (Ret (Some (render fp fmt 0 t), s\<lparr>mem_cnt := k\<rparr>))"
  using print_at(1)[OF assms(1,4,2) refl refl assms(3) mem_fresh_ok[OF assms(5)], of 0 fmt]
  by (auto simp: printed_as_def print_value_def run_simps)

section \<open>A concrete arithmetic and a concrete tree\<close>

text \<open>Integers as their own bit pattern.\<close>

definition demo_fp :: fp where
  "demo_fp = \<lparr>fp_of_int = word_of_int, fp_to_int = sint, fp_of_float = ucast, fp_add = (+), fp_sub = (-), fp_mul = (*),
     fp_pow = (\<lambda>_ _. 1), fp_abs = (\<lambda>x. x), fp_floor = (\<lambda>x. x), fp_eq = (=), fp_le = (\<lambda>a b. sint a \<le> sint b), fp_lt = (\<lambda>a b. sint a < sint b),
     fp_const = (\<lambda>_. 0), fp_fmt = (\<lambda>_ _. ''0'')\<rparr>"

lemma sint_small: "\<bar>i\<bar> \<le> 2 ^ 53 \<Longrightarrow> sint (word_of_int i :: u64) = i"
  by (auto simp: signed_of_int abs_le_iff intro!: signed_take_bit_int_eq_self)

lemma demo_fp_exact: "int_exact demo_fp"
proof -
  have "(word_of_int i :: u64) = word_of_int j \<longleftrightarrow> i = j" if "\<bar>i\<bar> \<le> 2 ^ 53" "\<bar>j\<bar> \<le> 2 ^ 53" for i j
    using sint_small that by metis
  moreover have "- (2 ^ 31) \<le> i \<and> i < 2 ^ 31 \<Longrightarrow> sint (word_of_int i :: u64) = i" for i by (intro sint_small) (auto simp: abs_le_iff)
  ultimately show ?thesis unfolding int_exact_def by (auto simp: demo_fp_def sint_small)
qed

definition demo_node :: "u32 \<Rightarrow> cJSON" where
  "demo_node ty = zero_node\<lparr>cj_type := ty\<rparr>"

text \<open>The object with the member \<open>ip\<close>, the array of -7 and true.\<close>

definition demo_json :: json where
  "demo_json = \<lparr>nodes = [1 \<mapsto> (demo_node cJSON_Object)\<lparr>cj_child := Some 2\<rparr>, 2 \<mapsto> (demo_node cJSON_Array)\<lparr>cj_child := Some 3, cj_string := Some 10\<rparr>,
       3 \<mapsto> (demo_node cJSON_Number)\<lparr>cj_next := Some 4, valueint := - 7, valuedouble := word_of_int (- 7)\<rparr>,
       4 \<mapsto> (demo_node cJSON_True)\<lparr>cj_prev := Some 3\<rparr>],
     strs = [10 \<mapsto> ''ip''], mem_src = (\<lambda>f k. Some (100 + k)), mem_cnt = 0, malloc_hook = 0, free_hook = 0, cj_ep = None\<rparr>"

definition demo_tree :: jtree where
  "demo_tree = JObj [(''ip'', JArr [JNum (- 7) (word_of_int (- 7)), JTrue])]"

lemma demo_json_at: "val_at (nodes demo_json) (strs demo_json) ((demo_node cJSON_Object)\<lparr>cj_child := Some 2\<rparr>) demo_tree {2, 3, 4} {10}"
proof -
  let ?h = "nodes demo_json" and ?st = "strs demo_json"
  have a: "val_at ?h ?st ((demo_node cJSON_True)\<lparr>cj_prev := Some 3\<rparr>) JTrue {} {}" by (intro v_true) (simp_all add: demo_node_def zero_node_def)
  have n: "val_at ?h ?st ((demo_node cJSON_Number)\<lparr>cj_next := Some 4, valueint := - 7, valuedouble := word_of_int (- 7)\<rparr>) (JNum (- 7) (word_of_int (- 7))) {} {}"
    by (intro val_at_num) (simp_all add: demo_node_def zero_node_def)
  have "elems_at ?h ?st (Some 4) [JTrue] (insert 4 ({} \<union> {})) ({} \<union> {})"
    by (rule e_cons[OF _ _ a]) (simp_all add: demo_json_def demo_node_def zero_node_def e_nil)
  then have "elems_at ?h ?st (Some 3) [JNum (- 7) (word_of_int (- 7)), JTrue] (insert 3 ({} \<union> {4})) ({} \<union> {})"
    by (intro e_cons[OF _ _ n]) (simp_all add: demo_json_def demo_node_def zero_node_def)
  then have "val_at ?h ?st ((demo_node cJSON_Array)\<lparr>cj_child := Some 3, cj_string := Some 10\<rparr>) (JArr [JNum (- 7) (word_of_int (- 7)), JTrue]) {3, 4} {}"
    by (intro v_arr) (simp_all add: demo_node_def zero_node_def)
  then have "members_at ?h ?st (Some 2) [(''ip'', JArr [JNum (- 7) (word_of_int (- 7)), JTrue])] (insert 2 ({3, 4} \<union> {})) (insert 10 ({} \<union> {}))"
    by (intro m_cons[where n = "(demo_node cJSON_Array)\<lparr>cj_child := Some 3, cj_string := Some 10\<rparr>"]) (simp_all add: demo_json_def demo_node_def zero_node_def m_nil)
  then show ?thesis unfolding demo_tree_def by (intro v_obj) (simp_all add: demo_node_def zero_node_def insert_commute)
qed

lemma demo_json_facts: "mem_fresh demo_json" "plain_tree demo_fp demo_tree" "nodes demo_json 1 = Some ((demo_node cJSON_Object)\<lparr>cj_child := Some 2\<rparr>)"
  by (auto simp: mem_fresh_def demo_json_def inj_on_def demo_tree_def demo_fp_def)

section \<open>Properties\<close>



lemma mem_fresh_sane: "mem_fresh s \<Longrightarrow> mem_sane s"
  unfolding mem_fresh_def mem_sane_def by (metis atLeast_iff inj_onD option.inject)

lemma parse_opts: "cJSON_Parse fp mem v s = Some (Ret (c, s')) \<longleftrightarrow> (\<exists>e. cJSON_ParseWithOpts fp mem v False False s = Some (Ret ((c, e), s')))"
  by (auto simp: cJSON_Parse_def step_iffs split: prod.splits)

text \<open>The text of the concrete tree is parsed.\<close>

lemma demo_parse: "\<exists>r e s'. cJSON_ParseWithOpts demo_fp (render demo_fp False 0 demo_tree @ [NUL]) (Some 0) False False demo_json = Some (Ret ((Some r, e), s'))"
  using parse_text[OF demo_fp_exact demo_json_facts(2,1), of False 0] unfolding parse_opts by blast

lemma demo_sane: "mem_sane demo_json"
  using mem_fresh_sane demo_json_facts(1) .







text \<open>
  C7. Deleting what the parser returned gives every block back: the heaps are as they were before the text was parsed.
\<close>

theorem json_delete_frees:
  assumes "mem_sane s" "cJSON_ParseWithOpts fp mem v rpe rnt s = Some (Ret ((Some a, e), s1))"
  shows "\<exists>s2. cJSON_Delete (Some a) s1 = Some (Ret ((), s2)) \<and> nodes s2 = nodes s \<and> strs s2 = strs s"
proof -
  obtain t N S where f: "fresh_value s a s1 t N S" using parse_opts_returns[OF assms(1), of fp mem v rpe rnt] assms(2) by (auto simp: returns_def parsed_def)
  then obtain n where n: "nodes s1 a = Some n" "cj_next n = None" "cj_string n = None" "val_at (nodes s1) (strs s1) n t N S" "a \<notin> N"
    "nodes s1 |` (- insert a N) = nodes s" "strs s1 |` (- S) = strs s" unfolding fresh_value_def by blast
  show ?thesis using delete_root[OF n(1,2) tree_forest(1)[OF n(4)] n(5)] n(3,6,7) by (simp add: dropped_views)
qed

theorem json_delete_frees_witness:
  "\<exists>r e s1 s2. cJSON_ParseWithOpts demo_fp (render demo_fp False 0 demo_tree @ [NUL]) (Some 0) False False demo_json = Some (Ret ((Some r, e), s1)) \<and>
    cJSON_Delete (Some r) s1 = Some (Ret ((), s2)) \<and> nodes s2 = nodes demo_json \<and> strs s2 = strs demo_json"
proof -
  obtain r e s1 where r: "cJSON_ParseWithOpts demo_fp (render demo_fp False 0 demo_tree @ [NUL]) (Some 0) False False demo_json = Some (Ret ((Some r, e), s1))"
    using demo_parse by blast
  then show ?thesis using json_delete_frees[OF demo_sane r] by blast
qed

text \<open>
  C40. The escape of a code point is not checked for its length: at the end of a text, a string whose \<open>\u\<close> is followed by the closing quote makes
  the parser step over the quote and the terminator and read past the end.
\<close>

theorem json_short_escape_overflow:
  assumes "mem_src s (malloc_hook s) (mem_cnt s) \<noteq> None"
  shows "parse_string (pre @ [QUOTE, BSLASH, CHR ''u'', QUOTE, NUL]) item (length pre) s = Some (Fault OutOfBounds)"
proof -
  let ?mem = "pre @ [QUOTE, BSLASH, CHR ''u'', QUOTE, NUL]" and ?p = "length pre"
  have m: "rd ?mem ?p = Ret QUOTE" "rd ?mem (?p + 1) = Ret BSLASH" "rd ?mem (?p + 2) = Ret (CHR ''u'')" "rd ?mem (?p + 3) = Ret QUOTE" "rd ?mem (?p + 7) = Fault OutOfBounds"
    by (simp_all add: rd_def nth_append)
  have ar: "?p + 1 + 1 = ?p + 2" "?p + 1 + 2 = ?p + 3" "?p + 2 + 1 = ?p + 3" "?p + 2 + 4 + 1 = ?p + 7" by simp_all
  have sl: "scan_len ?mem (?p + 1) 0 = Ret 1"
    unfolding scan_len.simps[of ?mem "?p + 1"] scan_len.simps[of ?mem "?p + 3"] m ar obnd_simps by simp
  have four: "(4 :: nat) = Suc 3" by simp
  have "parse_hex4 ?mem (?p + 3) = Ret 0" unfolding parse_hex4_def four hex_steps.simps m obnd_simps by (simp add: hex_val_def code_def)
  then have u: "unescape ?mem (?p + 2) = Ret ([], ?p + 2 + 4)" using unescape_u[OF m(3), unfolded ar] by simp
  have c7: "copy_str ?mem 2 (?p + 7) [] = Fault OutOfBounds" unfolding copy_str.simps[of ?mem 2 "?p + 7"] m obnd_simps ..
  have c: "copy_str ?mem 2 (?p + 1) [] = Fault OutOfBounds"
    unfolding copy_str.simps[of ?mem 2 "?p + 1"] m ar obnd_simps u prod.case append_Nil c7 by simp
  obtain b where b: "mem_src s (malloc_hook s) (mem_cnt s) = Some b" using assms by blast
  show ?thesis using b unfolding parse_string_def bnd_def lift_out_def m(1) cJSON_malloc_def by (simp add: sl[simplified] c[simplified] numeral_2_eq_2[symmetric])
qed

theorem json_short_escape_overflow_witness:
  "parse_string [QUOTE, BSLASH, CHR ''u'', QUOTE, NUL] (Some 1) 0 demo_json = Some (Fault OutOfBounds)"
  using json_short_escape_overflow[of demo_json "[]" "Some 1"] by (simp add: demo_json_def)

end
