(* ===== verification/JsonConf.thy ===== *)
theory JsonConf
  imports EventLoop CJsonProps
begin

text \<open>
  \<open>twister/jsonmodule/jsonparser.c\<close>: reading a file, and the configuration of the ports from it. The state of
  Twister and that of cJSON meet here (\<open>js\<close>). What the file system holds is a parameter: for each name the content, the number
  of bytes \<open>fread\<close> delivers, and what the memory behind them contained before.
\<close>

record disk_file =
  content :: string
  got :: nat
  fill :: "nat \<Rightarrow> char"

record tw = evloop +
  js :: json
  files :: "string \<Rightarrow> disk_file option"

section \<open>Calls of the JSON library\<close>

definition with_json :: "(json, 'r) act \<Rightarrow> ('a tw_scheme, 'r) act" where
  "with_json m = (\<lambda>s. case m (js s) of None \<Rightarrow> None
     | Some r \<Rightarrow> Some (obnd r (\<lambda>(x, j). Ret (x, s\<lparr>js := j\<rparr>))))"

text \<open>\<open>malloc\<close> of the C library, which is also the default of cJSON.\<close>

definition libc_malloc :: "('a tw_scheme, ptr) act" where
  "libc_malloc = with_json (\<lambda>s. Some (Ret (mem_src s 0 (mem_cnt s), s\<lparr>mem_cnt := mem_cnt s + 1\<rparr>)))"

text \<open>\<open>cJSON_GetObjectItem(object, name)->valuestring\<close>, and the text a string pointer points to.\<close>

definition item_string :: "ptr \<Rightarrow> string \<Rightarrow> ('a tw_scheme, ptr) act" where
  "item_string object name = with_json (bnd (cJSON_GetObjectItem object name) (\<lambda>p. bnd (deref nodes p) (\<lambda>n. ret (valuestring n))))"

definition text_at :: "ptr \<Rightarrow> ('a tw_scheme, string) act" where
  "text_at p = with_json (deref strs p)"

section \<open>Operations\<close>

text \<open>The block that is returned has one byte more than the file; nothing writes that byte.\<close>

definition tw_registerfile :: "string \<Rightarrow> ('a tw_scheme, string) act" where
  "tw_registerfile filename = (\<lambda>s. case files s filename of
       None \<Rightarrow> exit_with 1 s
     | Some f \<Rightarrow> bnd libc_malloc (\<lambda>data. if data = None then fault NullDeref
         else ret (take (got f) (content f) @ map (fill f) [min (got f) (length (content f))..<length (content f) + 1])) s)"

definition tw_parse_json_file :: "fp \<Rightarrow> string \<Rightarrow> ('a tw_scheme, ptr) act" where
  "tw_parse_json_file fp file_name = bnd (tw_registerfile file_name) (\<lambda>rawjson. with_json (cJSON_Parse fp rawjson (Some 0)))"

text \<open>\<open>for (i = 0; i < bound; i++)\<close> with a variable of eight bits; the bound is computed again before every turn.\<close>

partial_function (option) u8_loop :: "('s, int) act \<Rightarrow> (u8 \<Rightarrow> ('s, unit) act) \<Rightarrow> u8 \<Rightarrow> 's \<Rightarrow> (unit \<times> 's) res" where
  "u8_loop bound body i s = bnd bound (\<lambda>n. if int (unat i) < n then bnd (body i) (\<lambda>_. u8_loop bound body (i + 1)) else ret ()) s"

definition item_addr :: "int list \<Rightarrow> ptr \<Rightarrow> string \<Rightarrow> ('a tw_scheme, u32) act" where
  "item_addr junk object name = bnd (item_string object name) (\<lambda>p. bnd (text_at p) (\<lambda>str. lift_out (tw_convert_ip_str_to_dec junk str)))"

definition conf_addr :: "int list \<Rightarrow> u8 \<Rightarrow> ptr \<Rightarrow> u8 \<Rightarrow> ('a tw_scheme, unit) act" where
  "conf_addr junk port_id ip_addrs j =
     bnd (with_json (cJSON_GetArrayItem ip_addrs (int (unat j)))) (\<lambda>subdictip.
     bnd (item_addr junk subdictip ''ip_address'') (\<lambda>a.
     bnd (upd_port port_id (\<lambda>p. p\<lparr>start_ip_addr := a\<rparr>)) (\<lambda>_.
     bnd (item_addr junk subdictip ''gateway_ip'') (\<lambda>a.
     bnd (upd_port port_id (\<lambda>p. p\<lparr>gateway_ip := a\<rparr>)) (\<lambda>_.
     bnd (item_addr junk subdictip ''subnet_mask'') (\<lambda>a.
     upd_port port_id (\<lambda>p. p\<lparr>subnet_mask := a\<rparr>)))))))"

definition conf_entry :: "int list \<Rightarrow> u8 \<Rightarrow> string \<Rightarrow> ptr \<Rightarrow> u8 \<Rightarrow> ('a tw_scheme, unit) act" where
  "conf_entry junk port_id eth_string json_file i =
     bnd (with_json (cJSON_GetArrayItem json_file (int (unat i)))) (\<lambda>subitem.
     bnd (item_string subitem ''port_name'') (\<lambda>curr_port_name_str.
     if curr_port_name_str = None then ret ()
     else bnd (text_at curr_port_name_str) (\<lambda>nm.
       if nm \<noteq> eth_string then ret ()
       else bnd (with_json (cJSON_GetObjectItem subitem ''ip_addrs'')) (\<lambda>ip_addrs.
         bnd (upd_port port_id (\<lambda>p. p\<lparr>num_rx_queues := 1\<rparr>)) (\<lambda>_.
         bnd (upd_port port_id (\<lambda>p. p\<lparr>num_tx_queues := 1\<rparr>)) (\<lambda>_.
         u8_loop (with_json (cJSON_GetArraySize ip_addrs)) (conf_addr junk port_id ip_addrs) 0))))))"

definition eth_string :: "u8 \<Rightarrow> string" where
  "eth_string counter = ''tw'' @ dec_str (unat counter)"

text \<open>The loop over the ports; \<open>port_info_counter\<close> counts the enabled ones.\<close>

primrec conf_ports :: "int list \<Rightarrow> ptr \<Rightarrow> nat list \<Rightarrow> u8 \<Rightarrow> ('a tw_scheme, int) act" where
  "conf_ports junk json_file [] port_info_counter = ret 0"
| "conf_ports junk json_file (p # ps) port_info_counter = (\<lambda>s.
     if \<not> bit (app_port_mask s) p
     then conf_ports junk json_file ps port_info_counter (s\<lparr>available_eth_ports := available_eth_ports s - 1\<rparr>)
     else
       bnd (upd_port (of_nat p) (\<lambda>i. i\<lparr>port_id_external := port_info_counter\<rparr>)) (\<lambda>_.
       bnd (upd_port (of_nat p) (\<lambda>i. i\<lparr>port_name := eth_string port_info_counter\<rparr>)) (\<lambda>_.
       bnd (u8_loop (with_json (cJSON_GetArraySize json_file)) (conf_entry junk (of_nat p) (eth_string port_info_counter) json_file) 0) (\<lambda>_.
       conf_ports junk json_file ps (port_info_counter + 1)))) s)"

definition tw_get_port_conf_json_vals :: "fp \<Rightarrow> int list \<Rightarrow> eth_dev \<Rightarrow> string \<Rightarrow> ('a tw_scheme, int) act" where
  "tw_get_port_conf_json_vals fp junk dev file_name =
     bnd (tw_parse_json_file fp file_name) (\<lambda>json_file.
     if json_file = None then ret (- 1)
     else if dev_count dev = 0 then exit_with 1
     else let n = (if dev_count dev > of_nat MAX_ETH_PORTS then of_nat MAX_ETH_PORTS else dev_count dev) in
       bnd (modify (\<lambda>s. s\<lparr>total_eth_ports := n, available_eth_ports := n\<rparr>)) (\<lambda>_.
       conf_ports junk json_file [0..<unat n] 0))"

section \<open>Looking up in a tree\<close>

lemma elems_nth:
  "elems_at h st p ts N S \<Longrightarrow> k < length ts \<Longrightarrow>
    \<exists>a n N' S'. walk_nth h p (int k) = Some (Ret (Some a)) \<and> h a = Some n \<and> val_at h st n (ts ! k) N' S'"
proof (induction ts arbitrary: p k N S)
  case (Cons t ts)
  from Cons.prems(1) obtain a n N' S' M T where e: "p = Some a" "h a = Some n" "val_at h st n t N' S'" "elems_at h st (cj_next n) ts M T"
    by (cases rule: elems_at.cases) auto
  show ?case
  proof (cases k)
    case 0
    then show ?thesis using e by (subst walk_nth.simps) auto
  next
    case (Suc j)
    then have "int k > 0" "int k - 1 = int j" by simp_all
    then have "walk_nth h (Some a) (int k) = walk_nth h (cj_next n) (int j)" using e(2) by (subst walk_nth.simps) simp
    then show ?thesis using Cons.IH[OF e(4), of j] Cons.prems(2) Suc e(1) by auto
  qed
qed simp

text \<open>The first member whose name is the same up to the case of its letters.\<close>

definition jget :: "string \<Rightarrow> (string \<times> jtree) list \<Rightarrow> jtree option" where
  "jget nm ms = map_option snd (find (\<lambda>m. casecmp (fst m) nm = 0) ms)"

lemma members_get:
  "members_at h st p ms N S \<Longrightarrow> jget nm ms = Some t \<Longrightarrow>
    \<exists>a i' n N' S'. walk_name h st nm p i = Some (Ret (Some a, i')) \<and> h a = Some n \<and> val_at h st n t N' S'"
proof (induction ms arbitrary: p i N S)
  case (Cons m ms)
  from Cons.prems(1) obtain a n b N' S' M T where e: "p = Some a" "h a = Some n" "cj_string n = Some b" "st b = Some (fst m)"
    "val_at h st n (snd m) N' S'" "members_at h st (cj_next n) ms M T"
    by (cases rule: members_at.cases) auto
  show ?case
  proof (cases "casecmp (fst m) nm = 0")
    case True
    then show ?thesis using e Cons.prems(2) by (subst walk_name.simps) (auto simp: cJSON_strcasecmp_def jget_def)
  next
    case False
    then have "walk_name h st nm (Some a) i = walk_name h st nm (cj_next n) (i + 1)"
      using e by (subst walk_name.simps) (simp add: cJSON_strcasecmp_def)
    then show ?thesis using Cons.IH[OF e(6)] Cons.prems(2) False e(1) by (auto simp: jget_def)
  qed
qed (simp add: jget_def)

text \<open>\<open>tree j p t\<close>: the pointer leads to the tree.\<close>

definition tree :: "json \<Rightarrow> ptr \<Rightarrow> jtree \<Rightarrow> bool" where
  "tree j p t \<longleftrightarrow> (\<exists>a n N S. p = Some a \<and> nodes j a = Some n \<and> val_at (nodes j) (strs j) n t N S)"

inductive_cases val_arrE: "val_at h st n (JArr ts) N S"
inductive_cases val_objE: "val_at h st n (JObj ms) N S"
inductive_cases val_strE: "val_at h st n (JStr str) N S"

lemma tree_size: "tree j p (JArr ts) \<Longrightarrow> cJSON_GetArraySize p j = Some (Ret (int (length ts), j))"
  using count_elems by (fastforce simp: tree_def cJSON_GetArraySize_def run_simps elim!: val_arrE)

lemma tree_nth:
  assumes "tree j p (JArr ts)" "k < length ts"
  shows "\<exists>q. cJSON_GetArrayItem p (int k) j = Some (Ret (q, j)) \<and> tree j q (ts ! k)"
proof -
  obtain a n N S where a: "p = Some a" "nodes j a = Some n" "elems_at (nodes j) (strs j) (cj_child n) ts N S"
    using assms(1) by (auto simp: tree_def elim: val_arrE)
  from elems_nth[OF a(3) assms(2)] obtain b m N' S' where
    "walk_nth (nodes j) (cj_child n) (int k) = Some (Ret (Some b))" "nodes j b = Some m" "val_at (nodes j) (strs j) m (ts ! k) N' S'" by blast
  then show ?thesis using a by (auto simp: cJSON_GetArrayItem_def run_simps tree_def)
qed

lemma tree_get:
  assumes "tree j p (JObj ms)" "jget nm ms = Some t"
  shows "\<exists>q. cJSON_GetObjectItem p nm j = Some (Ret (q, j)) \<and> tree j q t"
proof -
  obtain a n N S where a: "p = Some a" "nodes j a = Some n" "members_at (nodes j) (strs j) (cj_child n) ms N S"
    using assms(1) by (auto simp: tree_def elim: val_objE)
  from members_get[OF a(3) assms(2), of 0] obtain b i m N' S' where
    "walk_name (nodes j) (strs j) nm (cj_child n) 0 = Some (Ret (Some b, i))" "nodes j b = Some m" "val_at (nodes j) (strs j) m t N' S'" by blast
  then show ?thesis using a by (auto simp: cJSON_GetObjectItem_def run_simps tree_def)
qed

lemma tree_text:
  assumes "tree j p (JStr str)"
  shows "\<exists>a n b. p = Some a \<and> nodes j a = Some n \<and> valuestring n = Some b \<and> strs j b = Some str"
  using assms by (auto simp: tree_def elim: val_strE)

section \<open>Running the operations\<close>

lemma with_json_run: "m (js s) = Some (Ret (x, j)) \<Longrightarrow> with_json m s = Some (Ret (x, s\<lparr>js := j\<rparr>))"
  by (simp add: with_json_def)

lemma with_json_same: "m (js s) = Some (Ret (x, js s)) \<Longrightarrow> with_json m s = Some (Ret (x, s))"
  by (simp add: with_json_def)

lemma item_string_run:
  assumes "tree (js s) p (JObj ms)" "jget nm ms = Some (JStr str)"
  shows "\<exists>b. item_string p nm s = Some (Ret (Some b, s)) \<and> strs (js s) b = Some str"
proof -
  obtain q where q: "cJSON_GetObjectItem p nm (js s) = Some (Ret (q, js s))" "tree (js s) q (JStr str)" using tree_get[OF assms] by blast
  obtain a n b where "q = Some a" "nodes (js s) a = Some n" "valuestring n = Some b" "strs (js s) b = Some str" using tree_text[OF q(2)] by blast
  then show ?thesis unfolding item_string_def using q(1) by (intro exI[of _ b] conjI with_json_same) (simp_all add: run_simps)
qed

lemma text_at_run: "strs (js s) b = Some str \<Longrightarrow> text_at (Some b) s = Some (Ret (str, s))"
  unfolding text_at_def by (intro with_json_same) (simp add: run_simps)

lemma item_addr_run:
  assumes "tree (js s) p (JObj ms)" "jget nm ms = Some (JStr (ip_text a))" "length junk = 3"
  shows "item_addr junk p nm s = Some (Ret (a, s))"
  using item_string_run[OF assms(1,2)] text_at_run[of s _ "ip_text a"] convert_ip_text[OF assms(3)]
  by (auto simp: item_addr_def run_simps)

text \<open>The loop with a counter of eight bits is a counted loop while its bound is below 256.\<close>

lemma u8_loop_run:
  assumes bound: "\<And>s. P s \<Longrightarrow> bound s = Some (Ret (int n, s))" and n: "n \<le> 255"
    and body: "\<And>k s. k < n \<Longrightarrow> P s \<Longrightarrow> body (of_nat k) s = Some (Ret ((), f k s)) \<and> P (f k s)"
    and "P s" "k \<le> n"
  shows "u8_loop bound body (of_nat k) s = Some (Ret ((), fold f [k..<n] s))"
  using \<open>k \<le> n\<close> \<open>P s\<close>
proof (induction k arbitrary: s rule: inc_induct)
  case base
  then show ?case using n by (subst u8_loop.simps) (simp add: bound run_simps unat_of_nat)
next
  case (step k)
  have "int (unat (of_nat k :: u8)) < int n" using step.hyps(2) n by (simp add: unat_of_nat)
  moreover have "of_nat k + 1 = (of_nat (Suc k) :: u8)" by (simp add: add.commute)
  ultimately have "u8_loop bound body (of_nat k) s = u8_loop bound body (of_nat (Suc k)) (f k s)"
    using body[OF step.hyps(2) step.prems] bound[OF step.prems] by (subst u8_loop.simps) (simp add: run_simps add.commute)
  also have "\<dots> = Some (Ret ((), fold f [Suc k..<n] (f k s)))" using body[OF step.hyps(2) step.prems] by (intro step.IH) simp
  also have "fold f [Suc k..<n] (f k s) = fold f [k..<n] s" using step.hyps(2) by (subst (2) upt_conv_Cons) simp_all
  finally show ?case .
qed

definition set_port :: "nat \<Rightarrow> (port_info \<Rightarrow> port_info) \<Rightarrow> 'a ports_scheme \<Rightarrow> 'a ports_scheme" where
  "set_port p f s = s\<lparr>port_infos := (port_infos s)[p := f (port_infos s ! p)]\<rparr>"

lemma upd_port_run: "unat port < length (port_infos s) \<Longrightarrow> upd_port port f s = Some (Ret ((), set_port (unat port) f s))"
  by (simp add: upd_port_def set_port_def)

lemma set_port_length [simp]: "length (port_infos (set_port p f s)) = length (port_infos s)"
  by (simp add: set_port_def)

lemma set_port_js [simp]: "js (set_port p f s) = js s"
  by (simp add: set_port_def)

lemma set_port_comp: "p < length (port_infos s) \<Longrightarrow> set_port p g (set_port p f s) = set_port p (g \<circ> f) s"
  by (simp add: set_port_def)

lemma set_port_fold:
  "p < length (port_infos s) \<Longrightarrow> fold (\<lambda>x. set_port p (g x)) xs s = set_port p (fold g xs) s"
proof (induction xs arbitrary: s)
  case Nil
  have "(port_infos s)[p := id (port_infos s ! p)] = port_infos s" by simp
  then show ?case by (simp add: set_port_def)
qed (simp add: set_port_comp)

lemma fold_nth: "fold (\<lambda>k. f (xs ! k)) [0..<length xs] = fold f xs"
  using fold_map[of f "(!) xs" "[0..<length xs]"] by (simp add: map_nth comp_def)

lemma set_port_loop:
  "p < length (port_infos s) \<Longrightarrow> fold (\<lambda>k. set_port p (g (xs ! k))) [0..<length xs] s = set_port p (fold g xs) s"
  by (simp add: fold_nth[of "\<lambda>x. set_port p (g x)"] set_port_fold)

section \<open>Configurations\<close>

text \<open>A configuration: for each entry the name of the port and the addresses (address, gateway, mask); its tree has the keys the code looks for.\<close>

type_synonym addr_conf = "u32 \<times> u32 \<times> u32"
type_synonym port_conf = "string \<times> addr_conf list"

fun addr_members :: "addr_conf \<Rightarrow> (string \<times> jtree) list" where
  "addr_members (ip, gw, sm) =
     [(''ip_address'', JStr (ip_text ip)), (''gateway_ip'', JStr (ip_text gw)), (''subnet_mask'', JStr (ip_text sm))]"

fun entry_members :: "port_conf \<Rightarrow> (string \<times> jtree) list" where
  "entry_members (nm, as) = [(''ip_addrs'', JArr (map (JObj \<circ> addr_members) as)), (''port_name'', JStr nm)]"

definition conf_tree :: "port_conf list \<Rightarrow> jtree" where
  "conf_tree cs = JArr (map (JObj \<circ> entry_members) cs)"

text \<open>What a configuration says about a port.\<close>

fun with_addr :: "addr_conf \<Rightarrow> port_info \<Rightarrow> port_info" where
  "with_addr (ip, gw, sm) pi = pi\<lparr>start_ip_addr := ip, gateway_ip := gw, subnet_mask := sm\<rparr>"

fun with_entry :: "string \<Rightarrow> port_conf \<Rightarrow> port_info \<Rightarrow> port_info" where
  "with_entry eth (nm, as) pi = (if nm = eth then fold with_addr as (pi\<lparr>num_rx_queues := 1, num_tx_queues := 1\<rparr>) else pi)"

definition configured :: "port_conf list \<Rightarrow> u8 \<Rightarrow> port_info \<Rightarrow> port_info" where
  "configured cs c pi = fold (with_entry (eth_string c)) cs (pi\<lparr>port_id_external := c, port_name := eth_string c\<rparr>)"

lemma conf_keys [simp]:
  "jget ''ip_address'' (addr_members a) = Some (JStr (ip_text (fst a)))"
  "jget ''gateway_ip'' (addr_members a) = Some (JStr (ip_text (fst (snd a))))"
  "jget ''subnet_mask'' (addr_members a) = Some (JStr (ip_text (snd (snd a))))"
  "jget ''ip_addrs'' (entry_members c) = Some (JArr (map (JObj \<circ> addr_members) (snd c)))"
  "jget ''port_name'' (entry_members c) = Some (JStr (fst c))"
  by (cases a; cases c; simp add: jget_def tolower_def Let_def)+

lemma uint_small_u8: "k \<le> 255 \<Longrightarrow> uint (of_nat k :: u8) = int k"
proof -
  assume "k \<le> 255"
  then have "unat (of_nat k :: u8) = k" by (simp add: unat_of_nat)
  then have "int (unat (of_nat k :: u8)) = int k" by (simp only:)
  then show ?thesis by simp
qed

lemma conf_addr_run:
  fixes s :: "'a tw_scheme"
  assumes t: "tree (js s) p (JArr (map (JObj \<circ> addr_members) as))" and k: "k < length as" "k \<le> 255"
    and junk: "length junk = 3" and port: "unat port < length (port_infos s)"
  shows "conf_addr junk port p (of_nat k) s = Some (Ret ((), set_port (unat port) (with_addr (as ! k)) s))"
proof -
  note u = uint_small_u8[OF k(2)]
  obtain q where q: "cJSON_GetArrayItem p (int k) (js s) = Some (Ret (q, js s))" "tree (js s) q (JObj (addr_members (as ! k)))"
    using tree_nth[OF t, of k] k(1) by auto
  then have g: "with_json (cJSON_GetArrayItem p (int k)) s = Some (Ret (q, s))" by (intro with_json_same)
  have a: "item_addr junk q ''ip_address'' s' = Some (Ret (fst (as ! k), s'))" "item_addr junk q ''gateway_ip'' s' = Some (Ret (fst (snd (as ! k)), s'))"
    "item_addr junk q ''subnet_mask'' s' = Some (Ret (snd (snd (as ! k)), s'))" if "js s' = js s" for s' :: "'a tw_scheme"
    using that q(2) junk by (auto intro!: item_addr_run[where ms = "addr_members (as ! k)"])
  obtain x y z where k: "as ! k = (x, y, z)" by (metis prod_cases3)
  have w: "with_addr (x, y, z) = (\<lambda>i. i\<lparr>start_ip_addr := x, gateway_ip := y, subnet_mask := z\<rparr>)" by (simp add: fun_eq_iff)
  show ?thesis using port a unfolding k w by (simp add: conf_addr_def run_simps u g upd_port_run set_port_comp comp_def)
qed

lemma conf_entry_run:
  assumes t: "tree (js s) p (conf_tree cs)" and k: "k < length cs" "k \<le> 255"
    and junk: "length junk = 3" and port: "unat port < length (port_infos s)" and as: "length (snd (cs ! k)) \<le> 255"
  shows "conf_entry junk port eth p (of_nat k) s = Some (Ret ((), set_port (unat port) (with_entry eth (cs ! k)) s))"
proof -
  let ?c = "cs ! k"
  obtain q where q: "cJSON_GetArrayItem p (int k) (js s) = Some (Ret (q, js s))" "tree (js s) q (JObj (entry_members ?c))"
    using tree_nth[of "js s" p _ k] t k(1) unfolding conf_tree_def by fastforce
  then have g: "with_json (cJSON_GetArrayItem p (int k)) s = Some (Ret (q, s))" by (intro with_json_same)
  obtain b where b: "item_string q ''port_name'' s = Some (Ret (Some b, s))" "text_at (Some b) s = Some (Ret (fst ?c, s))"
    using item_string_run[OF q(2), of "''port_name''" "fst ?c"] text_at_run[of s _ "fst ?c"] by auto
  obtain r where r: "with_json (cJSON_GetObjectItem q ''ip_addrs'') s = Some (Ret (r, s))" "tree (js s) r (JArr (map (JObj \<circ> addr_members) (snd ?c)))"
    using tree_get[OF q(2), of "''ip_addrs''"] with_json_same[of "cJSON_GetObjectItem q ''ip_addrs''" s] by fastforce
  let ?s1 = "set_port (unat port) (\<lambda>i. i\<lparr>num_rx_queues := 1, num_tx_queues := 1\<rparr>) s"
  let ?P = "\<lambda>s'. js s' = js s \<and> length (port_infos s') = length (port_infos s)"
  have "u8_loop (with_json (cJSON_GetArraySize r)) (conf_addr junk port r) (of_nat 0) ?s1 =
      Some (Ret ((), fold (\<lambda>j. set_port (unat port) (with_addr (snd ?c ! j))) [0..<length (snd ?c)] ?s1))"
  proof (rule u8_loop_run[where P = ?P], goal_cases)
    case (1 s')
    then show ?case using tree_size[OF r(2)] by (intro with_json_same) simp
  next
    case (3 j s')
    then show ?case using conf_addr_run[of s' r "snd ?c" j junk port] r(2) as port junk by auto
  qed (use as in simp_all)
  also have "fold (\<lambda>j. set_port (unat port) (with_addr (snd ?c ! j))) [0..<length (snd ?c)] ?s1 = set_port (unat port) (fold with_addr (snd ?c)) ?s1"
    using port by (intro set_port_loop) simp
  finally have l: "u8_loop (with_json (cJSON_GetArraySize r)) (conf_addr junk port r) 0 ?s1 = Some (Ret ((), set_port (unat port) (fold with_addr (snd ?c)) ?s1))"
    by simp
  have e: "with_entry eth ?c = (if fst ?c = eth then fold with_addr (snd ?c) \<circ> (\<lambda>i. i\<lparr>num_rx_queues := 1, num_tx_queues := 1\<rparr>) else (\<lambda>i. i))"
    by (cases ?c) (auto simp: fun_eq_iff)
  show ?thesis using port l by (simp add: conf_entry_def run_simps uint_small_u8[OF k(2)] g b r(1) upd_port_run set_port_comp comp_def e) (simp add: set_port_def)
qed

text \<open>All entries, for one port.\<close>

definition conf_fits :: "port_conf list \<Rightarrow> bool" where
  "conf_fits cs \<longleftrightarrow> length cs \<le> 255 \<and> (\<forall>(nm, as)\<in>set cs. NUL \<notin> set nm \<and> length as \<le> 255)"

lemma conf_entries_run:
  assumes t: "tree (js s) p (conf_tree cs)" and fits: "conf_fits cs" and junk: "length junk = 3" and port: "unat port < length (port_infos s)"
  shows "u8_loop (with_json (cJSON_GetArraySize p)) (conf_entry junk port eth p) 0 s = Some (Ret ((), set_port (unat port) (fold (with_entry eth) cs) s))"
proof -
  let ?P = "\<lambda>s'. js s' = js s \<and> length (port_infos s') = length (port_infos s)"
  have "u8_loop (with_json (cJSON_GetArraySize p)) (conf_entry junk port eth p) (of_nat 0) s =
      Some (Ret ((), fold (\<lambda>k. set_port (unat port) (with_entry eth (cs ! k))) [0..<length cs] s))"
  proof (rule u8_loop_run[where P = ?P], goal_cases)
    case (1 s')
    then show ?case using tree_size[of "js s" p] t unfolding conf_tree_def by (intro with_json_same) fastforce
  next
    case (3 k s')
    moreover have "length (snd (cs ! k)) \<le> 255" "k \<le> 255" using 3(1) fits by (auto simp: conf_fits_def case_prod_unfold)
    ultimately show ?case using conf_entry_run[of s' p cs k junk port eth] t port junk by auto
  qed (use fits in \<open>simp_all add: conf_fits_def\<close>)
  then show ?thesis using port by (simp add: set_port_loop)
qed

text \<open>The number of the enabled port among the enabled ones, and the table the whole loop leaves.\<close>

definition rank :: "u16 \<Rightarrow> nat \<Rightarrow> nat" where
  "rank pm p = length (filter (bit pm) [0..<p])"

definition conf_list :: "port_conf list \<Rightarrow> u16 \<Rightarrow> nat \<Rightarrow> nat \<Rightarrow> port_info list \<Rightarrow> port_info list" where
  "conf_list cs pm i n infos = map (\<lambda>p. if i \<le> p \<and> p < n \<and> bit pm p then configured cs (of_nat (rank pm p)) (infos ! p) else infos ! p) [0..<length infos]"

lemma conf_list_skip: "\<not> bit pm i \<Longrightarrow> conf_list cs pm i n infos = conf_list cs pm (Suc i) n infos"
  by (auto simp: conf_list_def Suc_le_eq le_less)

lemma conf_list_step:
  "bit pm i \<Longrightarrow> i < n \<Longrightarrow> i < length infos \<Longrightarrow>
   conf_list cs pm i n infos = conf_list cs pm (Suc i) n (infos[i := configured cs (of_nat (rank pm i)) (infos ! i)])"
  by (auto simp: conf_list_def nth_list_update Suc_le_eq le_less)

lemma conf_ports_run:
  assumes t: "tree (js s) p (conf_tree cs)" and fits: "conf_fits cs" and junk: "length junk = 3" and "n \<le> length (port_infos s)" "n \<le> 255" and "i \<le> n"
  shows "conf_ports junk p [i..<n] (of_nat (rank (app_port_mask s) i)) s = Some (Ret (0, s\<lparr>port_infos := conf_list cs (app_port_mask s) i n (port_infos s),
    available_eth_ports := available_eth_ports s - of_nat (length (filter (\<lambda>p. \<not> bit (app_port_mask s) p) [i..<n]))\<rparr>))"
  using \<open>i \<le> n\<close> t assms(4)
proof (induction i arbitrary: s rule: inc_induct)
  case base
  have "conf_list cs (app_port_mask s) n n (port_infos s) = port_infos s" by (auto simp: conf_list_def intro!: nth_equalityI)
  then show ?case by (simp add: run_simps)
next
  case (step i)
  let ?pm = "app_port_mask s"
  have up: "[i..<n] = i # [Suc i..<n]" using step.hyps by (simp add: upt_conv_Cons)
  show ?case
  proof (cases "bit ?pm i")
    case False
    have "rank ?pm (Suc i) = rank ?pm i" using False by (simp add: rank_def)
    then show ?thesis using step.IH[of "s\<lparr>available_eth_ports := available_eth_ports s - 1\<rparr>"] step.prems False
      by (simp add: up conf_list_skip[OF False] algebra_simps)
  next
    case True
    have r: "of_nat (rank ?pm (Suc i)) = of_nat (rank ?pm i) + (1 :: u8)" using True by (simp add: rank_def)
    have u: "unat (of_nat i :: u8) = i" using step.hyps assms(5) by (simp add: unat_of_nat)
    have i: "i < length (port_infos s)" using step.hyps step.prems by simp
    let ?s1 = "set_port i (configured cs (of_nat (rank ?pm i))) s"
    let ?s0 = "set_port i (\<lambda>j. j\<lparr>port_id_external := of_nat (rank ?pm i), port_name := eth_string (of_nat (rank ?pm i))\<rparr>) s"
    have "set_port i (fold (with_entry (eth_string (of_nat (rank ?pm i)))) cs) ?s0 = ?s1"
      using i by (simp add: set_port_comp) (simp add: set_port_def configured_def)
    then have "u8_loop (with_json (cJSON_GetArraySize p)) (conf_entry junk (of_nat i) (eth_string (of_nat (rank ?pm i))) p) 0 ?s0 = Some (Ret ((), ?s1))"
      using conf_entries_run[of ?s0 p cs junk "of_nat i" "eth_string (of_nat (rank ?pm i))"] step.prems(1) fits junk i u by simp
    then have "conf_ports junk p [i..<n] (of_nat (rank ?pm i)) s = conf_ports junk p [Suc i..<n] (of_nat (rank ?pm (Suc i))) ?s1"
      using True i by (simp add: up run_simps upd_port_run u set_port_comp comp_def r)
    also have "\<dots> = Some (Ret (0, ?s1\<lparr>port_infos := conf_list cs ?pm (Suc i) n (port_infos ?s1),
        available_eth_ports := available_eth_ports s - of_nat (length (filter (\<lambda>p. \<not> bit ?pm p) [Suc i..<n]))\<rparr>))"
      using step.IH[of ?s1] step.prems by (simp add: set_port_def)
    finally show ?thesis using True i step.hyps(2) by (simp add: set_port_def conf_list_step up)
  qed
qed

section \<open>From the file to the ports\<close>

lemma registerfile_run:
  assumes "files s name = Some f" "length (content f) \<le> got f" "fill f (length (content f)) = NUL" "mem_fresh (js s)" "malloc_hook (js s) = 0"
  shows "tw_registerfile name s = Some (Ret (content f @ [NUL], s\<lparr>js := (js s)\<lparr>mem_cnt := mem_cnt (js s) + 1\<rparr>\<rparr>))"
proof -
  obtain a where "mem_src (js s) 0 (mem_cnt (js s)) = Some a" using mem_fresh_next[OF assms(4)] assms(5) by metis
  then show ?thesis using assms(1-3) by (simp add: tw_registerfile_def libc_malloc_def run_simps with_json_def)
qed

lemma ip_text_plain: "NUL \<notin> set (ip_text ip)"
proof -
  have "isdigit c \<Longrightarrow> c \<noteq> NUL" for c by (auto simp: isdigit_def)
  then have "NUL \<notin> set (dec_str n)" for n using dec_str_digits[of n] by blast
  then show ?thesis by (simp add: ip_text_def dotted_def Let_def)
qed

lemma conf_tree_plain: "conf_fits cs \<Longrightarrow> plain_tree fp (conf_tree cs)"
  by (fastforce simp: conf_tree_def conf_fits_def ip_text_plain)

lemma parse_file_tree:
  assumes "int_exact fp" "plain_tree fp t" "mem_fresh (js s)" "malloc_hook (js s) = 0"
    and "files s name = Some f" "content f = render fp fmt 0 t" "length (content f) \<le> got f" "fill f (length (content f)) = NUL"
  shows "\<exists>r j. tw_parse_json_file fp name s = Some (Ret (Some r, s\<lparr>js := j\<rparr>)) \<and> tree j (Some r) t"
proof -
  let ?s1 = "s\<lparr>js := (js s)\<lparr>mem_cnt := mem_cnt (js s) + 1\<rparr>\<rparr>"
  have fr: "mem_fresh (js ?s1)" using mem_fresh_later[OF assms(3)] by simp
  obtain r j n N S where "cJSON_Parse fp (content f @ [NUL]) (Some 0) (js ?s1) = Some (Ret (Some r, j))" "nodes j r = Some n" "val_at (nodes j) (strs j) n t N S"
    using parse_text[OF assms(1,2) fr, of fmt 0] assms(6) by (elim exE conjE) (rule that, simp_all)
  then show ?thesis using registerfile_run[OF assms(5,7,8,3,4)] with_json_run[of _ ?s1]
    by (intro exI[of _ r] exI[of _ j]) (auto simp: tw_parse_json_file_def run_simps tree_def)
qed

lemma rank_disabled: "n - length (filter (\<lambda>p. \<not> bit pm p) [0..<n]) = rank pm n" "length (filter (\<lambda>p. \<not> bit pm p) [0..<n]) \<le> n"
  using sum_length_filter_compl[of "bit pm" "[0..<n]"] by (simp_all add: rank_def)


text \<open>The port of the file that comes with the program.\<close>

definition demo_conf :: "port_conf list" where
  "demo_conf = [(''tw0'', [(0x0A0A0105, 0x0A0A0101, 0xFFFFFF00)])]"

definition demo_file :: disk_file where
  "demo_file = \<lparr>content = render demo_fp False 0 (conf_tree demo_conf), got = length (render demo_fp False 0 (conf_tree demo_conf)), fill = (\<lambda>_. NUL)\<rparr>"

definition demo_tw :: tw where
  "demo_tw = evloop.extend (demo_loop\<lparr>port_infos := replicate 8 demo_port, app_port_mask := 1\<rparr>) (tw.fields demo_json [''config.json'' \<mapsto> demo_file])"


end
