(* ===== verification/InitFuncs.thy ===== *)
theory InitFuncs
  imports JsonConf
begin

text \<open>
  \<open>twister/initmodule/initfuncs.c\<close>: the start of Twister. The configuration file gives the arguments of the DPDK
  environment, which are copied into fresh blocks and stored in the array \<open>argv\<close>; then the ports are configured, the
  pools and cores prepared and the devices started. What the operating system, \<open>rte_eal_init\<close> and \<open>getopt_long\<close>
  answer is a parameter (\<open>sys\<close>).
\<close>

section \<open>Configuration\<close>

record conf = tw +
  portmask :: ptr
  coremask :: ptr
  blacklist :: "ptr list"
  blacklist_size :: u32

record sys =
  uid :: int
  eal_init :: "string list \<Rightarrow> int"
  options :: "string list \<Rightarrow> (char \<times> string) list"
  optind :: "string list \<Rightarrow> int"
  lcore_enabled :: "nat \<Rightarrow> bool"
  lcore_socket :: "nat \<Rightarrow> u8"

text \<open>\<open>n\<close> blocks that are allocated and never used, and the strings of the array.\<close>

primrec mallocs :: "nat \<Rightarrow> ('a tw_scheme, unit) act" where
  "mallocs 0 = ret ()"
| "mallocs (Suc n) = bnd libc_malloc (\<lambda>_. mallocs n)"

primrec item_strings :: "ptr \<Rightarrow> nat list \<Rightarrow> ('a tw_scheme, ptr list) act" where
  "item_strings object [] = ret []"
| "item_strings object (i # is) =
     bnd (with_json (bnd (cJSON_GetArrayItem object (int i)) (\<lambda>p. bnd (deref nodes p) (\<lambda>n. ret (valuestring n))))) (\<lambda>v.
     bnd (item_strings object is) (\<lambda>vs. ret (v # vs)))"

definition tw_parse_conf :: "fp \<Rightarrow> string \<Rightarrow> ('a conf_scheme, int) act" where
  "tw_parse_conf fp tw_conf_path =
     bnd (tw_parse_json_file fp tw_conf_path) (\<lambda>json_file.
     bnd (item_string json_file ''portmask'') (\<lambda>pm.
     bnd (item_string json_file ''coremask'') (\<lambda>cm.
     bnd (with_json (cJSON_GetObjectItem json_file ''blacklist'')) (\<lambda>blacklist_object.
     bnd (with_json (cJSON_GetArraySize blacklist_object)) (\<lambda>n.
     bnd libc_malloc (\<lambda>blacklist_array.
     if blacklist_array = None \<and> n > 0 then fault NullDeref else
     bnd (mallocs (nat n)) (\<lambda>_.
     bnd (item_strings blacklist_object [0..<nat n]) (\<lambda>vs.
     bnd (modify (\<lambda>s. s\<lparr>portmask := pm, coremask := cm, blacklist := vs, blacklist_size := word_of_int n\<rparr>)) (\<lambda>_.
     ret 0)))))))))"

section \<open>Options\<close>

text \<open>\<open>strtoul\<close> with base 16: blanks, a sign, a prefix, digits; the result and the rest of the text. Without digits nothing is consumed.\<close>

definition is_blank :: "char \<Rightarrow> bool" where
  "is_blank c \<longleftrightarrow> c \<in> {CHR '' '', CHR 0x09, CHR 0x0A, CHR 0x0B, CHR 0x0C, CHR 0x0D}"

definition hex_digit :: "char \<Rightarrow> nat option" where
  "hex_digit c = (let n = of_char c :: nat in
     if 48 \<le> n \<and> n \<le> 57 then Some (n - 48) else if 97 \<le> n \<and> n \<le> 102 then Some (n - 87)
     else if 65 \<le> n \<and> n \<le> 70 then Some (n - 55) else None)"

fun hex_prefix :: "string \<Rightarrow> string" where
  "hex_prefix (CHR ''0'' # x # d # ds) = (if (x = CHR ''x'' \<or> x = CHR ''X'') \<and> hex_digit d \<noteq> None then d # ds else CHR ''0'' # x # d # ds)"
| "hex_prefix s = s"

fun hex_value :: "string \<Rightarrow> nat \<Rightarrow> nat" where
  "hex_value [] acc = acc"
| "hex_value (c # cs) acc = (case hex_digit c of None \<Rightarrow> acc | Some d \<Rightarrow> hex_value cs (16 * acc + d))"

definition strtoul16 :: "string \<Rightarrow> u64 \<times> string" where
  "strtoul16 str =
     (let t = dropWhile is_blank str;
          neg = (t \<noteq> [] \<and> hd t = CHR ''-'');
          u = (if t \<noteq> [] \<and> (hd t = CHR ''-'' \<or> hd t = CHR ''+'') then tl t else t);
          d = hex_prefix u;
          v = hex_value d 0
      in if takeWhile (\<lambda>c. hex_digit c \<noteq> None) d = [] then (0, str)
         else (if v > 2 ^ 64 - 1 then - 1 else if neg then - of_nat v else of_nat v, dropWhile (\<lambda>c. hex_digit c \<noteq> None) d))"

text \<open>The result is an \<open>int\<close>: the low 32 bits of the number.\<close>

definition tw_parse_portmask :: "string \<Rightarrow> int" where
  "tw_parse_portmask str = (case strtoul16 str of (pm, endp) \<Rightarrow>
     if str = [] \<or> endp \<noteq> [] then - 1 else if pm = 0 then - 1 else sint (ucast pm :: u32))"

text \<open>The loop over the options; the result is -1 when one is wrong.\<close>

primrec option_loop :: "(char \<times> string) list \<Rightarrow> ('a ports_scheme, int) act \<Rightarrow> ('a ports_scheme, int) act" where
  "option_loop [] k = k"
| "option_loop (opt # opts) k =
     (if fst opt = CHR ''p'' then
        bnd (modify (\<lambda>s. s\<lparr>app_port_mask := word_of_int (tw_parse_portmask (snd opt))\<rparr>)) (\<lambda>_ s.
        if app_port_mask s = 0 then ret (- 1) s else option_loop opts k s)
      else ret (- 1))"

text \<open>\<open>slots\<close> is the number of cells of the array from \<open>argv\<close> on.\<close>

definition tw_parse_twister_args :: "sys \<Rightarrow> int \<Rightarrow> string list \<Rightarrow> ('a ports_scheme, int) act" where
  "tw_parse_twister_args sys slots argv = option_loop (options sys argv)
     (let i = optind sys argv in
      if i \<ge> 0 \<and> \<not> (0 \<le> i - 1 \<and> i - 1 < slots) then fault OutOfBounds else ret (i - 1))"

section \<open>The environment\<close>

text \<open>\<open>argv[k] = malloc(n)\<close> for each size in turn, in an array of \<open>slots\<close> cells; the result pairs each block with its size.\<close>

primrec alloc_args :: "nat \<Rightarrow> nat \<Rightarrow> nat list \<Rightarrow> ('a tw_scheme, (ptr \<times> nat) list) act" where
  "alloc_args slots k [] = ret []"
| "alloc_args slots k (n # ns) =
     bnd libc_malloc (\<lambda>p. if k < slots
       then bnd (alloc_args slots (k + 1) ns) (\<lambda>ps. ret ((p, n) # ps)) else fault OutOfBounds)"

text \<open>\<open>strcpy(argv[k], str)\<close>: the block needs room for the text and its terminator.\<close>

fun strcpy_arg :: "ptr \<times> nat \<Rightarrow> string \<Rightarrow> ('s, unit) act" where
  "strcpy_arg (p, n) str = (if p = None then fault NullDeref else if length str < n then ret () else fault OutOfBounds)"

primrec copy_args :: "(ptr \<times> nat) list \<Rightarrow> string list \<Rightarrow> ('s, unit) act" where
  "copy_args blocks [] = ret ()"
| "copy_args blocks (t # ts) = bnd (strcpy_arg (hd blocks) t) (\<lambda>_. copy_args (tl blocks) ts)"

definition arg_sizes :: "nat list" where
  "arg_sizes = [3, 3, 5, 3, 2, 3, 12, 3, 3, 4]"

definition eal_args :: "nat \<Rightarrow> ('a conf_scheme, string list) act" where
  "eal_args slots =
     bnd (alloc_args slots 0 arg_sizes) (\<lambda>blocks.
     bnd (copy_args (take 2 blocks) [''ab'', ''-c'']) (\<lambda>_.
     bnd (\<lambda>s. text_at (coremask s) s) (\<lambda>cm.
     bnd (copy_args (take 4 (drop 2 blocks)) [cm, ''-n'', ''4'', ''-b'']) (\<lambda>_.
     bnd (\<lambda>s. bnd (index_ck (blacklist s) 0) text_at s) (\<lambda>bl.
     bnd (copy_args (take 3 (drop 6 blocks)) [bl, ''--'', ''-p'']) (\<lambda>_.
     bnd (\<lambda>s. text_at (portmask s) s) (\<lambda>pm.
     bnd (copy_args (drop 9 blocks) [pm]) (\<lambda>_.
     ret [''ab'', ''-c'', cm, ''-n'', ''4'', ''-b'', bl, ''--'', ''-p'', pm]))))))))"

text \<open>The rest of both functions; \<open>fail\<close> is what they do when the environment or the options are refused.\<close>

definition eal_start :: "sys \<Rightarrow> nat \<Rightarrow> ('a conf_scheme, int) act \<Rightarrow> ('a conf_scheme, int) act" where
  "eal_start sys slots fail =
     bnd (eal_args slots) (\<lambda>argv.
     let r = eal_init sys argv in
     if r < 0 then fail
     else bnd (tw_parse_twister_args sys (int slots - r) (drop (nat r) argv)) (\<lambda>r. if r < 0 then fail else ret 0))"

definition tw_init_eal_env :: "fp \<Rightarrow> sys \<Rightarrow> nat \<Rightarrow> ('a conf_scheme, int) act" where
  "tw_init_eal_env fp sys slots =
     (if uid sys \<noteq> 0 then exit_with 0
      else bnd (tw_parse_conf fp ''/etc/twister/twister_api.json'') (\<lambda>_. eal_start sys slots (exit_with 1)))"

definition tw_smoke_init_eal_env :: "fp \<Rightarrow> sys \<Rightarrow> nat \<Rightarrow> ('a conf_scheme, int) act" where
  "tw_smoke_init_eal_env fp sys slots =
     bnd (tw_parse_conf fp ''/etc/twister/twister_api.json'') (\<lambda>_. eal_start sys slots (ret (- 1)))"

definition tw_init_user_given_vals :: "fp \<Rightarrow> int list \<Rightarrow> eth_dev \<Rightarrow> ('a tw_scheme, int) act" where
  "tw_init_user_given_vals fp junk dev =
     bnd (tw_get_port_conf_json_vals fp junk dev ''/etc/twister/config.json'') (\<lambda>_.
     bnd (modify (\<lambda>s. s\<lparr>queued_pkt_time_limit := 10\<rparr>)) (\<lambda>_. ret 0))"

text \<open>The array \<open>argv1\<close> has one cell.\<close>

definition argv1_cells :: nat where
  "argv1_cells = 1"

definition init_global :: "nat \<Rightarrow> fp \<Rightarrow> int list \<Rightarrow> sys \<Rightarrow> eth_dev \<Rightarrow> ('a conf_scheme, int) act" where
  "init_global slots fp junk sys dev =
     bnd (tw_init_eal_env fp sys slots) (\<lambda>_.
     bnd (tw_init_user_given_vals fp junk dev) (\<lambda>_.
     bnd tw_create_rx_tx_mempools (\<lambda>_.
     bnd (modify (tw_lcore_conf_init (lcore_enabled sys) (lcore_socket sys))) (\<lambda>_.
     bnd (tw_eth_port_init dev) (\<lambda>_.
     bnd (modify tw_init_timer_vals) (\<lambda>_.
     bnd tw_init_periodic_timers (\<lambda>_. ret 0)))))))"

definition tw_init_global :: "fp \<Rightarrow> int list \<Rightarrow> sys \<Rightarrow> eth_dev \<Rightarrow> ('a conf_scheme, int) act" where
  "tw_init_global fp junk sys dev = init_global argv1_cells fp junk sys dev"

section \<open>The arguments of the environment\<close>

lemma malloc_run:
  "mem_src (js s) 0 (mem_cnt (js s)) = Some a \<Longrightarrow> libc_malloc s = Some (Ret (Some a, s\<lparr>js := (js s)\<lparr>mem_cnt := mem_cnt (js s) + 1\<rparr>\<rparr>))"
  by (simp add: libc_malloc_def with_json_def)

lemma alloc_args_run:
  assumes "\<And>k. mem_src (js s) 0 k \<noteq> None"
  shows "alloc_args slots k ns s = (if k + length ns \<le> slots \<or> ns = []
    then Some (Ret (map (\<lambda>i. (mem_src (js s) 0 (mem_cnt (js s) + i), ns ! i)) [0..<length ns], s\<lparr>js := (js s)\<lparr>mem_cnt := mem_cnt (js s) + length ns\<rparr>\<rparr>))
    else Some (Fault OutOfBounds))"
  using assms
proof (induction ns arbitrary: k s)
  case (Cons n ns)
  obtain a where a: "mem_src (js s) 0 (mem_cnt (js s)) = Some a" using Cons.prems by blast
  let ?s1 = "s\<lparr>js := (js s)\<lparr>mem_cnt := mem_cnt (js s) + 1\<rparr>\<rparr>"
  have "map (\<lambda>i. (mem_src (js s) 0 (mem_cnt (js s) + i), (n # ns) ! i)) [0..<length (n # ns)] =
      (Some a, n) # map (\<lambda>i. (mem_src (js s) 0 (Suc (mem_cnt (js s) + i)), ns ! i)) [0..<length ns]"
    using a by (simp add: upt_conv_Cons map_Suc_upt[symmetric] comp_def del: upt_Suc map_Suc_upt)
  then show ?case using Cons.IH[of ?s1 "k + 1"] Cons.prems malloc_run[OF a] by (auto simp: run_simps del: upt_Suc)
qed (simp add: run_simps)

definition str_at :: "'a tw_scheme \<Rightarrow> ptr \<Rightarrow> string \<Rightarrow> bool" where
  "str_at s p t \<longleftrightarrow> (\<exists>b. p = Some b \<and> strs (js s) b = Some t)"

lemma str_at_run: "str_at s p t \<Longrightarrow> text_at p (s\<lparr>js := (js s)\<lparr>mem_cnt := k\<rparr>\<rparr>) = Some (Ret (t, s\<lparr>js := (js s)\<lparr>mem_cnt := k\<rparr>\<rparr>))"
  using text_at_run[of "s\<lparr>js := (js s)\<lparr>mem_cnt := k\<rparr>\<rparr>"] by (auto simp: str_at_def)

lemma eal_args_run:
  assumes mem: "\<And>k. mem_src (js s) 0 k \<noteq> None"
    and t: "str_at s (coremask s) cm" "str_at s (portmask s) pm" "blacklist s = b # bs" "str_at s b bl"
  shows "eal_args slots s = (if slots < 10 \<or> 5 \<le> length cm \<or> 12 \<le> length bl \<or> 4 \<le> length pm then Some (Fault OutOfBounds)
    else Some (Ret ([''ab'', ''-c'', cm, ''-n'', ''4'', ''-b'', bl, ''--'', ''-p'', pm], s\<lparr>js := (js s)\<lparr>mem_cnt := mem_cnt (js s) + 10\<rparr>\<rparr>)))"
proof -
  define f where "f k = the (mem_src (js s) 0 k)" for k
  have f: "mem_src (js s) 0 k = Some (f k)" for k using mem[of k] by (auto simp: f_def)
  let ?src = "\<lambda>i. Some (f (mem_cnt (js s) + i))" and ?s1 = "s\<lparr>js := (js s)\<lparr>mem_cnt := mem_cnt (js s) + 10\<rparr>\<rparr>"
  have a: "alloc_args slots 0 arg_sizes s = (if 10 \<le> slots then Some (Ret ([(?src 0, 3), (?src 1, 3), (?src 2, 5), (?src 3, 3), (?src 4, 2),
      (?src 5, 3), (?src 6, 12), (?src 7, 3), (?src 8, 3), (?src 9, 4)], ?s1)) else Some (Fault OutOfBounds))"
    using alloc_args_run[of s slots 0 arg_sizes, OF mem] unfolding arg_sizes_def by (simp add: upt_rec numeral_eq_Suc f)
  have c: "coremask ?s1 = coremask s" "portmask ?s1 = portmask s" "blacklist ?s1 = b # bs" using t(3) by simp_all
  have x: "text_at (coremask ?s1) ?s1 = Some (Ret (cm, ?s1))" "text_at (portmask ?s1) ?s1 = Some (Ret (pm, ?s1))" "text_at b ?s1 = Some (Ret (bl, ?s1))"
    using str_at_run[OF t(1)] str_at_run[OF t(2)] str_at_run[OF t(4)] by simp_all
  show ?thesis
  proof (cases "slots < 10")
    case True
    then show ?thesis unfolding eal_args_def by (simp add: bnd_apply a)
  next
    case False
    then have "eal_args slots s = bnd (copy_args [(?src 0, 3), (?src 1, 3)] [''ab'', ''-c'']) (\<lambda>_.
       bnd (\<lambda>s. text_at (coremask s) s) (\<lambda>cm. bnd (copy_args [(?src 2, 5), (?src 3, 3), (?src 4, 2), (?src 5, 3)] [cm, ''-n'', ''4'', ''-b'']) (\<lambda>_.
       bnd (\<lambda>s. bnd (index_ck (blacklist s) 0) text_at s) (\<lambda>bl. bnd (copy_args [(?src 6, 12), (?src 7, 3), (?src 8, 3)] [bl, ''--'', ''-p'']) (\<lambda>_.
       bnd (\<lambda>s. text_at (portmask s) s) (\<lambda>pm. bnd (copy_args [(?src 9, 4)] [pm]) (\<lambda>_.
       ret [''ab'', ''-c'', cm, ''-n'', ''4'', ''-b'', bl, ''--'', ''-p'', pm]))))))) ?s1"
      unfolding eal_args_def by (subst bnd_apply) (simp add: a)
    then show ?thesis using False x c(3)
      by (cases "length cm < 5"; cases "length bl < 12"; cases "length pm < 4") (simp_all add: bnd_apply ret_apply fault_apply index_ck_apply)
  qed
qed

lemma eal_args_short:
  "slots < 2 \<Longrightarrow> eal_args slots s \<noteq> Some (Ret r)"
  by (auto simp: eal_args_def arg_sizes_def bnd_Ret_iff libc_malloc_def with_json_def fault_def split: if_splits)

section \<open>Port masks\<close>

lemma hex_rest: "\<forall>c\<in>set ds. hex_digit c \<noteq> None \<Longrightarrow> dropWhile (\<lambda>c. hex_digit c \<noteq> None) ds = []"
  by (simp add: dropWhile_eq_Nil_conv)

lemma strtoul16_hex:
  assumes "ds \<noteq> []" "\<forall>c\<in>set ds. hex_digit c \<noteq> None" "hex_value ds 0 < 2 ^ 64"
  shows "strtoul16 (''0x'' @ ds) = (of_nat (hex_value ds 0), [])"
proof -
  obtain d ds' where d: "ds = d # ds'" "hex_digit d \<noteq> None" using assms(1,2) by (cases ds) auto
  then have p: "hex_prefix (CHR ''0'' # CHR ''x'' # ds) = ds" by simp
  have "\<not> hex_value ds 0 > 2 ^ 64 - 1" using assms(3) by simp
  moreover have "takeWhile (\<lambda>c. hex_digit c \<noteq> None) ds \<noteq> []" using d by simp
  ultimately show ?thesis using p hex_rest[OF assms(2)] unfolding strtoul16_def Let_def by (simp add: is_blank_def del: not_None_eq takeWhile_eq_Nil_iff)
qed

lemma sint_of_nat_32: "v < 2 ^ 31 \<Longrightarrow> sint (of_nat v :: u32) = int v"
  using signed_take_bit_int_eq_self[of 31 "int v"] by (simp add: signed_of_nat)

lemma portmask_hex:
  assumes "ds \<noteq> []" "\<forall>c\<in>set ds. hex_digit c \<noteq> None" "0 < hex_value ds 0" "hex_value ds 0 < 2 ^ 31"
  shows "tw_parse_portmask (''0x'' @ ds) = int (hex_value ds 0)"
proof -
  let ?v = "hex_value ds 0"
  have u: "unat (of_nat ?v :: u64) = ?v" using assms(4) by (simp add: unat_of_nat)
  then have "(of_nat ?v :: u64) \<noteq> 0" using assms(3) by (metis less_irrefl unat_0)
  moreover have "(ucast (of_nat ?v :: u64) :: u32) = of_nat ?v" using assms(4) by (simp add: unsigned_of_nat take_bit_nat_eq_self)
  ultimately show ?thesis using strtoul16_hex[OF assms(1,2)] assms(4) by (simp add: tw_parse_portmask_def sint_of_nat_32)
qed

section \<open>Properties\<close>


text \<open>
  C20. The arguments of the environment, exactly: when the configuration has been read and memory is available, the ten texts are copied if and only if the
  array has ten cells, the core mask at most four characters, the first PCI address at most eleven and the port mask at most three; otherwise a text
  is written behind its block. A PCI address has twelve characters (as in the file that comes with the program), so that its terminator never fits.
\<close>

theorem eal_args_exact:
  assumes "\<And>k. mem_src (js s) 0 k \<noteq> None"
    and "str_at s (coremask s) cm" "str_at s (portmask s) pm" "blacklist s = b # bs" "str_at s b bl"
  shows "eal_args slots s = (if slots < 10 \<or> 5 \<le> length cm \<or> 12 \<le> length bl \<or> 4 \<le> length pm then Some (Fault OutOfBounds)
    else Some (Ret ([''ab'', ''-c'', cm, ''-n'', ''4'', ''-b'', bl, ''--'', ''-p'', pm], s\<lparr>js := (js s)\<lparr>mem_cnt := mem_cnt (js s) + 10\<rparr>\<rparr>)))"
  using assms by (rule eal_args_run)

definition demo_conf_state :: conf where
  "demo_conf_state = tw.extend (demo_tw\<lparr>js := demo_json\<lparr>strs := [10 \<mapsto> ''0xc'', 11 \<mapsto> ''0x1'', 12 \<mapsto> ''0000:00:03.0'']\<rparr>\<rparr>)
     (conf.fields (Some 11) (Some 10) [Some 12] 1)"

theorem eal_args_exact_witness: "eal_args 10 demo_conf_state = Some (Fault OutOfBounds)"
  using eal_args_exact[of demo_conf_state "''0xc''" "''0x1''" "Some 12" "[]" "''0000:00:03.0''" 10]
  by (simp add: demo_conf_state_def tw.defs conf.defs demo_json_def str_at_def)

text \<open>
  Port masks: the value of a hexadecimal text with the usual prefix is the mask. A text that is no number gives -1, which is not the 0 the caller looks for: it becomes the mask with
  all sixteen bits and is accepted, so that a mistyped mask enables every port instead of being refused.
\<close>

theorem portmask_option:
  assumes "ds \<noteq> []" "\<forall>c\<in>set ds. hex_digit c \<noteq> None" "0 < hex_value ds 0" "hex_value ds 0 < 2 ^ 16"
  shows "option_loop [(CHR ''p'', ''0x'' @ ds)] k s = k (s\<lparr>app_port_mask := of_nat (hex_value ds 0)\<rparr>) \<and>
    option_loop [(CHR ''p'', ''zz'')] k s = k (s\<lparr>app_port_mask := 0xFFFF\<rparr>)"
proof
  let ?v = "hex_value ds 0"
  have "unat (of_nat ?v :: u16) = ?v" using assms(4) by (simp add: unat_of_nat)
  then have "(of_nat ?v :: u16) \<noteq> 0" using assms(3) by (metis less_irrefl unat_0)
  then show "option_loop [(CHR ''p'', ''0x'' @ ds)] k s = k (s\<lparr>app_port_mask := of_nat ?v\<rparr>)"
    using portmask_hex[OF assms(1-3)] assms(4) by (simp add: bnd_apply modify_apply)
  have m1: "(- 1 :: u16) = 0xFFFF" by simp
  have "tw_parse_portmask ''zz'' = - 1" by code_simp
  then show "option_loop [(CHR ''p'', ''zz'')] k s = k (s\<lparr>app_port_mask := 0xFFFF\<rparr>)" by (simp add: bnd_apply modify_apply m1)
qed

theorem portmask_option_witness: "option_loop [(CHR ''p'', ''0x3'')] (ret 5) demo_ports = Some (Ret (5, demo_ports\<lparr>app_port_mask := 3\<rparr>))"
proof -
  have "hex_digit CHR ''3'' = Some 3" "hex_value ''3'' 0 = 3" by code_simp+
  then show ?thesis using portmask_option[of "''3''" "ret 5" demo_ports] by (simp add: ret_def)
qed

end
