(* ===== verification/EchoApps.thy ===== *)
theory EchoApps
  imports InitFuncs
begin

text \<open>
  The applications that answer packets: \<open>applications/twetherecho.c\<close>, \<open>twmetherecho.c\<close>, \<open>twudpecho.c\<close>, \<open>twicmpecho.c\<close> and the
  start-up test \<open>tw_env_smoke.c\<close>. Each is a program of its own; the record holds the globals of all of them that live from one call to
  the next. The other globals of the source are assigned in every call before they are read and are local here. Output is left out.
\<close>

record apps = conf +
  dst_eth :: "ether_addr option"
  dst_eth0 :: "ether_addr option"
  dst_eth1 :: "ether_addr option"
  src_tw0_eth :: "ether_addr option"

text \<open>What a run of a program depends on: the arithmetic, stack contents, the system, the devices, the address of the local variable \<open>temp_buffer\<close> of
  \<open>tw_run\<close> and its uninitialised tables.\<close>

record env =
  e_fp :: fp
  e_junk :: "int list"
  e_sys :: sys
  e_dev :: eth_dev
  e_tmp :: nat
  e_tables :: "mbuf_table list"

abbreviation init :: "env \<Rightarrow> ('a conf_scheme, int) act" where
  "init e \<equiv> tw_init_global (e_fp e) (e_junk e) (e_sys e) (e_dev e)"

section \<open>Access through the data pointer of a buffer\<close>

definition data_hdr :: "ptr \<times> nat \<Rightarrow> nat \<Rightarrow> ('a hw_scheme, rte_mbuf) act" where
  "data_hdr d n = bnd (deref mbufs (fst d)) (\<lambda>m. if snd d + n \<le> unat (buf_len m) then ret m else fault OutOfBounds)"

definition data_store :: "ptr \<times> nat \<Rightarrow> nat \<Rightarrow> (nat \<Rightarrow> bytes \<Rightarrow> bytes) \<Rightarrow> ('a hw_scheme, unit) act" where
  "data_store d n f = bnd (data_hdr d n) (\<lambda>m. put_mbuf (fst d) (m\<lparr>buf := f (snd d) (buf m)\<rparr>))"

definition at_mac :: "ether_addr option \<Rightarrow> ('s, ether_addr) act" where
  "at_mac p = (case p of None \<Rightarrow> fault NullDeref | Some mac \<Rightarrow> ret mac)"

text \<open>The code addresses of the callbacks; an application has at most one of each kind at a time.\<close>

abbreviation "RX_CB \<equiv> (1 :: nat)"
abbreviation "TX_CB \<equiv> (2 :: nat)"
abbreviation "TIMER_CB \<equiv> (3 :: nat)"
abbreviation "STATS_CB \<equiv> (4 :: nat)"
abbreviation "INFINITE_LOOP \<equiv> (0 :: u16)"

text \<open>The beginning every \<open>user_app_main\<close> has: a loop, a receive handle and its callback.\<close>

definition start_rx :: "('a evloop_scheme, ptr) act" where
  "start_rx =
     bnd (tw_default_loop INFINITE_LOOP) (\<lambda>tw_loop.
     bnd (tw_rx_init tw_loop) (\<lambda>server.
     if server = None then exit_with 1 else
     bnd (tw_rx_start server (Some RX_CB)) (\<lambda>status.
     if status \<noteq> 0 then exit_with 1 else ret tw_loop)))"

definition rx_only :: "(ptr \<Rightarrow> ptr \<Rightarrow> ('s, unit) act) \<Rightarrow> 's callbacks" where
  "rx_only f = \<lparr>rx_code = (\<lambda>c. if c = RX_CB then f else (\<lambda>_ _. fault WildDeref)),
     tx_code = (\<lambda>_ _. fault WildDeref), timer_code = (\<lambda>_ _. fault WildDeref)\<rparr>"

section \<open>twetherecho.c\<close>

definition echo_frame :: "ether_addr option \<Rightarrow> tw_buf \<Rightarrow> ('a hw_scheme, unit) act" where
  "echo_frame mac b =
     bnd (data_store (tb_data b) sizeof_ether_hdr (\<lambda>e. tw_copy_ether_addr (e + 6) e)) (\<lambda>_.
     bnd (at_mac mac) (\<lambda>ea. data_store (tb_data b) sizeof_ether_hdr (\<lambda>e. set_s_addr e ea)))"

definition etherecho_reply_payload :: "ptr \<Rightarrow> ptr \<Rightarrow> ('a apps_scheme, unit) act" where
  "etherecho_reply_payload handle buffer =
     bnd (deref tw_bufs buffer) (\<lambda>b.
     bnd (\<lambda>s. echo_frame (dst_eth s) b s) (\<lambda>_.
     bnd (tw_send_pkt b ''tw0'') (\<lambda>_. ret ())))"

definition etherecho_user_app_main :: "env \<Rightarrow> ('a apps_scheme, int) act" where
  "etherecho_user_app_main e = bnd start_rx (\<lambda>tw_loop.
     bnd (tw_run (rx_only etherecho_reply_payload) (e_tmp e) (e_tables e) tw_loop) (\<lambda>_. ret 0))"

definition etherecho_main :: "env \<Rightarrow> ('a apps_scheme, int) act" where
  "etherecho_main e =
     bnd (init e) (\<lambda>_.
     bnd (tw_map_port_to_engine ''tw0'' ''engine0'') (\<lambda>_.
     bnd (tw_get_ether_addr ''tw0'') (\<lambda>p.
     bnd (modify (\<lambda>s. s\<lparr>dst_eth := p\<rparr>)) (\<lambda>_.
     bnd (etherecho_user_app_main e) (\<lambda>_. ret 0)))))"

section \<open>twmetherecho.c\<close>

definition metherecho_reply_payload :: "ptr \<Rightarrow> ptr \<Rightarrow> ('a apps_scheme, unit) act" where
  "metherecho_reply_payload handle buffer =
     bnd (deref tw_bufs buffer) (\<lambda>b.
     bnd (\<lambda>s. echo_frame (dst_eth0 s) b s) (\<lambda>_.
     bnd (tw_send_pkt b (tb_port_name b)) (\<lambda>_. ret ())))"

definition metherecho_user_app_main :: "env \<Rightarrow> ('a apps_scheme, int) act" where
  "metherecho_user_app_main e = bnd start_rx (\<lambda>tw_loop.
     bnd (tw_run (rx_only metherecho_reply_payload) (e_tmp e) (e_tables e) tw_loop) (\<lambda>_. ret 0))"

definition metherecho_main :: "env \<Rightarrow> ('a apps_scheme, int) act" where
  "metherecho_main e =
     bnd (init e) (\<lambda>_.
     bnd (tw_map_port_to_engine ''tw0'' ''engine0'') (\<lambda>_.
     bnd (tw_map_port_to_engine ''tw1'' ''engine0'') (\<lambda>_.
     bnd (tw_get_ether_addr ''tw0'') (\<lambda>p. bnd (modify (\<lambda>s. s\<lparr>dst_eth0 := p\<rparr>)) (\<lambda>_.
     bnd (tw_get_ether_addr ''tw1'') (\<lambda>p. bnd (modify (\<lambda>s. s\<lparr>dst_eth1 := p\<rparr>)) (\<lambda>_.
     bnd (metherecho_user_app_main e) (\<lambda>_. ret 0))))))))"

section \<open>Answering an IPv4 packet\<close>

text \<open>The stores to the header at \<open>p\<close>: the addresses are exchanged and the checksum is computed again.\<close>

definition swap_ips :: "nat \<Rightarrow> bytes \<Rightarrow> bytes" where
  "swap_ips p b =
     (let dst_ip = rd32 b (p + 16); src_ip = rd32 b (p + 12);
          b = set_dst_addr p src_ip b;
          b = set_src_addr p dst_ip b
      in case tw_ipv4_cksum p b of (ck, b) \<Rightarrow> set_hdr_checksum p ck b)"

text \<open>The stores that turn an echo request at \<open>c\<close> into a reply.\<close>

definition icmp_reply :: "nat \<Rightarrow> bytes \<Rightarrow> bytes" where
  "icmp_reply c b =
     (let b = wr8 c 0 b;
          b = wr16 (c + 2) 0 b
      in wr16 (c + 2) (tw_calcsum b c (int sizeof_icmp_echo)) b)"

abbreviation "ICMP_PROTO_ID \<equiv> (1 :: u8)"

section \<open>twudpecho.c\<close>

text \<open>
  \<open>(struct udp_hdr *) ipHdr_d + sizeof(struct ipv4_hdr)\<close> adds 20 UDP headers, that is 160 bytes, and the
  globals \<open>dst_port\<close> and \<open>src_port\<close> have eight bits.
\<close>

definition swap_ports :: "nat \<Rightarrow> bytes \<Rightarrow> bytes" where
  "swap_ports u b =
     (let dst_port = (ucast (rd16 b (u + 2)) :: u8); src_port = (ucast (rd16 b u) :: u8);
          b = wr16 (u + 2) (ucast src_port) b;
          b = wr16 u (ucast dst_port) b
      in wr16 (u + 6) 0 b)"

definition udpecho_reply_payload :: "ptr \<Rightarrow> ptr \<Rightarrow> ('a apps_scheme, unit) act" where
  "udpecho_reply_payload handle buffer =
     bnd (deref tw_bufs buffer) (\<lambda>b.
     bnd (data_hdr (tb_data b) sizeof_ether_hdr) (\<lambda>m.
     let eth_type = tw_be_to_cpu_16 (ether_type (ether_hdr_at (buf m) (snd (tb_data b)))) in
     if eth_type = ETHER_TYPE_ARP then bnd (tw_arp_parser b ''tw0'') (\<lambda>_. ret ())
     else if eth_type = ETHER_TYPE_IPv4 then
       bnd (data_store (tb_data b) (sizeof_ether_hdr + sizeof_ipv4_hdr) (\<lambda>e. swap_ips (e + sizeof_ether_hdr))) (\<lambda>_.
       bnd (data_store (tb_data b) (sizeof_ether_hdr + 160 + sizeof_udp_hdr) (\<lambda>e. swap_ports (e + sizeof_ether_hdr + 160))) (\<lambda>_.
       bnd (\<lambda>s. echo_frame (dst_eth s) b s) (\<lambda>_.
       bnd (tw_send_pkt b ''tw0'') (\<lambda>_. ret ()))))
     else ret ()))"

definition udpecho_user_app_main :: "env \<Rightarrow> ('a apps_scheme, int) act" where
  "udpecho_user_app_main e = bnd start_rx (\<lambda>tw_loop.
     bnd (tw_run (rx_only udpecho_reply_payload) (e_tmp e) (e_tables e) tw_loop) (\<lambda>_. ret 0))"

definition udpecho_main :: "env \<Rightarrow> ('a apps_scheme, int) act" where
  "udpecho_main e =
     bnd (init e) (\<lambda>_.
     bnd (tw_map_port_to_engine ''tw0'' ''engine0'') (\<lambda>_.
     bnd (tw_get_ether_addr ''tw0'') (\<lambda>p.
     bnd (modify (\<lambda>s. s\<lparr>dst_eth := p\<rparr>)) (\<lambda>_.
     bnd (udpecho_user_app_main e) (\<lambda>_. ret 0)))))"

section \<open>twicmpecho.c\<close>

definition icmpecho_reply_payload :: "ptr \<Rightarrow> ptr \<Rightarrow> ('a apps_scheme, unit) act" where
  "icmpecho_reply_payload handle buffer =
     bnd (deref tw_bufs buffer) (\<lambda>b.
     bnd (data_hdr (tb_data b) sizeof_ether_hdr) (\<lambda>m.
     let eth_type = tw_be_to_cpu_16 (ether_type (ether_hdr_at (buf m) (snd (tb_data b)))) in
     if eth_type = ETHER_TYPE_ARP then bnd (tw_arp_parser b ''tw0'') (\<lambda>_. ret ())
     else if eth_type = ETHER_TYPE_IPv4 then
       bnd (data_hdr (tb_data b) (sizeof_ether_hdr + sizeof_ipv4_hdr)) (\<lambda>m.
       bnd (if next_proto_id (ipv4_hdr_at (buf m) (snd (tb_data b) + sizeof_ether_hdr)) = ICMP_PROTO_ID
            then data_store (tb_data b) (sizeof_ether_hdr + sizeof_ipv4_hdr + sizeof_icmp_echo)
              (\<lambda>e. icmp_reply (e + sizeof_ether_hdr + sizeof_ipv4_hdr))
            else ret ()) (\<lambda>_.
       bnd (data_store (tb_data b) (sizeof_ether_hdr + sizeof_ipv4_hdr) (\<lambda>e. swap_ips (e + sizeof_ether_hdr))) (\<lambda>_.
       bnd (\<lambda>s. echo_frame (src_tw0_eth s) b s) (\<lambda>_.
       bnd (tw_send_pkt b ''tw0'') (\<lambda>_. ret ())))))
     else ret ()))"

definition icmpecho_user_app_main :: "env \<Rightarrow> ('a apps_scheme, int) act" where
  "icmpecho_user_app_main e = bnd start_rx (\<lambda>tw_loop.
     bnd (tw_run (rx_only icmpecho_reply_payload) (e_tmp e) (e_tables e) tw_loop) (\<lambda>_. ret 0))"

definition icmpecho_main :: "env \<Rightarrow> ('a apps_scheme, int) act" where
  "icmpecho_main e =
     bnd (init e) (\<lambda>_.
     bnd (tw_map_port_to_engine ''tw0'' ''engine0'') (\<lambda>_.
     bnd (tw_get_ether_addr ''tw0'') (\<lambda>p.
     bnd (modify (\<lambda>s. s\<lparr>src_tw0_eth := p\<rparr>)) (\<lambda>_.
     bnd (icmpecho_user_app_main e) (\<lambda>_. ret 0)))))"

section \<open>tw\_env\_smoke.c\<close>

text \<open>\<open>argc\<close> is the number of arguments of the process; \<open>argv\<close> has one cell more, for the terminating null pointer.\<close>

definition env_smoke_main :: "env \<Rightarrow> nat \<Rightarrow> ('a apps_scheme, int) act" where
  "env_smoke_main e argc =
     (if uid (e_sys e) \<noteq> 0 then exit_with 0 else
      bnd (tw_smoke_init_eal_env (e_fp e) (e_sys e) (argc + 1)) (\<lambda>r. if r \<noteq> 0 then ret (- 1) else
      bnd tw_smoke_create_rx_tx_mempools (\<lambda>r. if r \<noteq> 0 then ret (- 1) else
      bnd (modify (tw_lcore_conf_init (lcore_enabled (e_sys e)) (lcore_socket (e_sys e)))) (\<lambda>_.
      bnd (tw_smoke_eth_port_init (e_dev e)) (\<lambda>r. if r \<noteq> 0 then ret (- 1) else ret 0)))))"

section \<open>Answers\<close>

lemma data_hdr_run [run_simps]:
  "mbufs s a = Some m \<Longrightarrow> off + n \<le> unat (buf_len m) \<Longrightarrow> data_hdr (Some a, off) n s = Some (Ret (m, s))"
  by (simp add: data_hdr_def run_simps)

lemma data_store_run [run_simps]:
  "mbufs s a = Some m \<Longrightarrow> off + n \<le> unat (buf_len m) \<Longrightarrow>
   data_store (Some a, off) n f s = Some (Ret ((), s\<lparr>mbufs := (mbufs s)(a \<mapsto> m\<lparr>buf := f off (buf m)\<rparr>)\<rparr>))"
  by (simp add: data_store_def put_mbuf_def run_simps)

definition echo_bytes :: "ether_addr \<Rightarrow> nat \<Rightarrow> bytes \<Rightarrow> bytes" where
  "echo_bytes mac e b = set_s_addr e mac (tw_copy_ether_addr (e + 6) e b)"

lemma echo_frame_run:
  assumes "mbufs s a = Some m" "off + 14 \<le> unat (buf_len m)" "tb_data b = (Some a, off)"
  shows "echo_frame (Some mac) b s = Some (Ret ((), s\<lparr>mbufs := (mbufs s)(a \<mapsto> m\<lparr>buf := echo_bytes mac off (buf m)\<rparr>)\<rparr>))"
  using assms by (simp add: echo_frame_def run_simps at_mac_def echo_bytes_def)

lemma echo_bytes_fields:
  "rd_mac (echo_bytes mac e b) e = rd_mac b (e + 6)" "rd_mac (echo_bytes mac e b) (e + 6) = mac"
  "e + 12 \<le> k \<or> k < e \<Longrightarrow> echo_bytes mac e b k = b k"
  by (auto simp: echo_bytes_def tw_copy_ether_addr_def ether_addr_copy_def field_simps_buf)

text \<open>\<open>holds_pkt t a m s\<close>: the buffer at \<open>t\<close> describes the packet at \<open>a\<close>, which the running code is responsible for.\<close>

definition holds_pkt :: "nat \<Rightarrow> nat \<Rightarrow> rte_mbuf \<Rightarrow> 'a stats_scheme \<Rightarrow> bool" where
  "holds_pkt t a m s \<longleftrightarrow> loose s a = Some m \<and> (\<exists>b. tw_bufs s t = Some b \<and> tb_pkt b = Some a \<and> tb_data b = (Some a, mtod m))"

text \<open>\<open>answered p a m' s s'\<close>: the packet was sent with content \<open>m'\<close> on port \<open>p\<close>, and nothing else happened.\<close>

definition answered :: "nat \<Rightarrow> nat \<Rightarrow> rte_mbuf \<Rightarrow> 'a stats_scheme \<Rightarrow> 'a stats_scheme \<Rightarrow> bool" where
  "answered p a m' s s' \<longleftrightarrow> tx_inv s' \<and> tx_frame s s' \<and> loose s' = (loose s)(a := None) \<and> sent p a m' s s'"

lemma send_pkt_run:
  assumes "tx_inv s" "loose s a = Some m" "tb_pkt b = Some a" "tw_eth_name_to_id nm s = int p" "p < 8"
  shows "\<exists>s'. tw_send_pkt b nm (s\<lparr>mbufs := (mbufs s)(a \<mapsto> m')\<rparr>) = Some (Ret (0, s')) \<and> answered p a m' s s'"
proof -
  have u: "unat (word_of_int (int p) :: u8) = p" using assms(5) by (simp add: unat_of_nat)
  have "tw_eth_name_to_id nm (s\<lparr>mbufs := (mbufs s)(a \<mapsto> m')\<rparr>) = int p" using assms(4) by (simp add: tw_eth_name_to_id_def)
  then show ?thesis using send_written[OF assms(1) _ assms(2), of "word_of_int (int p)" m'] assms(3,5) unfolding u
    by (auto simp: tw_send_pkt_def answered_def)
qed

lemma etherecho_run:
  assumes "tx_inv s" "holds_pkt t a m s" "mtod m + 14 \<le> unat (buf_len m)" "dst_eth s = Some mac" "tw_eth_name_to_id ''tw0'' s = int p" "p < 8"
  shows "\<exists>s'. etherecho_reply_payload h (Some t) s = Some (Ret ((), s')) \<and> answered p a (m\<lparr>buf := echo_bytes mac (mtod m) (buf m)\<rparr>) s s'"
proof -
  obtain b where b: "tw_bufs s t = Some b" "tb_pkt b = Some a" "tb_data b = (Some a, mtod m)" "loose s a = Some m"
    using assms(2) by (auto simp: holds_pkt_def)
  obtain s' where s': "tw_send_pkt b ''tw0'' (s\<lparr>mbufs := (mbufs s)(a \<mapsto> m\<lparr>buf := echo_bytes mac (mtod m) (buf m)\<rparr>)\<rparr>) = Some (Ret (0, s'))"
    "answered p a (m\<lparr>buf := echo_bytes mac (mtod m) (buf m)\<rparr>) s s'"
    using send_pkt_run[OF assms(1) b(4,2) assms(5,6)] by blast
  have "etherecho_reply_payload h (Some t) s = Some (Ret ((), s'))"
    using b(1) s'(1) echo_frame_run[OF looseD[OF b(4)] assms(3) b(3), of mac] assms(4) by (simp add: etherecho_reply_payload_def run_simps)
  with s'(2) show ?thesis by blast
qed

section \<open>Answers to IPv4 packets\<close>

lemma swap_ips_fields:
  "rd32 (swap_ips p b) (p + 12) = rd32 b (p + 16)" "rd32 (swap_ips p b) (p + 16) = rd32 b (p + 12)"
  "k < p + 10 \<or> p + 20 \<le> k \<Longrightarrow> swap_ips p b k = b k" "rte_raw_cksum (swap_ips p b) p 20 = 0xFFFF"
proof -
  let ?c = "set_hdr_checksum p 0 (set_src_addr p (rd32 b (p + 16)) (set_dst_addr p (rd32 b (p + 12)) b))"
  have s: "swap_ips p b = wr16 (p + 10) (rte_ipv4_cksum ?c p) ?c"
    by (simp add: swap_ips_def tw_ipv4_cksum_def Let_def)
  show "rd32 (swap_ips p b) (p + 12) = rd32 b (p + 16)" "rd32 (swap_ips p b) (p + 16) = rd32 b (p + 12)"
    "k < p + 10 \<or> p + 20 \<le> k \<Longrightarrow> swap_ips p b k = b k" unfolding s by (auto simp: field_simps_buf)
  have "rd16 ?c (p + 10) = 0" by (simp add: field_simps_buf)
  then show "rte_raw_cksum (swap_ips p b) p 20 = 0xFFFF" unfolding s by (rule ipv4_cksum_ok)
qed

lemma icmp_reply_fields:
  "icmp_reply c b c = 0" "k < c \<or> c + 4 \<le> k \<or> k = c + 1 \<Longrightarrow> icmp_reply c b k = b k" "rte_raw_cksum (icmp_reply c b) c 8 = 0xFFFF"
proof -
  let ?b = "wr16 (c + 2) 0 (wr8 c 0 b)"
  have s: "icmp_reply c b = wr16 (c + 2) (tw_calcsum ?b c 8) ?b" by (simp add: icmp_reply_def Let_def)
  show "icmp_reply c b c = 0" "k < c \<or> c + 4 \<le> k \<or> k = c + 1 \<Longrightarrow> icmp_reply c b k = b k" unfolding s by (auto simp: field_simps_buf)
  have "rd16 ?b (c + 2) = 0" by (simp add: field_simps_buf)
  then show "rte_raw_cksum (icmp_reply c b) c 8 = 0xFFFF" using calcsum_store[of 8 1 ?b c] unfolding s by simp
qed

lemma word_sum_cong: "(\<And>k. p \<le> k \<Longrightarrow> k < p + len \<Longrightarrow> b k = c k) \<Longrightarrow> word_sum b p len = word_sum c p len"
proof (induction b p len rule: word_sum.induct)
  case (1 b p len)
  show ?case
  proof (cases "len \<ge> 2")
    case True
    moreover have "rd16 b p = rd16 c p" using 1(2) True by (intro rd16_cong) auto
    moreover have "word_sum b (p + 2) (len - 2) = word_sum c (p + 2) (len - 2)" using 1(2) True by (intro 1(1)) auto
    ultimately show ?thesis by (simp add: word_sum_2)
  qed (use 1(2)[of p] in \<open>auto simp: word_sum.simps\<close>)
qed

lemma raw_cksum_cong: "(\<And>k. p \<le> k \<Longrightarrow> k < p + len \<Longrightarrow> b k = c k) \<Longrightarrow> len \<le> 131072 \<Longrightarrow> rte_raw_cksum b p len = rte_raw_cksum c p len"
  using word_sum_cong[of p len b c] raw_cksum_oc[of len b p] raw_cksum_oc[of len c p] by (simp add: word_unat_eq_iff)

text \<open>The bytes of the answer of \<open>twicmpecho\<close> to the frame at \<open>e\<close>.\<close>

definition icmp_answer :: "ether_addr \<Rightarrow> nat \<Rightarrow> bytes \<Rightarrow> bytes" where
  "icmp_answer mac e b = echo_bytes mac e (swap_ips (e + 14) (if b (e + 23) = ICMP_PROTO_ID then icmp_reply (e + 34) b else b))"

lemma icmp_answer_fields:
  "rd_mac (icmp_answer mac e b) e = rd_mac b (e + 6)" "rd_mac (icmp_answer mac e b) (e + 6) = mac"
  "rd32 (icmp_answer mac e b) (e + 26) = rd32 b (e + 30)" "rd32 (icmp_answer mac e b) (e + 30) = rd32 b (e + 26)"
  "rte_raw_cksum (icmp_answer mac e b) (e + 14) 20 = 0xFFFF"
  "12 \<le> k \<Longrightarrow> k < 24 \<Longrightarrow> icmp_answer mac e b (e + k) = b (e + k)" "e + 38 \<le> k \<Longrightarrow> icmp_answer mac e b k = b k"
proof -
  let ?i = "if b (e + 23) = ICMP_PROTO_ID then icmp_reply (e + 34) b else b"
  have i: "?i k = b k" if "k < e + 34 \<or> e + 38 \<le> k" for k using that icmp_reply_fields(2)[of k "e + 34" b] by auto
  have r: "rd32 ?i k = rd32 b k" if "k + 4 \<le> e + 34" for k using that i by (intro rd32_cong) auto
  have hi: "icmp_answer mac e b k = swap_ips (e + 14) ?i k" if "e + 12 \<le> k" for k
    using that echo_bytes_fields(3)[of e k mac "swap_ips (e + 14) ?i"] by (simp add: icmp_answer_def)
  have rh: "rd32 (icmp_answer mac e b) k = rd32 (swap_ips (e + 14) ?i) k" if "e + 12 \<le> k" for k using that hi by (intro rd32_cong) auto
  show "rd_mac (icmp_answer mac e b) e = rd_mac b (e + 6)"
  proof -
    have "rd_mac (swap_ips (e + 14) ?i) (e + 6) = rd_mac b (e + 6)" using swap_ips_fields(3)[of _ "e + 14" ?i] i by (simp add: rd_mac_def)
    then show ?thesis unfolding icmp_answer_def echo_bytes_fields(1) .
  qed
  show "rd_mac (icmp_answer mac e b) (e + 6) = mac" unfolding icmp_answer_def by (rule echo_bytes_fields)
  show "rd32 (icmp_answer mac e b) (e + 26) = rd32 b (e + 30)" "rd32 (icmp_answer mac e b) (e + 30) = rd32 b (e + 26)"
    using rh[of "e + 26"] rh[of "e + 30"] swap_ips_fields(1,2)[of "e + 14" ?i] r[of "e + 26"] r[of "e + 30"] by (simp_all add: add.assoc)
  show "rte_raw_cksum (icmp_answer mac e b) (e + 14) 20 = 0xFFFF"
    using raw_cksum_cong[of "e + 14" 20 "icmp_answer mac e b" "swap_ips (e + 14) ?i"] hi swap_ips_fields(4)[of "e + 14" ?i] by simp
  show "12 \<le> k \<Longrightarrow> k < 24 \<Longrightarrow> icmp_answer mac e b (e + k) = b (e + k)" using hi[of "e + k"] swap_ips_fields(3)[of "e + k" "e + 14" ?i] i[of "e + k"] by simp
  show "e + 38 \<le> k \<Longrightarrow> icmp_answer mac e b k = b k" using hi[of k] swap_ips_fields(3)[of k "e + 14" ?i] i[of k] by simp
qed

lemma icmp_answer_message:
  assumes "b (e + 23) = ICMP_PROTO_ID"
  shows "e + 34 \<le> k \<Longrightarrow> icmp_answer mac e b k = icmp_reply (e + 34) b k" "icmp_answer mac e b (e + 34) = 0"
    "rte_raw_cksum (icmp_answer mac e b) (e + 34) 8 = 0xFFFF"
proof -
  show a: "icmp_answer mac e b k = icmp_reply (e + 34) b k" if "e + 34 \<le> k" for k
    using that assms echo_bytes_fields(3)[of e k] swap_ips_fields(3)[of k "e + 14"] by (simp add: icmp_answer_def)
  show "icmp_answer mac e b (e + 34) = 0" using a[of "e + 34"] icmp_reply_fields(1) by simp
  show "rte_raw_cksum (icmp_answer mac e b) (e + 34) 8 = 0xFFFF"
    using raw_cksum_cong[of "e + 34" 8 "icmp_answer mac e b" "icmp_reply (e + 34) b"] a icmp_reply_fields(3)[of "e + 34" b] by simp
qed

text \<open>The checksum of the whole message is right exactly when the data behind the header contribute nothing.\<close>

lemma icmp_answer_whole:
  assumes "b (e + 23) = ICMP_PROTO_ID" "8 \<le> n" "n \<le> 131072"
  shows "rte_raw_cksum (icmp_answer mac e b) (e + 34) n = 0xFFFF \<longleftrightarrow> word_sum b (e + 42) (n - 8) mod 65535 = 0"
proof -
  let ?B = "icmp_answer mac e b"
  have "word_sum ?B (e + 34) n = word_sum ?B (e + 34) 8 + word_sum ?B (e + 42) (n - 8)"
    using word_sum_8[OF assms(2), of ?B "e + 34"] word_sum_8[of 8 ?B "e + 34"] by (simp add: word_sum.simps[of _ _ 0] add.commute[of e])
  moreover have "word_sum ?B (e + 42) (n - 8) = word_sum b (e + 42) (n - 8)" using icmp_answer_fields(7) by (intro word_sum_cong) auto
  moreover have "word_sum ?B (e + 34) 8 \<noteq> 0" "word_sum ?B (e + 34) 8 mod 65535 = 0"
    using icmp_answer_message(3)[of b e mac] assms(1) raw_cksum_full[of 8 ?B "e + 34"] by simp_all
  ultimately show ?thesis using raw_cksum_full[OF assms(3), of ?B "e + 34"] by (simp add: mod_add_left_eq[symmetric])
qed

lemma icmpecho_run:
  assumes "tx_inv s" "holds_pkt t a m s" "mtod m + 42 \<le> unat (buf_len m)" "src_tw0_eth s = Some mac" "tw_eth_name_to_id ''tw0'' s = int p" "p < 8"
    and "tw_be_to_cpu_16 (rd16 (buf m) (mtod m + 12)) = ETHER_TYPE_IPv4"
  shows "\<exists>s'. icmpecho_reply_payload h (Some t) s = Some (Ret ((), s')) \<and> answered p a (m\<lparr>buf := icmp_answer mac (mtod m) (buf m)\<rparr>) s s'"
proof -
  obtain b where b: "tw_bufs s t = Some b" "tb_pkt b = Some a" "tb_data b = (Some a, mtod m)" "loose s a = Some m"
    using assms(2) by (auto simp: holds_pkt_def)
  obtain s' where s': "tw_send_pkt b ''tw0'' (s\<lparr>mbufs := (mbufs s)(a \<mapsto> m\<lparr>buf := icmp_answer mac (mtod m) (buf m)\<rparr>)\<rparr>) = Some (Ret (0, s'))"
    "answered p a (m\<lparr>buf := icmp_answer mac (mtod m) (buf m)\<rparr>) s s'"
    using send_pkt_run[OF assms(1) b(4,2) assms(5,6)] by blast
  let ?i = "if buf m (mtod m + 23) = ICMP_PROTO_ID then icmp_reply (mtod m + 34) (buf m) else buf m"
  let ?m1 = "m\<lparr>buf := swap_ips (mtod m + 14) ?i\<rparr>"
  have e: "echo_frame (Some mac) b (s\<lparr>mbufs := (mbufs s)(a \<mapsto> ?m1)\<rparr>) = Some (Ret ((), s\<lparr>mbufs := (mbufs s)(a \<mapsto> m\<lparr>buf := icmp_answer mac (mtod m) (buf m)\<rparr>)\<rparr>))"
    using echo_frame_run[of "s\<lparr>mbufs := (mbufs s)(a \<mapsto> ?m1)\<rparr>" a ?m1 "mtod m" b mac] assms(3) b(3) by (simp add: icmp_answer_def)
  have "icmpecho_reply_payload h (Some t) s = Some (Ret ((), s'))"
    using b looseD[OF b(4)] assms(3,4,7) s'(1) e
    by (cases "buf m (mtod m + 23) = ICMP_PROTO_ID") (simp_all add: icmpecho_reply_payload_def run_simps add.assoc)
  with s'(2) show ?thesis by blast
qed

text \<open>The answer of \<open>twudpecho\<close>: the port stores go to bytes 174 to 181 of the frame.\<close>

definition udp_answer :: "ether_addr \<Rightarrow> nat \<Rightarrow> bytes \<Rightarrow> bytes" where
  "udp_answer mac e b = echo_bytes mac e (swap_ports (e + 174) (swap_ips (e + 14) b))"

lemma swap_ports_fields: "k < u \<or> u + 8 \<le> k \<or> k = u + 4 \<or> k = u + 5 \<Longrightarrow> swap_ports u b k = b k"
  "rd16 (swap_ports u b) u = ucast (ucast (rd16 b (u + 2)) :: u8)" "rd16 (swap_ports u b) (u + 2) = ucast (ucast (rd16 b u) :: u8)"
  by (auto simp: swap_ports_def Let_def field_simps_buf)

lemma udp_answer_fields:
  "rd_mac (udp_answer mac e b) e = rd_mac b (e + 6)" "rd_mac (udp_answer mac e b) (e + 6) = mac"
  "rd32 (udp_answer mac e b) (e + 26) = rd32 b (e + 30)" "rd32 (udp_answer mac e b) (e + 30) = rd32 b (e + 26)"
  "e + 34 \<le> k \<Longrightarrow> k < e + 174 \<Longrightarrow> udp_answer mac e b k = b k"
  "rd16 (udp_answer mac e b) (e + 174) = ucast (ucast (rd16 b (e + 176)) :: u8)"
proof -
  let ?i = "swap_ips (e + 14) b"
  have hi: "udp_answer mac e b k = swap_ports (e + 174) ?i k" if "e + 12 \<le> k" for k
    using that echo_bytes_fields(3)[of e k mac] by (simp add: udp_answer_def)
  have lo: "udp_answer mac e b k = ?i k" if "e + 12 \<le> k" "k < e + 174" for k
    using that hi[of k] swap_ports_fields(1)[of k "e + 174" ?i] by simp
  have rl: "rd32 (udp_answer mac e b) k = rd32 ?i k" if "e + 12 \<le> k" "k + 4 \<le> e + 174" for k using that lo by (intro rd32_cong) auto
  show "rd_mac (udp_answer mac e b) e = rd_mac b (e + 6)"
  proof -
    have "swap_ports (e + 174) ?i k = b k" if "k < e + 14" for k
      using that swap_ports_fields(1)[of k "e + 174" ?i] swap_ips_fields(3)[of k "e + 14" b] by simp
    then have "rd_mac (swap_ports (e + 174) ?i) (e + 6) = rd_mac b (e + 6)" by (simp add: rd_mac_def)
    then show ?thesis unfolding udp_answer_def echo_bytes_fields(1) .
  qed
  show "rd_mac (udp_answer mac e b) (e + 6) = mac" unfolding udp_answer_def by (rule echo_bytes_fields)
  show "rd32 (udp_answer mac e b) (e + 26) = rd32 b (e + 30)" "rd32 (udp_answer mac e b) (e + 30) = rd32 b (e + 26)"
    using rl[of "e + 26"] rl[of "e + 30"] swap_ips_fields(1,2)[of "e + 14" b] by (simp_all add: add.assoc)
  show "e + 34 \<le> k \<Longrightarrow> k < e + 174 \<Longrightarrow> udp_answer mac e b k = b k" using lo[of k] swap_ips_fields(3)[of k "e + 14" b] by simp
  have "rd16 (udp_answer mac e b) (e + 174) = rd16 (swap_ports (e + 174) ?i) (e + 174)" using hi by (simp add: rd16_def)
  moreover have "rd16 ?i (e + 174 + 2) = rd16 b (e + 176)" using swap_ips_fields(3)[of _ "e + 14" b] by (simp add: rd16_def add.commute[of e])
  ultimately show "rd16 (udp_answer mac e b) (e + 174) = ucast (ucast (rd16 b (e + 176)) :: u8)" unfolding swap_ports_fields(2) by simp
qed

lemma udpecho_run:
  assumes "tx_inv s" "holds_pkt t a m s" "mtod m + 182 \<le> unat (buf_len m)" "dst_eth s = Some mac" "tw_eth_name_to_id ''tw0'' s = int p" "p < 8"
    and "tw_be_to_cpu_16 (rd16 (buf m) (mtod m + 12)) = ETHER_TYPE_IPv4"
  shows "\<exists>s'. udpecho_reply_payload h (Some t) s = Some (Ret ((), s')) \<and> answered p a (m\<lparr>buf := udp_answer mac (mtod m) (buf m)\<rparr>) s s'"
proof -
  obtain b where b: "tw_bufs s t = Some b" "tb_pkt b = Some a" "tb_data b = (Some a, mtod m)" "loose s a = Some m"
    using assms(2) by (auto simp: holds_pkt_def)
  obtain s' where s': "tw_send_pkt b ''tw0'' (s\<lparr>mbufs := (mbufs s)(a \<mapsto> m\<lparr>buf := udp_answer mac (mtod m) (buf m)\<rparr>)\<rparr>) = Some (Ret (0, s'))"
    "answered p a (m\<lparr>buf := udp_answer mac (mtod m) (buf m)\<rparr>) s s'"
    using send_pkt_run[OF assms(1) b(4,2) assms(5,6)] by blast
  let ?m1 = "m\<lparr>buf := swap_ports (mtod m + 174) (swap_ips (mtod m + 14) (buf m))\<rparr>"
  have e: "echo_frame (Some mac) b (s\<lparr>mbufs := (mbufs s)(a \<mapsto> ?m1)\<rparr>) = Some (Ret ((), s\<lparr>mbufs := (mbufs s)(a \<mapsto> m\<lparr>buf := udp_answer mac (mtod m) (buf m)\<rparr>)\<rparr>))"
    using echo_frame_run[of "s\<lparr>mbufs := (mbufs s)(a \<mapsto> ?m1)\<rparr>" a ?m1 "mtod m" b mac] assms(3) b(3) by (simp add: udp_answer_def)
  have "udpecho_reply_payload h (Some t) s = Some (Ret ((), s'))"
    using b looseD[OF b(4)] assms(3,4,7) s'(1) e by (simp add: udpecho_reply_payload_def run_simps add.assoc)
  with s'(2) show ?thesis by blast
qed

section \<open>What handling an ARP packet leaves alone\<close>

text \<open>The ports and everything above the ARP table.\<close>

definition above_arp :: "'a arp_scheme \<Rightarrow> port_info list \<times> 'a" where
  "above_arp s = (port_infos s, arp.more s)"

lemma keeps_mbuf [keeps_intros]:
  "keeps above_arp rte_malloc" "keeps above_arp (rte_pktmbuf_free p)" "keeps above_arp (put_mbuf p m)"
  "keeps above_arp (port_at i)" "keeps above_arp (port_mac pi)" "keeps above_arp (tw_search_arp_table ip)" "keeps above_arp get_qconf"
  by (auto simp: keeps_def above_arp_def rte_malloc_def rte_pktmbuf_free_def put_mbuf_def port_at_def port_mac_def tw_search_arp_table_def get_qconf_def
      run_simps lift_res_def obnd_def split: option.splits outcome.splits if_splits)

lemma keeps_mbuf_hdr [keeps_intros]: "keeps above_arp (mbuf_hdr p n)"
  unfolding mbuf_hdr_def by (intro keeps_intros)

lemma keeps_write_hdr [keeps_intros]: "keeps above_arp (write_hdr p n f)"
  unfolding write_hdr_def by (intro keeps_intros)

lemma keeps_get_table [keeps_intros]: "keeps above_arp (get_table p)"
  unfolding get_table_def by (intro keeps_intros)

lemma keeps_driver_take [keeps_intros]: "keeps above_arp (driver_take port ps)"
  by (induction ps) (auto simp: above_arp_def intro!: keeps_intros)

lemma keeps_tx_burst [keeps_intros]: "keeps above_arp (rte_eth_tx_burst port tbl)"
proof -
  have k: "keeps above_arp (bnd (driver_take port ps) (\<lambda>_. ret k))" for ps and k :: nat by (intro keeps_intros)
  have "above_arp (s\<lparr>tx_cnt := n\<rparr>) = above_arp s" for s :: "'a arp_scheme" and n by (simp add: above_arp_def)
  then show ?thesis using k unfolding keeps_def rte_eth_tx_burst_def Let_def by metis
qed

lemma keeps_send_burst [keeps_intros]: "keeps above_arp (tw_send_burst n port)"
  unfolding tw_send_burst_def Let_def by (intro keeps_intros) (simp_all add: above_arp_def add_pkts_tx_def add_pkts_dropped_def)

lemma keeps_add_pkt [keeps_intros]: "keeps above_arp (tw_add_pkt_to_tx_queue m port)"
  unfolding tw_add_pkt_to_tx_queue_def Let_def by (intro keeps_intros) (simp_all add: above_arp_def put_table_def)

lemma keeps_add_arp [keeps_intros]: "keeps above_arp (tw_add_arp_entry ip mac port)"
proof -
  have f: "keeps above_arp (fill_arp_entry ip mac port p)" for p unfolding fill_arp_entry_def by (intro keeps_intros) (simp add: above_arp_def)
  have n: "keeps above_arp (bnd rte_malloc (\<lambda>p. bnd (modify (\<lambda>s. s\<lparr>arp_table_root := p\<rparr>)) (\<lambda>_. fill_arp_entry ip mac port p)))"
    by (intro keeps_intros f) (simp add: above_arp_def)
  have c: "keeps above_arp (bnd (lift_res w) (\<lambda>l. bnd rte_malloc (\<lambda>p.
      bnd (set_cell arp_heap arp_heap_update (Some l) (\<lambda>n. n\<lparr>at_next := p\<rparr>)) (\<lambda>_. fill_arp_entry ip mac port p))))" for w
    by (intro keeps_intros f) (simp add: above_arp_def)
  show ?thesis unfolding tw_add_arp_entry_def keeps_def by (auto split: option.splits dest: keepsD[OF n] keepsD[OF c])
qed

lemma keeps_parse_arp: "keeps above_arp (tw_parse_arp pkt port)"
  unfolding tw_parse_arp_def get_arp_def tw_process_arp_reply_def tw_send_arp_reply_def by (intro keeps_intros)

section \<open>The contract of a receive callback\<close>

text \<open>
  A callback is given an untagged IPv4 packet and must dispose of it. \<open>ready\<close> is what it needs to work; it may depend on the ports and on the
  state above the ARP table. Together with the ARP module this gives that the event loop leaves no packet of a burst behind.
\<close>

abbreviation type_of :: "rte_mbuf \<Rightarrow> u16" where
  "type_of m \<equiv> tw_be_to_cpu_16 (rd16 (buf m) (mtod m + 12))"

locale rx_app =
  fixes cb :: "ptr \<Rightarrow> ptr \<Rightarrow> ('a evloop_scheme, unit) act"
    and fits :: "rte_mbuf \<Rightarrow> bool"
    and ready :: "'a evloop_scheme \<Rightarrow> bool"
  assumes serves: "ready s \<Longrightarrow> arp_good s \<Longrightarrow> holds_pkt t a m s \<Longrightarrow> type_of m = ETHER_TYPE_IPv4 \<Longrightarrow> fits m \<Longrightarrow>
      \<exists>s'. cb h (Some t) s = Some (Ret ((), s')) \<and> ready s' \<and> arp_good s' \<and> port_infos s' = port_infos s \<and> rx_hs s' = rx_hs s \<and>
        loose s' = (loose s)(a := None)"
    and ready_above: "above_arp s' = above_arp s \<Longrightarrow> ready s \<Longrightarrow> ready s'"
    and fits_hdr: "fits m \<Longrightarrow> mtod m + 14 \<le> unat (buf_len m)"
begin

definition pkt_fits :: "rte_mbuf \<Rightarrow> bool" where
  "pkt_fits m \<longleftrightarrow> type_of m = ETHER_TYPE_ARP \<and> arp_fits m \<or> type_of m = ETHER_TYPE_IPv4 \<and> fits m"

lemma dispatch_run:
  assumes g: "arp_good s" "ready s" "port_up s (of_nat i)" "i < 8" and h: "rx_hs s r = Some n" "recv_cb n = Some c" "rx_code cbs c = cb"
    and m: "loose s a = Some m" "pkt_fits m"
  shows "\<exists>s'. dispatch cbs (Some r) tmp i (Some a) s = Some (Ret ((), s')) \<and> arp_good s' \<and> ready s' \<and> port_infos s' = port_infos s \<and>
    rx_hs s' = rx_hs s \<and> loose s' = (loose s)(a := None)"
proof -
  have u: "unat (of_nat i :: u8) = i" using g(4) by (simp add: unat_of_nat)
  have up: "i < length (port_infos s)" using g(3,4) u by (simp add: port_up_def)
  have mm: "mbufs s a = Some m" by (rule looseD[OF m(1)])
  have fit: "mtod m + 14 \<le> unat (buf_len m)" using m(2) fits_hdr by (auto simp: pkt_fits_def arp_fits_def)
  have once: "dispatch cbs (Some r) tmp i (Some a) s = Some (Ret ((), s'))" if "dispatch_step cbs (Some r) tmp i (Some a) s = Some (Ret (False, s'))" for s'
    using that by (subst dispatch.simps) simp
  consider (arp) "type_of m = ETHER_TYPE_ARP" "arp_fits m" | (ip) "type_of m = ETHER_TYPE_IPv4" "fits m" using m(2) by (auto simp: pkt_fits_def)
  then show ?thesis
  proof cases
    case arp
    obtain x s' where s': "tw_parse_arp (Some a) (of_nat i) s = Some (Ret (x, s'))" "arp_good s'" "loose s' = (loose s)(a := None)"
      using arp_handler.handled[OF g(1,3) m(1) arp(2)] by blast
    have ab: "above_arp s' = above_arp s" by (rule keepsD[OF keeps_parse_arp s'(1)])
    have "dispatch_step cbs (Some r) tmp i (Some a) s = Some (Ret (False, s'))"
      using mm fit arp(1) s'(1) by (simp add: dispatch_step_def run_simps)
    moreover have "rx_hs s' = rx_hs s" using ab by (cases s; cases s') (simp add: above_arp_def)
    ultimately show ?thesis using once s' ready_above[OF ab g(2)] ab by (auto simp: above_arp_def)
  next
    case ip
    let ?s1 = "s\<lparr>tw_bufs := (tw_bufs s)(tmp \<mapsto> \<lparr>tb_pkt = Some a, tb_data = (Some a, mtod m), tb_size = data_len m, tb_port_name = port_name (port_infos s ! i)\<rparr>)\<rparr>"
    have v: "loose ?s1 = loose s" "arp_good ?s1 = arp_good s"
      using tx_view_cong[of ?s1 s] by (simp_all add: arp_good_def arp_ready_def malloc_fresh_def arp_tab_def)
    have "ready ?s1" using ready_above[of ?s1 s] g(2) by (simp add: above_arp_def)
    moreover have "holds_pkt tmp a m ?s1" using m(1) v(1) by (simp add: holds_pkt_def)
    ultimately obtain s' where s': "cb (Some r) (Some tmp) ?s1 = Some (Ret ((), s'))" "ready s'" "arp_good s'" "port_infos s' = port_infos s" "rx_hs s' = rx_hs s"
      "loose s' = (loose s)(a := None)"
      using serves[of ?s1 tmp a m "Some r"] g(1) v ip by auto
    have "dispatch_step cbs (Some r) tmp i (Some a) s = Some (Ret (False, s'))"
      using mm fit ip(1) s'(1) h up by (simp add: dispatch_step_def run_simps port_at_def call_rx_def)
    then show ?thesis using once s'(2-) by blast
  qed
qed

lemma burst_run:
  assumes "arp_good s" "ready s" "port_up s (of_nat i)" "i < 8" "rx_hs s r = Some n" "recv_cb n = Some c" "rx_code cbs c = cb"
    and "distinct as" "\<And>a. a \<in> set as \<Longrightarrow> \<exists>m. loose s a = Some m \<and> pkt_fits m"
  shows "\<exists>s'. for_each as (\<lambda>a. dispatch cbs (Some r) tmp i (Some a)) s = Some (Ret ((), s')) \<and> arp_good s' \<and> ready s' \<and> port_infos s' = port_infos s \<and>
    rx_hs s' = rx_hs s \<and> loose s' = loose s |` (- set as)"
  using assms
proof (induction as arbitrary: s)
  case Nil
  then show ?case by (simp add: run_simps)
next
  case (Cons a as)
  obtain m where "loose s a = Some m" "pkt_fits m" using Cons.prems(9)[of a] by auto
  from dispatch_run[OF Cons.prems(1-7) this] obtain s1 where s1: "dispatch cbs (Some r) tmp i (Some a) s = Some (Ret ((), s1))" "arp_good s1" "ready s1"
    "port_infos s1 = port_infos s" "rx_hs s1 = rx_hs s" "loose s1 = (loose s)(a := None)" by blast
  have "\<exists>m. loose s1 b = Some m \<and> pkt_fits m" if "b \<in> set as" for b using that Cons.prems(8,9) s1(6) by auto
  then obtain s' where s': "for_each as (\<lambda>a. dispatch cbs (Some r) tmp i (Some a)) s1 = Some (Ret ((), s'))" "arp_good s'" "ready s'"
    "port_infos s' = port_infos s" "rx_hs s' = rx_hs s" "loose s' = loose s1 |` (- set as)"
    using Cons.IH[of s1] Cons.prems s1(2-5) by (auto simp: port_up_def)
  moreover have "loose s1 |` (- set as) = loose s |` (- set (a # as))" unfolding s1(6) by (auto simp: restrict_map_def fun_eq_iff)
  ultimately show ?case using s1(1) by (simp add: run_simps)
qed

end

lemma for_each_map: "for_each (map g ys) f = for_each ys (\<lambda>y. f (g y))"
  by (induction ys) simp_all

lemma for_each_nth: "for_each [0..<length xs] (\<lambda>k. f (xs ! k)) = for_each xs f"
  using for_each_map[of "(!) xs" "[0..<length xs]" f] by (simp add: map_nth)

lemma for_each_cong: "(\<And>x. x \<in> set xs \<Longrightarrow> f x = g x) \<Longrightarrow> for_each xs f = for_each xs g"
  by (induction xs) simp_all

text \<open>\<open>burst_in ms i as\<close>: table \<open>i\<close> holds the packets \<open>as\<close> of a burst.\<close>

definition burst_in :: "mbuf_table list \<Rightarrow> nat \<Rightarrow> nat list \<Rightarrow> bool" where
  "burst_in ms i as \<longleftrightarrow> i < length ms \<and> mt_len (ms ! i) = int (length as) \<and> (\<exists>rest. m_table (ms ! i) = map Some as @ rest)"

lemma burst_port:
  assumes "burst_in ms i as"
  shows "dispatch_port cbs rxh tmp ms i s = for_each as (\<lambda>a. dispatch cbs rxh tmp i (Some a)) s"
proof -
  obtain rest where t: "i < length ms" "mt_len (ms ! i) = int (length as)" "m_table (ms ! i) = map Some as @ rest" using assms by (auto simp: burst_in_def)
  have "for_each [0..<length as] (\<lambda>k. bnd (index_ck (m_table (ms ! i)) k) (\<lambda>pkt. dispatch cbs rxh tmp i pkt)) =
      for_each [0..<length as] (\<lambda>k. dispatch cbs rxh tmp i (Some (as ! k)))"
    by (intro for_each_cong) (simp add: t(3) index_ck_def nth_append)
  then show ?thesis using t(1,2) for_each_nth[of as "\<lambda>a. dispatch cbs rxh tmp i (Some a)"] by (simp add: dispatch_port_def run_simps)
qed

lemma answered_good:
  fixes s s' :: "'a evloop_scheme"
  assumes "answered p a m' s s'" "arp_good s"
  shows "arp_good s'" "port_infos s' = port_infos s" "rx_hs s' = rx_hs s" "loose s' = (loose s)(a := None)" "above_arp s' = above_arp s"
proof -
  have f: "tx_frame s s'" "tx_inv s'" "loose s' = (loose s)(a := None)" using assms(1) by (auto simp: answered_def)
  have eq: "s' = s\<lparr>mbufs := mbufs s', tx_cnt := tx_cnt s', wire := wire s', lcore_confs := lcore_confs s', tw_stats := tw_stats s'\<rparr>"
    using f(1) by (simp add: tx_frame_def)
  show "arp_good s'" using assms(2) tx_frame_arp[OF f(1)] f(2) by (simp add: arp_good_def)
  show "port_infos s' = port_infos s" "rx_hs s' = rx_hs s" by (subst eq, simp)+
  show "above_arp s' = above_arp s" unfolding above_arp_def by (subst (1 2) eq) simp
  show "loose s' = (loose s)(a := None)" by (rule f(3))
qed

text \<open>The name is known, and belongs to one of the eight ports.\<close>

definition knows_port :: "string \<Rightarrow> 'a ports_scheme \<Rightarrow> bool" where
  "knows_port nm s \<longleftrightarrow> (\<exists>p<8. tw_eth_name_to_id nm s = int p)"

lemma knows_port_cong: "port_infos s' = port_infos s \<Longrightarrow> knows_port nm s' = knows_port nm s"
  by (simp add: knows_port_def tw_eth_name_to_id_def)

definition etherecho_ready :: "'a apps_scheme \<Rightarrow> bool" where
  "etherecho_ready s \<longleftrightarrow> dst_eth s \<noteq> None \<and> knows_port ''tw0'' s"

definition icmpecho_ready :: "'a apps_scheme \<Rightarrow> bool" where
  "icmpecho_ready s \<longleftrightarrow> src_tw0_eth s \<noteq> None \<and> knows_port ''tw0'' s"

definition room :: "nat \<Rightarrow> rte_mbuf \<Rightarrow> bool" where
  "room n m \<longleftrightarrow> mtod m + n \<le> unat (buf_len m)"

lemma ready_cong:
  assumes "above_arp s' = above_arp s"
  shows "etherecho_ready s' = etherecho_ready s" "icmpecho_ready s' = icmpecho_ready s"
proof -
  have "dst_eth s' = dst_eth s" using assms by (cases s; cases s') (simp add: above_arp_def)
  moreover have "src_tw0_eth s' = src_tw0_eth s" using assms by (cases s; cases s') (simp add: above_arp_def)
  moreover have "port_infos s' = port_infos s" using assms by (simp add: above_arp_def)
  ultimately show "etherecho_ready s' = etherecho_ready s" "icmpecho_ready s' = icmpecho_ready s"
    using knows_port_cong[of s' s "''tw0''"] by (simp_all add: etherecho_ready_def icmpecho_ready_def)
qed

interpretation etherecho: rx_app etherecho_reply_payload "room 14" etherecho_ready
proof
  fix s :: "'a apps_scheme" and t a m h
  assume g: "etherecho_ready s" "arp_good s" "holds_pkt t a m s" "room 14 m"
  then obtain mac p where r: "dst_eth s = Some mac" "tw_eth_name_to_id ''tw0'' s = int p" "p < 8" by (auto simp: etherecho_ready_def knows_port_def)
  obtain s' where s': "etherecho_reply_payload h (Some t) s = Some (Ret ((), s'))" "answered p a (m\<lparr>buf := echo_bytes mac (mtod m) (buf m)\<rparr>) s s'"
    using etherecho_run[of s t a m mac p h] g r by (auto simp: arp_good_def room_def)
  then show "\<exists>s'. etherecho_reply_payload h (Some t) s = Some (Ret ((), s')) \<and> etherecho_ready s' \<and> arp_good s' \<and> port_infos s' = port_infos s \<and>
      rx_hs s' = rx_hs s \<and> loose s' = (loose s)(a := None)"
    using answered_good[OF s'(2) g(2)] ready_cong(1)[of s' s] g(1) by blast
qed (auto simp: room_def dest: ready_cong)

interpretation icmpecho: rx_app icmpecho_reply_payload "room 42" icmpecho_ready
proof
  fix s :: "'a apps_scheme" and t a m h
  assume g: "icmpecho_ready s" "arp_good s" "holds_pkt t a m s" "type_of m = ETHER_TYPE_IPv4" "room 42 m"
  then obtain mac p where r: "src_tw0_eth s = Some mac" "tw_eth_name_to_id ''tw0'' s = int p" "p < 8" by (auto simp: icmpecho_ready_def knows_port_def)
  obtain s' where s': "icmpecho_reply_payload h (Some t) s = Some (Ret ((), s'))" "answered p a (m\<lparr>buf := icmp_answer mac (mtod m) (buf m)\<rparr>) s s'"
    using icmpecho_run[of s t a m mac p h] g r by (auto simp: arp_good_def room_def)
  then show "\<exists>s'. icmpecho_reply_payload h (Some t) s = Some (Ret ((), s')) \<and> icmpecho_ready s' \<and> arp_good s' \<and> port_infos s' = port_infos s \<and>
      rx_hs s' = rx_hs s \<and> loose s' = (loose s)(a := None)"
    using answered_good[OF s'(2) g(2)] ready_cong(2)[of s' s] g(1) by blast
qed (auto simp: room_def dest: ready_cong)

section \<open>A machine for the witnesses\<close>

text \<open>Port 0 is tw0; buffer 5 describes packet 9, a frame of type IPv4 with an ICMP message of 30 bytes that starts with an echo request.\<close>

definition demo_ping :: rte_mbuf where
  "demo_ping = demo_mbuf\<lparr>buf := wr16 140 (tw_cpu_to_be_16 ETHER_TYPE_IPv4) (wr8 151 1 (wr_mac 134 (EA 2 0 0 0 0 2)
     (wr32 154 0x0200000A (wr32 158 0x0100000A (wr8 162 8 (wr8 170 7 (\<lambda>_. 0)))))))\<rparr>"

definition demo_app :: "rte_mbuf \<Rightarrow> apps" where
  "demo_app m = conf.extend (demo_conf_state\<lparr>port_infos := demo_up\<lparr>port_name := ''tw0''\<rparr> # replicate 7 demo_up, mbufs := (mbufs demo_loop)(9 \<mapsto> m),
     tw_bufs := [5 \<mapsto> \<lparr>tb_pkt = Some 9, tb_data = (Some 9, 128), tb_size = 64, tb_port_name = ''tw0''\<rparr>]\<rparr>)
     (apps.fields (Some (EA 2 0 0 0 0 1)) (Some (EA 2 0 0 0 0 1)) (Some (EA 2 0 0 0 0 2)) (Some (EA 2 0 0 0 0 1)))"

lemmas demo_app_defs = demo_app_def conf.defs apps.defs demo_conf_state_def tw.defs demo_tw_def evloop.defs

lemma demo_app_views:
  "lcore_confs (demo_app m) = lcore_confs demo_loop" "lcore_id (demo_app m) = lcore_id demo_loop" "mbufs (demo_app m) = (mbufs demo_loop)(9 \<mapsto> m)"
  "arp_heap (demo_app m) = arp_heap demo_loop" "arp_table_root (demo_app m) = arp_table_root demo_loop" "arp_table_size (demo_app m) = arp_table_size demo_loop"
  "malloc_src (demo_app m) = malloc_src demo_loop" "malloc_cnt (demo_app m) = malloc_cnt demo_loop"
  "port_infos (demo_app m) = demo_up\<lparr>port_name := ''tw0''\<rparr> # replicate 7 demo_up"
  "tw_bufs (demo_app m) = [5 \<mapsto> \<lparr>tb_pkt = Some 9, tb_data = (Some 9, 128), tb_size = 64, tb_port_name = ''tw0''\<rparr>]"
  "dst_eth (demo_app m) = Some (EA 2 0 0 0 0 1)" "src_tw0_eth (demo_app m) = Some (EA 2 0 0 0 0 1)" "rx_hs (demo_app m) = rx_hs demo_loop"
  by (simp_all add: demo_app_defs)

lemma demo_app_facts:
  "arp_good (demo_app m)" "tx_inv (demo_app m)" "loose (demo_app m) 9 = Some m" "tw_eth_name_to_id ''tw0'' (demo_app m) = 0"
  "p < 8 \<Longrightarrow> port_up (demo_app m) (of_nat p)" "mtod m = 128 \<Longrightarrow> holds_pkt 5 9 m (demo_app m)" "p < 8 \<Longrightarrow> txq (demo_app m) p = []"
proof -
  note d = demo_app_views[of m]
  have a: "arp_good demo_loop" "loose demo_loop 9 = Some demo_mbuf" using demo_loop_facts by simp_all
  let ?t = "demo_loop\<lparr>mbufs := (mbufs demo_loop)(9 \<mapsto> m)\<rparr>"
  have t: "tx_inv ?t" "loose ?t = (loose demo_loop)(9 \<mapsto> m)" using loose_write[of demo_loop 9 demo_mbuf m] a by (simp_all add: arp_good_def)
  have v: "tx_inv (demo_app m)" "loose (demo_app m) = loose ?t" using t(1) tx_view_cong[of "demo_app m" ?t] by (simp_all add: d)
  show "tx_inv (demo_app m)" by (rule v)
  show l: "loose (demo_app m) 9 = Some m" using v t by simp
  show "arp_good (demo_app m)" using a v by (simp add: arp_good_def arp_ready_def malloc_fresh_def arp_tab_def d)
  show "tw_eth_name_to_id ''tw0'' (demo_app m) = 0"
    by (simp add: tw_eth_name_to_id_def d demo_up_def demo_port_def numeral_eq_Suc)
  show "p < 8 \<Longrightarrow> port_up (demo_app m) (of_nat p)" by (auto simp: port_up_def d demo_up_def unat_of_nat nth_Cons split: nat.splits)
  show "mtod m = 128 \<Longrightarrow> holds_pkt 5 9 m (demo_app m)" using l by (simp add: holds_pkt_def d)
  show "p < 8 \<Longrightarrow> txq (demo_app m) p = []"
    using demo_tx_facts(1)[of p] tx_view_cong(1)[of "demo_app m" demo_loop] by (simp add: d txq_def tx_table_def demo_loop_views demo_queue_views)
qed

lemma demo_ping_fields:
  "mtod demo_ping = 128" "unat (buf_len demo_ping) = 2176" "type_of demo_ping = ETHER_TYPE_IPv4" "buf demo_ping 151 = 1"
  by (simp_all add: demo_ping_def demo_mbuf_def field_simps_buf)

section \<open>Properties\<close>

text \<open>
  C11. \<open>twicmpecho\<close> answers a ping: the packet leaves on tw0 with the sender as destination and the port as source, on both layers, with a header
  checksum that verifies, as an echo reply whose eight header bytes check out, and with identifier, sequence number and data unchanged. Nothing
  else changes, and the packet has left the hands of the callback.
\<close>

theorem icmp_echo_answers:
  assumes "tx_inv s" "holds_pkt t a m s" "mtod m + 42 \<le> unat (buf_len m)" "src_tw0_eth s = Some mac" "tw_eth_name_to_id ''tw0'' s = int p" "p < 8"
    and "type_of m = ETHER_TYPE_IPv4" "buf m (mtod m + 23) = ICMP_PROTO_ID"
  defines "e \<equiv> mtod m"
  shows "\<exists>s' b. icmpecho_reply_payload h (Some t) s = Some (Ret ((), s')) \<and> answered p a (m\<lparr>buf := b\<rparr>) s s' \<and>
    rd_mac b e = rd_mac (buf m) (e + 6) \<and> rd_mac b (e + 6) = mac \<and> rd32 b (e + 26) = rd32 (buf m) (e + 30) \<and> rd32 b (e + 30) = rd32 (buf m) (e + 26) \<and>
    rte_raw_cksum b (e + 14) 20 = 0xFFFF \<and> b (e + 34) = 0 \<and> rte_raw_cksum b (e + 34) 8 = 0xFFFF \<and>
    (\<forall>k. 12 \<le> k \<and> k < 24 \<or> 38 \<le> k \<longrightarrow> b (e + k) = buf m (e + k))"
proof -
  obtain s' where r: "icmpecho_reply_payload h (Some t) s = Some (Ret ((), s'))" "answered p a (m\<lparr>buf := icmp_answer mac e (buf m)\<rparr>) s s'"
    using icmpecho_run[OF assms(1-7)] unfolding e_def by blast
  have pr: "buf m (e + 23) = ICMP_PROTO_ID" using assms(8) by (simp add: e_def)
  have "icmp_answer mac e (buf m) (e + k) = buf m (e + k)" if "12 \<le> k \<and> k < 24 \<or> 38 \<le> k" for k
    using that icmp_answer_fields(6)[of k mac e "buf m"] icmp_answer_fields(7)[of e "e + k" mac "buf m"] by auto
  then show ?thesis
    using r icmp_answer_fields(1-5)[of mac e "buf m"] icmp_answer_message(2)[of "buf m" e mac, OF pr] icmp_answer_message(3)[of "buf m" e mac, OF pr]
    by (intro exI[of _ s'] exI[of _ "icmp_answer mac e (buf m)"] conjI allI impI) simp_all
qed

theorem icmp_echo_answers_witness:
  "\<exists>s' b. icmpecho_reply_payload None (Some 5) (demo_app demo_ping) = Some (Ret ((), s')) \<and> txq s' 0 = [9] \<and> mbufs s' 9 = Some (demo_ping\<lparr>buf := b\<rparr>) \<and>
     rd_mac b 128 = EA 2 0 0 0 0 2 \<and> b 162 = 0 \<and> rte_raw_cksum b 162 8 = 0xFFFF"
proof -
  have "rd_mac (buf demo_ping) 134 = EA 2 0 0 0 0 2" by (simp add: demo_ping_def demo_mbuf_def rd_mac_def wr16_at wr8_at wr32_at)
  with icmp_echo_answers[where s = "demo_app demo_ping" and t = 5 and a = 9 and m = demo_ping and mac = "EA 2 0 0 0 0 1" and p = 0 and h = None, unfolded demo_ping_fields(1)]
  show ?thesis using demo_app_facts(1-4,6)[of demo_ping] demo_app_facts(7)[of 0 demo_ping] demo_app_views(12)[of demo_ping] demo_ping_fields by (auto simp: answered_def sent_def Let_def)
qed

text \<open>
  C27. The ICMP checksum of the answer covers only the eight bytes of the echo header instead of the whole message: for a message of n bytes it
  verifies if and only if the data behind the header add up to zero in one's complement. A ping with data, such as those of the usual tools, gets
  an answer every receiver drops.
\<close>

theorem icmp_echo_checksum:
  assumes "buf m (e + 23) = ICMP_PROTO_ID" "8 \<le> n" "n \<le> 131072"
  shows "rte_raw_cksum (icmp_answer mac e (buf m)) (e + 34) n = 0xFFFF \<longleftrightarrow> word_sum (buf m) (e + 42) (n - 8) mod 65535 = 0"
  using assms by (rule icmp_answer_whole)

theorem icmp_echo_checksum_witness: "rte_raw_cksum (icmp_answer (EA 2 0 0 0 0 1) 128 (buf demo_ping)) 162 30 \<noteq> 0xFFFF"
proof -
  have b: "buf demo_ping 151 = ICMP_PROTO_ID" by (rule demo_ping_fields)
  have "word_sum (buf demo_ping) 170 22 = 7"
    by (simp add: demo_ping_def demo_mbuf_def word_sum.simps rd16_def wr16_at wr8_at wr32_at)
  then show ?thesis using icmp_echo_checksum[of demo_ping 128 30 "EA 2 0 0 0 0 1"] b by simp
qed



text \<open>
  C28. \<open>twudpecho\<close> does not answer the sender's port. In the frame it sends back the addresses of both layers are exchanged, but the UDP header
  behind a 20-byte IPv4 header, and all data up to byte 173, are as they came: the answer keeps the request's ports. The store meant for the
  ports lands 174 bytes into the frame, where it truncates 16-bit fields to eight bits.
\<close>

theorem udp_echo_keeps_ports:
  assumes "tx_inv s" "holds_pkt t a m s" "mtod m + 182 \<le> unat (buf_len m)" "dst_eth s = Some mac" "tw_eth_name_to_id ''tw0'' s = int p" "p < 8"
    and "type_of m = ETHER_TYPE_IPv4"
  defines "e \<equiv> mtod m"
  shows "\<exists>s' b. udpecho_reply_payload h (Some t) s = Some (Ret ((), s')) \<and> answered p a (m\<lparr>buf := b\<rparr>) s s' \<and>
    rd_mac b e = rd_mac (buf m) (e + 6) \<and> rd_mac b (e + 6) = mac \<and> rd32 b (e + 26) = rd32 (buf m) (e + 30) \<and> rd32 b (e + 30) = rd32 (buf m) (e + 26) \<and>
    (\<forall>k. 34 \<le> k \<and> k < 174 \<longrightarrow> b (e + k) = buf m (e + k)) \<and> rd16 b (e + 174) = ucast (ucast (rd16 (buf m) (e + 176)) :: u8)"
proof -
  obtain s' where "udpecho_reply_payload h (Some t) s = Some (Ret ((), s'))" "answered p a (m\<lparr>buf := udp_answer mac e (buf m)\<rparr>) s s'"
    using udpecho_run[OF assms(1-7)] unfolding e_def by blast
  then show ?thesis using udp_answer_fields(1-4,6)[of mac e "buf m"] udp_answer_fields(5)[of e "e + _" mac "buf m"]
    by (intro exI[of _ s'] exI[of _ "udp_answer mac e (buf m)"] conjI allI impI) simp_all
qed

theorem udp_echo_keeps_ports_witness:
  "\<exists>s' b. udpecho_reply_payload None (Some 5) (demo_app demo_ping) = Some (Ret ((), s')) \<and> txq s' 0 = [9] \<and> mbufs s' 9 = Some (demo_ping\<lparr>buf := b\<rparr>) \<and>
     b 162 = 8 \<and> b 170 = 7"
proof -
  have "buf demo_ping 162 = 8" "buf demo_ping 170 = 7" by (simp_all add: demo_ping_def demo_mbuf_def wr16_at wr8_at wr32_at)
  moreover obtain s' b where r: "udpecho_reply_payload None (Some 5) (demo_app demo_ping) = Some (Ret ((), s'))"
      "answered 0 9 (demo_ping\<lparr>buf := b\<rparr>) (demo_app demo_ping) s'" "\<forall>k. 34 \<le> k \<and> k < 174 \<longrightarrow> b (128 + k) = buf demo_ping (128 + k)"
    using udp_echo_keeps_ports[where s = "demo_app demo_ping" and t = 5 and a = 9 and m = demo_ping and mac = "EA 2 0 0 0 0 1" and p = 0 and h = None,
      unfolded demo_ping_fields(1)] demo_app_facts(2,4,6)[of demo_ping] demo_app_views(11)[of demo_ping] demo_ping_fields by auto
  ultimately have "b 162 = 8" "b 170 = 7" using r(3)[rule_format, of 34] r(3)[rule_format, of 42] by simp_all
  then show ?thesis using r(1,2) demo_app_facts(7)[of 0 demo_ping] by (intro exI[of _ s'] exI[of _ b]) (simp add: answered_def sent_def Let_def)
qed

end
