(* ===== verification/Gateway.thy ===== *)
theory Gateway
  imports EchoApps
begin

text \<open>
  \<open>applications/twgateway.c\<close>: a router between two ports. The route table is a linked list whose nodes are packed, so that
  the three bytes of the port name are followed by the bytes of the pointer \<open>next\<close>. Packets whose next hop is not known wait in an array.
\<close>

record route_table =
  rt_net_addr :: u32
  rt_gateway :: u32
  rt_net_mask :: u32
  rt_port_name :: string
  rt_next :: ptr

record gateway = apps +
  route_heap :: "route_table heap"
  route_table_root :: ptr
  route_table_size :: u32
  sq_pkts :: "ptr list"
  sq_n_pkts :: u32

abbreviation "MAX_QUEUE_PACKETS \<equiv> (1000 :: nat)"

text \<open>
  What a reader of the C string at \<open>port_name\<close> sees: the three bytes, then those of \<open>next\<close> in memory order, up to the first NUL. Names it is
  compared with are shorter than the eleven bytes, so nothing behind them matters.
\<close>

definition ptr_bytes :: "ptr \<Rightarrow> string" where
  "ptr_bytes p = (let a = (case p of None \<Rightarrow> 0 | Some a \<Rightarrow> a) in map (\<lambda>k. char_of (a div 256 ^ k)) [0..<8])"

definition route_name :: "route_table \<Rightarrow> string" where
  "route_name n = takeWhile (\<lambda>c. c \<noteq> NUL) (rt_port_name n @ ptr_bytes (rt_next n))"

section \<open>Waiting packets\<close>

definition tw_sq_push :: "ptr \<Rightarrow> ('a gateway_scheme, int) act" where
  "tw_sq_push pkt = (\<lambda>s. if unat (sq_n_pkts s) \<ge> 1000 then Some (Ret (0, s))
     else if unat (sq_n_pkts s) < length (sq_pkts s)
     then Some (Ret (1, s\<lparr>sq_pkts := (sq_pkts s)[unat (sq_n_pkts s) := pkt], sq_n_pkts := sq_n_pkts s + 1\<rparr>))
     else Some (Fault OutOfBounds))"

definition tw_n_queue :: "'a gateway_scheme \<Rightarrow> int" where
  "tw_n_queue s = (if sq_n_pkts s < 1 then 0 else sint (sq_n_pkts s))"

section \<open>Routes\<close>

text \<open>\<open>memcpy\<close> reads three bytes of the name, its terminator included.\<close>

definition fill_route :: "u32 \<Rightarrow> u32 \<Rightarrow> u32 \<Rightarrow> ptr \<Rightarrow> nat \<Rightarrow> ('a gateway_scheme, int) act" where
  "fill_route net_to_add netmask_to_add gateway_to_add port_id a =
     bnd (text_at port_id) (\<lambda>nm. if length nm < 2 then fault OutOfBounds else
     bnd (modify (\<lambda>s. s\<lparr>route_heap := (route_heap s)(a \<mapsto> \<lparr>rt_net_addr = tw_be_to_cpu_32 net_to_add, rt_gateway = tw_be_to_cpu_32 gateway_to_add,
       rt_net_mask = tw_be_to_cpu_32 netmask_to_add, rt_port_name = take 3 (nm @ [NUL]), rt_next = None\<rparr>),
       route_table_size := route_table_size s + 1\<rparr>)) (\<lambda>_. ret 0))"

definition link_route :: "('a gateway_scheme, ptr) act" where
  "link_route = (\<lambda>s. case route_table_root s of
       None \<Rightarrow> bnd rte_malloc (\<lambda>p. bnd (modify (\<lambda>s. s\<lparr>route_table_root := p\<rparr>)) (\<lambda>_. ret p)) s
     | Some r \<Rightarrow> bnd (lift_res (walk_last rt_next (route_heap s) r)) (\<lambda>l. bnd rte_malloc (\<lambda>p.
         bnd (set_cell route_heap route_heap_update (Some l) (\<lambda>n. n\<lparr>rt_next := p\<rparr>)) (\<lambda>_. ret p))) s)"

definition tw_add_route_entry :: "u32 \<Rightarrow> u32 \<Rightarrow> u32 \<Rightarrow> ptr \<Rightarrow> ('a gateway_scheme, int) act" where
  "tw_add_route_entry net_to_add netmask_to_add gateway_to_add port_id =
     bnd link_route (\<lambda>p. case p of None \<Rightarrow> exit_with 0 | Some a \<Rightarrow> fill_route net_to_add netmask_to_add gateway_to_add port_id a)"

partial_function (option) route_walk :: "route_table heap \<Rightarrow> u32 \<Rightarrow> ptr \<Rightarrow> ptr res" where
  "route_walk h ip p = (case p of
       None \<Rightarrow> Some (Ret None)
     | Some a \<Rightarrow> (case h a of
         None \<Rightarrow> Some (Fault WildDeref)
       | Some n \<Rightarrow> if rt_net_mask n AND ip = rt_net_addr n then Some (Ret (Some a)) else route_walk h ip (rt_next n)))"

definition tw_search_route :: "u32 \<Rightarrow> ('a gateway_scheme, ptr) act" where
  "tw_search_route ip_to_search = (\<lambda>s. lift_res (route_walk (route_heap s) ip_to_search (route_table_root s)) s)"

definition conf_route :: "int list \<Rightarrow> ptr \<Rightarrow> u8 \<Rightarrow> ('a gateway_scheme, unit) act" where
  "conf_route junk json_file i =
     bnd (with_json (cJSON_GetArrayItem json_file (int (unat i)))) (\<lambda>subitem.
     bnd (item_addr junk subitem ''net_addr'') (\<lambda>net_addr_tmp.
     bnd (item_addr junk subitem ''gateway'') (\<lambda>gateway_tmp.
     bnd (item_addr junk subitem ''net_mask'') (\<lambda>net_mask_tmp.
     bnd (item_string subitem ''port_name'') (\<lambda>port_name_tmp.
     bnd (tw_add_route_entry net_addr_tmp net_mask_tmp gateway_tmp port_name_tmp) (\<lambda>_. ret ()))))))"

definition parse_user_params :: "fp \<Rightarrow> int list \<Rightarrow> string \<Rightarrow> ('a gateway_scheme, int) act" where
  "parse_user_params fp junk file_name =
     bnd (tw_parse_json_file fp file_name) (\<lambda>json_file.
     if json_file = None then ret (- 1)
     else bnd (u8_loop (with_json (cJSON_GetArraySize json_file)) (conf_route junk json_file) 0) (\<lambda>_. ret 0))"

section \<open>Packets\<close>

text \<open>The answer to a packet for an address of the gateway, on the port of the route at hand; \<open>eth\<close> points to the start of the packet.\<close>

definition answer_ping :: "string \<Rightarrow> tw_buf \<Rightarrow> ('a gateway_scheme, int) act" where
  "answer_ping nm b =
     bnd (data_hdr (tb_data b) (sizeof_ether_hdr + sizeof_ipv4_hdr)) (\<lambda>m.
     bnd (if next_proto_id (ipv4_hdr_at (buf m) (snd (tb_data b) + sizeof_ether_hdr)) = ICMP_PROTO_ID
          then data_store (tb_data b) (sizeof_ether_hdr + sizeof_ipv4_hdr + sizeof_icmp_echo)
            (\<lambda>e. icmp_reply (e + sizeof_ether_hdr + sizeof_ipv4_hdr))
          else ret ()) (\<lambda>_.
     bnd (data_store (tb_data b) (sizeof_ether_hdr + sizeof_ipv4_hdr) (\<lambda>e. swap_ips (e + sizeof_ether_hdr))) (\<lambda>_.
     bnd (tw_get_ether_addr nm) (\<lambda>mac.
     bnd (echo_frame mac b) (\<lambda>_.
     bnd (tw_send_pkt b nm) (\<lambda>_. ret 0))))))"

partial_function (option) ping_walk :: "tw_buf \<Rightarrow> ptr \<Rightarrow> 'a gateway_scheme \<Rightarrow> (int \<times> 'a gateway_scheme) res" where
  "ping_walk b p s = (case p of
       None \<Rightarrow> ret 1 s
     | Some a \<Rightarrow>
         bnd (deref route_heap p) (\<lambda>n.
         bnd (tw_get_ip_addr (route_name n)) (\<lambda>temp_ip.
         bnd (data_hdr (tb_data b) (sizeof_ether_hdr + sizeof_ipv4_hdr)) (\<lambda>m.
         if temp_ip = tw_be_to_cpu_32 (dst_addr (ipv4_hdr_at (buf m) (snd (tb_data b) + sizeof_ether_hdr)))
         then answer_ping (route_name n) b
         else ping_walk b (rt_next n)))) s)"

definition check_gateway_ping :: "tw_buf \<Rightarrow> ('a gateway_scheme, int) act" where
  "check_gateway_ping b = (\<lambda>s. ping_walk b (route_table_root s) s)"

text \<open>The packet leaves on the port if the route names it.\<close>

definition leave_on :: "route_table \<Rightarrow> string \<Rightarrow> ether_addr option \<Rightarrow> tw_buf \<Rightarrow> ('a gateway_scheme, unit) act" where
  "leave_on n nm mac b = (if route_name n = nm
     then bnd (at_mac mac) (\<lambda>ea.
       bnd (data_store (tb_data b) sizeof_ether_hdr (\<lambda>e. set_s_addr e ea)) (\<lambda>_.
       bnd (tw_send_pkt b nm) (\<lambda>_. ret ())))
     else ret ())"

definition route_pkt :: "ptr \<Rightarrow> tw_buf \<Rightarrow> ('a gateway_scheme, unit) act" where
  "route_pkt buffer b =
     bnd (data_hdr (tb_data b) (sizeof_ether_hdr + sizeof_ipv4_hdr)) (\<lambda>m.
     let dst = dst_addr (ipv4_hdr_at (buf m) (snd (tb_data b) + sizeof_ether_hdr)) in
     bnd (tw_search_route dst) (\<lambda>temp_route_ptr.
     if temp_route_ptr = None then tw_free_pkt buffer else
     bnd (tw_search_arp_table dst) (\<lambda>temp_arp_entry.
     bnd (deref route_heap temp_route_ptr) (\<lambda>n.
     if temp_arp_entry = None then
       bnd (tw_send_arp_request dst (route_name n)) (\<lambda>_.
       bnd (tw_sq_push buffer) (\<lambda>_. ret ()))
     else
       bnd (deref arp_heap temp_arp_entry) (\<lambda>e.
       bnd (data_store (tb_data b) sizeof_ether_hdr (\<lambda>off. set_d_addr off (at_eth_mac e))) (\<lambda>_.
       bnd (\<lambda>s. leave_on n ''tw0'' (dst_eth0 s) b s) (\<lambda>_ s. leave_on n ''tw1'' (dst_eth1 s) b s)))))))"

definition gateway_reply_payload :: "ptr \<Rightarrow> ptr \<Rightarrow> ('a gateway_scheme, unit) act" where
  "gateway_reply_payload handle buffer =
     bnd (deref tw_bufs buffer) (\<lambda>b.
     bnd (data_hdr (tb_data b) sizeof_ether_hdr) (\<lambda>m.
     let eth_type = tw_be_to_cpu_16 (ether_type (ether_hdr_at (buf m) (snd (tb_data b)))) in
     if eth_type = ETHER_TYPE_ARP then bnd (tw_arp_parser b (tb_port_name b)) (\<lambda>_. ret ())
     else if eth_type = ETHER_TYPE_IPv4 then
       bnd (check_gateway_ping b) (\<lambda>gateway_ping. if gateway_ping \<noteq> 0 then route_pkt buffer b else ret ())
     else ret ()))"

definition update_slot :: "nat \<Rightarrow> ('a gateway_scheme, unit) act" where
  "update_slot i =
     bnd (\<lambda>s. index_ck (sq_pkts s) i s) (\<lambda>pkt.
     if pkt = None then ret ()
     else bnd (gateway_reply_payload None pkt) (\<lambda>_.
       modify (\<lambda>s. s\<lparr>sq_pkts := (sq_pkts s)[i := None], sq_n_pkts := sq_n_pkts s - 1\<rparr>)))"

definition update_queue :: "('a gateway_scheme, unit) act" where
  "update_queue = (\<lambda>s. if tw_n_queue s < 1 then Some (Ret ((), s)) else for_each [0..<1000] update_slot s)"

section \<open>The program\<close>

definition gateway_callbacks :: "'a gateway_scheme callbacks" where
  "gateway_callbacks = (rx_only gateway_reply_payload)\<lparr>timer_code := (\<lambda>c handle. if c = TIMER_CB then update_queue else fault WildDeref)\<rparr>"

definition gateway_user_app_main :: "env \<Rightarrow> ('a gateway_scheme, int) act" where
  "gateway_user_app_main e = bnd start_rx (\<lambda>tw_loop.
     bnd (tw_timer_init tw_loop) (\<lambda>timer_handle.
     bnd (tw_timer_start timer_handle (Some TIMER_CB) 250) (\<lambda>_.
     bnd (tw_run gateway_callbacks (e_tmp e) (e_tables e) tw_loop) (\<lambda>_. ret 0))))"

definition gateway_main :: "env \<Rightarrow> nat \<Rightarrow> ('a gateway_scheme, int) act" where
  "gateway_main e argc =
     bnd (alloc_args (argc + 1) 1 [3, 5, 3, 2, 3, 8, 3, 3, 4]) (\<lambda>blocks.
     bnd (copy_args blocks [''-c'', ''0x0C'', ''-n'', ''4'', ''-b'', ''00:03.0'', ''--'', ''-p'', ''0x3'']) (\<lambda>_.
     bnd (init e) (\<lambda>_.
     bnd (tw_map_port_to_engine ''tw0'' ''engine0'') (\<lambda>_.
     bnd (tw_get_ether_addr ''tw0'') (\<lambda>p. bnd (modify (\<lambda>s. s\<lparr>dst_eth0 := p\<rparr>)) (\<lambda>_.
     bnd (tw_map_port_to_engine ''tw1'' ''engine0'') (\<lambda>_.
     bnd (tw_get_ether_addr ''tw1'') (\<lambda>p. bnd (modify (\<lambda>s. s\<lparr>dst_eth1 := p\<rparr>)) (\<lambda>_.
     bnd (parse_user_params (e_fp e) (e_junk e) ''gw_conf'') (\<lambda>_.
     bnd (modify (\<lambda>s. s\<lparr>sq_pkts := replicate MAX_QUEUE_PACKETS None\<rparr>)) (\<lambda>_.
     bnd (gateway_user_app_main e) (\<lambda>_. ret 0))))))))))))"

section \<open>The route table as a list\<close>

text \<open>A route: network, gateway, mask (as in packets) and the bytes of the port name.\<close>

type_synonym route = "u32 \<times> u32 \<times> u32 \<times> string"

definition route_of :: "route_table \<Rightarrow> route" where
  "route_of n = (rt_net_addr n, rt_gateway n, rt_net_mask n, rt_port_name n)"

definition routes :: "'a gateway_scheme \<Rightarrow> nat list \<Rightarrow> route list \<Rightarrow> bool" where
  "routes s xs rs \<longleftrightarrow> chain rt_next (route_heap s) (route_table_root s) xs \<and> rs = map (route_of \<circ> the \<circ> route_heap s) xs \<and>
     route_table_size s = of_nat (length xs)"

fun covers :: "u32 \<Rightarrow> route \<Rightarrow> bool" where
  "covers ip (net, gw, mk, nm) \<longleftrightarrow> mk AND ip = net"

interpretation rt: linked rt_next "\<lambda>p n. n\<lparr>rt_next := p\<rparr>"
  by unfold_locales simp

lemma route_walk_chain:
  assumes "chain rt_next h p xs"
  shows "\<exists>q. route_walk h ip p = Some (Ret q) \<and>
    (case q of None \<Rightarrow> find (covers ip) (map (route_of \<circ> the \<circ> h) xs) = None
     | Some a \<Rightarrow> a \<in> set xs \<and> (\<exists>n. h a = Some n \<and> find (covers ip) (map (route_of \<circ> the \<circ> h) xs) = Some (route_of n)))"
  using assms
proof (induction xs arbitrary: p)
  case Nil
  then show ?case by (simp add: route_walk.simps)
next
  case (Cons a xs)
  then obtain n where n: "p = Some a" "h a = Some n" "chain rt_next h (rt_next n) xs" by auto
  show ?case
  proof (cases "rt_net_mask n AND ip = rt_net_addr n")
    case True
    then show ?thesis using n by (subst route_walk.simps) (simp add: route_of_def)
  next
    case False
    then have "route_walk h ip p = route_walk h ip (rt_next n)" using n by (subst route_walk.simps) simp
    moreover have "find (covers ip) (map (route_of \<circ> the \<circ> h) (a # xs)) = find (covers ip) (map (route_of \<circ> the \<circ> h) xs)"
      using False n(2) by (simp add: route_of_def)
    moreover obtain q where "route_walk h ip (rt_next n) = Some (Ret q)" "case q of None \<Rightarrow> find (covers ip) (map (route_of \<circ> the \<circ> h) xs) = None
        | Some a \<Rightarrow> a \<in> set xs \<and> (\<exists>n. h a = Some n \<and> find (covers ip) (map (route_of \<circ> the \<circ> h) xs) = Some (route_of n))"
      using Cons.IH[OF n(3)] by blast
    ultimately show ?thesis by (intro exI[of _ q]) (auto simp only: list.set split: option.splits)
  qed
qed

lemma search_route_run:
  assumes "routes s xs rs"
  shows "\<exists>q. tw_search_route ip s = Some (Ret (q, s)) \<and> (case q of None \<Rightarrow> find (covers ip) rs = None
     | Some a \<Rightarrow> a \<in> set xs \<and> (\<exists>n. route_heap s a = Some n \<and> find (covers ip) rs = Some (route_of n)))"
  using route_walk_chain[of "route_heap s" "route_table_root s" xs ip] assms unfolding routes_def by (fastforce simp: tw_search_route_def run_simps)

text \<open>The route an entry of the configuration stands for.\<close>

fun stored :: "route \<Rightarrow> route" where
  "stored (net, gw, mk, nm) = (tw_be_to_cpu_32 net, tw_be_to_cpu_32 gw, tw_be_to_cpu_32 mk, take 3 (nm @ [NUL]))"

lemma add_route_run:
  assumes r: "routes s xs rs" and mal: "malloc_src s (malloc_cnt s) = Some a" "a \<notin> dom (route_heap s)"
    and nm: "strs (js s) b = Some nm" "2 \<le> length nm"
  shows "\<exists>s'. tw_add_route_entry net mk gw (Some b) s = Some (Ret (0, s')) \<and> routes s' (xs @ [a]) (rs @ [stored (net, gw, mk, nm)]) \<and>
    s' = s\<lparr>malloc_cnt := Suc (malloc_cnt s), route_heap := route_heap s', route_table_root := route_table_root s', route_table_size := route_table_size s'\<rparr> \<and>
    dom (route_heap s') = insert a (dom (route_heap s))"
proof -
  let ?nd = "\<lparr>rt_net_addr = tw_be_to_cpu_32 net, rt_gateway = tw_be_to_cpu_32 gw, rt_net_mask = tw_be_to_cpu_32 mk, rt_port_name = take 3 (nm @ [NUL]), rt_next = None\<rparr>"
  have xs: "chain rt_next (route_heap s) (route_table_root s) xs" "rs = map (route_of \<circ> the \<circ> route_heap s) xs" "route_table_size s = of_nat (length xs)"
    using r by (simp_all add: routes_def)
  have a_xs: "a \<notin> set xs" using seg_dom[OF xs(1)] mal(2) by auto
  have fill: "fill_route net mk gw (Some b) a s' = Some (Ret (0, s'\<lparr>route_heap := (route_heap s')(a \<mapsto> ?nd), route_table_size := route_table_size s' + 1\<rparr>))"
    if "js s' = js s" for s' :: "'a gateway_scheme" using that nm text_at_run[of s' b nm] by (simp add: fill_route_def run_simps)
  show ?thesis
  proof (cases "route_table_root s")
    case None
    then have "xs = []" using xs(1) by simp
    let ?s' = "s\<lparr>malloc_cnt := Suc (malloc_cnt s), route_table_root := Some a, route_heap := (route_heap s)(a \<mapsto> ?nd), route_table_size := route_table_size s + 1\<rparr>"
    have "tw_add_route_entry net mk gw (Some b) s = Some (Ret (0, ?s'))"
      using None mal fill by (simp add: tw_add_route_entry_def link_route_def rte_malloc_def run_simps)
    moreover have "routes ?s' (xs @ [a]) (rs @ [stored (net, gw, mk, nm)])" using xs \<open>xs = []\<close> by (simp add: routes_def route_of_def)
    ultimately show ?thesis by (intro exI[of _ ?s']) auto
  next
    case (Some p)
    with xs(1) have ne: "xs \<noteq> []" by auto
    have wl: "walk_last rt_next (route_heap s) p = Some (Ret (last xs))" using walk_last_chain[of rt_next "route_heap s" p xs] xs(1) Some by simp
    obtain l where l: "route_heap s (last xs) = Some l" using seg_dom[OF xs(1)] last_in_set[OF ne] by blast
    let ?h = "(route_heap s)(last xs \<mapsto> l\<lparr>rt_next := Some a\<rparr>, a \<mapsto> ?nd)"
    let ?s' = "s\<lparr>malloc_cnt := Suc (malloc_cnt s), route_heap := ?h, route_table_size := route_table_size s + 1\<rparr>"
    have run: "tw_add_route_entry net mk gw (Some b) s = Some (Ret (0, ?s'))"
      using Some mal wl l fill by (simp add: tw_add_route_entry_def link_route_def rte_malloc_def run_simps)
    have ch: "chain rt_next ?h (route_table_root s) (xs @ [a])" using rt.append_node[OF xs(1) ne mal(2) l, of ?nd] by simp
    have "map (route_of \<circ> the \<circ> ?h) xs = map (route_of \<circ> the \<circ> route_heap s) xs" using a_xs l by (auto simp: route_of_def)
    then have "routes ?s' (xs @ [a]) (rs @ [stored (net, gw, mk, nm)])" using ch xs(2,3) by (simp add: routes_def route_of_def)
    moreover have "dom ?h = insert a (dom (route_heap s))" using l by auto
    ultimately show ?thesis using run by (intro exI[of _ ?s']) simp
  qed
qed

section \<open>Loading the routes\<close>

lemma u8_loop_inv:
  assumes bound: "\<And>k s. P k s \<Longrightarrow> bound s = Some (Ret (int n, s))" and n: "n \<le> 255"
    and body: "\<And>k s. k < n \<Longrightarrow> P k s \<Longrightarrow> \<exists>s'. body (of_nat k) s = Some (Ret ((), s')) \<and> P (Suc k) s'"
    and "P k s" "k \<le> n"
  shows "\<exists>s'. u8_loop bound body (of_nat k) s = Some (Ret ((), s')) \<and> P n s'"
  using \<open>k \<le> n\<close> \<open>P k s\<close>
proof (induction k arbitrary: s rule: inc_induct)
  case base
  then show ?case using n by (subst u8_loop.simps) (simp add: bound[OF base] run_simps unat_of_nat)
next
  case (step k)
  have "int (unat (of_nat k :: u8)) < int n" using step.hyps(2) n by (simp add: unat_of_nat)
  moreover obtain s1 where s1: "body (of_nat k) s = Some (Ret ((), s1))" "P (Suc k) s1" using body[OF step.hyps(2) step.prems] by blast
  ultimately have "u8_loop bound body (of_nat k) s = u8_loop bound body (of_nat (Suc k)) s1"
    using bound[OF step.prems] by (subst u8_loop.simps) (simp add: run_simps add.commute)
  then show ?case using step.IH[OF s1(2)] by simp
qed

fun route_members :: "route \<Rightarrow> (string \<times> jtree) list" where
  "route_members (net, gw, mk, nm) =
     [(''net_addr'', JStr (ip_text net)), (''gateway'', JStr (ip_text gw)), (''net_mask'', JStr (ip_text mk)), (''port_name'', JStr nm)]"

definition route_tree :: "route list \<Rightarrow> jtree" where
  "route_tree cs = JArr (map (JObj \<circ> route_members) cs)"

definition routes_fit :: "route list \<Rightarrow> bool" where
  "routes_fit cs \<longleftrightarrow> length cs \<le> 255 \<and> (\<forall>(net, gw, mk, nm)\<in>set cs. NUL \<notin> set nm \<and> 2 \<le> length nm)"

lemma route_keys:
  "jget ''net_addr'' (route_members (net, gw, mk, nm)) = Some (JStr (ip_text net))"
  "jget ''gateway'' (route_members (net, gw, mk, nm)) = Some (JStr (ip_text gw))"
  "jget ''net_mask'' (route_members (net, gw, mk, nm)) = Some (JStr (ip_text mk))"
  "jget ''port_name'' (route_members (net, gw, mk, nm)) = Some (JStr nm)"
  by (simp_all add: jget_def tolower_def Let_def)

lemma route_tree_plain: "routes_fit cs \<Longrightarrow> plain_tree fp (route_tree cs)"
  by (fastforce simp: route_tree_def routes_fit_def ip_text_plain)

definition route_ready :: "'a gateway_scheme \<Rightarrow> bool" where
  "route_ready s \<longleftrightarrow> malloc_fresh s (dom (route_heap s))"

lemma conf_route_run:
  fixes s :: "'a gateway_scheme"
  assumes t: "tree (js s) p (route_tree cs)" and k: "k < length cs" and fits: "routes_fit cs" and junk: "length junk = 3"
    and r: "routes s xs rs" "route_ready s"
  shows "\<exists>s' ys. conf_route junk p (of_nat k) s = Some (Ret ((), s')) \<and> js s' = js s \<and> route_ready s' \<and> routes s' ys (rs @ [stored (cs ! k)])"
proof -
  obtain net gw mk nm where c: "cs ! k = (net, gw, mk, nm)" by (cases "cs ! k") auto
  have k2: "k \<le> 255" and len: "2 \<le> length nm" using fits k c nth_mem[OF k] by (auto simp: routes_fit_def)
  obtain q where qt: "cJSON_GetArrayItem p (int k) (js s) = Some (Ret (q, js s))" "tree (js s) q (JObj (route_members (cs ! k)))"
    using tree_nth[of "js s" p _ k] t k unfolding route_tree_def by fastforce
  have q: "with_json (cJSON_GetArrayItem p (int k)) s = Some (Ret (q, s))" using qt(1) by (rule with_json_same)
  note q2 = qt(2)[unfolded c]
  have a: "item_addr junk q ''net_addr'' s = Some (Ret (net, s))" "item_addr junk q ''gateway'' s = Some (Ret (gw, s))"
    "item_addr junk q ''net_mask'' s = Some (Ret (mk, s))"
    by (rule item_addr_run[OF q2 route_keys(1) junk], rule item_addr_run[OF q2 route_keys(2) junk], rule item_addr_run[OF q2 route_keys(3) junk])
  obtain b where b: "item_string q ''port_name'' s = Some (Ret (Some b, s))" "strs (js s) b = Some nm"
    using item_string_run[OF q2 route_keys(4)] by blast
  obtain z where z: "malloc_src s (malloc_cnt s) = Some z" "z \<notin> dom (route_heap s)"
    "\<And>s' :: 'a gateway_scheme. malloc_src s' = malloc_src s \<Longrightarrow> malloc_cnt s' = Suc (malloc_cnt s) \<Longrightarrow> malloc_fresh s' (insert z (dom (route_heap s)))"
    using malloc_fresh_step[OF r(2)[unfolded route_ready_def]] by metis
  obtain s' where s': "tw_add_route_entry net mk gw (Some b) s = Some (Ret (0, s'))" "routes s' (xs @ [z]) (rs @ [stored (cs ! k)])"
    "s' = s\<lparr>malloc_cnt := Suc (malloc_cnt s), route_heap := route_heap s', route_table_root := route_table_root s', route_table_size := route_table_size s'\<rparr>"
    "dom (route_heap s') = insert z (dom (route_heap s))"
    using add_route_run[OF r(1) z(1,2) b(2) len, of net mk gw] unfolding c by blast
  have "js s' = js s" "malloc_src s' = malloc_src s" "malloc_cnt s' = Suc (malloc_cnt s)" by (subst s'(3), simp)+
  moreover have "conf_route junk p (of_nat k) s = Some (Ret ((), s'))" by (simp add: conf_route_def run_simps uint_small_u8[OF k2] q a b(1) s'(1))
  ultimately show ?thesis using s'(2,4) z(3)[of s'] by (auto simp: route_ready_def)
qed

lemma load_routes_run:
  fixes s :: "'a gateway_scheme"
  assumes "int_exact fp" "length junk = 3" "routes_fit cs" "mem_fresh (js s)" "malloc_hook (js s) = 0"
    and "files s name = Some f" "content f = render fp fmt 0 (route_tree cs)" "length (content f) \<le> got f" "fill f (length (content f)) = NUL"
    and "routes s xs rs" "route_ready s"
  shows "\<exists>s' ys. parse_user_params fp junk name s = Some (Ret (0, s')) \<and> route_ready s' \<and> routes s' ys (rs @ map stored cs)"
proof -
  obtain r j where j: "tw_parse_json_file fp name s = Some (Ret (Some r, s\<lparr>js := j\<rparr>))" "tree j (Some r) (route_tree cs)"
    using parse_file_tree[OF assms(1) route_tree_plain[OF assms(3)] assms(4-9)] by blast
  let ?P = "\<lambda>k s'. js s' = j \<and> route_ready s' \<and> (\<exists>ys. routes s' ys (rs @ map stored (take k cs)))"
  have "\<exists>s'. u8_loop (with_json (cJSON_GetArraySize (Some r))) (conf_route junk (Some r)) (of_nat 0) (s\<lparr>js := j\<rparr>) = Some (Ret ((), s')) \<and> ?P (length cs) s'"
  proof (rule u8_loop_inv[where P = ?P], goal_cases)
    case (1 k s')
    then show ?case using tree_size[of j "Some r"] j(2) unfolding route_tree_def by (intro with_json_same) fastforce
  next
    case (3 k s')
    then obtain ys where "routes s' ys (rs @ map stored (take k cs))" by blast
    from conf_route_run[of s' "Some r" cs k junk ys, OF _ 3(1) assms(3,2) this] 3 j(2) show ?case
      by (auto simp: take_Suc_conv_app_nth)
  qed (use assms(3,10,11) in \<open>auto simp: routes_fit_def routes_def route_ready_def malloc_fresh_def\<close>)
  then show ?thesis using j(1) by (auto simp: parse_user_params_def run_simps)
qed

section \<open>The names of the routes\<close>

lemma ptr_bytes_first: "ptr_bytes p = char_of (case p of None \<Rightarrow> 0 | Some a \<Rightarrow> a) # tl (ptr_bytes p)"
  by (simp add: ptr_bytes_def Let_def upt_conv_Cons)

lemma char_NUL: "char_of n = NUL \<longleftrightarrow> n mod 256 = (0 :: nat)"
proof -
  have "char_of n = NUL \<longleftrightarrow> of_char (char_of n :: char) = (of_char NUL :: nat)" by (metis of_char_eq_iff)
  then show ?thesis by simp
qed

text \<open>The name of a route ends where it should exactly when the address of the next node is a multiple of 256.\<close>

lemma route_name_plain:
  assumes "NUL \<notin> set (rt_port_name n)"
  shows "case rt_next n of None \<Rightarrow> True | Some q \<Rightarrow> q mod 256 = 0 \<Longrightarrow> route_name n = rt_port_name n"
    "rt_next n = Some q \<Longrightarrow> q mod 256 \<noteq> 0 \<Longrightarrow> length (rt_port_name n) < length (route_name n)"
proof -
  have t: "route_name n = rt_port_name n @ takeWhile (\<lambda>c. c \<noteq> NUL) (ptr_bytes (rt_next n))"
    using assms unfolding route_name_def by (subst takeWhile_append2) auto
  show "case rt_next n of None \<Rightarrow> True | Some q \<Rightarrow> q mod 256 = 0 \<Longrightarrow> route_name n = rt_port_name n"
    unfolding t by (subst ptr_bytes_first) (simp add: char_NUL split: option.splits)
  show "rt_next n = Some q \<Longrightarrow> q mod 256 \<noteq> 0 \<Longrightarrow> length (rt_port_name n) < length (route_name n)"
    unfolding t by (subst ptr_bytes_first) (simp add: char_NUL)
qed

lemma unknown_name: "nm \<notin> port_name ` set (port_infos s) \<Longrightarrow> tw_eth_name_to_id nm s = - 1"
  by (simp add: tw_eth_name_to_id_def name_loop_none)

text \<open>
  The tables work as intended: nodes at multiples of 256 (\<open>aligned\<close>), and for each route a port with that name
  whose address is not the one at hand.
\<close>

definition foreign :: "'a gateway_scheme \<Rightarrow> u32 \<Rightarrow> route list \<Rightarrow> bool" where
  "foreign s ip rs \<longleftrightarrow> (\<forall>(net, gw, mk, nm)\<in>set rs. NUL \<notin> set nm \<and> (\<exists>i<length (port_infos s). tw_eth_name_to_id nm s = int i \<and> start_ip_addr (port_infos s ! i) \<noteq> ip))"

definition aligned :: "nat list \<Rightarrow> bool" where
  "aligned xs \<longleftrightarrow> (\<forall>x\<in>set xs. x mod 256 = 0)"

lemma node_name:
  assumes "chain rt_next h (rt_next n) xs" "aligned xs" "NUL \<notin> set (rt_port_name n)"
  shows "route_name n = rt_port_name n"
  by (rule route_name_plain(1)[OF assms(3)]) (use assms(1,2) in \<open>cases xs; auto simp: aligned_def split: option.splits\<close>)

definition dst_of :: "rte_mbuf \<Rightarrow> u32" where
  "dst_of m = rd32 (buf m) (mtod m + 30)"

lemma ping_walk_foreign:
  fixes s :: "'a gateway_scheme"
  assumes "mbufs s a = Some m" "tb_data b = (Some a, mtod m)" "room 34 m"
    and "chain rt_next (route_heap s) p xs" "aligned xs" "foreign s (tw_be_to_cpu_32 (dst_of m)) (map (route_of \<circ> the \<circ> route_heap s) xs)"
  shows "ping_walk b p s = Some (Ret (1, s))"
  using assms(4-)
proof (induction xs arbitrary: p)
  case Nil
  then show ?case by (simp add: ping_walk.simps run_simps)
next
  case (Cons x xs)
  then obtain n where n: "p = Some x" "route_heap s x = Some n" "chain rt_next (route_heap s) (rt_next n) xs" by auto
  obtain i where i: "i < length (port_infos s)" "tw_eth_name_to_id (rt_port_name n) s = int i" "start_ip_addr (port_infos s ! i) \<noteq> tw_be_to_cpu_32 (dst_of m)"
    "NUL \<notin> set (rt_port_name n)" using Cons.prems(3) n(2) by (auto simp: foreign_def route_of_def)
  have nm: "route_name n = rt_port_name n" using node_name[OF n(3) _ i(4)] Cons.prems(2) by (simp add: aligned_def)
  have g: "tw_get_ip_addr (rt_port_name n) s = Some (Ret (start_ip_addr (port_infos s ! i), s))"
    using i by (simp add: tw_get_ip_addr_def port_at_def run_simps)
  have "ping_walk b p s = ping_walk b (rt_next n) s"
    using n(1,2) nm g i(3) assms(1-3) by (subst ping_walk.simps) (simp add: run_simps dst_of_def room_def add.assoc)
  then show ?case using Cons.IH[OF n(3)] Cons.prems by (simp add: aligned_def foreign_def)
qed

lemma chain_member:
  assumes "chain nxt h p xs" "a \<in> set xs" "h a = Some n"
  shows "\<exists>ys. chain nxt h (nxt n) ys \<and> set ys \<subseteq> set xs"
proof -
  obtain us vs where "xs = us @ a # vs" using assms(2) by (metis split_list)
  then show ?thesis using assms(1,3) by (auto simp: seg_append)
qed

lemma search_named:
  assumes "routes s xs rs" "aligned xs" "foreign s ip' rs" "find (covers ip) rs = Some (net, gw, mk, nm)"
  obtains q n where "tw_search_route ip s = Some (Ret (Some q, s))" "route_heap s q = Some n" "route_name n = nm"
proof -
  obtain q where q: "tw_search_route ip s = Some (Ret (q, s))" "case q of None \<Rightarrow> find (covers ip) rs = None
     | Some a \<Rightarrow> a \<in> set xs \<and> (\<exists>n. route_heap s a = Some n \<and> find (covers ip) rs = Some (route_of n))"
    using search_route_run[OF assms(1)] by blast
  then obtain a n where a: "q = Some a" "a \<in> set xs" "route_heap s a = Some n" "route_of n = (net, gw, mk, nm)"
    using assms(4) by (auto split: option.splits)
  obtain ys where ys: "chain rt_next (route_heap s) (rt_next n) ys" "set ys \<subseteq> set xs"
    using chain_member[of rt_next "route_heap s" "route_table_root s" xs a n] assms(1) a(2,3) by (auto simp: routes_def)
  have "(net, gw, mk, nm) \<in> set rs" using assms(4) by (auto simp: find_Some_iff)
  then have "NUL \<notin> set (rt_port_name n)" using assms(3) a(4) by (auto simp: foreign_def route_of_def)
  then have "route_name n = nm" using node_name[OF ys(1)] ys(2) assms(2) a(4) by (auto simp: aligned_def route_of_def)
  then show ?thesis using that q(1) a(1,3) by blast
qed

section \<open>Routing a packet\<close>

text \<open>A packet of another host in buffer \<open>t\<close>, and a route for it.\<close>

definition to_route :: "'a gateway_scheme \<Rightarrow> nat \<Rightarrow> nat \<Rightarrow> rte_mbuf \<Rightarrow> string \<Rightarrow> bool" where
  "to_route s t a m nm \<longleftrightarrow> tx_inv s \<and> holds_pkt t a m s \<and> room 34 m \<and> type_of m = ETHER_TYPE_IPv4 \<and>
     (\<exists>xs rs net gw mk. routes s xs rs \<and> aligned xs \<and> foreign s (tw_be_to_cpu_32 (dst_of m)) rs \<and> find (covers (dst_of m)) rs = Some (net, gw, mk, nm))"

lemma to_routeE:
  assumes "to_route s t a m nm"
  obtains b q n where "tw_bufs s t = Some b" "tb_pkt b = Some a" "tb_data b = (Some a, mtod m)" "loose s a = Some m" "mbufs s a = Some m"
    "gateway_reply_payload h (Some t) s = route_pkt (Some t) b s" "tw_search_route (dst_of m) s = Some (Ret (Some q, s))" "route_heap s q = Some n" "route_name n = nm"
proof -
  obtain b where b: "tw_bufs s t = Some b" "tb_pkt b = Some a" "tb_data b = (Some a, mtod m)" "loose s a = Some m"
    using assms by (auto simp: to_route_def holds_pkt_def)
  obtain xs rs net gw mk where r: "routes s xs rs" "aligned xs" "foreign s (tw_be_to_cpu_32 (dst_of m)) rs" "find (covers (dst_of m)) rs = Some (net, gw, mk, nm)"
    using assms by (auto simp: to_route_def)
  note m = looseD[OF b(4)]
  have "ping_walk b (route_table_root s) s = Some (Ret (1, s))"
    using ping_walk_foreign[of s a m b "route_table_root s" xs] m b(3) assms r(1-3) by (simp add: to_route_def routes_def)
  then have g: "gateway_reply_payload h (Some t) s = route_pkt (Some t) b s"
    using b m assms by (simp add: gateway_reply_payload_def check_gateway_ping_def run_simps to_route_def room_def)
  obtain q n where "tw_search_route (dst_of m) s = Some (Ret (Some q, s))" "route_heap s q = Some n" "route_name n = nm" using search_named[OF r] by blast
  then show ?thesis using that b m g by blast
qed

definition out_mac :: "'a apps_scheme \<Rightarrow> string \<Rightarrow> ether_addr option" where
  "out_mac s nm = (if nm = ''tw0'' then dst_eth0 s else if nm = ''tw1'' then dst_eth1 s else None)"

lemma forward_run:
  assumes g: "to_route s t a m nm" and arp: "arp_tab s es" "map_of es (tw_be_to_cpu_32 (dst_of m)) = Some (mac, port)"
    and out: "out_mac s nm = Some src" "tw_eth_name_to_id nm s = int p" "p < 8"
  shows "\<exists>s'. gateway_reply_payload h (Some t) s = Some (Ret ((), s')) \<and>
    answered p a (m\<lparr>buf := set_s_addr (mtod m) src (set_d_addr (mtod m) mac (buf m))\<rparr>) s s'"
proof -
  obtain b q n where b: "tw_bufs s t = Some b" "tb_pkt b = Some a" "tb_data b = (Some a, mtod m)" "loose s a = Some m" "mbufs s a = Some m"
    "gateway_reply_payload h (Some t) s = route_pkt (Some t) b s" "tw_search_route (dst_of m) s = Some (Ret (Some q, s))" "route_heap s q = Some n" "route_name n = nm"
    using to_routeE[OF g] by blast
  obtain e where e: "tw_search_arp_table (dst_of m) s = Some (Ret (Some e, s))" "\<exists>k. arp_heap s e = Some k \<and> at_eth_mac k = mac"
    using search_ok[OF arp(1), of "dst_of m"] arp(2) by (auto split: option.splits)
  then obtain k where k: "arp_heap s e = Some k" "at_eth_mac k = mac" by blast
  have inv: "tx_inv s" and rm: "mtod m + 34 \<le> unat (buf_len m)" using g by (simp_all add: to_route_def room_def)
  let ?m' = "m\<lparr>buf := set_s_addr (mtod m) src (set_d_addr (mtod m) mac (buf m))\<rparr>"
  obtain s' where s': "tw_send_pkt b nm (s\<lparr>mbufs := (mbufs s)(a \<mapsto> ?m')\<rparr>) = Some (Ret (0, s'))" "answered p a ?m' s s'"
    using send_pkt_run[OF inv b(4,2) out(2,3)] by blast
  have d: "dst_addr (ipv4_hdr_at (buf m) (mtod m + sizeof_ether_hdr)) = dst_of m" by (simp add: dst_of_def add.assoc)
  have "route_pkt (Some t) b s = Some (Ret ((), s'))"
    using out(1) s'(1) rm b(3,5,7-9) e(1) k d
    by (auto simp: route_pkt_def run_simps leave_on_def out_mac_def at_mac_def Let_def split: if_splits)
  then show ?thesis using b(6) s'(2) by metis
qed

lemma spill_run:
  assumes "holds_pkt t a m s" "room 34 m" "type_of m = ETHER_TYPE_IPv4" "route_table_root s = Some x" "route_heap s x = Some n" "rt_next n = Some q"
    and "q mod 256 \<noteq> 0" "NUL \<notin> set (rt_port_name n)" "\<forall>pi\<in>set (port_infos s). length (port_name pi) \<le> length (rt_port_name n)"
  shows "gateway_reply_payload h (Some t) s = Some (Fault OutOfBounds)"
proof -
  obtain b where b: "tw_bufs s t = Some b" "tb_data b = (Some a, mtod m)" "loose s a = Some m" using assms(1) by (auto simp: holds_pkt_def)
  have "route_name n \<notin> port_name ` set (port_infos s)" using assms(9) route_name_plain(2)[OF assms(8,6,7)] by fastforce
  then have "tw_get_ip_addr (route_name n) s = Some (Fault OutOfBounds)"
    using unknown_name[of "route_name n" s] by (simp add: tw_get_ip_addr_def port_at_def run_simps)
  then have "ping_walk b (Some x) s = Some (Fault OutOfBounds)" using assms(5) by (subst ping_walk.simps) (simp add: run_simps)
  then show ?thesis using b(1,2) looseD[OF b(3)] assms(2-4) by (simp add: gateway_reply_payload_def check_gateway_ping_def run_simps room_def)
qed

text \<open>The pool hands out buffers that are large enough and not in use.\<close>

definition mbuf_fresh :: "'a hw_scheme \<Rightarrow> bool" where
  "mbuf_fresh s \<longleftrightarrow> inj_on (\<lambda>k. map_option fst (mbuf_src s k)) {mbuf_cnt s..} \<and>
     (\<forall>k\<ge>mbuf_cnt s. \<exists>a m0. mbuf_src s k = Some (a, m0) \<and> a \<notin> dom (mbufs s) \<and> 156 \<le> unat (buf_len m0))"

lemma mbuf_fresh_step:
  assumes "mbuf_fresh s" "mbuf_src s (mbuf_cnt s) = Some (x, m0)" "mbuf_src s' = mbuf_src s" "mbuf_cnt s' = Suc (mbuf_cnt s)" "dom (mbufs s') \<subseteq> insert x (dom (mbufs s))"
  shows "mbuf_fresh s'"
proof -
  have i: "inj_on (\<lambda>k. map_option fst (mbuf_src s k)) {mbuf_cnt s..}" using assms(1) by (simp add: mbuf_fresh_def)
  have "\<exists>a m0. mbuf_src s k = Some (a, m0) \<and> a \<notin> dom (mbufs s') \<and> 156 \<le> unat (buf_len m0)" if "Suc (mbuf_cnt s) \<le> k" for k
  proof -
    obtain a m1 where a: "mbuf_src s k = Some (a, m1)" "a \<notin> dom (mbufs s)" "156 \<le> unat (buf_len m1)" using assms(1) \<open>Suc _ \<le> k\<close> unfolding mbuf_fresh_def by (meson Suc_leD)
    have "a \<noteq> x" using inj_onD[OF i, of k "mbuf_cnt s"] a(1) assms(2) that by auto
    then show ?thesis using a assms(5) by blast
  qed
  moreover have "inj_on (\<lambda>k. map_option fst (mbuf_src s k)) {Suc (mbuf_cnt s)..}" using i by (rule inj_on_subset) auto
  ultimately show ?thesis using assms(3,4) by (simp add: mbuf_fresh_def)
qed

text \<open>A packet whose next hop is not known, and what is needed to ask for it.\<close>

definition unresolved :: "'a gateway_scheme \<Rightarrow> nat \<Rightarrow> nat \<Rightarrow> rte_mbuf \<Rightarrow> string \<Rightarrow> nat \<Rightarrow> bool" where
  "unresolved s t a m nm p \<longleftrightarrow> to_route s t a m nm \<and> (\<exists>es. arp_tab s es \<and> map_of es (tw_be_to_cpu_32 (dst_of m)) = None) \<and>
     tw_eth_name_to_id nm s = int p \<and> p < 8 \<and> port_up s (of_nat p) \<and> pool_ready s (of_nat p) \<and> mbuf_fresh s \<and> length (sq_pkts s) = MAX_QUEUE_PACKETS"

lemma unresolved_cong:
  fixes s s' :: "'a gateway_scheme"
  assumes u: "unresolved s t a m nm p" and "tx_inv s'" "loose s' = loose s" "mbuf_fresh s'" "length (sq_pkts s') = MAX_QUEUE_PACKETS"
    and eq: "tw_bufs s' = tw_bufs s" "port_infos s' = port_infos s" "arp_heap s' = arp_heap s" "arp_table_root s' = arp_table_root s"
      "arp_table_size s' = arp_table_size s" "route_heap s' = route_heap s" "route_table_root s' = route_table_root s"
      "route_table_size s' = route_table_size s" "dev_socket s' = dev_socket s" "tx_mempool s' = tx_mempool s"
  shows "unresolved s' t a m nm p"
proof -
  have n: "tw_eth_name_to_id x s' = tw_eth_name_to_id x s" for x by (simp add: tw_eth_name_to_id_def eq)
  have "to_route s' t a m nm" using u assms(2,3) by (simp add: unresolved_def to_route_def holds_pkt_def routes_def foreign_def n eq)
  moreover have "arp_tab s' = arp_tab s" by (simp add: arp_tab_def eq fun_eq_iff)
  moreover have "port_up s' = port_up s" by (simp add: port_up_def eq fun_eq_iff)
  moreover have "pool_ready s' = pool_ready s" by (simp add: pool_ready_def eq fun_eq_iff)
  ultimately show ?thesis using u assms(4,5) n by (simp add: unresolved_def)
qed

lemma unresolved_run:
  fixes s :: "'a gateway_scheme"
  assumes u: "unresolved s t a m nm p" and n: "unat (sq_n_pkts s) < 1000"
  shows "\<exists>s' x m0. gateway_reply_payload h (Some t) s = Some (Ret ((), s')) \<and> unresolved s' t a m nm p \<and> loose s' = loose s \<and>
    sq_pkts s' = (sq_pkts s)[unat (sq_n_pkts s) := Some t] \<and> sq_n_pkts s' = sq_n_pkts s + 1 \<and>
    sent p x (request_mbuf (port_infos s ! p) (dst_of m) m0) s s'"
proof -
  have g: "to_route s t a m nm" using u by (simp add: unresolved_def)
  obtain b q nd where b: "tb_data b = (Some a, mtod m)" "mbufs s a = Some m" "gateway_reply_payload h (Some t) s = route_pkt (Some t) b s"
    "tw_search_route (dst_of m) s = Some (Ret (Some q, s))" "route_heap s q = Some nd" "route_name nd = nm" using to_routeE[OF g] by metis
  have e: "tw_search_arp_table (dst_of m) s = Some (Ret (None, s))"
    using u search_ok[of s _ "dst_of m"] unfolding unresolved_def by (fastforce split: option.splits)
  obtain x m0 where x: "mbuf_src s (mbuf_cnt s) = Some (x, m0)" "x \<notin> dom (mbufs s)" "128 + 28 \<le> unat (buf_len m0)"
    using u unfolding unresolved_def mbuf_fresh_def by fastforce
  have p: "unat (of_nat p :: u8) = p" "word_of_int (int p) = (of_nat p :: u8)" using u by (auto simp: unresolved_def unat_of_nat)
  let ?r = "request_mbuf (port_infos s ! p) (dst_of m) m0"
  obtain s1 where s1: "tw_construct_arp_packet (dst_of m) (of_nat p) s = Some (Ret (0, s1))" "tx_inv s1" "tx_frame (s\<lparr>mbuf_cnt := Suc (mbuf_cnt s)\<rparr>) s1"
    "loose s1 = loose s" "sent p x ?r s s1"
    using construct_ok[of s "of_nat p" x m0 "dst_of m"] x u g p by (auto simp: unresolved_def to_route_def)
  let ?s' = "s1\<lparr>sq_pkts := (sq_pkts s)[unat (sq_n_pkts s) := Some t], sq_n_pkts := sq_n_pkts s + 1\<rparr>"
  have f: "s1 = s\<lparr>mbuf_cnt := Suc (mbuf_cnt s), mbufs := mbufs s1, tx_cnt := tx_cnt s1, wire := wire s1, lcore_confs := lcore_confs s1, tw_stats := tw_stats s1\<rparr>"
    using s1(3) by (simp add: tx_frame_def)
  have q: "sq_pkts s1 = sq_pkts s" "sq_n_pkts s1 = sq_n_pkts s" by (subst f, simp)+
  have len: "length (sq_pkts s) = 1000" and id: "tw_eth_name_to_id nm s = int p" using u by (simp_all add: unresolved_def)
  have d: "dst_addr (ipv4_hdr_at (buf m) (mtod m + sizeof_ether_hdr)) = dst_of m" by (simp add: dst_of_def add.assoc)
  have rm: "mtod m + 34 \<le> unat (buf_len m)" using g by (simp add: to_route_def room_def)
  have "route_pkt (Some t) b s = Some (Ret ((), ?s'))"
    using b(1,2,4-6) e d rm s1(1) n len q id p(2) by (simp add: route_pkt_def run_simps Let_def tw_send_arp_request_def tw_sq_push_def)
  moreover have "unresolved ?s' t a m nm p"
  proof (rule unresolved_cong[OF u])
    show "tx_inv ?s'" "loose ?s' = loose s" using s1(2,4) tx_view_cong[of ?s' s1] by simp_all
    have "dom (mbufs s1) \<subseteq> insert x (dom (mbufs s))" using s1(5) by (auto simp: sent_def Let_def restrict_map_def split: if_splits)
    moreover have "mbuf_src s1 = mbuf_src s" "mbuf_cnt s1 = Suc (mbuf_cnt s)" by (subst f, simp)+
    ultimately show "mbuf_fresh ?s'" using mbuf_fresh_step[of s x m0 ?s'] u x(1) by (simp add: unresolved_def)
    show "length (sq_pkts ?s') = 1000" using len by simp
  qed (simp, subst f, simp)+
  moreover have "sent p x ?r s ?s'" using s1(5) tx_view_cong(1)[of ?s' s1] by (simp add: sent_def Let_def)
  moreover have "loose ?s' = loose s" using s1(4) tx_view_cong(5)[of ?s' s1] by simp
  ultimately show ?thesis unfolding b(3) by (intro exI[of _ ?s'] exI[of _ x] exI[of _ m0]) simp
qed

section \<open>The waiting packets\<close>

lemma update_slot_run:
  fixes s :: "'a gateway_scheme"
  assumes u: "unresolved s t a m nm p" and i: "i < 1000" "sq_pkts s ! i = Some t" and n: "sq_n_pkts s = 1"
  shows "\<exists>s'. update_slot i s = Some (Ret ((), s')) \<and> unresolved s' t a m nm p \<and> loose s' = loose s \<and>
    sq_pkts s' = (sq_pkts s)[1 := Some t, i := None] \<and> sq_n_pkts s' = 1"
proof -
  have nl: "unat (sq_n_pkts s) < 1000" "unat (sq_n_pkts s) = 1" using n by simp_all
  obtain s1 where s1: "gateway_reply_payload None (Some t) s = Some (Ret ((), s1))" "unresolved s1 t a m nm p" "loose s1 = loose s"
    "sq_pkts s1 = (sq_pkts s)[1 := Some t]" "sq_n_pkts s1 = 2"
    using unresolved_run[OF u nl(1), of None] nl(2) n by auto
  let ?s' = "s1\<lparr>sq_pkts := (sq_pkts s1)[i := None], sq_n_pkts := sq_n_pkts s1 - 1\<rparr>"
  have len: "length (sq_pkts s) = 1000" "length (sq_pkts s1) = 1000" using u s1(2) by (simp_all add: unresolved_def)
  have v: "tx_inv ?s' = tx_inv s1" "loose ?s' = loose s1" using tx_view_cong[of ?s' s1] by simp_all
  have "unresolved ?s' t a m nm p"
    by (rule unresolved_cong[OF s1(2)]) (use s1(2) v len in \<open>auto simp: unresolved_def to_route_def mbuf_fresh_def\<close>)
  moreover have "update_slot i s = Some (Ret ((), ?s'))" using i len s1(1) by (simp add: update_slot_def run_simps)
  ultimately show ?thesis using s1(3-5) v by (intro exI[of _ ?s']) simp
qed

lemma update_slot_empty: "i < length (sq_pkts s) \<Longrightarrow> sq_pkts s ! i = None \<Longrightarrow> update_slot i s = Some (Ret ((), s))"
  by (simp add: update_slot_def run_simps)

lemma update_rest: "(\<And>i. i \<in> set is \<Longrightarrow> i < length (sq_pkts s) \<and> sq_pkts s ! i = None) \<Longrightarrow> for_each is update_slot s = Some (Ret ((), s))"
  by (induction "is") (simp_all add: run_simps update_slot_empty)

lemma update_queue_run:
  fixes s :: "'a gateway_scheme"
  assumes u: "unresolved s t a m nm p" and q: "sq_pkts s = Some t # replicate 999 None" "sq_n_pkts s = 1"
  shows "\<exists>s'. update_queue s = Some (Ret ((), s')) \<and> sq_pkts s' = replicate 1000 None \<and> sq_n_pkts s' = 1 \<and> loose s' = loose s"
proof -
  have up: "[0..<N] = 0 # 1 # [2..<N]" if "2 \<le> N" for N :: nat using that upt_conv_Cons[of 0 N] upt_conv_Cons[of 1 N] by (simp add: numeral_2_eq_2)
  have r: "replicate 999 x = x # replicate 998 x" "replicate 1000 x = x # x # replicate 998 x" for x :: ptr
    using replicate_Suc[of 998 x] replicate_Suc[of 999 x] by (simp_all del: replicate_Suc)
  obtain s1 where s1: "update_slot 0 s = Some (Ret ((), s1))" "unresolved s1 t a m nm p" "loose s1 = loose s"
    "sq_pkts s1 = (sq_pkts s)[1 := Some t, 0 := None]" "sq_n_pkts s1 = 1"
    using update_slot_run[OF u _ _ q(2), of 0] q(1) by auto
  have p1: "sq_pkts s1 = None # Some t # replicate 998 None" unfolding s1(4) q(1) r by simp
  obtain s2 where s2: "update_slot 1 s1 = Some (Ret ((), s2))" "loose s2 = loose s" "sq_pkts s2 = (sq_pkts s1)[1 := Some t, 1 := None]" "sq_n_pkts s2 = 1"
    using update_slot_run[OF s1(2) _ _ s1(5), of 1] s1(3) p1 by auto
  have p2: "sq_pkts s2 = replicate 1000 None" unfolding s2(3) p1 r by simp
  have "for_each [2..<1000] update_slot s2 = Some (Ret ((), s2))" by (rule update_rest) (simp add: p2 del: upt_rec_numeral)
  then have "for_each [0..<1000] update_slot s = Some (Ret ((), s2))" using s1(1) s2(1) by (subst up) (simp_all add: run_simps del: upt_rec_numeral)
  then have "update_queue s = Some (Ret ((), s2))" using q(2) unfolding update_queue_def tw_n_queue_def by (simp del: upt_rec_numeral)
  then show ?thesis using s2(2,4) p2 by blast
qed

section \<open>A machine for the witnesses\<close>

text \<open>A packet to the address \<open>v\<close>; a gateway with the route 10.0.0.0/24 on tw0 and buffer 5 waiting, and the same with a second route.\<close>

definition demo_to :: "u32 \<Rightarrow> rte_mbuf" where
  "demo_to v = demo_mbuf\<lparr>buf := wr16 140 (tw_cpu_to_be_16 ETHER_TYPE_IPv4) (wr32 158 v (\<lambda>_. 0))\<rparr>"

definition demo_gw :: "ptr \<Rightarrow> u32 \<Rightarrow> gateway" where
  "demo_gw nx v = apps.extend (demo_app (demo_to v)) (gateway.fields
     [256 \<mapsto> \<lparr>rt_net_addr = 0x0000000A, rt_gateway = 0x0100000A, rt_net_mask = 0x00FFFFFF, rt_port_name = ''tw0'', rt_next = nx\<rparr>]
     (Some 256) 1 (Some 5 # replicate 999 None) 1)"

lemma demo_to_fields: "mtod (demo_to v) = 128" "room 34 (demo_to v)" "type_of (demo_to v) = ETHER_TYPE_IPv4" "dst_of (demo_to v) = v"
  by (simp_all add: demo_to_def demo_mbuf_def room_def dst_of_def field_simps_buf)

lemma demo_gw_views:
  "lcore_confs (demo_gw nx v) = lcore_confs (demo_app (demo_to v))" "lcore_id (demo_gw nx v) = lcore_id (demo_app (demo_to v))"
  "mbufs (demo_gw nx v) = mbufs (demo_app (demo_to v))" "arp_heap (demo_gw nx v) = arp_heap demo_queue" "arp_table_root (demo_gw nx v) = arp_table_root demo_queue"
  "arp_table_size (demo_gw nx v) = arp_table_size demo_queue" "port_infos (demo_gw nx v) = port_infos (demo_app (demo_to v))"
  "tw_bufs (demo_gw nx v) = tw_bufs (demo_app (demo_to v))" "dst_eth0 (demo_gw nx v) = Some (EA 2 0 0 0 0 1)"
  "route_heap (demo_gw nx v) = [256 \<mapsto> \<lparr>rt_net_addr = 0x0000000A, rt_gateway = 0x0100000A, rt_net_mask = 0x00FFFFFF, rt_port_name = ''tw0'', rt_next = nx\<rparr>]"
  "route_table_root (demo_gw nx v) = Some 256" "route_table_size (demo_gw nx v) = 1" "sq_pkts (demo_gw nx v) = Some 5 # replicate 999 None" "sq_n_pkts (demo_gw nx v) = 1"
  "mbuf_src (demo_gw nx v) = (\<lambda>k. Some (1000 + k, demo_mbuf))" "mbuf_cnt (demo_gw nx v) = 0" "tx_mempool (demo_gw nx v) = [Some 6, None]" "dev_socket (demo_gw nx v) q = 0"
  by (simp_all add: demo_gw_def apps.defs gateway.defs demo_app_defs demo_loop_def queue.defs demo_queue_def arp.defs demo_arp_def stats.defs demo_tx_def demo_stats_def lcores.defs
      demo_lcores_def demo_defs)

lemma demo_gw_facts:
  "tx_inv (demo_gw nx v)" "holds_pkt 5 9 (demo_to v) (demo_gw nx v)" "tw_eth_name_to_id ''tw0'' (demo_gw nx v) = 0" "arp_tab (demo_gw nx v) [(0x0A000009, EA 2 0 0 0 0 9, 1)]"
  "port_up (demo_gw nx v) 0" "pool_ready (demo_gw nx v) 0" "mbuf_fresh (demo_gw nx v)" "txq (demo_gw nx v) 0 = []"
proof -
  note d = demo_gw_views[of nx v]
  note a = demo_app_facts(1-4)[of "demo_to v"] demo_app_facts(5,7)[of 0 "demo_to v"] demo_app_facts(6)[of "demo_to v"]
  have v: "tx_inv (demo_gw nx v) = tx_inv (demo_app (demo_to v))" "loose (demo_gw nx v) = loose (demo_app (demo_to v))" "txq (demo_gw nx v) = txq (demo_app (demo_to v))"
    using tx_view_cong[of "demo_gw nx v" "demo_app (demo_to v)"] d(1-3) by simp_all
  show "tx_inv (demo_gw nx v)" "txq (demo_gw nx v) 0 = []" using v a by simp_all
  show "holds_pkt 5 9 (demo_to v) (demo_gw nx v)" using a(7) demo_to_fields(1) by (simp add: holds_pkt_def v d)
  show "tw_eth_name_to_id ''tw0'' (demo_gw nx v) = 0" using a(4) by (simp add: tw_eth_name_to_id_def d)
  show "arp_tab (demo_gw nx v) [(0x0A000009, EA 2 0 0 0 0 9, 1)]" using demo_queue_ready(3) by (simp add: arp_tab_def d)
  show "port_up (demo_gw nx v) 0" using a(5) by (simp add: port_up_def d)
  show "pool_ready (demo_gw nx v) 0" by (simp add: pool_ready_def d fix_socket_def)
  show "mbuf_fresh (demo_gw nx v)" by (auto simp: mbuf_fresh_def d demo_app_views demo_loop_views demo_queue_views inj_on_def demo_mbuf_def split: if_splits)
qed

lemma demo_gw_route:
  assumes "0x00FFFFFF AND v = 0x0000000A" "tw_be_to_cpu_32 v \<noteq> 0x0A000001"
  shows "to_route (demo_gw None v) 5 9 (demo_to v) ''tw0''"
proof -
  note d = demo_gw_views[of None v]
  let ?r = "(0x0000000A, 0x0100000A, 0x00FFFFFF, ''tw0'') :: route"
  have "routes (demo_gw None v) [256] [?r]" by (simp add: routes_def d route_of_def)
  moreover have "foreign (demo_gw None v) (tw_be_to_cpu_32 v) [?r]"
    using demo_gw_facts(3)[of None v] assms(2) by (auto simp: foreign_def d demo_app_views demo_up_def)
  moreover have "find (covers v) [?r] = Some ?r" using assms(1) by simp
  ultimately show ?thesis unfolding to_route_def using demo_gw_facts(1,2)[where nx = None and v = v] demo_to_fields[of v]
    by (intro conjI exI[of _ "[256]"] exI[of _ "[?r]"] exI) (auto simp: aligned_def)
qed

lemma demo_gw_unresolved: "unresolved (demo_gw None 0x0300000A) 5 9 (demo_to 0x0300000A) ''tw0'' 0"
  unfolding unresolved_def using demo_gw_facts(3-7)[of None "0x0300000A"] demo_gw_route[of "0x0300000A"]
  by (auto simp: demo_to_fields demo_gw_views tw_be_to_cpu_32_def rte_constant_bswap32_def)

section \<open>Properties\<close>


definition demo_routes :: "route list" where
  "demo_routes = [(0x05050500, 0x05050501, 0xFFFFFF00, ''tw0''), (0x04040400, 0x04040401, 0xFFFFFF00, ''tw1'')]"

definition demo_gw_file :: disk_file where
  "demo_gw_file = \<lparr>content = render demo_fp True 0 (route_tree demo_routes), got = length (render demo_fp True 0 (route_tree demo_routes)), fill = (\<lambda>_. NUL)\<rparr>"


text \<open>
  C12. The gateway forwards: a packet for another host, for which the first covering route names tw0 or tw1 and the ARP table knows the destination, leaves on that port with
  the MAC address of the destination and the one of the port, and is otherwise unchanged (also its time to live). Nothing else happens. This holds when the
  nodes of the route table lie at multiples of 256 and no port with a route has the destination as its address.
\<close>

theorem gateway_forwards:
  assumes "to_route s t a m nm" "arp_tab s es" "map_of es (tw_be_to_cpu_32 (dst_of m)) = Some (mac, port)"
    and "out_mac s nm = Some src" "tw_eth_name_to_id nm s = int p" "p < 8"
  shows "\<exists>s' b. gateway_reply_payload h (Some t) s = Some (Ret ((), s')) \<and> answered p a (m\<lparr>buf := b\<rparr>) s s' \<and>
    rd_mac b (mtod m) = mac \<and> rd_mac b (mtod m + 6) = src \<and> (\<forall>k. k < mtod m \<or> mtod m + 12 \<le> k \<longrightarrow> b k = buf m k)"
proof -
  let ?b = "set_s_addr (mtod m) src (set_d_addr (mtod m) mac (buf m))"
  have "rd_mac ?b (mtod m) = mac" "rd_mac ?b (mtod m + 6) = src" "\<forall>k. k < mtod m \<or> mtod m + 12 \<le> k \<longrightarrow> ?b k = buf m k" by (auto simp: field_simps_buf)
  then show ?thesis using forward_run[OF assms] by blast
qed

theorem gateway_forwards_witness:
  "\<exists>s' b. gateway_reply_payload None (Some 5) (demo_gw None 0x0900000A) = Some (Ret ((), s')) \<and> txq s' 0 = [9] \<and>
     mbufs s' 9 = Some (demo_to 0x0900000A\<lparr>buf := b\<rparr>) \<and> rd_mac b 128 = EA 2 0 0 0 0 9 \<and> rd_mac b 134 = EA 2 0 0 0 0 1"
  using gateway_forwards[OF demo_gw_route[of "0x0900000A"] demo_gw_facts(4)[of None "0x0900000A"], of "EA 2 0 0 0 0 9" 1 "EA 2 0 0 0 0 1" 0 None]
    demo_gw_facts(3,8)[of None "0x0900000A"] demo_to_fields
  by (auto simp: out_mac_def demo_gw_views tw_be_to_cpu_32_def rte_constant_bswap32_def answered_def sent_def Let_def)

text \<open>
  C31. With two routes the gateway reads outside of its port table. The name of a port fills its field without a terminator, so that the
  bytes of the pointer to the next route are read as part of the name; unless the next node lies at a multiple of 256, no port has the
  name, and the first IPv4 packet makes the lookup of the port's address use the index -1.
\<close>

theorem gateway_name_spills:
  assumes "holds_pkt t a m s" "room 34 m" "type_of m = ETHER_TYPE_IPv4" "route_table_root s = Some x" "route_heap s x = Some n" "rt_next n = Some q"
    and "q mod 256 \<noteq> 0" "NUL \<notin> set (rt_port_name n)" "\<forall>pi\<in>set (port_infos s). length (port_name pi) \<le> length (rt_port_name n)"
  shows "gateway_reply_payload h (Some t) s = Some (Fault OutOfBounds)"
  using assms by (rule spill_run)

theorem gateway_name_spills_witness: "gateway_reply_payload None (Some 5) (demo_gw (Some 320) 0x0900000A) = Some (Fault OutOfBounds)"
  using gateway_name_spills[of 5 9 "demo_to 0x0900000A" "demo_gw (Some 320) 0x0900000A" 256 _ 320 None] demo_gw_facts(2) demo_to_fields
  by (simp add: demo_gw_views demo_app_views demo_up_def demo_port_def)

text \<open>
  C30. A packet whose destination the ARP table does not know makes the gateway send a request for the wrong address: the destination is taken from the packet in network byte
  order and converted once more, so that the request asks for it with its bytes reversed. What is put into the queue is the buffer descriptor of the event loop, which
  the next packet overwrites, and not the packet.
\<close>

theorem gateway_asks_reversed:
  assumes "unresolved s t a m nm p" "unat (sq_n_pkts s) < 1000"
  shows "\<exists>s' x r. gateway_reply_payload h (Some t) s = Some (Ret ((), s')) \<and> sent p x r s s' \<and> arp_op (arp_of r) = tw_cpu_to_be_16 ARP_OP_REQUEST \<and>
    arp_tip (arp_of r) = tw_cpu_to_be_32 (dst_of m) \<and> loose s' = loose s \<and> sq_pkts s' = (sq_pkts s)[unat (sq_n_pkts s) := Some t]"
proof -
  obtain s' x m0 where s': "gateway_reply_payload h (Some t) s = Some (Ret ((), s'))" "loose s' = loose s"
    "sq_pkts s' = (sq_pkts s)[unat (sq_n_pkts s) := Some t]" "sent p x (request_mbuf (port_infos s ! p) (dst_of m) m0) s s'"
    using unresolved_run[OF assms] by blast
  let ?r = "request_mbuf (port_infos s ! p) (dst_of m) m0"
  let ?mac = "the (eth_mac (port_infos s ! p))"
  have "arp_of ?r = arp_hdr_at (arp_request_stores (port_infos s ! p) ?mac (dst_of m) 128 (buf m0)) 128"
    using request_fields(3)[of ?mac 114 "arp_request_stores (port_infos s ! p) ?mac (dst_of m) 128 (buf m0)"] by (simp add: request_mbuf_def Let_def)
  then have "arp_op (arp_of ?r) = tw_cpu_to_be_16 ARP_OP_REQUEST" "arp_tip (arp_of ?r) = tw_cpu_to_be_32 (dst_of m)" by (simp_all only: request_fields(1)) simp_all
  then show ?thesis using s' by blast
qed

theorem gateway_asks_reversed_witness:
  "\<exists>s' x r. gateway_reply_payload None (Some 5) (demo_gw None 0x0300000A) = Some (Ret ((), s')) \<and> sent 0 x r (demo_gw None 0x0300000A) s' \<and>
     arp_tip (arp_of r) = 0x0A000003"
  using gateway_asks_reversed[OF demo_gw_unresolved, of None] demo_to_fields(4)[of "0x0300000A"]
  by (auto simp: demo_gw_views tw_cpu_to_be_32_def rte_constant_bswap32_def simp del: hdr_fields)

text \<open>
  C29. A waiting packet is lost: when its destination is still unknown as the timer fires, \<open>update_queue\<close> hands it back to the callback, which queues it
  again, and then clears the slot it was put into. Afterwards all slots are empty, the counter says one, and the packet has been neither sent nor freed.
\<close>

theorem gateway_queue_loses:
  assumes "unresolved s t a m nm p" "sq_pkts s = Some t # replicate 999 None" "sq_n_pkts s = 1"
  shows "\<exists>s'. update_queue s = Some (Ret ((), s')) \<and> sq_pkts s' = replicate 1000 None \<and> sq_n_pkts s' = 1 \<and> loose s' a = Some m"
proof -
  have "loose s a = Some m" using assms(1) by (simp add: unresolved_def to_route_def holds_pkt_def)
  then show ?thesis using update_queue_run[OF assms] by auto
qed

theorem gateway_queue_loses_witness:
  "\<exists>s'. update_queue (demo_gw None 0x0300000A) = Some (Ret ((), s')) \<and> sq_pkts s' = replicate 1000 None \<and> loose s' 9 = Some (demo_to 0x0300000A)"
  using gateway_queue_loses[OF demo_gw_unresolved demo_gw_views(13,14)] by blast

end
