(* ===== verification/Clients.thy ===== *)
theory Clients
  imports EchoApps
begin

text \<open>
  The applications that send: \<open>applications/twping.c\<close>, \<open>twarp.c\<close>, \<open>twrarp.c\<close> and \<open>twudpsend.c\<close>, and the test of the event loop,
  \<open>tw_eventloop_smoke.c\<close>. Each is a program with globals of its own. A pointer to the MAC address inside an entry of the ARP table is
  the pointer to the entry. Output, the time stamps that are only printed, and signal handlers are left out.
\<close>

section \<open>Shared by the programs\<close>

text \<open>\<open>inet_pton\<close> for IPv4: four decimal numbers up to 255 without leading zeros, separated by points.\<close>

fun split_points :: "string \<Rightarrow> string list" where
  "split_points [] = [[]]"
| "split_points (c # cs) = (if c = CHR ''.'' then [] # split_points cs
     else case split_points cs of [] \<Rightarrow> [[c]] | p # ps \<Rightarrow> (c # p) # ps)"

definition octet_ok :: "string \<Rightarrow> bool" where
  "octet_ok str \<longleftrightarrow> str \<noteq> [] \<and> list_all isdigit str \<and> (length str > 1 \<longrightarrow> hd str \<noteq> CHR ''0'') \<and> dec_val str \<le> 255"

definition isValidIpAddress :: "string \<Rightarrow> bool" where
  "isValidIpAddress str \<longleftrightarrow> length (split_points str) = 4 \<and> list_all octet_ok (split_points str)"

definition isSameNetwork :: "u32 \<Rightarrow> ('a ports_scheme, bool) act" where
  "isSameNetwork ip =
     bnd (tw_get_subnet_mask ''tw0'') (\<lambda>mk.
     bnd (tw_get_ip_addr ''tw0'') (\<lambda>own. ret (ip AND mk = own AND mk)))"

text \<open>The header of an outgoing IPv4 packet at \<open>p\<close>, with the fields the programs set; the others keep what the buffer contained.\<close>

definition ip_stores :: "u8 \<Rightarrow> u16 \<Rightarrow> u32 \<Rightarrow> u32 \<Rightarrow> nat \<Rightarrow> bytes \<Rightarrow> bytes" where
  "ip_stores proto len src dst p b =
     (let b = set_total_length p (tw_cpu_to_be_16 len) b;
          b = set_next_proto_id p proto b;
          b = set_src_addr p src b;
          b = set_dst_addr p dst b;
          b = set_version_ihl p 0x45 b;
          b = set_time_to_live p 63 b
      in case tw_ipv4_cksum p b of (ck, b) \<Rightarrow> set_hdr_checksum p ck b)"

definition eth_stores :: "ether_addr \<Rightarrow> ether_addr \<Rightarrow> u16 \<Rightarrow> nat \<Rightarrow> bytes \<Rightarrow> bytes" where
  "eth_stores dst src ty e b = set_s_addr e src (set_d_addr e dst (set_ether_type e (tw_cpu_to_be_16 ty) b))"

text \<open>A program with a receive callback and a timer.\<close>

definition rx_and_timer :: "(ptr \<Rightarrow> ptr \<Rightarrow> ('s, unit) act) \<Rightarrow> (ptr \<Rightarrow> ('s, unit) act) \<Rightarrow> 's callbacks" where
  "rx_and_timer f g = (rx_only f)\<lparr>timer_code := (\<lambda>c. if c = TIMER_CB then g else (\<lambda>_. fault WildDeref))\<rparr>"

definition run_rx_timer :: "env \<Rightarrow> (ptr \<Rightarrow> ptr \<Rightarrow> ('a evloop_scheme, unit) act) \<Rightarrow> (ptr \<Rightarrow> ('a evloop_scheme, unit) act) \<Rightarrow> ('a evloop_scheme, int) act" where
  "run_rx_timer e f g = bnd start_rx (\<lambda>tw_loop.
     bnd (tw_timer_init tw_loop) (\<lambda>timer_handle.
     bnd (tw_timer_start timer_handle (Some TIMER_CB) 1000) (\<lambda>_.
     bnd (tw_run (rx_and_timer f g) (e_tmp e) (e_tables e) tw_loop) (\<lambda>_. ret 0))))"

section \<open>twping.c\<close>

record pinger = apps +
  ping :: int
  arp_counter :: int
  ping_ip :: u32
  ping_count :: u32
  reply_count :: u32
  dst_eth_addr :: ptr

definition ping_answer :: "tw_buf \<Rightarrow> ('a ports_scheme, unit) act" where
  "ping_answer b =
     bnd (data_store (tb_data b) (sizeof_ether_hdr + sizeof_ipv4_hdr + sizeof_icmp_echo)
       (\<lambda>e. icmp_reply (e + sizeof_ether_hdr + sizeof_ipv4_hdr))) (\<lambda>_.
     bnd (data_store (tb_data b) (sizeof_ether_hdr + sizeof_ipv4_hdr) (\<lambda>e. swap_ips (e + sizeof_ether_hdr))) (\<lambda>_.
     bnd (tw_get_ether_addr ''tw0'') (\<lambda>mac. echo_frame mac b)))"

definition ping_pkt_rx :: "ptr \<Rightarrow> ptr \<Rightarrow> ('a pinger_scheme, unit) act" where
  "ping_pkt_rx handle buffer =
     bnd (deref tw_bufs buffer) (\<lambda>b.
     bnd (data_hdr (tb_data b) (sizeof_ether_hdr + sizeof_ipv4_hdr)) (\<lambda>m.
     bnd (if next_proto_id (ipv4_hdr_at (buf m) (snd (tb_data b) + sizeof_ether_hdr)) = ICMP_PROTO_ID then
            bnd (data_hdr (tb_data b) (sizeof_ether_hdr + sizeof_ipv4_hdr + sizeof_icmp_echo)) (\<lambda>m.
            let ty = icmp_type (icmp_echo_at (buf m) (snd (tb_data b) + sizeof_ether_hdr + sizeof_ipv4_hdr)) in
            if ty = 0 then modify (\<lambda>s. s\<lparr>reply_count := reply_count s + 1\<rparr>)
            else if ty = 8 then bnd (ping_answer b) (\<lambda>_. bnd (tw_send_pkt b ''tw0'') (\<lambda>_. ret ()))
            else ret ())
          else ret ()) (\<lambda>_.
     tw_free_pkt buffer)))"

definition ping_resolve :: "('a pinger_scheme, unit) act" where
  "ping_resolve =
     bnd (\<lambda>s. bnd (isSameNetwork (ping_ip s)) (\<lambda>same. if same then ret (ping_ip s) else tw_get_gateway_ip ''tw0'') s) (\<lambda>first_hop_ip.
     bnd (tw_search_arp_table (tw_be_to_cpu_32 first_hop_ip)) (\<lambda>temp_arp_entry.
     if temp_arp_entry = None then
       bnd (tw_send_arp_request first_hop_ip ''tw0'') (\<lambda>_.
       bnd (modify (\<lambda>s. s\<lparr>arp_counter := arp_counter s + 1\<rparr>)) (\<lambda>_ s.
       (if arp_counter s > 3 then bnd (tw_get_ip_addr ''tw0'') (\<lambda>_. ret ()) else ret ()) s))
     else modify (\<lambda>s. s\<lparr>dst_eth_addr := temp_arp_entry\<rparr>)))"

abbreviation "PING_BUFF_SIZE \<equiv> (74 :: u16)"

definition icmp_request :: "u32 \<Rightarrow> nat \<Rightarrow> bytes \<Rightarrow> bytes" where
  "icmp_request seq c b =
     (let b = wr8 c 8 b;
          b = wr8 (c + 1) 0 b;
          b = wr16 (c + 4) 0x1337 b;
          b = wr16 (c + 6) (ucast seq) b;
          b = wr16 (c + 2) 0 b
      in wr16 (c + 2) (tw_calcsum b c (int sizeof_icmp_echo)) b)"

definition ping_request :: "('a pinger_scheme, unit) act" where
  "ping_request =
     bnd (tw_new_buffer PING_BUFF_SIZE) (\<lambda>tx_buf.
     bnd (deref tw_bufs tx_buf) (\<lambda>b.
     bnd (modify (\<lambda>s. s\<lparr>ping_count := ping_count s + 1\<rparr>)) (\<lambda>_.
     bnd (\<lambda>s. data_store (tb_data b) (sizeof_ether_hdr + sizeof_ipv4_hdr + sizeof_icmp_echo)
       (\<lambda>e. icmp_request (ping_count s) (e + sizeof_ether_hdr + sizeof_ipv4_hdr)) s) (\<lambda>_.
     bnd (tw_get_ip_addr ''tw0'') (\<lambda>own.
     bnd (\<lambda>s. data_store (tb_data b) (sizeof_ether_hdr + sizeof_ipv4_hdr)
       (\<lambda>e. ip_stores ICMP_PROTO_ID (tb_size b - of_nat sizeof_ether_hdr) (tw_cpu_to_be_32 own) (tw_cpu_to_be_32 (ping_ip s)) (e + sizeof_ether_hdr)) s) (\<lambda>_.
     bnd (\<lambda>s. deref arp_heap (dst_eth_addr s) s) (\<lambda>entry.
     bnd (tw_get_ether_addr ''tw0'') (\<lambda>mac. bnd (at_mac mac) (\<lambda>ea.
     bnd (data_store (tb_data b) sizeof_ether_hdr (eth_stores (at_eth_mac entry) ea ETHER_TYPE_IPv4)) (\<lambda>_.
     bnd (tw_send_pkt b ''tw0'') (\<lambda>_.
     free_cell tw_bufs tw_bufs_update tx_buf)))))))))))"

definition ping_pkt_tx :: "ptr \<Rightarrow> ('a pinger_scheme, unit) act" where
  "ping_pkt_tx handle = (\<lambda>s. (if ping s = 1 then if dst_eth_addr s = None then ping_resolve else ping_request else ret ()) s)"

definition ping_user_app_main :: "env \<Rightarrow> ('a pinger_scheme, int) act" where
  "ping_user_app_main e = run_rx_timer e ping_pkt_rx ping_pkt_tx"

text \<open>\<open>opts\<close> is what \<open>getopt_long\<close> finds in the arguments.\<close>

definition ping_main :: "env \<Rightarrow> string list \<Rightarrow> string \<Rightarrow> ('a pinger_scheme, int) act" where
  "ping_main e argv opts =
     (if length argv > 4 \<or> length argv \<le> 1 then exit_with 0
      else if \<not> isValidIpAddress (argv ! 1) then exit_with 0
      else bnd (lift_out (tw_convert_ip_str_to_dec (e_junk e) (argv ! 1))) (\<lambda>a.
        bnd (modify (\<lambda>s. s\<lparr>ping_ip := a\<rparr>)) (\<lambda>_.
        if list_ex (\<lambda>f. f \<noteq> CHR ''d'') opts then exit_with 0 else
        bnd (init e) (\<lambda>_.
        bnd (tw_map_port_to_engine ''tw0'' ''engine0'') (\<lambda>_.
        bnd (modify (\<lambda>s. s\<lparr>ping := 1\<rparr>)) (\<lambda>_.
        bnd (tw_get_ip_addr ''tw0'') (\<lambda>_.
        bnd (ping_user_app_main e) (\<lambda>_. ret 0))))))))"

section \<open>twarp.c\<close>

record arper = apps +
  arp_ip :: string
  arp_flag :: int
  arp_resolv_count :: int

definition arp_reply_payload :: "ptr \<Rightarrow> ptr \<Rightarrow> ('a arper_scheme, unit) act" where
  "arp_reply_payload handle buffer = tw_free_pkt buffer"

definition check_arp :: "int list \<Rightarrow> ptr \<Rightarrow> ('a arper_scheme, unit) act" where
  "check_arp junk handle =
     bnd (\<lambda>s. tw_search_arp_entry junk (arp_ip s) s) (\<lambda>entry.
     bnd (if entry = None then
            bnd (\<lambda>s. lift_out (tw_convert_ip_str_to_dec junk (arp_ip s)) s) (\<lambda>a.
            bnd (tw_send_arp_request a ''tw0'') (\<lambda>_.
            modify (\<lambda>s. s\<lparr>arp_resolv_count := arp_resolv_count s + 1\<rparr>)))
          else exit_with 0) (\<lambda>_ s.
     (if arp_flag s = 1 \<and> arp_resolv_count s > 5 then exit_with 1 else ret ()) s))"

definition arp_user_app_main :: "env \<Rightarrow> ('a arper_scheme, int) act" where
  "arp_user_app_main e = run_rx_timer e arp_reply_payload (check_arp (e_junk e))"

definition arp_main :: "env \<Rightarrow> string list \<Rightarrow> ('a arper_scheme, int) act" where
  "arp_main e argv =
     bnd (init e) (\<lambda>_.
     bnd (tw_map_port_to_engine ''tw0'' ''engine0'') (\<lambda>_.
     if length argv \<noteq> 2 then exit_with 1 else
     bnd (modify (\<lambda>s. s\<lparr>arp_ip := argv ! 1\<rparr>)) (\<lambda>_.
     if \<not> isValidIpAddress (argv ! 1) then exit_with 1 else
     bnd (lift_out (tw_convert_ip_str_to_dec (e_junk e) (argv ! 1))) (\<lambda>ipp.
     bnd (isSameNetwork ipp) (\<lambda>same. if \<not> same then exit_with 1 else
     bnd (modify (\<lambda>s. s\<lparr>arp_flag := 1\<rparr>)) (\<lambda>_.
     bnd (arp_user_app_main e) (\<lambda>_. ret 0)))))))"

section \<open>twrarp.c\<close>

record rarper = apps +
  rarp_flag :: int
  rarp_count :: int

definition rarp_reply_payload :: "ptr \<Rightarrow> ptr \<Rightarrow> ('a rarper_scheme, unit) act" where
  "rarp_reply_payload handle buffer =
     bnd (deref tw_bufs buffer) (\<lambda>b.
     bnd (data_hdr (tb_data b) sizeof_ether_hdr) (\<lambda>m.
     bnd (if tw_be_to_cpu_16 (ether_type (ether_hdr_at (buf m) (snd (tb_data b)))) = ETHER_TYPE_RARP
          then bnd (data_hdr (tb_data b) (sizeof_ether_hdr + sizeof_arp_hdr)) (\<lambda>_ s. (if rarp_flag s = 1 then exit_with 1 else ret ()) s)
          else ret ()) (\<lambda>_.
     tw_free_pkt buffer)))"

definition rarp_stores :: "ether_addr \<Rightarrow> nat \<Rightarrow> bytes \<Rightarrow> bytes" where
  "rarp_stores mac a b =
     (let b = set_arp_op a (tw_cpu_to_be_16 ARP_OP_REVREQUEST) b;
          b = set_arp_pro a (tw_cpu_to_be_16 ETHER_TYPE_IPv4) b;
          b = set_arp_pln a 4 b;
          b = set_arp_hln a 6 b;
          b = set_arp_hrd a (tw_cpu_to_be_16 ARP_HRD_ETHER) b;
          b = set_arp_sha a mac b;
          b = set_arp_tha a mac b;
          b = set_arp_sip a 0 b
      in set_arp_tip a 0 b)"

definition rarp_check :: "ptr \<Rightarrow> ('a rarper_scheme, unit) act" where
  "rarp_check no = bnd (\<lambda>s. (if rarp_flag s = 1 then
       bnd (modify (\<lambda>s. s\<lparr>rarp_count := rarp_count s + 1\<rparr>)) (\<lambda>_.
       bnd (tw_new_buffer 42) (\<lambda>tx_buf.
       bnd (deref tw_bufs tx_buf) (\<lambda>b.
       bnd (tw_get_ether_addr ''tw0'') (\<lambda>mac. bnd (at_mac mac) (\<lambda>ea.
       bnd (data_store (tb_data b) (sizeof_ether_hdr + sizeof_arp_hdr) (\<lambda>e. rarp_stores ea (e + sizeof_ether_hdr))) (\<lambda>_.
       bnd (data_store (tb_data b) sizeof_ether_hdr (eth_stores broadcastmac ea ETHER_TYPE_RARP)) (\<lambda>_.
       bnd (tw_send_pkt b ''tw0'') (\<lambda>_.
       free_cell tw_bufs tw_bufs_update tx_buf))))))))
     else ret ()) s) (\<lambda>_ s.
     (if rarp_count s > 4 \<and> rarp_flag s = 1 then exit_with 0 else ret ()) s)"

definition rarp_user_app_main :: "env \<Rightarrow> ('a rarper_scheme, int) act" where
  "rarp_user_app_main e = run_rx_timer e rarp_reply_payload rarp_check"

definition rarp_main :: "env \<Rightarrow> ('a rarper_scheme, int) act" where
  "rarp_main e =
     bnd (init e) (\<lambda>_.
     bnd (tw_map_port_to_engine ''tw0'' ''engine0'') (\<lambda>_.
     bnd (modify (\<lambda>s. s\<lparr>rarp_flag := 1\<rparr>)) (\<lambda>_.
     bnd (rarp_user_app_main e) (\<lambda>_. ret 0))))"

section \<open>twudpsend.c\<close>

record user_params =
  server_ip :: u32
  server_port :: u16
  user_payload_size :: u16
  pps_limit :: u32
  test_runtime :: u32

record sender = apps +
  user_params :: user_params
  prev_stats_calc :: u64
  ppsdelay :: u64
  arp_secs :: u64
  phy_port_id :: int
  total_arps :: u32
  server_entry :: ptr
  ipv4_tw0 :: u32
  us_tx_buf :: ptr

definition udpsend_pkt_rx :: "ptr \<Rightarrow> ptr \<Rightarrow> ('a sender_scheme, unit) act" where
  "udpsend_pkt_rx handle buffer =
     bnd (deref tw_bufs buffer) (\<lambda>b.
     bnd (data_hdr (tb_data b) sizeof_ether_hdr) (\<lambda>m.
     bnd (if tw_be_to_cpu_16 (ether_type (ether_hdr_at (buf m) (snd (tb_data b)))) = ETHER_TYPE_ARP
          then bnd (modify (\<lambda>s. s\<lparr>tw_stats := (tw_stats s)\<lparr>pkts_rx := pkts_rx (tw_stats s) - 1\<rparr>\<rparr>)) (\<lambda>_.
            bnd (tw_arp_parser b ''tw0'') (\<lambda>_. ret ()))
          else ret ()) (\<lambda>_.
     tw_free_pkt buffer)))"

definition item_int :: "ptr \<Rightarrow> string \<Rightarrow> ('a tw_scheme, u64) act" where
  "item_int object name = bnd (item_string object name) (\<lambda>p. bnd (text_at p) (\<lambda>str. lift_out (tw_convert_str_to_int str (of_nat (length str)))))"

abbreviation set_params :: "(user_params \<Rightarrow> user_params) \<Rightarrow> ('a sender_scheme, unit) act" where
  "set_params f \<equiv> modify (\<lambda>s. s\<lparr>user_params := f (user_params s)\<rparr>)"

definition conf_params :: "int list \<Rightarrow> ptr \<Rightarrow> u8 \<Rightarrow> ('a sender_scheme, unit) act" where
  "conf_params junk json_file i =
     bnd (with_json (cJSON_GetArrayItem json_file (int (unat i)))) (\<lambda>subitem.
     bnd (item_addr junk subitem ''ServerIP'') (\<lambda>v. bnd (set_params (\<lambda>u. u\<lparr>server_ip := v\<rparr>)) (\<lambda>_.
     bnd (item_int subitem ''ServerPort'') (\<lambda>v. bnd (set_params (\<lambda>u. u\<lparr>server_port := ucast v\<rparr>)) (\<lambda>_.
     bnd (item_int subitem ''Payload'') (\<lambda>v. bnd (set_params (\<lambda>u. u\<lparr>user_payload_size := ucast v\<rparr>)) (\<lambda>_.
     bnd (item_int subitem ''testRuntime'') (\<lambda>v. bnd (set_params (\<lambda>u. u\<lparr>test_runtime := ucast v\<rparr>)) (\<lambda>_.
     bnd (item_int subitem ''ppsLimit'') (\<lambda>v. bnd (set_params (\<lambda>u. u\<lparr>pps_limit := ucast v\<rparr>)) (\<lambda>_.
     modify (\<lambda>s. s\<lparr>tw_stats := (tw_stats s)\<lparr>payload_size := ucast (user_payload_size (user_params s))\<rparr>\<rparr>))))))))))))"

definition udpsend_parse_user_params :: "fp \<Rightarrow> int list \<Rightarrow> string \<Rightarrow> ('a sender_scheme, int) act" where
  "udpsend_parse_user_params fp junk file_name =
     bnd (tw_parse_json_file fp file_name) (\<lambda>json_file.
     if json_file = None then ret (- 1)
     else bnd (u8_loop (with_json (cJSON_GetArraySize json_file)) (conf_params junk json_file) 0) (\<lambda>_. ret 0))"

definition udp_stores :: "u16 \<Rightarrow> u16 \<Rightarrow> u16 \<Rightarrow> nat \<Rightarrow> bytes \<Rightarrow> bytes" where
  "udp_stores src dst len u b = wr16 (u + 6) 0 (wr16 (u + 4) (tw_cpu_to_be_16 len) (wr16 (u + 2) (tw_cpu_to_be_16 dst) (wr16 u (tw_cpu_to_be_16 src) b)))"

definition udpsend_resolve :: "('a sender_scheme, unit) act" where
  "udpsend_resolve =
     bnd (\<lambda>s. tw_search_arp_table (tw_be_to_cpu_32 (server_ip (user_params s))) s) (\<lambda>temp_arp_entry.
     if temp_arp_entry = None then (\<lambda>s.
       (if arp_secs s \<noteq> secs_passed (tw_stats s) then
         bnd (tw_construct_arp_packet (server_ip (user_params s)) (word_of_int (phy_port_id s))) (\<lambda>_.
         bnd (modify (\<lambda>s. s\<lparr>arp_secs := secs_passed (tw_stats s)\<rparr>)) (\<lambda>_.
         modify (\<lambda>s. s\<lparr>total_arps := total_arps s + 1\<rparr>)))
       else ret ()) s)
     else modify (\<lambda>s. s\<lparr>server_entry := temp_arp_entry\<rparr>))"

definition udpsend_request :: "('a sender_scheme, unit) act" where
  "udpsend_request =
     bnd (\<lambda>s. deref tw_bufs (us_tx_buf s) s) (\<lambda>b.
     bnd (gets user_params) (\<lambda>u.
     bnd (data_store (tb_data b) (sizeof_ether_hdr + sizeof_ipv4_hdr + sizeof_udp_hdr)
       (\<lambda>e. udp_stores 7777 (server_port u) (tb_size b - of_nat sizeof_ether_hdr - of_nat sizeof_ipv4_hdr) (e + sizeof_ether_hdr + sizeof_ipv4_hdr))) (\<lambda>_.
     bnd (\<lambda>s. data_store (tb_data b) (sizeof_ether_hdr + sizeof_ipv4_hdr)
       (\<lambda>e. ip_stores 17 (tb_size b - of_nat sizeof_ether_hdr) (ipv4_tw0 s) (tw_cpu_to_be_32 (server_ip u)) (e + sizeof_ether_hdr)) s) (\<lambda>_.
     bnd (\<lambda>s. deref arp_heap (server_entry s) s) (\<lambda>entry.
     bnd (\<lambda>s. port_at (phy_port_id s) s) (\<lambda>pi. bnd (at_mac (eth_mac pi)) (\<lambda>ea.
     bnd (data_store (tb_data b) sizeof_ether_hdr (eth_stores (at_eth_mac entry) ea ETHER_TYPE_IPv4)) (\<lambda>_.
     bnd (tw_send_pkt b ''tw0'') (\<lambda>_. ret ())))))))))"

text \<open>The packet limit is 0, which means that there is none.\<close>

definition udpsend_pkt_tx :: "ptr \<Rightarrow> ('a sender_scheme, unit) act" where
  "udpsend_pkt_tx handle =
     bnd tw_get_current_timer_cycles (\<lambda>curr_time_cycle s.
     (if curr_time_cycle - prev_stats_calc s > ppsdelay s then
        bnd (modify (\<lambda>s. s\<lparr>prev_stats_calc := curr_time_cycle\<rparr>)) (\<lambda>_ s.
        (if secs_passed (tw_stats s) < ucast (test_runtime (user_params s)) \<or> test_runtime (user_params s) = 0
         then if server_entry s = None then udpsend_resolve else udpsend_request
         else ret ()) s)
      else ret ()) s)"

text \<open>A program with a receive callback, and a transmit callback.\<close>

definition udpsend_user_app_main :: "env \<Rightarrow> ('a sender_scheme, int) act" where
  "udpsend_user_app_main e = bnd start_rx (\<lambda>tw_loop.
     bnd (tw_tx_init tw_loop) (\<lambda>tx_handle. if tx_handle = None then exit_with 1 else
     bnd (tw_tx_start tx_handle (Some TX_CB)) (\<lambda>status. if status \<noteq> 0 then exit_with 1 else
     bnd (tw_run ((rx_only udpsend_pkt_rx)\<lparr>tx_code := (\<lambda>c. if c = TX_CB then udpsend_pkt_tx else (\<lambda>_. fault WildDeref))\<rparr>) (e_tmp e) (e_tables e) tw_loop) (\<lambda>_.
     ret 0))))"

definition udpsend_main :: "env \<Rightarrow> ('a sender_scheme, int) act" where
  "udpsend_main e =
     bnd (init e) (\<lambda>_.
     bnd (tw_get_ip_addr ''tw0'') (\<lambda>own. bnd (modify (\<lambda>s. s\<lparr>ipv4_tw0 := tw_cpu_to_be_32 own\<rparr>)) (\<lambda>_.
     bnd (udpsend_parse_user_params (e_fp e) (e_junk e) ''udp_traffic_data'') (\<lambda>_.
     bnd (tw_map_port_to_engine ''tw0'' ''engine0'') (\<lambda>_.
     bnd (modify (\<lambda>s. s\<lparr>phy_port_id := tw_eth_name_to_id ''tw0'' s\<rparr>)) (\<lambda>_.
     bnd (\<lambda>s. tw_new_buffer (user_payload_size (user_params s)) s) (\<lambda>p.
     bnd (modify (\<lambda>s. s\<lparr>us_tx_buf := p, tw_stats := (tw_stats s)\<lparr>secs_passed := 0\<rparr>\<rparr>)) (\<lambda>_ s.
     (if pps_limit (user_params s) = 0 then fault DivByZero else
      bnd (modify (\<lambda>s. s\<lparr>ppsdelay := tsc_hz s div ucast (pps_limit (user_params s))\<rparr>)) (\<lambda>_.
      bnd (udpsend_user_app_main e) (\<lambda>_. ret 0))) s))))))))"

section \<open>tw\_eventloop\_smoke.c\<close>

record smoke = apps +
  smoke_loop :: ptr

definition smoke_tx_cb :: "ptr \<Rightarrow> ('a smoke_scheme, unit) act" where
  "smoke_tx_cb handle = bnd (\<lambda>s. tw_tx_unregister handle (smoke_loop s) s) (\<lambda>_. ret ())"

definition smoke_rx_cb :: "ptr \<Rightarrow> ptr \<Rightarrow> ('a smoke_scheme, unit) act" where
  "smoke_rx_cb handle buffer = ret ()"

definition smoke_timer_cb :: "ptr \<Rightarrow> ('a smoke_scheme, unit) act" where
  "smoke_timer_cb handle = bnd (\<lambda>s. tw_timer_unregister handle (smoke_loop s) s) (\<lambda>_. exit_with 0)"

definition smoke_callbacks :: "'a smoke_scheme callbacks" where
  "smoke_callbacks = (rx_and_timer smoke_rx_cb smoke_timer_cb)\<lparr>tx_code := (\<lambda>c. if c = TX_CB then smoke_tx_cb else (\<lambda>_. fault WildDeref))\<rparr>"

definition smoke_user_app_main :: "env \<Rightarrow> ('a smoke_scheme, int) act" where
  "smoke_user_app_main e =
     bnd (tw_default_loop INFINITE_LOOP) (\<lambda>tw_loop.
     bnd (modify (\<lambda>s. s\<lparr>smoke_loop := tw_loop\<rparr>)) (\<lambda>_.
     bnd (tw_rx_init tw_loop) (\<lambda>rx_handle. if rx_handle = None then ret (- 1) else
     bnd (tw_rx_start rx_handle (Some RX_CB)) (\<lambda>rx_status. if rx_status \<noteq> 0 then ret (- 1) else
     bnd (tw_tx_init tw_loop) (\<lambda>tx_handle. if tx_handle = None then ret (- 1) else
     bnd (tw_tx_start tx_handle (Some TX_CB)) (\<lambda>tx_status. if tx_status \<noteq> 0 then ret (- 1) else
     bnd (tw_timer_init tw_loop) (\<lambda>timer_handle. if timer_handle = None then ret (- 1) else
     bnd (tw_timer_start timer_handle (Some TIMER_CB) 1000) (\<lambda>timer_status. if timer_status \<noteq> 0 then ret (- 1) else
     bnd (tw_run smoke_callbacks (e_tmp e) (e_tables e) tw_loop) (\<lambda>_. ret 0)))))))))"

definition smoke_main :: "env \<Rightarrow> ('a smoke_scheme, int) act" where
  "smoke_main e =
     (if uid (e_sys e) \<noteq> 0 then exit_with 0 else
      bnd (init e) (\<lambda>_.
      bnd (tw_map_port_to_engine ''tw0'' ''engine0'') (\<lambda>_.
      smoke_user_app_main e)))"

section \<open>Receiving a ping\<close>

lemma ping_answer_run:
  fixes s :: "'a ports_scheme"
  assumes "mbufs s a = Some m" "tb_data b = (Some a, mtod m)" "mtod m + 42 \<le> unat (buf_len m)" "buf m (mtod m + 23) = ICMP_PROTO_ID"
    and "tw_eth_name_to_id ''tw0'' s = int p" "p < length (port_infos s)" "eth_mac (port_infos s ! p) = Some mac"
  shows "ping_answer b s = Some (Ret ((), s\<lparr>mbufs := (mbufs s)(a \<mapsto> m\<lparr>buf := icmp_answer mac (mtod m) (buf m)\<rparr>)\<rparr>))"
proof -
  let ?m1 = "m\<lparr>buf := swap_ips (mtod m + 14) (icmp_reply (mtod m + 34) (buf m))\<rparr>"
  let ?s1 = "s\<lparr>mbufs := (mbufs s)(a \<mapsto> ?m1)\<rparr>"
  have "tw_eth_name_to_id ''tw0'' ?s1 = int p" using assms(5) by (simp add: tw_eth_name_to_id_def)
  then have g: "tw_get_ether_addr ''tw0'' ?s1 = Some (Ret (Some mac, ?s1))" using assms(6,7) by (simp add: tw_get_ether_addr_def port_at_def run_simps)
  have "echo_frame (Some mac) b ?s1 = Some (Ret ((), s\<lparr>mbufs := (mbufs s)(a \<mapsto> m\<lparr>buf := icmp_answer mac (mtod m) (buf m)\<rparr>)\<rparr>))"
    using echo_frame_run[of ?s1 a ?m1 "mtod m" b mac] assms(2,3,4) by (simp add: icmp_answer_def)
  with g show ?thesis using assms(1-3) by (simp add: ping_answer_def run_simps add.assoc)
qed

definition up_tw0 :: "'a ports_scheme \<Rightarrow> nat \<Rightarrow> bool" where
  "up_tw0 s p \<longleftrightarrow> tw_eth_name_to_id ''tw0'' s = int p \<and> port_up s (of_nat p) \<and> p < 8"

lemma up_tw0D:
  assumes "up_tw0 s p"
  shows "tw_eth_name_to_id ''tw0'' s = int p" "p < 8" "length (port_infos s) = 8" "eth_mac (port_infos s ! p) = Some (the (eth_mac (port_infos s ! p)))"
  using assms by (auto simp: up_tw0_def port_up_def unat_of_nat)

lemma ping_rx_request:
  fixes s :: "'a pinger_scheme"
  assumes "tx_inv s" "holds_pkt t a m s" "room 42 m" "buf m (mtod m + 23) = ICMP_PROTO_ID" "buf m (mtod m + 34) = 8" "up_tw0 s p"
  shows "if length (txq s p) < 31 then \<exists>s'. ping_pkt_rx h (Some t) s = Some (Ret ((), s')) \<and> txq s' p = txq s p @ [a] \<and> mbufs s' a = None
    else ping_pkt_rx h (Some t) s = Some (Fault WildDeref)"
proof -
  obtain b where b: "tw_bufs s t = Some b" "tb_pkt b = Some a" "tb_data b = (Some a, mtod m)" "loose s a = Some m"
    using assms(2) by (auto simp: holds_pkt_def)
  note m = looseD[OF b(4)] and u = up_tw0D[OF assms(6)] and rm = assms(3)[unfolded room_def]
  let ?m' = "m\<lparr>buf := icmp_answer (the (eth_mac (port_infos s ! p))) (mtod m) (buf m)\<rparr>"
  have w: "ping_answer b s = Some (Ret ((), s\<lparr>mbufs := (mbufs s)(a \<mapsto> ?m')\<rparr>))" using ping_answer_run[OF m b(3) rm assms(4) u(1) _ u(4)] u(2,3) by simp
  obtain s1 where s1: "tw_send_pkt b ''tw0'' (s\<lparr>mbufs := (mbufs s)(a \<mapsto> ?m')\<rparr>) = Some (Ret (0, s1))" "answered p a ?m' s s1"
    using send_pkt_run[OF assms(1) b(4,2) u(1,2)] by blast
  have eq: "s1 = s\<lparr>mbufs := mbufs s1, tx_cnt := tx_cnt s1, wire := wire s1, lcore_confs := lcore_confs s1, tw_stats := tw_stats s1\<rparr>"
    using s1(2) by (simp add: answered_def tx_frame_def)
  have t: "tw_bufs s1 t = Some b" by (subst eq) (simp add: b(1))
  have "ping_pkt_rx h (Some t) s = rte_pktmbuf_free (Some a) s1"
    using b(1-3) m rm assms(4,5) w s1(1) t by (simp add: ping_pkt_rx_def run_simps tw_free_pkt_def icmp_echo_at_def Let_def add.assoc)
  moreover have "txq (s1\<lparr>mbufs := x\<rparr>) = txq s1" for x using tx_view_cong(1)[of "s1\<lparr>mbufs := x\<rparr>" s1] by simp
  moreover have "if length (txq s p) < 31 then mbufs s1 a = Some ?m' \<and> txq s1 p = txq s p @ [a] else mbufs s1 a = None"
    using s1(2) by (auto simp: answered_def sent_def Let_def)
  ultimately show ?thesis by (auto simp: free_ok double_free split: if_splits)
qed

lemma ping_rx_reply:
  fixes s :: "'a pinger_scheme"
  assumes "tx_inv s" "holds_pkt t a m s" "room 42 m" "buf m (mtod m + 23) = ICMP_PROTO_ID" "buf m (mtod m + 34) = 0"
  shows "ping_pkt_rx h (Some t) s = Some (Ret ((), s\<lparr>reply_count := reply_count s + 1, mbufs := (mbufs s)(a := None)\<rparr>))"
proof -
  obtain b where b: "tw_bufs s t = Some b" "tb_pkt b = Some a" "tb_data b = (Some a, mtod m)" "loose s a = Some m"
    using assms(2) by (auto simp: holds_pkt_def)
  then show ?thesis using looseD[OF b(4)] assms(3)[unfolded room_def] assms(4,5)
    by (simp add: ping_pkt_rx_def run_simps tw_free_pkt_def icmp_echo_at_def Let_def add.assoc)
qed

section \<open>Sending a ping\<close>

lemma new_buffer_run:
  assumes "tx_mempool s \<noteq> []" "tx_mempool s ! 0 \<noteq> None" "mbuf_src s (mbuf_cnt s) = Some (a, m)" "malloc_src s (malloc_cnt s) = Some b"
    and "unat len + 128 \<le> unat (buf_len m)" "len \<noteq> 0"
  shows "tw_new_buffer len s = Some (Ret (Some b, s\<lparr>mbuf_cnt := Suc (mbuf_cnt s), malloc_cnt := Suc (malloc_cnt s),
    mbufs := (mbufs s)(a \<mapsto> (rte_pktmbuf_reset m)\<lparr>data_len := len, pkt_len := ucast len\<rparr>),
    tw_bufs := (tw_bufs s)(b \<mapsto> (tw_buf_junk s b)\<lparr>tb_size := len, tb_pkt := Some a, tb_data := (Some a, 128)\<rparr>)\<rparr>))"
proof -
  have hr: "128 \<le> buf_len m" using assms(5) by (simp add: word_le_nat_alt)
  then have m0: "data_len (rte_pktmbuf_reset m) = 0" "pkt_len (rte_pktmbuf_reset m) = 0" "data_off (rte_pktmbuf_reset m) = 128" "buf_len (rte_pktmbuf_reset m) = buf_len m"
    by (simp_all add: rte_pktmbuf_reset_def)
  have "unat (buf_len m - 128) = unat (buf_len m) - 128" using hr by (simp add: unat_sub)
  then have "len \<le> rte_pktmbuf_tailroom (rte_pktmbuf_reset m)"
    using assms(5) m0 by (simp add: rte_pktmbuf_tailroom_def rte_pktmbuf_headroom_def word_le_nat_alt)
  then have "rte_pktmbuf_append len (rte_pktmbuf_reset m) = Some ((rte_pktmbuf_reset m)\<lparr>data_len := len, pkt_len := ucast len\<rparr>)"
    using m0 by (simp add: rte_pktmbuf_append_def not_less)
  moreover obtain q where "tx_mempool s ! 0 = Some q" using assms(2) by blast
  ultimately show ?thesis using assms m0(3)
    by (simp add: tw_new_buffer_def tw_app_get_buffer_def rte_pktmbuf_alloc_def rte_malloc_def run_simps mbuf_append_def put_mbuf_def)
qed

lemma ip_stores_fields:
  "rd32 (ip_stores pr len src dst p b) (p + 12) = src" "rd32 (ip_stores pr len src dst p b) (p + 16) = dst"
  "rd16 (ip_stores pr len src dst p b) (p + 2) = tw_cpu_to_be_16 len" "ip_stores pr len src dst p b (p + 9) = pr"
  "ip_stores pr len src dst p b p = 0x45" "k < p \<or> p + 20 \<le> k \<Longrightarrow> ip_stores pr len src dst p b k = b k"
  "rte_raw_cksum (ip_stores pr len src dst p b) p 20 = 0xFFFF"
proof -
  let ?c = "set_hdr_checksum p 0 (set_time_to_live p 63 (set_version_ihl p 0x45 (set_dst_addr p dst (set_src_addr p src
    (set_next_proto_id p pr (set_total_length p (tw_cpu_to_be_16 len) b))))))"
  have s: "ip_stores pr len src dst p b = wr16 (p + 10) (rte_ipv4_cksum ?c p) ?c" by (simp add: ip_stores_def tw_ipv4_cksum_def Let_def)
  show "rd32 (ip_stores pr len src dst p b) (p + 12) = src" "rd32 (ip_stores pr len src dst p b) (p + 16) = dst"
    "rd16 (ip_stores pr len src dst p b) (p + 2) = tw_cpu_to_be_16 len" "ip_stores pr len src dst p b (p + 9) = pr"
    "ip_stores pr len src dst p b p = 0x45" "k < p \<or> p + 20 \<le> k \<Longrightarrow> ip_stores pr len src dst p b k = b k" unfolding s by (auto simp: field_simps_buf)
  have "rd16 ?c (p + 10) = 0" by (simp add: field_simps_buf)
  then show "rte_raw_cksum (ip_stores pr len src dst p b) p 20 = 0xFFFF" unfolding s by (rule ipv4_cksum_ok)
qed

lemma icmp_request_fields:
  "icmp_request seq c b c = 8" "rd16 (icmp_request seq c b) (c + 6) = ucast seq" "k < c \<or> c + 8 \<le> k \<Longrightarrow> icmp_request seq c b k = b k"
  "rte_raw_cksum (icmp_request seq c b) c 8 = 0xFFFF"
proof -
  let ?b = "wr16 (c + 2) 0 (wr16 (c + 6) (ucast seq) (wr16 (c + 4) 0x1337 (wr8 (c + 1) 0 (wr8 c 8 b))))"
  have s: "icmp_request seq c b = wr16 (c + 2) (tw_calcsum ?b c 8) ?b" by (simp add: icmp_request_def Let_def)
  show "icmp_request seq c b c = 8" "rd16 (icmp_request seq c b) (c + 6) = ucast seq" "k < c \<or> c + 8 \<le> k \<Longrightarrow> icmp_request seq c b k = b k"
    unfolding s by (auto simp: field_simps_buf)
  have "rd16 ?b (c + 2) = 0" by (simp add: field_simps_buf)
  then show "rte_raw_cksum (icmp_request seq c b) c 8 = 0xFFFF" using calcsum_store[of 8 1 ?b c] unfolding s by simp
qed

lemma eth_stores_fields:
  "rd_mac (eth_stores dst src ty e b) e = dst" "rd_mac (eth_stores dst src ty e b) (e + 6) = src" "rd16 (eth_stores dst src ty e b) (e + 12) = tw_cpu_to_be_16 ty"
  "k < e \<or> e + 14 \<le> k \<Longrightarrow> eth_stores dst src ty e b k = b k"
  by (auto simp: eth_stores_def field_simps_buf)

text \<open>The three layers of a frame at \<open>e\<close>: the message behind the headers is what \<open>f\<close> stored.\<close>

definition frame_of :: "ether_addr \<Rightarrow> ether_addr \<Rightarrow> u8 \<Rightarrow> u16 \<Rightarrow> u32 \<Rightarrow> u32 \<Rightarrow> nat \<Rightarrow> bytes \<Rightarrow> bytes" where
  "frame_of dmac smac pr len src dst e b = eth_stores dmac smac ETHER_TYPE_IPv4 e (ip_stores pr len src dst (e + 14) b)"

lemma frame_of_fields:
  "rd_mac (frame_of dmac smac pr len src dst e b) e = dmac" "rd_mac (frame_of dmac smac pr len src dst e b) (e + 6) = smac"
  "rd16 (frame_of dmac smac pr len src dst e b) (e + 12) = tw_cpu_to_be_16 ETHER_TYPE_IPv4"
  "rd32 (frame_of dmac smac pr len src dst e b) (e + 26) = src" "rd32 (frame_of dmac smac pr len src dst e b) (e + 30) = dst"
  "rd16 (frame_of dmac smac pr len src dst e b) (e + 16) = tw_cpu_to_be_16 len" "frame_of dmac smac pr len src dst e b (e + 23) = pr"
  "rte_raw_cksum (frame_of dmac smac pr len src dst e b) (e + 14) 20 = 0xFFFF" "e + 34 \<le> k \<Longrightarrow> frame_of dmac smac pr len src dst e b k = b k"
proof -
  let ?i = "ip_stores pr len src dst (e + 14) b" and ?f = "frame_of dmac smac pr len src dst e b"
  have hi: "?f k = ?i k" if "e + 14 \<le> k" for k using that eth_stores_fields(4)[of k e] by (simp add: frame_of_def)
  have r: "rd32 ?f k = rd32 ?i k" "rd16 ?f k = rd16 ?i k" if "e + 14 \<le> k" for k using that hi by (auto intro!: rd32_cong rd16_cong)
  show "rd_mac ?f e = dmac" "rd_mac ?f (e + 6) = smac" "rd16 ?f (e + 12) = tw_cpu_to_be_16 ETHER_TYPE_IPv4" by (simp_all add: frame_of_def eth_stores_fields)
  show "rd32 ?f (e + 26) = src" "rd32 ?f (e + 30) = dst" "rd16 ?f (e + 16) = tw_cpu_to_be_16 len" "?f (e + 23) = pr"
    using r[of "e + 26"] r[of "e + 30"] r(2)[of "e + 16"] hi[of "e + 23"] ip_stores_fields(1-4)[of pr len src dst "e + 14" b] by (simp_all add: add.commute[of e])
  show "rte_raw_cksum ?f (e + 14) 20 = 0xFFFF" using raw_cksum_cong[of "e + 14" 20 ?f ?i] hi ip_stores_fields(7)[of pr len src dst "e + 14" b] by simp
  show "e + 34 \<le> k \<Longrightarrow> ?f k = b k" using hi[of k] ip_stores_fields(6)[of k "e + 14" pr len src dst b] by simp
qed

text \<open>What sending takes: a pool with a large enough unused buffer, and memory for its descriptor.\<close>

definition can_alloc :: "'a mempools_scheme \<Rightarrow> nat \<Rightarrow> nat \<Rightarrow> rte_mbuf \<Rightarrow> nat \<Rightarrow> bool" where
  "can_alloc s n x m0 t \<longleftrightarrow> tx_mempool s \<noteq> [] \<and> tx_mempool s ! 0 \<noteq> None \<and> mbuf_src s (mbuf_cnt s) = Some (x, m0) \<and> malloc_src s (malloc_cnt s) = Some t \<and>
     x \<notin> dom (mbufs s) \<and> n + 128 \<le> unat (buf_len m0)"

lemma ping_request_run:
  fixes s :: "'a pinger_scheme"
  assumes inv: "tx_inv s" and al: "can_alloc s 74 x m0 t" and up: "up_tw0 s p" and e: "dst_eth_addr s = Some k" "arp_heap s k = Some en"
  defines "pi \<equiv> port_infos s ! p"
  defines "m \<equiv> (rte_pktmbuf_reset m0)\<lparr>data_len := 74, pkt_len := 74, buf := frame_of (at_eth_mac en) (the (eth_mac pi)) ICMP_PROTO_ID 60
      (tw_cpu_to_be_32 (start_ip_addr pi)) (tw_cpu_to_be_32 (ping_ip s)) 128 (icmp_request (ping_count s + 1) 162 (buf m0))\<rparr>"
  shows "\<exists>s'. ping_request s = Some (Ret ((), s')) \<and> tx_inv s' \<and> loose s' = loose s \<and> sent p x m s s' \<and> ping_count s' = ping_count s + 1 \<and> tw_bufs s' = (tw_bufs s)(t := None)"
proof -
  note u = up_tw0D[OF up]
  have a: "tx_mempool s \<noteq> []" "tx_mempool s ! 0 \<noteq> None" "mbuf_src s (mbuf_cnt s) = Some (x, m0)" "malloc_src s (malloc_cnt s) = Some t" "x \<notin> dom (mbufs s)" "202 \<le> unat (buf_len m0)"
    using al by (simp_all add: can_alloc_def)
  let ?r = "(rte_pktmbuf_reset m0)\<lparr>data_len := 74, pkt_len := 74\<rparr>"
  let ?b = "(tw_buf_junk s t)\<lparr>tb_size := 74, tb_pkt := Some x, tb_data := (Some x, 128)\<rparr>"
  let ?s1 = "s\<lparr>mbuf_cnt := Suc (mbuf_cnt s), malloc_cnt := Suc (malloc_cnt s), mbufs := (mbufs s)(x \<mapsto> ?r), tw_bufs := (tw_bufs s)(t \<mapsto> ?b), ping_count := ping_count s + 1\<rparr>"
  have hr: "128 \<le> buf_len m0" using a(6) by (simp add: word_le_nat_alt)
  then have m0: "buf_len (rte_pktmbuf_reset m0) = buf_len m0" "buf (rte_pktmbuf_reset m0) = buf m0" by (simp_all add: rte_pktmbuf_reset_def)
  have v: "tx_pending ?s1 = tx_pending s" "tx_shape ?s1 = tx_shape s" "txq ?s1 = txq s" using tx_view_cong[of ?s1 s] by simp_all
  have xn: "x \<notin> set (tx_pending s)" using inv a(5) by (auto simp: tx_inv_def)
  have i1: "tx_inv ?s1" "loose ?s1 = (loose s)(x \<mapsto> ?r)" "loose s x = None"
    using inv xn a(5) by (auto simp: tx_inv_def loose_def v restrict_map_def fun_eq_iff)
  have n1: "tw_eth_name_to_id ''tw0'' ?s1 = int p" using u(1) by (simp add: tw_eth_name_to_id_def)
  obtain s2 where s2: "tw_send_pkt ?b ''tw0'' (?s1\<lparr>mbufs := (mbufs ?s1)(x \<mapsto> m)\<rparr>) = Some (Ret (0, s2))" "answered p x m ?s1 s2"
    using send_pkt_run[OF i1(1) _ _ n1 u(2), of x ?r ?b m] i1(2) by auto
  have f: "s2 = ?s1\<lparr>mbufs := mbufs s2, tx_cnt := tx_cnt s2, wire := wire s2, lcore_confs := lcore_confs s2, tw_stats := tw_stats s2\<rparr>"
    using s2(2) by (simp add: answered_def tx_frame_def)
  have g: "tw_get_ip_addr ''tw0'' s' = Some (Ret (start_ip_addr pi, s'))" "tw_get_ether_addr ''tw0'' s' = Some (Ret (eth_mac pi, s'))"
    if "port_infos s' = port_infos s" for s' :: "'a pinger_scheme"
    using that u unfolding pi_def by (simp_all add: tw_get_ip_addr_def tw_get_ether_addr_def tw_eth_name_to_id_def port_at_def run_simps)
  obtain mac where mac: "eth_mac pi = Some mac" using u(4) unfolding pi_def by blast
  have t2: "tw_bufs s2 = (tw_bufs s)(t \<mapsto> ?b)" "ping_count s2 = ping_count s + 1" by (subst f, simp)+
  let ?s' = "s2\<lparr>tw_bufs := (tw_bufs s)(t := None)\<rparr>"
  have "ping_request s = Some (Ret ((), ?s'))"
    using new_buffer_run[OF a(1-4), of 74] a(6) m0 e s2(1) t2(1)
    by (simp add: ping_request_def run_simps g at_mac_def mac m_def frame_of_def)
  moreover have w: "txq ?s' = txq s2" "tx_inv ?s' = tx_inv s2" "loose ?s' = loose s2" using tx_view_cong[of ?s' s2] by simp_all
  moreover have "sent p x m s ?s'" using s2(2) by (simp add: answered_def sent_def Let_def v w)
  moreover have "loose s2 = loose s" using s2(2) i1(2,3) by (auto simp: answered_def)
  ultimately show ?thesis using s2(2) t2 by (intro exI[of _ ?s']) (simp add: answered_def)
qed

section \<open>Sending datagrams\<close>

text \<open>The frame \<open>twudpsend\<close> writes into its only buffer.\<close>

definition udp_frame :: "'a sender_scheme \<Rightarrow> tw_buf \<Rightarrow> arp_table \<Rightarrow> ether_addr \<Rightarrow> rte_mbuf \<Rightarrow> rte_mbuf" where
  "udp_frame s b en mac m = m\<lparr>buf := frame_of (at_eth_mac en) mac 17 (tb_size b - 14) (ipv4_tw0 s) (tw_cpu_to_be_32 (server_ip (user_params s))) (mtod m)
     (udp_stores 7777 (server_port (user_params s)) (tb_size b - 34) (mtod m + 34) (buf m))\<rparr>"

lemma udpsend_request_run:
  fixes s :: "'a sender_scheme"
  assumes "tx_shape s" "us_tx_buf s = Some t" "tw_bufs s t = Some b" "tb_pkt b = Some a" "tb_data b = (Some a, mtod m)" "mbufs s a = Some m" "room 42 m"
    and "server_entry s = Some k" "arp_heap s k = Some en" "phy_port_id s = int p" "tw_eth_name_to_id ''tw0'' s = int p" "p < 8" "length (port_infos s) = 8"
    and "eth_mac (port_infos s ! p) = Some mac" "length (txq s p) < 31"
  shows "\<exists>s'. udpsend_request s = Some (Ret ((), s')) \<and> tx_shape s' \<and> txq s' p = txq s p @ [a] \<and> mbufs s' = (mbufs s)(a \<mapsto> udp_frame s b en mac m) \<and>
    s' = s\<lparr>mbufs := mbufs s', lcore_confs := lcore_confs s'\<rparr>"
proof -
  let ?m' = "udp_frame s b en mac m"
  let ?s1 = "s\<lparr>mbufs := (mbufs s)(a \<mapsto> ?m')\<rparr>"
  have v: "tx_shape ?s1" "txq ?s1 = txq s" "tx_table ?s1 = tx_table s" using assms(1) tx_view_cong[of ?s1 s] by (simp_all add: fun_eq_iff tx_table_def)
  let ?t = "(tx_table s p)\<lparr>m_table := (m_table (tx_table s p))[length (txq s p) := Some a], mt_len := int (length (txq s p)) + 1\<rparr>"
  let ?s' = "put_table p ?t ?s1"
  have add: "tw_add_pkt_to_tx_queue (Some a) (of_nat p) ?s1 = Some (Ret (0, ?s'))" using add_pkt_store[OF v(1) assms(12), of a] assms(15) by (simp add: v)
  have n1: "tw_eth_name_to_id ''tw0'' ?s1 = int p" using assms(11) by (simp add: tw_eth_name_to_id_def)
  have g: "port_at (int p) s' = Some (Ret (port_infos s ! p, s'))" if "port_infos s' = port_infos s" for s' :: "'a sender_scheme"
    using that assms(12,13) by (simp add: port_at_def run_simps)
  have "udpsend_request s = Some (Ret ((), ?s'))"
    using assms(2-10,14) add n1 by (simp add: udpsend_request_def run_simps g at_mac_def udp_frame_def frame_of_def tw_send_pkt_def room_def add.assoc)
  moreover note tf = txq_facts[OF assms(1,12)]
  have tl: "length (m_table (tx_table s p)) = 32" using assms(1,12) by (simp add: tx_shape_def table_ok_def)
  have "take (Suc (length (txq s p))) ((m_table (tx_table s p))[length (txq s p) := Some a]) = map Some (txq s p) @ [Some a]"
    using tf(1) tl assms(15) by (simp add: take_Suc_conv_app_nth take_update_cancel)
  then have "txq ?s' p = txq s p @ [a]" using txq_put[OF v(1) assms(12), of ?t p] by (simp add: nat_add_distrib comp_def)
  moreover have "table_ok ?t"
    using assms(1,12,15) tl tf by (auto simp: tx_shape_def table_ok_def nth_list_update)
  then have "tx_shape ?s'" using tx_shape_put[OF v(1) assms(12)] by blast
  moreover have "?s' = s\<lparr>mbufs := mbufs ?s', lcore_confs := lcore_confs ?s'\<rparr>" by (simp add: put_table_def)
  ultimately show ?thesis by (intro exI[of _ ?s']) simp
qed

definition sender_ready :: "'a sender_scheme \<Rightarrow> nat \<Rightarrow> rte_mbuf \<Rightarrow> nat \<Rightarrow> bool" where
  "sender_ready s a m p \<longleftrightarrow> (\<exists>t b k en. us_tx_buf s = Some t \<and> tw_bufs s t = Some b \<and> tb_pkt b = Some a \<and> tb_data b = (Some a, mtod m) \<and>
     server_entry s = Some k \<and> arp_heap s k = Some en) \<and> mbufs s a = Some m \<and> room 42 m \<and> phy_port_id s = int p \<and> up_tw0 s p \<and> test_runtime (user_params s) = 0"

lemma udpsend_tx_run:
  fixes s :: "'a sender_scheme"
  assumes "tx_shape s" "sender_ready s a m p" "length (txq s p) < 31" "ppsdelay s < tsc_src s (tsc_cnt s) - prev_stats_calc s"
  shows "\<exists>s' b. udpsend_pkt_tx h s = Some (Ret ((), s')) \<and> tx_shape s' \<and> txq s' p = txq s p @ [a] \<and> sender_ready s' a (m\<lparr>buf := b\<rparr>) p \<and>
    tsc_src s' = tsc_src s \<and> tsc_cnt s' = Suc (tsc_cnt s) \<and> prev_stats_calc s' = tsc_src s (tsc_cnt s) \<and> ppsdelay s' = ppsdelay s"
proof -
  obtain t b k en where r: "us_tx_buf s = Some t" "tw_bufs s t = Some b" "tb_pkt b = Some a" "tb_data b = (Some a, mtod m)" "server_entry s = Some k" "arp_heap s k = Some en"
    "mbufs s a = Some m" "room 42 m" "phy_port_id s = int p" "up_tw0 s p" "test_runtime (user_params s) = 0" using assms(2) unfolding sender_ready_def by blast
  note u = up_tw0D[OF r(10)]
  let ?s0 = "s\<lparr>tsc_cnt := Suc (tsc_cnt s), prev_stats_calc := tsc_src s (tsc_cnt s)\<rparr>"
  have v: "tx_shape ?s0 = tx_shape s" "txq ?s0 = txq s" using tx_view_cong[of ?s0 s] by simp_all
  have n: "tw_eth_name_to_id ''tw0'' ?s0 = int p" using u(1) by (simp add: tw_eth_name_to_id_def)
  obtain s' where s': "udpsend_request ?s0 = Some (Ret ((), s'))" "tx_shape s'" "txq s' p = txq s p @ [a]"
    "mbufs s' = (mbufs s)(a \<mapsto> udp_frame ?s0 b en (the (eth_mac (port_infos s ! p))) m)" "s' = ?s0\<lparr>mbufs := mbufs s', lcore_confs := lcore_confs s'\<rparr>"
    using udpsend_request_run[of ?s0 t b a m k en p "the (eth_mac (port_infos s ! p))"] assms(1,3) r(1-9) u n v by auto
  have "udpsend_pkt_tx h s = udpsend_request ?s0"
    using assms(4) r(5,11) by (simp add: udpsend_pkt_tx_def tw_get_current_timer_cycles_def rte_get_timer_cycles_def run_simps)
  moreover have eq: "us_tx_buf s' = us_tx_buf s" "tw_bufs s' = tw_bufs s" "server_entry s' = server_entry s" "arp_heap s' = arp_heap s" "phy_port_id s' = phy_port_id s"
    "port_infos s' = port_infos s" "user_params s' = user_params s" "tsc_src s' = tsc_src s" "tsc_cnt s' = Suc (tsc_cnt s)" "prev_stats_calc s' = tsc_src s (tsc_cnt s)"
    "ppsdelay s' = ppsdelay s" by (subst s'(5), simp)+
  moreover have "sender_ready s' a (udp_frame ?s0 b en (the (eth_mac (port_infos s ! p))) m) p"
    using r u by (simp add: sender_ready_def eq s'(4) udp_frame_def room_def up_tw0_def tw_eth_name_to_id_def port_up_def)
  ultimately show ?thesis using s'(1-3) by (intro exI[of _ s'] exI) (auto simp: udp_frame_def)
qed

section \<open>A machine for the witnesses\<close>

definition demo_pinger :: pinger where
  "demo_pinger = apps.extend (demo_app demo_ping) (pinger.fields 1 0 0x0A000009 0 0 (Some 50))"

definition demo_sender :: sender where
  "demo_sender = (apps.extend (demo_app demo_mbuf) (sender.fields \<lparr>server_ip = 0x0A000009, server_port = 7777, user_payload_size = 64, pps_limit = 1, test_runtime = 0\<rparr>
     0 50 0 0 0 (Some 50) 0x0100000A (Some 5)))\<lparr>tsc_src := (\<lambda>k. of_nat (100 * Suc k)), tsc_cnt := 0\<rparr>"

lemma demo_pinger_views:
  "lcore_confs demo_pinger = lcore_confs (demo_app demo_ping)" "lcore_id demo_pinger = lcore_id (demo_app demo_ping)" "mbufs demo_pinger = mbufs (demo_app demo_ping)"
  "tw_bufs demo_pinger = tw_bufs (demo_app demo_ping)" "port_infos demo_pinger = port_infos (demo_app demo_ping)" "arp_heap demo_pinger = arp_heap demo_queue"
  "mbuf_src demo_pinger = (\<lambda>k. Some (1000 + k, demo_mbuf))" "mbuf_cnt demo_pinger = 0" "malloc_src demo_pinger = (\<lambda>k. Some (200 + k))" "malloc_cnt demo_pinger = 0"
  "tx_mempool demo_pinger = [Some 6, None]" "ping demo_pinger = 1" "ping_ip demo_pinger = 0x0A000009" "ping_count demo_pinger = 0" "dst_eth_addr demo_pinger = Some 50"
  by (simp_all add: demo_pinger_def apps.defs pinger.defs demo_app_defs demo_loop_def queue.defs demo_queue_def arp.defs demo_arp_def stats.defs demo_tx_def demo_stats_def lcores.defs
      demo_lcores_def demo_defs)

lemma demo_sender_views:
  "lcore_confs demo_sender = lcore_confs (demo_app demo_mbuf)" "lcore_id demo_sender = lcore_id (demo_app demo_mbuf)" "mbufs demo_sender = mbufs (demo_app demo_mbuf)"
  "tw_bufs demo_sender = tw_bufs (demo_app demo_mbuf)" "port_infos demo_sender = port_infos (demo_app demo_mbuf)" "arp_heap demo_sender = arp_heap demo_queue"
  "us_tx_buf demo_sender = Some 5" "server_entry demo_sender = Some 50" "phy_port_id demo_sender = 0" "test_runtime (user_params demo_sender) = 0" "ppsdelay demo_sender = 50"
  "prev_stats_calc demo_sender = 0" "tsc_src demo_sender = (\<lambda>k. of_nat (100 * Suc k))" "tsc_cnt demo_sender = 0"
  by (simp_all add: demo_sender_def apps.defs sender.defs demo_app_defs demo_loop_def queue.defs demo_queue_def arp.defs demo_arp_def stats.defs demo_tx_def demo_stats_def lcores.defs
      demo_lcores_def demo_defs)

lemma demo_client_facts:
  "tx_inv demo_pinger" "holds_pkt 5 9 demo_ping demo_pinger" "up_tw0 demo_pinger 0" "txq demo_pinger 0 = []"
  "tx_inv demo_sender" "sender_ready demo_sender 9 demo_mbuf 0" "txq demo_sender 0 = []"
proof -
  note a = demo_app_facts(2-4,6)[of demo_ping] demo_app_facts(2-4,6)[of demo_mbuf] demo_app_facts(5,7)[of 0 demo_ping] demo_app_facts(5,7)[of 0 demo_mbuf]
  note d = demo_pinger_views demo_sender_views
  have v: "tx_inv demo_pinger = tx_inv (demo_app demo_ping)" "loose demo_pinger = loose (demo_app demo_ping)" "txq demo_pinger = txq (demo_app demo_ping)"
    using tx_view_cong[of demo_pinger "demo_app demo_ping"] d by simp_all
  have w: "tx_inv demo_sender = tx_inv (demo_app demo_mbuf)" "loose demo_sender = loose (demo_app demo_mbuf)" "txq demo_sender = txq (demo_app demo_mbuf)"
    using tx_view_cong[of demo_sender "demo_app demo_mbuf"] d by simp_all
  have m: "mtod demo_mbuf = 128" "room 42 demo_mbuf" by (simp_all add: demo_mbuf_def room_def)
  show "tx_inv demo_pinger" "txq demo_pinger 0 = []" "tx_inv demo_sender" "txq demo_sender 0 = []" using v w a by simp_all
  show "holds_pkt 5 9 demo_ping demo_pinger" using a(4) demo_ping_fields(1) by (simp add: holds_pkt_def v d)
  show "up_tw0 demo_pinger 0" using a by (simp add: up_tw0_def tw_eth_name_to_id_def d port_up_def)
  have "up_tw0 demo_sender 0" using a by (simp add: up_tw0_def tw_eth_name_to_id_def d port_up_def)
  then show "sender_ready demo_sender 9 demo_mbuf 0" using m by (auto simp: sender_ready_def d demo_app_views demo_queue_more)
qed

section \<open>Properties\<close>



text \<open>
  C32. \<open>twping\<close> frees the echo replies it sends: a request from another host is answered by handing the packet to the transmit queue, and then
  freed like every other packet. While the queue has room the freed packet stays in it; when this packet fills the queue, the burst has handed it to the driver and the program frees it a second time.
\<close>

theorem ping_frees_queued:
  fixes s :: "'a pinger_scheme"
  assumes "tx_inv s" "holds_pkt t a m s" "room 42 m" "buf m (mtod m + 23) = ICMP_PROTO_ID" "buf m (mtod m + 34) = 8" "up_tw0 s p"
  shows "if length (txq s p) < 31 then \<exists>s'. ping_pkt_rx h (Some t) s = Some (Ret ((), s')) \<and> txq s' p = txq s p @ [a] \<and> mbufs s' a = None
    else ping_pkt_rx h (Some t) s = Some (Fault WildDeref)"
  using assms by (rule ping_rx_request)

theorem ping_frees_queued_witness: "\<exists>s'. ping_pkt_rx None (Some 5) demo_pinger = Some (Ret ((), s')) \<and> txq s' 0 = [9] \<and> mbufs s' 9 = None"
proof -
  have "room 42 demo_ping" "buf demo_ping 151 = 1" "buf demo_ping 162 = 8"
    by (simp_all add: demo_ping_def demo_mbuf_def room_def wr16_at wr8_at wr32_at)
  then show ?thesis using ping_frees_queued[OF demo_client_facts(1,2) _ _ _ demo_client_facts(3), of None] demo_ping_fields(1) demo_client_facts(4) by auto
qed

text \<open>
  C33. \<open>twudpsend\<close> queues its only packet again before it has left: two calls of the transmit callback that both are due put the same buffer into the transmit queue twice. The
  queue no longer satisfies its invariant: the driver is given, and frees, the same buffer twice.
\<close>

theorem udpsend_sends_twice:
  fixes s :: "'a sender_scheme"
  assumes "tx_inv s" "sender_ready s a m p" "length (txq s p) < 30"
    and "ppsdelay s < tsc_src s (tsc_cnt s) - prev_stats_calc s" "ppsdelay s < tsc_src s (Suc (tsc_cnt s)) - tsc_src s (tsc_cnt s)"
  shows "\<exists>s1 s2. udpsend_pkt_tx h s = Some (Ret ((), s1)) \<and> udpsend_pkt_tx h s1 = Some (Ret ((), s2)) \<and> txq s2 p = txq s p @ [a, a] \<and> \<not> tx_inv s2"
proof -
  have sh: "tx_shape s" and p: "p < 8" using assms(1,2) by (simp_all add: tx_inv_def sender_ready_def up_tw0_def)
  obtain s1 b where s1: "udpsend_pkt_tx h s = Some (Ret ((), s1))" "tx_shape s1" "txq s1 p = txq s p @ [a]" "sender_ready s1 a (m\<lparr>buf := b\<rparr>) p" "tsc_src s1 = tsc_src s"
    "tsc_cnt s1 = Suc (tsc_cnt s)" "prev_stats_calc s1 = tsc_src s (tsc_cnt s)" "ppsdelay s1 = ppsdelay s"
    using udpsend_tx_run[OF sh assms(2) _ assms(4)] assms(3) by fastforce
  obtain s2 where s2: "udpsend_pkt_tx h s1 = Some (Ret ((), s2))" "txq s2 p = txq s p @ [a, a]"
    using udpsend_tx_run[OF s1(2,4), of h] s1(3,5-8) assms(3,5) by fastforce
  have "txq s2 p \<in> set (map (txq s2) [0..<8])" using p by simp
  then have "distinct (tx_pending s2) \<Longrightarrow> distinct (txq s2 p)" unfolding tx_pending_def by (blast dest: distinct_concat_iff[THEN iffD1])
  then show ?thesis using s1(1) s2 by (auto simp: tx_inv_def)
qed

theorem udpsend_sends_twice_witness:
  "\<exists>s1 s2. udpsend_pkt_tx None demo_sender = Some (Ret ((), s1)) \<and> udpsend_pkt_tx None s1 = Some (Ret ((), s2)) \<and> txq s2 0 = [9, 9]"
  using udpsend_sends_twice[OF demo_client_facts(5,6), of None] demo_client_facts(7) by (auto simp: demo_sender_views)

end
