(* ===== verification/Iperf.thy ===== *)
theory Iperf
  imports Clients
begin

text \<open>
  \<open>applications/twiperf.c\<close>: a server that returns datagrams or frames, and a client that sends them and measures latency and jitter. The statistics that are
  only printed (bandwidth and the length of the test) and the output are left out. Arithmetic on doubles is a parameter, and so is what \<open>sscanf\<close>
  reads as a number with a suffix; \<open>getopt_long\<close> has split the command line. The \<open>sock_fd\<close> of a handle is written and never read; only the access
  is kept. Globals that a function sets before each use (\<open>current\<close>, \<open>jitter1\<close>, \<open>eth\<close>, ...) are local here.
\<close>

record iperf_test =
  role :: int
  protocol_id :: u32
  it_server_port :: u32
  client_port :: u32
  it_server_ip :: u32
  client_ip :: u32
  packet_size :: u32
  rate :: u64
  server_mac :: "ether_addr option"
  client_mac :: "ether_addr option"
  test_runtime :: u8
  it_tx_buf :: ptr

record iperf_stats =
  datagrams_sent :: u64
  datagrams_recv :: u64
  total_transfered_bytes :: u64
  latency :: u64
  jitter :: u64
  st_rx_pps :: u64
  prev_lat :: u64
  cum_lat :: u64
  cum_jitter :: u64
  n_samples :: u64

record iperf = apps +
  server_flag :: int
  client_flag :: int
  rate_flag :: int
  i_errno :: int
  test :: iperf_test
  test_stats :: iperf_stats
  pps_delay :: u64
  prev_time_cycle :: u64
  clock_rate :: u64
  iperf_loop :: ptr
  arpCount :: int

text \<open>What \<open>sscanf("%lf%c")\<close> leaves in its variables, and a clock rate divided by a rate as a double, cut to an integer.\<close>

record rate_env =
  scan_rate :: "string \<Rightarrow> u64 \<times> char"
  delay_of :: "u64 \<Rightarrow> u64 \<Rightarrow> u64"

abbreviation upd_test :: "(iperf_test \<Rightarrow> iperf_test) \<Rightarrow> ('a iperf_scheme, unit) act" where
  "upd_test f \<equiv> modify (\<lambda>s. s\<lparr>test := f (test s)\<rparr>)"

abbreviation upd_stats :: "(iperf_stats \<Rightarrow> iperf_stats) \<Rightarrow> ('a iperf_scheme, unit) act" where
  "upd_stats f \<equiv> modify (\<lambda>s. s\<lparr>test_stats := f (test_stats s)\<rparr>)"

section \<open>Arguments\<close>

definition unit_atof_rate :: "fp \<Rightarrow> rate_env \<Rightarrow> string \<Rightarrow> u64" where
  "unit_atof_rate fp re str = (case scan_rate re str of (n, sfx) \<Rightarrow>
     if sfx = CHR ''g'' \<or> sfx = CHR ''G'' then fp_mul fp n (fp_of_int fp 1000000000)
     else if sfx = CHR ''m'' \<or> sfx = CHR ''M'' then fp_mul fp n (fp_of_int fp 1000000)
     else if sfx = CHR ''k'' \<or> sfx = CHR ''K'' then fp_mul fp n (fp_of_int fp 1000)
     else n)"

text \<open>\<open>atoi\<close>: blanks, a sign, digits.\<close>

definition atoi :: "string \<Rightarrow> u32" where
  "atoi str = (let t = dropWhile is_blank str;
       u = (if t \<noteq> [] \<and> (hd t = CHR ''-'' \<or> hd t = CHR ''+'') then tl t else t);
       v = fst (strtol10 u)
     in word_of_int (if t \<noteq> [] \<and> hd t = CHR ''-'' then - v else v))"

text \<open>The flags that are local to the function: UDP and Ethernet.\<close>

fun iperf_option :: "fp \<Rightarrow> rate_env \<Rightarrow> int list \<Rightarrow> char \<times> string \<Rightarrow> int \<times> int \<Rightarrow> ('a iperf_scheme, int \<times> int) act" where
  "iperf_option fp re junk (flag, arg) (udp_flag, ethernet_flag) =
     (if flag = CHR ''p'' then bnd (upd_test (\<lambda>t. t\<lparr>it_server_port := atoi arg\<rparr>)) (\<lambda>_. ret (udp_flag, ethernet_flag))
      else if flag = CHR ''n'' then bnd (upd_test (\<lambda>t. t\<lparr>packet_size := atoi arg\<rparr>)) (\<lambda>_. ret (udp_flag, ethernet_flag))
      else if flag = CHR ''b'' then
        bnd (upd_test (\<lambda>t. t\<lparr>rate := unit_atof_rate fp re arg\<rparr>)) (\<lambda>_.
        bnd (modify (\<lambda>s. s\<lparr>rate_flag := 1, client_flag := 1\<rparr>)) (\<lambda>_. ret (udp_flag, ethernet_flag)))
      else if flag = CHR ''c'' then
        bnd (modify (\<lambda>s. s\<lparr>client_flag := 1\<rparr>)) (\<lambda>_.
        bnd (tw_get_ether_addr ''tw0'') (\<lambda>mac. bnd (upd_test (\<lambda>t. t\<lparr>role := 2, client_mac := mac\<rparr>)) (\<lambda>_.
        bnd (lift_out (tw_convert_ip_str_to_dec junk arg)) (\<lambda>a. bnd (upd_test (\<lambda>t. t\<lparr>it_server_ip := tw_cpu_to_be_32 a\<rparr>)) (\<lambda>_.
        if tw_cpu_to_be_32 a = 0 then exit_with 1 else
        bnd (tw_get_ip_addr ''tw0'') (\<lambda>own. bnd (upd_test (\<lambda>t. t\<lparr>client_ip := tw_cpu_to_be_32 own\<rparr>)) (\<lambda>_. ret (udp_flag, ethernet_flag))))))))
      else if flag = CHR ''s'' then
        bnd (modify (\<lambda>s. s\<lparr>server_flag := 1\<rparr>)) (\<lambda>_.
        bnd (tw_get_ether_addr ''tw0'') (\<lambda>mac. bnd (tw_get_ip_addr ''tw0'') (\<lambda>own.
        bnd (upd_test (\<lambda>t. t\<lparr>role := 1, server_mac := mac, it_server_ip := tw_cpu_to_be_32 own\<rparr>)) (\<lambda>_. ret (udp_flag, ethernet_flag)))))
      else if flag = CHR ''e'' then bnd (upd_test (\<lambda>t. t\<lparr>protocol_id := 1\<rparr>)) (\<lambda>_. ret (0, 1))
      else if flag = CHR ''u'' then bnd (upd_test (\<lambda>t. t\<lparr>protocol_id := 2\<rparr>)) (\<lambda>_. ret (1, ethernet_flag))
      else exit_with 1)"

primrec iperf_options :: "fp \<Rightarrow> rate_env \<Rightarrow> int list \<Rightarrow> (char \<times> string) list \<Rightarrow> int \<times> int \<Rightarrow> ('a iperf_scheme, int \<times> int) act" where
  "iperf_options fp re junk [] flags = ret flags"
| "iperf_options fp re junk (opt # opts) flags = bnd (iperf_option fp re junk opt flags) (iperf_options fp re junk opts)"

abbreviation "MAX_UDP_BLOCKSIZE \<equiv> (1500 :: u32)"
abbreviation "IEUDPBLOCKSIZE \<equiv> (1 :: int)"
abbreviation "IENOROLE \<equiv> (3 :: int)"

definition twiperf_parse_arguments :: "fp \<Rightarrow> rate_env \<Rightarrow> int list \<Rightarrow> (char \<times> string) list \<Rightarrow> ('a iperf_scheme, int) act" where
  "twiperf_parse_arguments fp re junk opts =
     bnd (modify (\<lambda>s. s\<lparr>server_flag := 0, client_flag := 0\<rparr>)) (\<lambda>_.
     bnd (upd_test (\<lambda>t. t\<lparr>packet_size := 1500, it_server_port := 5001, client_port := 7777, test_runtime := 0, protocol_id := 2\<rparr>)) (\<lambda>_.
     bnd (iperf_options fp re junk opts (1, 0)) (\<lambda>(udp_flag, ethernet_flag) s.
     (if server_flag s = 1 \<and> client_flag s = 1 \<or> udp_flag = 1 \<and> ethernet_flag = 1 then exit_with 1
      else if server_flag s = 0 \<and> client_flag s = 0 \<or> udp_flag = 0 \<and> ethernet_flag = 0 then exit_with 1
      else if role (test s) \<noteq> 1 \<and> role (test s) \<noteq> 2 then bnd (modify (\<lambda>s. s\<lparr>i_errno := IENOROLE\<rparr>)) (\<lambda>_. ret (- 1))
      else if udp_flag = 1 \<and> packet_size (test s) > MAX_UDP_BLOCKSIZE then bnd (modify (\<lambda>s. s\<lparr>i_errno := IEUDPBLOCKSIZE\<rparr>)) (\<lambda>_. ret (- 1))
      else ret 0) s)))"

section \<open>Statistics\<close>

text \<open>\<open>jitter -= jitter1\<close> when the difference is negative, else \<open>jitter += jitter1\<close>.\<close>

definition calculate_latency :: "u64 \<Rightarrow> ('a iperf_scheme, unit) act" where
  "calculate_latency lat =
     bnd tw_get_current_timer_cycles (\<lambda>now s.
     (if clock_rate s = 0 then fault DivByZero else
      let current = (now - lat) div clock_rate s in
      bnd (upd_stats (\<lambda>t. t\<lparr>latency := latency t + current\<rparr>)) (\<lambda>_ s.
      let jitter1 = current - prev_lat (test_stats s) in
      bnd (if sint jitter1 < 0 then upd_stats (\<lambda>t. t\<lparr>jitter := jitter t - jitter1\<rparr>) else upd_stats (\<lambda>t. t\<lparr>jitter := jitter t + jitter1\<rparr>)) (\<lambda>_.
      upd_stats (\<lambda>t. t\<lparr>prev_lat := current, st_rx_pps := st_rx_pps t + 1\<rparr>)) s)) s)"

definition print_perf_stats :: "float_ops \<Rightarrow> ptr \<Rightarrow> ('a iperf_scheme, unit) act" where
  "print_perf_stats fo timer_handle =
     bnd (modify (tw_calc_global_stats fo)) (\<lambda>_ s.
     let bytes = ((rx_pps (tw_stats s) + tx_pps (tw_stats s)) * ucast (packet_size (test s))) div 1000;
         t = test_stats s;
         lat = (if st_rx_pps t > 1 then latency t div st_rx_pps t else 0);
         jit = (if st_rx_pps t > 1 then jitter t div (st_rx_pps t - 1) else 0)
     in upd_stats (\<lambda>t. t\<lparr>cum_lat := cum_lat t + lat, cum_jitter := cum_jitter t + jit, latency := 0, jitter := 0, st_rx_pps := 0,
          n_samples := n_samples t + 1, total_transfered_bytes := total_transfered_bytes t + bytes\<rparr>) s)"

text \<open>The handler of an interrupt prints averages over the samples to a client, and ends the program.\<close>

abbreviation "SIGINT \<equiv> (2 :: int)"

definition sig_handler :: "int \<Rightarrow> ('a iperf_scheme, unit) act" where
  "sig_handler signo = (\<lambda>s.
     (if signo = SIGINT then if client_flag s \<noteq> 0 \<and> n_samples (test_stats s) = 0 then fault DivByZero else exit_with 1
      else ret ()) s)"

section \<open>The server\<close>

definition swap_ports16 :: "nat \<Rightarrow> bytes \<Rightarrow> bytes" where
  "swap_ports16 u b =
     (let dst_port = rd16 b (u + 2); src_port = rd16 b u;
          b = wr16 (u + 2) src_port b;
          b = wr16 u dst_port b
      in wr16 (u + 6) 0 b)"

definition reply_udp_payload :: "ptr \<Rightarrow> ptr \<Rightarrow> ('a iperf_scheme, unit) act" where
  "reply_udp_payload handle buffer =
     bnd (upd_stats (\<lambda>t. t\<lparr>datagrams_recv := datagrams_recv t + 1\<rparr>)) (\<lambda>_.
     bnd (deref tw_bufs buffer) (\<lambda>b.
     bnd (data_store (tb_data b) (sizeof_ether_hdr + sizeof_ipv4_hdr) (\<lambda>e. swap_ips (e + sizeof_ether_hdr))) (\<lambda>_.
     bnd (data_store (tb_data b) (sizeof_ether_hdr + 160 + sizeof_udp_hdr) (\<lambda>e. swap_ports16 (e + sizeof_ether_hdr + 160))) (\<lambda>_.
     bnd (\<lambda>s. echo_frame (server_mac (test s)) b s) (\<lambda>_.
     bnd (tw_send_pkt b ''tw0'') (\<lambda>_.
     upd_stats (\<lambda>t. t\<lparr>datagrams_sent := datagrams_sent t + 1\<rparr>)))))))"

definition reply_ether_payload :: "ptr \<Rightarrow> ptr \<Rightarrow> ('a iperf_scheme, unit) act" where
  "reply_ether_payload handle buffer =
     bnd (deref tw_bufs buffer) (\<lambda>b.
     bnd (\<lambda>s. echo_frame (server_mac (test s)) b s) (\<lambda>_.
     bnd (tw_send_pkt b ''tw0'') (\<lambda>_. ret ())))"

definition udp_app_server :: "env \<Rightarrow> float_ops \<Rightarrow> ('a iperf_scheme, int) act" where
  "udp_app_server e fo = run_rx_timer e reply_udp_payload (print_perf_stats fo)"

definition ether_app_server :: "env \<Rightarrow> float_ops \<Rightarrow> ('a iperf_scheme, int) act" where
  "ether_app_server e fo = run_rx_timer e reply_ether_payload (print_perf_stats fo)"

section \<open>The client\<close>

definition rd64 :: "bytes \<Rightarrow> nat \<Rightarrow> u64" where
  "rd64 b p = ucast (rd32 b p) OR push_bit 32 (ucast (rd32 b (p + 4)))"

definition wr64 :: "nat \<Rightarrow> u64 \<Rightarrow> bytes \<Rightarrow> bytes" where
  "wr64 p v b = wr32 (p + 4) (ucast (drop_bit 32 v)) (wr32 p (ucast v) b)"

abbreviation "app_offset \<equiv> (42 :: nat)"
abbreviation "sizeof_app_hdr \<equiv> (8 :: nat)"

definition iperf_pkt_rx :: "ptr \<Rightarrow> ptr \<Rightarrow> ('a iperf_scheme, unit) act" where
  "iperf_pkt_rx handle buffer =
     bnd (deref tw_bufs buffer) (\<lambda>b.
     bnd (data_hdr (tb_data b) (app_offset + sizeof_app_hdr)) (\<lambda>m.
     bnd (calculate_latency (rd64 (buf m) (snd (tb_data b) + app_offset))) (\<lambda>_.
     bnd (upd_stats (\<lambda>t. t\<lparr>datagrams_recv := datagrams_recv t + 1\<rparr>)) (\<lambda>_.
     tw_free_pkt buffer))))"

definition iperf_pkt_tx :: "ptr \<Rightarrow> ('a iperf_scheme, unit) act" where
  "iperf_pkt_tx handle =
     bnd tw_get_current_timer_cycles (\<lambda>curr_time_cycle s.
     (if curr_time_cycle - prev_time_cycle s > pps_delay s then
        bnd (modify (\<lambda>s. s\<lparr>prev_time_cycle := curr_time_cycle\<rparr>)) (\<lambda>_.
        bnd (\<lambda>s. deref tw_bufs (it_tx_buf (test s)) s) (\<lambda>b.
        bnd tw_get_current_timer_cycles (\<lambda>now.
        bnd (data_store (tb_data b) (app_offset + sizeof_app_hdr) (\<lambda>e. wr64 (e + app_offset) now)) (\<lambda>_.
        bnd (tw_send_pkt b ''tw0'') (\<lambda>_.
        upd_stats (\<lambda>t. t\<lparr>datagrams_sent := datagrams_sent t + 1\<rparr>))))))
      else ret ()) s)"

definition make_pkt :: "('a iperf_scheme, unit) act" where
  "make_pkt =
     bnd (gets test) (\<lambda>t.
     bnd (deref tw_bufs (it_tx_buf t)) (\<lambda>b.
     bnd (data_store (tb_data b) (sizeof_ether_hdr + sizeof_ipv4_hdr + sizeof_udp_hdr)
       (\<lambda>e. udp_stores (ucast (client_port t)) (ucast (it_server_port t)) (ucast (packet_size t)) (e + sizeof_ether_hdr + sizeof_ipv4_hdr))) (\<lambda>_.
     bnd (data_store (tb_data b) (sizeof_ether_hdr + sizeof_ipv4_hdr)
       (\<lambda>e. ip_stores 17 (tb_size b - of_nat sizeof_ether_hdr) (client_ip t) (it_server_ip t) (e + sizeof_ether_hdr))) (\<lambda>_.
     bnd (at_mac (server_mac t)) (\<lambda>dmac. bnd (at_mac (client_mac t)) (\<lambda>smac.
     bnd (data_store (tb_data b) sizeof_ether_hdr (eth_stores dmac smac ETHER_TYPE_IPv4)) (\<lambda>_.
     bnd tw_get_current_timer_cycles (\<lambda>now.
     data_store (tb_data b) (app_offset + sizeof_app_hdr) (\<lambda>e. wr64 (e + app_offset) now)))))))))"

definition connected :: "ptr \<Rightarrow> ('a iperf_scheme, unit) act" where
  "connected timer_handle_this =
     bnd make_pkt (\<lambda>_.
     bnd (\<lambda>s. tw_tx_init (iperf_loop s) s) (\<lambda>tx_handle. if tx_handle = None then exit_with 1 else
     bnd (tw_tx_start tx_handle (Some TX_CB)) (\<lambda>status. if status \<noteq> 0 then exit_with 1 else
     bnd (\<lambda>s. tw_timer_unregister timer_handle_this (iperf_loop s) s) (\<lambda>_.
     bnd (\<lambda>s. tw_timer_init (iperf_loop s) s) (\<lambda>timer_perf_stats.
     bnd (tw_timer_start timer_perf_stats (Some STATS_CB) 1000) (\<lambda>_. ret ()))))))"

definition tw_udp_connect :: "ptr \<Rightarrow> ('a iperf_scheme, unit) act" where
  "tw_udp_connect timer_handle_this = (\<lambda>s.
     (if arpCount s < 4 then
        bnd (tw_search_arp_table (it_server_ip (test s))) (\<lambda>temp_arp_entry.
        if temp_arp_entry = None then
          bnd (tw_send_arp_request (tw_cpu_to_be_32 (it_server_ip (test s))) ''tw0'') (\<lambda>_.
          modify (\<lambda>s. s\<lparr>arpCount := arpCount s + 1\<rparr>))
        else
          bnd (deref arp_heap temp_arp_entry) (\<lambda>en.
          bnd (upd_test (\<lambda>t. t\<lparr>server_mac := Some (at_eth_mac en)\<rparr>)) (\<lambda>_.
          connected timer_handle_this)))
      else exit_with 1) s)"

definition iperf_callbacks :: "float_ops \<Rightarrow> 'a iperf_scheme callbacks" where
  "iperf_callbacks fo = \<lparr>rx_code = (\<lambda>c. if c = RX_CB then iperf_pkt_rx else (\<lambda>_ _. fault WildDeref)),
     tx_code = (\<lambda>c. if c = TX_CB then iperf_pkt_tx else (\<lambda>_. fault WildDeref)),
     timer_code = (\<lambda>c. if c = TIMER_CB then tw_udp_connect else if c = STATS_CB then print_perf_stats fo else (\<lambda>_. fault WildDeref))\<rparr>"

definition udp_app_client :: "env \<Rightarrow> float_ops \<Rightarrow> ('a iperf_scheme, int) act" where
  "udp_app_client e fo =
     bnd start_rx (\<lambda>tw_loop.
     bnd (modify (\<lambda>s. s\<lparr>iperf_loop := tw_loop\<rparr>)) (\<lambda>_.
     bnd (tw_timer_init tw_loop) (\<lambda>timer_handle.
     bnd (deref timer_hs timer_handle) (\<lambda>_.
     bnd (tw_timer_start timer_handle (Some TIMER_CB) 1000) (\<lambda>_.
     bnd (tw_run (iperf_callbacks fo) (e_tmp e) (e_tables e) tw_loop) (\<lambda>_. ret 0))))))"

definition iperf_client :: "env \<Rightarrow> rate_env \<Rightarrow> float_ops \<Rightarrow> ('a iperf_scheme, unit) act" where
  "iperf_client e re fo =
     bnd (\<lambda>s. tw_new_buffer (ucast (packet_size (test s) + of_nat sizeof_ether_hdr + of_nat sizeof_ipv4_hdr)) s) (\<lambda>p.
     bnd (upd_test (\<lambda>t. t\<lparr>it_tx_buf := p\<rparr>)) (\<lambda>_.
     bnd (modify (\<lambda>s. s\<lparr>tw_stats := (tw_stats s)\<lparr>secs_passed := 0\<rparr>\<rparr>)) (\<lambda>_.
     bnd (modify (\<lambda>s. s\<lparr>clock_rate := tw_get_timer_hz s\<rparr>)) (\<lambda>_.
     bnd (modify (\<lambda>s. s\<lparr>pps_delay := (if fp_eq (e_fp e) (rate (test s)) (fp_of_int (e_fp e) 0) then 0 else delay_of re (clock_rate s) (rate (test s)))\<rparr>)) (\<lambda>_.
     bnd (modify (\<lambda>s. s\<lparr>clock_rate := clock_rate s div 1000000\<rparr>)) (\<lambda>_.
     bnd (udp_app_client e fo) (\<lambda>_. ret ())))))))"

definition iperf_main :: "env \<Rightarrow> rate_env \<Rightarrow> float_ops \<Rightarrow> (char \<times> string) list \<Rightarrow> ('a iperf_scheme, int) act" where
  "iperf_main e re fo opts =
     bnd (init e) (\<lambda>_.
     bnd (twiperf_parse_arguments (e_fp e) re (e_junk e) opts) (\<lambda>r. if r < 0 then exit_with 1 else
     bnd (tw_map_port_to_engine ''tw0'' ''engine0'') (\<lambda>_.
     bnd (upd_stats (\<lambda>t. t\<lparr>prev_lat := 0\<rparr>)) (\<lambda>_.
     bnd (\<lambda>s. (if protocol_id (test s) = 1 \<and> role (test s) = 1 then bnd (ether_app_server e fo) (\<lambda>_. ret ())
               else if protocol_id (test s) = 2 \<and> role (test s) = 1 then bnd (udp_app_server e fo) (\<lambda>_. ret ())
               else ret ()) s) (\<lambda>_.
     bnd (\<lambda>s. (if protocol_id (test s) = 2 \<and> role (test s) = 2 then iperf_client e re fo else ret ()) s) (\<lambda>_. ret 0))))))"

section \<open>What the client measures\<close>

text \<open>The latencies of packets stamped \<open>ls\<close>, read with the clock from its \<open>n\<close>-th value on, and the sum of the changes from one latency to the next.\<close>

primrec taken :: "u64 \<Rightarrow> (nat \<Rightarrow> u64) \<Rightarrow> nat \<Rightarrow> u64 list \<Rightarrow> u64 list" where
  "taken hz clk n [] = []"
| "taken hz clk n (l # ls) = (clk n - l) div hz # taken hz clk (Suc n) ls"

primrec swings :: "u64 \<Rightarrow> u64 list \<Rightarrow> nat" where
  "swings p [] = 0"
| "swings p (d # ds) = nat \<bar>int (unat d) - int (unat p)\<bar> + swings d ds"

lemma swing_word:
  fixes d p j :: u64
  assumes "unat d < 2 ^ 63" "unat p < 2 ^ 63"
  shows "(if sint (d - p) < 0 then j - (d - p) else j + (d - p)) = j + of_nat (nat \<bar>int (unat d) - int (unat p)\<bar>)"
proof -
  have dp: "d - p = word_of_int (int (unat d) - int (unat p))" by simp
  have "signed_take_bit 63 (int (unat d) - int (unat p)) = int (unat d) - int (unat p)"
    using assms[folded of_nat_less_iff[where 'a = int], unfolded of_nat_power of_nat_numeral] by (intro signed_take_bit_int_eq_self) linarith+
  then have v: "sint (d - p) = int (unat d) - int (unat p)" unfolding dp by (simp add: signed_of_int del: of_int_diff of_int_of_nat_eq)
  have w: "of_int (int (unat d) - int (unat p)) = d - p" by simp
  show ?thesis
  proof (cases "int (unat d) < int (unat p)")
    case True
    have "(of_nat (nat \<bar>int (unat d) - int (unat p)\<bar>) :: u64) = of_int (- (int (unat d) - int (unat p)))" using True by (simp add: of_nat_nat)
    then show ?thesis using True unfolding v by simp
  next
    case False
    have "(of_nat (nat \<bar>int (unat d) - int (unat p)\<bar>) :: u64) = of_int (int (unat d) - int (unat p))" using False by (simp add: of_nat_nat)
    then show ?thesis using False unfolding v by simp
  qed
qed

lemma calculate_latency_run:
  fixes s :: "'a iperf_scheme" and l :: u64
  defines "d \<equiv> (tsc_src s (tsc_cnt s) - l) div clock_rate s"
  assumes "clock_rate s \<noteq> 0" "unat d < 2 ^ 63" "unat (prev_lat (test_stats s)) < 2 ^ 63"
  shows "calculate_latency l s = Some (Ret ((), s\<lparr>tsc_cnt := Suc (tsc_cnt s), test_stats := (test_stats s)\<lparr>latency := latency (test_stats s) + d,
     jitter := jitter (test_stats s) + of_nat (nat \<bar>int (unat d) - int (unat (prev_lat (test_stats s)))\<bar>), prev_lat := d, st_rx_pps := st_rx_pps (test_stats s) + 1\<rparr>\<rparr>))"
  using assms(2) unfolding swing_word[OF assms(3,4), symmetric]
  by (simp add: calculate_latency_def tw_get_current_timer_cycles_def rte_get_timer_cycles_def run_simps Let_def d_def)

lemma latencies_run:
  fixes s :: "'a iperf_scheme"
  assumes "clock_rate s \<noteq> 0" "unat (prev_lat (test_stats s)) < 2 ^ 63" "\<forall>d\<in>set (taken (clock_rate s) (tsc_src s) (tsc_cnt s) ls). unat d < 2 ^ 63"
  shows "for_each ls calculate_latency s = Some (Ret ((), let ds = taken (clock_rate s) (tsc_src s) (tsc_cnt s) ls; t = test_stats s in
     s\<lparr>tsc_cnt := tsc_cnt s + length ls, test_stats := t\<lparr>latency := latency t + sum_list ds, jitter := jitter t + of_nat (swings (prev_lat t) ds),
       prev_lat := last (prev_lat t # ds), st_rx_pps := st_rx_pps t + of_nat (length ls)\<rparr>\<rparr>))"
  using assms
proof (induction ls arbitrary: s)
  case Nil
  then show ?case by (simp add: run_simps)
next
  case (Cons l ls)
  show ?case using Cons.prems by (simp add: run_simps calculate_latency_run Cons.IH Let_def add.assoc)
qed

lemma unat_sum_words: "(\<Sum>d\<leftarrow>ds. unat (d :: u64)) < 2 ^ 64 \<Longrightarrow> unat (sum_list ds) = (\<Sum>d\<leftarrow>ds. unat d)"
proof -
  assume "(\<Sum>d\<leftarrow>ds. unat d) < 2 ^ 64"
  moreover have "sum_list ds = of_nat (\<Sum>d\<leftarrow>ds. unat d)" by (induction ds) simp_all
  ultimately show ?thesis by (simp add: unat_of_nat take_bit_eq_mod)
qed

lemma mean_word:
  fixes x n :: u64
  shows "x div n = of_nat (unat x div unat n)"
proof -
  have "unat x div unat n < 2 ^ 64" by (rule le_less_trans[OF div_le_dividend]) (use unsigned_less[of x, where 'a = nat] in simp)
  then show ?thesis by (simp add: word_unat_eq_iff unat_div_distrib unat_of_nat take_bit_eq_mod)
qed

lemma print_perf_stats_run:
  fixes s :: "'a iperf_scheme"
  assumes "st_rx_pps (test_stats s) > 1"
  shows "\<exists>s'. print_perf_stats fo h s = Some (Ret ((), s')) \<and> cum_lat (test_stats s') = cum_lat (test_stats s) + latency (test_stats s) div st_rx_pps (test_stats s) \<and>
     cum_jitter (test_stats s') = cum_jitter (test_stats s) + jitter (test_stats s) div (st_rx_pps (test_stats s) - 1) \<and> n_samples (test_stats s') = n_samples (test_stats s) + 1 \<and>
     latency (test_stats s') = 0 \<and> jitter (test_stats s') = 0 \<and> st_rx_pps (test_stats s') = 0 \<and> prev_lat (test_stats s') = prev_lat (test_stats s)"
  using assms by (simp add: print_perf_stats_def run_simps tw_calc_global_stats_def Let_def)

lemma rd64_wr64: "rd64 (wr64 p v b) p = v"
proof -
  have "rd32 (wr32 (p + 4) y (wr32 p x b)) p = x" for x y by (simp add: field_simps_buf)
  then have "rd64 (wr64 p v b) p = ucast (ucast v :: u32) OR push_bit 32 (ucast (ucast (drop_bit 32 v) :: u32))"
    unfolding rd64_def wr64_def by (simp add: rd32_wr32)
  also have "\<dots> = v" by (rule bit_word_eqI) (auto simp: bit_simps dest: bit_imp_le_length)
  finally show ?thesis .
qed

text \<open>
  C15. What \<open>twiperf\<close> reports for a second: when packets with the time stamps \<open>ls\<close> arrive, at least two and without overflow, the latency added to the summary is the mean of the measured latencies.
  The jitter added is the sum of all changes, the one from the last packet of the second before (at the start: from zero) included, divided by their number less one; it is not their mean.
  The sums start again from zero, and the last latency is kept.
\<close>

theorem iperf_second_measured:
  fixes s :: "'a iperf_scheme" and ls :: "u64 list"
  defines "ds \<equiv> taken (clock_rate s) (tsc_src s) (tsc_cnt s) ls" and "n \<equiv> length ls" and "t \<equiv> test_stats s"
  assumes "clock_rate s \<noteq> 0" "latency t = 0" "jitter t = 0" "st_rx_pps t = 0" "1 < n" "n < 2 ^ 64"
    and "\<forall>d\<in>set (prev_lat t # ds). unat d < 2 ^ 63" "(\<Sum>d\<leftarrow>ds. unat d) < 2 ^ 64" "swings (prev_lat t) ds < 2 ^ 64"
  shows "\<exists>s'. bnd (for_each ls calculate_latency) (\<lambda>_. print_perf_stats fo h) s = Some (Ret ((), s')) \<and>
     cum_lat (test_stats s') = cum_lat t + of_nat ((\<Sum>d\<leftarrow>ds. unat d) div n) \<and> cum_jitter (test_stats s') = cum_jitter t + of_nat (swings (prev_lat t) ds div (n - 1)) \<and>
     n_samples (test_stats s') = n_samples t + 1 \<and> latency (test_stats s') = 0 \<and> jitter (test_stats s') = 0 \<and> st_rx_pps (test_stats s') = 0 \<and> prev_lat (test_stats s') = last ds"
proof -
  let ?s1 = "s\<lparr>tsc_cnt := tsc_cnt s + n, test_stats := t\<lparr>latency := sum_list ds, jitter := of_nat (swings (prev_lat t) ds), prev_lat := last (prev_lat t # ds), st_rx_pps := of_nat n\<rparr>\<rparr>"
  have r: "for_each ls calculate_latency s = Some (Ret ((), ?s1))"
    using latencies_run[of s ls] assms(4-7,10) by (simp add: ds_def n_def t_def Let_def)
  have un: "unat (of_nat n :: u64) = n" using assms(9) by (simp add: unat_of_nat take_bit_eq_mod)
  have n1: "(1 :: u64) < of_nat n" using assms(8) un by (simp add: word_less_nat_alt)
  then have um: "unat (of_nat n - 1 :: u64) = n - 1" using un by (simp add: unat_sub word_le_nat_alt word_less_nat_alt)
  have us: "unat (of_nat (swings (prev_lat t) ds) :: u64) = swings (prev_lat t) ds" using assms(12) by (simp add: unat_of_nat take_bit_eq_mod)
  have ne: "ds \<noteq> []" using assms(8) by (cases ls) (simp_all add: ds_def n_def)
  have m: "sum_list ds div of_nat n = of_nat ((\<Sum>d\<leftarrow>ds. unat d) div n)" "(of_nat (swings (prev_lat t) ds) :: u64) div (of_nat n - 1) = of_nat (swings (prev_lat t) ds div (n - 1))"
    unfolding mean_word[of "sum_list ds"] mean_word[of "of_nat (swings (prev_lat t) ds)"] un um us unat_sum_words[OF assms(11)] by (rule refl)+
  show ?thesis using print_perf_stats_run[of ?s1 fo h] r n1 ne by (simp add: run_simps m)
qed

text \<open>Three packets, sent 10, 30 and 20 ticks before they arrive.\<close>

definition demo_iperf :: iperf where
  "demo_iperf = (apps.extend (demo_app demo_mbuf) (iperf.fields 0 1 0 0
     \<lparr>role = 2, protocol_id = 2, it_server_port = 5001, client_port = 7777, it_server_ip = 0, client_ip = 0, packet_size = 64, rate = 0, server_mac = None, client_mac = None, test_runtime = 0, it_tx_buf = None\<rparr>
     \<lparr>datagrams_sent = 0, datagrams_recv = 0, total_transfered_bytes = 0, latency = 0, jitter = 0, st_rx_pps = 0, prev_lat = 10, cum_lat = 0, cum_jitter = 0, n_samples = 0\<rparr>
     0 0 1 None 0))\<lparr>tsc_src := (\<lambda>k. of_nat (100 * Suc k)), tsc_cnt := 0\<rparr>"

lemma demo_iperf_views:
  "clock_rate demo_iperf = 1" "tsc_src demo_iperf = (\<lambda>k. of_nat (100 * Suc k))" "tsc_cnt demo_iperf = 0" "latency (test_stats demo_iperf) = 0" "jitter (test_stats demo_iperf) = 0"
  "st_rx_pps (test_stats demo_iperf) = 0" "prev_lat (test_stats demo_iperf) = 10" "cum_lat (test_stats demo_iperf) = 0" "cum_jitter (test_stats demo_iperf) = 0"
  by (simp_all add: demo_iperf_def apps.defs iperf.defs)

theorem iperf_second_measured_witness:
  "\<exists>s'. bnd (for_each [90, 170, 280] calculate_latency) (\<lambda>_. print_perf_stats demo_fo None) demo_iperf = Some (Ret ((), s')) \<and>
     cum_lat (test_stats s') = 20 \<and> cum_jitter (test_stats s') = 15 \<and> prev_lat (test_stats s') = 20"
  using iperf_second_measured[of demo_iperf "[90, 170, 280]" demo_fo None] by (auto simp: demo_iperf_views numeral_2_eq_2[symmetric])

end
