(* ===== verification/Spec2Isabelle.thy ===== *)
theory Spec2Isabelle
  imports Gateway Iperf
begin

text \<open>
  Twister: a packet processing framework on DPDK.

  \<^bold>\<open>The program.\<close> Twister lets an application send and receive packets past the kernel. At start it brings
  up the ports (\<open>twister/portmgmt/portconf.c\<close>), creates the buffer pools (\<open>memmgmt/mempoolconf.c\<close>) and
  prepares the cores, called engines (\<open>coremgmt/\<close>). The application then creates an event loop, registers
  callbacks for received packets, for transmission and for timers, and enters \<open>tw_run\<close>
  (\<open>event/event_loop.c\<close>). A turn of the loop flushes the transmit tables when their time has come, receives a
  burst from each port of the engine, hands ARP packets to the ARP module and IPv4 packets to the callback,
  and runs the timers that are due. Packets leave through the per-port transmit tables
  (\<open>rxtxmodule/tx.c\<close>). A packet whose next hop is not resolved yet waits in a list (\<open>queued_pkts.c\<close>) until
  ARP (\<open>arp/arplogic.c\<close>) knows the address. Configuration files are JSON (\<open>jsonmodule/cJSON.c\<close>). On top of this there
  are applications (\<open>applications/\<close>): echo servers, a gateway, and clients.

  \<^bold>\<open>The form of the model.\<close> Every C function is a definition with the name it has in the source. It maps the
  machine state to a result: a value with the new state, a memory fault (a null or dangling pointer, an
  access out of bounds, a division by zero, an undefined shift), the end of the process, or no result at all
  when it never returns (\<open>TwPrelude\<close>). The state is one record that grows with the components: \<open>hw\<close> (\<open>Mbuf\<close>),
  \<open>timers\<close>, \<open>mempools\<close>, \<open>ports\<close>, \<open>lcores\<close>, \<open>stats\<close>, \<open>arp\<close>, \<open>queue\<close>, \<open>evloop\<close>, \<open>tw\<close>, \<open>conf\<close>, \<open>apps\<close>, and then the globals of one
  application. cJSON has a state of its own, \<open>json\<close>, that \<open>tw\<close> holds. Linked
  structures live in typed heaps, maps from addresses to nodes, so that freeing, aliasing and dangling
  pointers are visible. Integers have their width in C. What the program does not determine is a parameter:
  the answers of drivers, allocators and clocks are functions of the number of the call, application
  callbacks are functions on the state, and arithmetic on doubles is a record of operations with the laws
  of exact integer arithmetic as a named hypothesis.

  \<^bold>\<open>The theories.\<close>
  \<^item> \<open>TwPrelude\<close>: result type, combinators, the collections \<open>run_simps\<close> and \<open>ends_intros\<close>. \<open>LinkedHeap\<close>: singly
    linked lists in a heap, the locale \<open>linked\<close> that every list of the program interprets.
  \<^item> \<open>ByteOrder\<close>, \<open>NetHdrs\<close>: byte swaps, loads and stores in buffers; Ethernet, ARP, IPv4, UDP and ICMP layouts
    (\<open>rte_byteorder.h\<close>, \<open>rte_ether.h\<close>, \<open>rte_arp.h\<close>, \<open>rte_ip.h\<close>, \<open>rte_udp.h\<close>).
  \<^item> \<open>Mbuf\<close>: packet buffers (\<open>rte_mbuf.h\<close>) and the machine below Twister. Buffers have one owner: a heap holds
    the packets Twister owns, \<open>wire\<close> those it gave to the driver.
  \<^item> \<open>CommonConv\<close>: the string conversions of \<open>common.c\<close>; the theorems give the value of well-formed input,
    the round trip of addresses and the answer to malformed ones.
  \<^item> \<open>Timers\<close>: \<open>timermodules/\<close>; expiry and elapsed time for every pair of clock values, and the sleep loops.
  \<^item> \<open>MempoolConf\<close>, \<open>PortConf\<close>, \<open>LcoreConf\<close>: start-up. Bring-up performs exactly the device calls it should, names
    resolve, ports are assigned to engines.
  \<^item> \<open>Stats\<close>: counters and the window of round-trip times.
  \<^item> \<open>RxTx\<close>: transmit tables and receive bursts. The tables refine one first-in first-out queue per port,
    nothing is lost or reordered. The locale \<open>pkt_handler\<close> is the contract of a function that consumes a
    packet; it is interpreted by the transmit function, by \<open>rte_pktmbuf_free\<close>, by the ARP parser and by the
    Ethernet parser, and gives each of them that a batch of packets leaves no buffer behind.
  \<^item> \<open>ArpLogic\<close>: the ARP table as a map (locale \<open>addr_store\<close>), requests answered and built.
  \<^item> \<open>QueuedPkts\<close>: the waiting list, with the exact effect of its update pass.
  \<^item> \<open>Checksum\<close>: the Internet checksums; a stored checksum verifies, and the two implementations agree.
  \<^item> \<open>Eth\<close>: framing, next hop, VLAN tags and the frame parser (\<open>eth.c\<close>).
  \<^item> \<open>EventLoop\<close>: loops, handles and \<open>tw_run\<close>; what a turn runs, and that dispatching ends.
  \<^item> \<open>CJson\<close>, \<open>CJsonParse\<close>, \<open>CJsonPrint\<close>: cJSON, its tree operations, parser, minifier and printer.
    \<open>CJsonText\<close>, \<open>CJsonTree\<close>, \<open>CJsonBuild\<close> relate texts, trees and heaps; \<open>CJsonTerm\<close> shows that the parser returns
    on every text; \<open>CJsonSafe\<close> who owns the nodes; \<open>CJsonMem\<close> that memory is respected; \<open>CJsonProps\<close> draws the
    conclusions: round trip, safety, shape of the result, no leak on errors, deletion.

  \<^item> \<open>JsonConf\<close>: \<open>jsonparser.c\<close>; the file that describes the ports is read, parsed, and fills exactly the entries of the port table.
    \<open>InitFuncs\<close>: \<open>initfuncs.c\<close>; the arguments that are handed to DPDK, and why the array they are stored in is too small.
  \<^item> \<open>EchoApps\<close>: the echo servers and \<open>tw_env_smoke.c\<close>. A ping is answered correctly up to the data, a burst of packets leaves nothing
    behind, and the UDP server answers from the wrong place.
  \<^item> \<open>Gateway\<close>: \<open>twgateway.c\<close>. Its routes are loaded as written, a packet with a known destination is forwarded; the theorems on
    unknown destinations and on names describe its defects.
  \<^item> \<open>Clients\<close>: \<open>twping.c\<close>, \<open>twarp.c\<close>, \<open>twrarp.c\<close>, \<open>twudpsend.c\<close> and \<open>tw_eventloop_smoke.c\<close>. The request of ping is exact; two
    theorems show buffers that are freed or queued twice.
  \<^item> \<open>Iperf\<close>: \<open>twiperf.c\<close>, server and client; what its statistics of a second are, in terms of the measured latencies.

  \<^bold>\<open>Loops and bounds.\<close> No definition uses fuel. Loops are structural recursion where the code counts,
  recursion with a measure where it walks a buffer, and \<open>partial_function\<close> where the code follows pointers or
  recurses on data, so that a cyclic list is a call that does not return; where a theorem says that such a
  loop ends, this is proved.

  \<^bold>\<open>Not modelled.\<close> Functions whose only effect is output, among them \<open>twgetstats.c\<close>, the statistics a signal handler prints, and
  the growing buffer of cJSON's printer, that no caller in the repository uses. Registration of a callback with DPDK's own timer library.
  DPDK below the functions Twister inlines: drivers, pools, the environment layer; these are the parameters described above.
  The Python and shell scripts that configure the system, and the build files.
\<close>

end
